(* ===== verification/Memdb_Prelude.thy ===== *)
theory Memdb_Prelude
  imports Main "HOL-Library.Word" "HOL-Library.Monad_Syntax"
begin

text \<open>
  What every component of the development shares: the names of the machine types of
  \<^verbatim>\<open>memdbtypes.h\<close>, the collections of rewrite rules the component proofs
  carry, and generic facts on lists, folds and bytes.
\<close>

unbundle bit_operations_syntax

section \<open>Machine types\<close>

type_synonym u8 = "8 word"
type_synonym u16 = "16 word"
type_synonym u32 = "32 word"
type_synonym u64 = "64 word"
type_synonym bytes = "u8 list"

type_synonym memdbNodeId_t = u16
type_synonym memDbDataLength_t = u32
type_synonym memdbRequestNumber_t = u32
type_synonym memdbPartitionId_t = u32
type_synonym memdbOplogId_t = u32

section \<open>Collections\<close>

named_theorems codec_simps \<open>layout of encoded values: lengths, and decoding of encoded prefixes\<close>
named_theorems step_defs \<open>the operations of a component, unfolded in its step lemmas\<close>

section \<open>Words\<close>

lemma unat_max_word: "unat (max (a :: 'a::len word) b) = max (unat a) (unat b)"
  by (simp add: max_def word_le_nat_alt)

lemma unat_plus_one_if_less:
  fixes a :: "'a::len word"
  assumes "unat a + n < 2 ^ LENGTH('a)" and "0 < n"
  shows "unat (a + 1) = unat a + 1"
  using assms by (simp add: unat_word_ariths)

lemma unat_of_nat_less:
  "n < 2 ^ LENGTH('a) \<Longrightarrow> unat (word_of_nat n :: 'a::len word) = n"
  by (simp add: unsigned_of_nat take_bit_nat_eq_self)

lemma word_less_plus_one:
  fixes a :: "'a::len word"
  assumes "unat a + 1 < 2 ^ LENGTH('a)"
  shows "a < a + 1"
  using assms by (simp add: word_less_nat_alt unat_word_ariths)

section \<open>Lists\<close>

lemma take_drop_append_exact [simp]:
  "length xs = n \<Longrightarrow> take n (xs @ ys) = xs"
  "length xs = n \<Longrightarrow> drop n (xs @ ys) = ys"
  by simp_all

lemma list_update_length_last [simp]:
  "(xs @ x # ys)[length xs := y] = xs @ y # ys"
  by (simp add: list_update_append)

lemma all_list_update:
  assumes "\<forall>j < length xs. P (xs ! j)" and "P y"
  shows "\<forall>j < length xs. P (xs[i := y] ! j)"
  using assms by (cases "i < length xs") (auto simp: nth_list_update)

definition pairwise_list :: "('a \<Rightarrow> 'a \<Rightarrow> bool) \<Rightarrow> 'a list \<Rightarrow> bool" where
  "pairwise_list R xs \<longleftrightarrow> (\<forall>j < length xs. \<forall>k < length xs. j \<noteq> k \<longrightarrow> R (xs ! j) (xs ! k))"

lemma pairwise_listD:
  "pairwise_list R xs \<Longrightarrow> j < length xs \<Longrightarrow> k < length xs \<Longrightarrow> j \<noteq> k \<Longrightarrow> R (xs ! j) (xs ! k)"
  by (simp add: pairwise_list_def)

lemma pairwise_list_update:
  assumes "pairwise_list R xs" and "\<forall>j < length xs. j \<noteq> i \<longrightarrow> R (xs ! j) y \<and> R y (xs ! j)"
  shows "pairwise_list R (xs[i := y])"
  using assms by (cases "i < length xs") (auto simp: pairwise_list_def nth_list_update)

lemma length_filter_list_update:
  assumes "i < length xs"
  shows "length (filter P (xs[i := y])) + (if P (xs ! i) then 1 else 0) =
         length (filter P xs) + (if P y then 1 else 0)"
proof -
  have split: "xs = take i xs @ xs ! i # drop (Suc i) xs" by (rule id_take_nth_drop [OF assms])
  have "filter P xs = filter P (take i xs) @ filter P (xs ! i # drop (Suc i) xs)"
    by (subst split) (simp only: filter_append)
  moreover have "xs[i := y] = take i xs @ y # drop (Suc i) xs" using assms by (simp add: upd_conv_take_nth_drop)
  ultimately show ?thesis by simp
qed

section \<open>Numbers as strings\<close>

text \<open>\<^verbatim>\<open>std::to_string\<close>: the decimal digits of a number.\<close>

function to_string :: "nat \<Rightarrow> string" where
  "to_string n = (if n < 10 then [char_of (48 + n)] else to_string (n div 10) @ [char_of (48 + n mod 10)])"
  by pat_completeness auto
termination by (relation "measure id") auto

declare to_string.simps [simp del]

end
