(* ===== verification/Lamport_Clock.thy ===== *)
theory Lamport_Clock
  imports Memdb_Prelude
begin

text \<open>
  The logical clock of \<^verbatim>\<open>utils/clock/LamportClock.cpp\<close>: its operations when they
  run without interference, its comparison operators, and the compare-and-swap loops of
  \<^verbatim>\<open>tick\<close> and \<^verbatim>\<open>setMax\<close> as a step relation over any number of
  threads that share one clock.
\<close>

section \<open>The clock and its operations\<close>

datatype LamportClock = LamportClock (nodeId: memdbNodeId_t) (counter: u64)

datatype UpdateClockStrategy = NONE | SET_MAX | TICK

definition newLamportClock :: "memdbNodeId_t \<Rightarrow> LamportClock" where
  "newLamportClock n = LamportClock n 0"

definition tick :: "u64 \<Rightarrow> LamportClock \<Rightarrow> u64 \<times> LamportClock" where
  "tick other c =
     (let newCounter = max (counter c) other + 1
      in (newCounter, LamportClock (nodeId c) newCounter))"

definition setMax :: "u64 \<Rightarrow> LamportClock \<Rightarrow> u64 \<times> LamportClock" where
  "setMax newCounter c =
     (let actual = counter c
      in (max newCounter actual,
          if newCounter > actual then LamportClock (nodeId c) newCounter else c))"

fun clock_update :: "UpdateClockStrategy \<Rightarrow> u64 \<Rightarrow> LamportClock \<Rightarrow> u64 \<times> LamportClock" where
  "clock_update NONE otherCounter c = (counter c, c)"
| "clock_update SET_MAX otherCounter c = setMax otherCounter c"
| "clock_update TICK otherCounter c = tick otherCounter c"

definition clock_compare :: "LamportClock \<Rightarrow> u64 \<Rightarrow> memdbNodeId_t \<Rightarrow> bool" where
  "clock_compare c otherCount otherNodeId \<longleftrightarrow>
     counter c > otherCount \<or> (counter c = otherCount \<and> nodeId c > otherNodeId)"

definition clock_lt :: "LamportClock \<Rightarrow> LamportClock \<Rightarrow> bool" where
  "clock_lt self other \<longleftrightarrow>
     counter self < counter other \<or> (counter self = counter other \<and> nodeId self < nodeId other)"

definition clock_le :: "LamportClock \<Rightarrow> LamportClock \<Rightarrow> bool" where
  "clock_le self other \<longleftrightarrow>
     ((counter other = counter self \<and> nodeId other = nodeId self) \<and> counter self < counter other) \<or>
     (counter self = counter other \<and> nodeId self < nodeId other)"

definition clock_gt :: "LamportClock \<Rightarrow> LamportClock \<Rightarrow> bool" where
  "clock_gt self other \<longleftrightarrow>
     counter self > counter other \<or> (counter self = counter other \<and> nodeId self > nodeId other)"

definition clock_ge :: "LamportClock \<Rightarrow> LamportClock \<Rightarrow> bool" where
  "clock_ge self other \<longleftrightarrow>
     ((counter other = counter self \<and> nodeId other = nodeId self) \<and> counter self > counter other) \<or>
     (counter self = counter other \<and> nodeId self > nodeId other)"

definition clock_eq :: "LamportClock \<Rightarrow> LamportClock \<Rightarrow> bool" where
  "clock_eq self other \<longleftrightarrow> counter self = counter other \<and> nodeId other = nodeId self"

section \<open>The shared clock under concurrent updates\<close>

text \<open>
  A thread is at a load, at the compare-and-swap that follows it, or has returned. The
  \<^verbatim>\<open>compare_exchange_weak\<close> of either loop may also fail spuriously.
\<close>

datatype clock_pc =
    TickLoad u64
  | TickCas u64 u64 u64
  | TickDone u64 u64
  | MaxLoad u64
  | MaxCas u64 u64
  | MaxDone u64 u64

type_synonym clock_state = "u64 \<times> clock_pc list"

inductive clock_step :: "clock_state \<Rightarrow> clock_state \<Rightarrow> bool" where
  tick_load: "\<lbrakk> i < length ts; ts ! i = TickLoad other \<rbrakk> \<Longrightarrow>
    clock_step (c, ts) (c, ts[i := TickCas other c (max c other + 1)])"
| tick_cas_ok: "\<lbrakk> i < length ts; ts ! i = TickCas other actual newCounter; c = actual \<rbrakk> \<Longrightarrow>
    clock_step (c, ts) (newCounter, ts[i := TickDone other newCounter])"
| tick_cas_fail: "\<lbrakk> i < length ts; ts ! i = TickCas other actual newCounter \<rbrakk> \<Longrightarrow>
    clock_step (c, ts) (c, ts[i := TickLoad other])"
| max_load: "\<lbrakk> i < length ts; ts ! i = MaxLoad newCounter; newCounter > c \<rbrakk> \<Longrightarrow>
    clock_step (c, ts) (c, ts[i := MaxCas newCounter c])"
| max_skip: "\<lbrakk> i < length ts; ts ! i = MaxLoad newCounter; \<not> newCounter > c \<rbrakk> \<Longrightarrow>
    clock_step (c, ts) (c, ts[i := MaxDone newCounter (max newCounter c)])"
| max_cas_ok: "\<lbrakk> i < length ts; ts ! i = MaxCas newCounter actual; c = actual \<rbrakk> \<Longrightarrow>
    clock_step (c, ts) (newCounter, ts[i := MaxDone newCounter (max newCounter actual)])"
| max_cas_fail: "\<lbrakk> i < length ts; ts ! i = MaxCas newCounter actual \<rbrakk> \<Longrightarrow>
    clock_step (c, ts) (c, ts[i := MaxLoad newCounter])"

inductive_cases clock_stepE: "clock_step s s'"

fun pc_initial :: "clock_pc \<Rightarrow> bool" where
  "pc_initial (TickLoad _) = True"
| "pc_initial (MaxLoad _) = True"
| "pc_initial _ = False"

fun pc_arg :: "clock_pc \<Rightarrow> u64" where
  "pc_arg (TickLoad other) = other"
| "pc_arg (TickCas other _ _) = other"
| "pc_arg (TickDone other _) = other"
| "pc_arg (MaxLoad n) = n"
| "pc_arg (MaxCas n _) = n"
| "pc_arg (MaxDone n _) = n"

fun pc_ticking :: "clock_pc \<Rightarrow> bool" where
  "pc_ticking (TickLoad _) = True"
| "pc_ticking (TickCas _ _ _) = True"
| "pc_ticking _ = False"

fun pc_ticked :: "clock_pc \<Rightarrow> bool" where
  "pc_ticked (TickDone _ _) = True"
| "pc_ticked _ = False"

fun pc_returned :: "clock_pc \<Rightarrow> u64" where
  "pc_returned (TickDone _ r) = r"
| "pc_returned (MaxDone _ r) = r"
| "pc_returned _ = 0"

definition pending_ticks :: "clock_pc list \<Rightarrow> nat" where
  "pending_ticks ts = length (filter pc_ticking ts)"

section \<open>Order\<close>

instantiation LamportClock :: linorder
begin

definition less_LamportClock :: "LamportClock \<Rightarrow> LamportClock \<Rightarrow> bool" where
  "less_LamportClock a b \<longleftrightarrow> clock_lt a b"

definition less_eq_LamportClock :: "LamportClock \<Rightarrow> LamportClock \<Rightarrow> bool" where
  "less_eq_LamportClock a b \<longleftrightarrow> clock_lt a b \<or> a = b"

instance
proof
  fix x y z :: LamportClock
  show "x < y \<longleftrightarrow> x \<le> y \<and> \<not> y \<le> x" "x \<le> x" "x \<le> y \<Longrightarrow> y \<le> z \<Longrightarrow> x \<le> z"
    "x \<le> y \<Longrightarrow> y \<le> x \<Longrightarrow> x = y" "x \<le> y \<or> y \<le> x"
    by (cases x; cases y; cases z;
        auto simp: less_LamportClock_def less_eq_LamportClock_def clock_lt_def)+
qed

end

lemma clock_gt_less [simp]: "clock_gt a b \<longleftrightarrow> b < a"
  by (auto simp: clock_gt_def less_LamportClock_def clock_lt_def)

lemma clock_compare_less [simp]: "clock_compare c n i \<longleftrightarrow> LamportClock i n < c"
  by (auto simp: clock_compare_def less_LamportClock_def clock_lt_def)

lemma clock_eq_eq [simp]: "clock_eq a b \<longleftrightarrow> a = b"
  by (auto simp: clock_eq_def LamportClock.expand)

lemma clock_lt_less [simp]: "clock_lt a b \<longleftrightarrow> a < b"
  by (simp only: less_LamportClock_def)

lemma clock_less_iff:
  "a < b \<longleftrightarrow> counter a < counter b \<or> (counter a = counter b \<and> nodeId a < nodeId b)"
  by (simp only: less_LamportClock_def clock_lt_def)

section \<open>Sequential behaviour\<close>

lemma nodeId_clock_update [simp]: "nodeId (snd (clock_update s n c)) = nodeId c"
  by (cases s) (auto simp: tick_def setMax_def Let_def)

lemma clock_update_returns_counter: "fst (clock_update s n c) = counter (snd (clock_update s n c))"
  by (cases s) (auto simp: tick_def setMax_def Let_def max_def)

lemma tick_greater:
  assumes "unat (max (counter c) other) + 1 < 2 ^ 64"
  shows "counter c < fst (tick other c)" and "other < fst (tick other c)"
proof -
  have lt: "max (counter c) other < max (counter c) other + 1"
    using assms by (intro word_less_plus_one) simp
  show "counter c < fst (tick other c)" "other < fst (tick other c)"
    using lt by (auto simp: tick_def Let_def max_def split: if_splits)
qed

lemma setMax_is_max: "counter (snd (setMax n c)) = max n (counter c)"
  by (auto simp: setMax_def Let_def max_def)

section \<open>Concurrent behaviour\<close>

fun pc_ok :: "u64 \<Rightarrow> u64 \<Rightarrow> clock_pc \<Rightarrow> bool" where
  "pc_ok c0 c (TickLoad other) = True"
| "pc_ok c0 c (TickCas other actual newCounter) = (newCounter = max actual other + 1)"
| "pc_ok c0 c (TickDone other r) = (other < r \<and> c0 < r \<and> r \<le> c)"
| "pc_ok c0 c (MaxLoad n) = True"
| "pc_ok c0 c (MaxCas n actual) = (actual < n)"
| "pc_ok c0 c (MaxDone n r) = (n \<le> r \<and> r \<le> c)"

definition ticks_differ :: "clock_pc \<Rightarrow> clock_pc \<Rightarrow> bool" where
  "ticks_differ p q \<longleftrightarrow> \<not> (pc_ticked p \<and> pc_ticked q \<and> pc_returned p = pc_returned q)"

fun clock_inv :: "u64 \<Rightarrow> nat \<Rightarrow> clock_state \<Rightarrow> bool" where
  "clock_inv c0 M (c, ts) \<longleftrightarrow>
     c0 \<le> c \<and> unat c + pending_ticks ts \<le> M \<and>
     (\<forall>i < length ts. pc_ok c0 c (ts ! i)) \<and>
     (\<forall>i < length ts. unat (pc_arg (ts ! i)) + pending_ticks ts \<le> M) \<and>
     pairwise_list ticks_differ ts"

lemma pc_ok_mono: "pc_ok c0 c p \<Longrightarrow> c \<le> c' \<Longrightarrow> pc_ok c0 c' p"
  by (cases p) auto

lemma pc_ok_all_mono:
  "\<forall>j < n. pc_ok c0 c (ts ! j) \<Longrightarrow> c \<le> c' \<Longrightarrow> \<forall>j < n. pc_ok c0 c' (ts ! j)"
  by (auto intro: pc_ok_mono)

lemma pending_ticks_update:
  assumes "i < length ts"
  shows "pending_ticks (ts[i := p]) + (if pc_ticking (ts ! i) then 1 else 0) =
         pending_ticks ts + (if pc_ticking p then 1 else 0)"
  unfolding pending_ticks_def by (rule length_filter_list_update [OF assms])

lemma clock_inv_local_step:
  assumes inv: "clock_inv c0 M (c, ts)" and i: "i < length ts"
    and arg: "pc_arg p = pc_arg (ts ! i)" and same: "pc_ticking p = pc_ticking (ts ! i)"
    and ok: "pc_ok c0 c p" and not_ticked: "\<not> pc_ticked p"
  shows "clock_inv c0 M (c, ts[i := p])"
proof -
  have pend: "pending_ticks (ts[i := p]) = pending_ticks ts"
    using pending_ticks_update [OF i, of p] same by (auto split: if_splits)
  have "pairwise_list ticks_differ (ts[i := p])"
    using inv not_ticked by (intro pairwise_list_update) (auto simp: ticks_differ_def)
  moreover have "\<forall>j < length ts. pc_ok c0 c (ts[i := p] ! j)"
    using inv ok by (intro all_list_update) auto
  moreover have "\<forall>j < length ts. unat (pc_arg (ts[i := p] ! j)) + pending_ticks ts \<le> M"
    using inv i arg by (intro all_list_update) auto
  ultimately show ?thesis using inv pend by simp
qed

lemma clock_inv_tick_step:
  assumes inv: "clock_inv c0 M (c, ts)" and M: "M < 2 ^ 64" and i: "i < length ts"
    and at: "ts ! i = TickCas other c newCounter"
  shows "clock_inv c0 M (newCounter, ts[i := TickDone other newCounter])"
proof -
  let ?p = "TickDone other newCounter"
  have new: "newCounter = max c other + 1" using inv i at by force
  have pend: "pending_ticks (ts[i := ?p]) + 1 = pending_ticks ts"
    using pending_ticks_update [OF i, of ?p] at by simp
  have bound: "unat (max c other) + pending_ticks ts \<le> M"
    using inv i at by (fastforce simp: unat_max_word max_def)
  have unat_new: "unat newCounter = unat (max c other) + 1"
    unfolding new using bound pend M by (intro unat_plus_one_if_less [where n = "pending_ticks ts"]) auto
  have gt: "max c other < newCounter"
    using unat_new by (simp add: word_less_nat_alt)
  then have gt_c: "c < newCounter" and gt_o: "other < newCounter" by simp_all
  have old_ok: "\<forall>j < length ts. pc_ok c0 newCounter (ts ! j)"
    using inv gt_c by (auto intro: pc_ok_mono [OF _ less_imp_le])
  have "\<forall>j < length ts. pc_ticked (ts ! j) \<longrightarrow> pc_returned (ts ! j) \<le> c"
  proof (intro allI impI)
    fix j assume "j < length ts" "pc_ticked (ts ! j)"
    with inv show "pc_returned (ts ! j) \<le> c" by (cases "ts ! j") force+
  qed
  then have "pairwise_list ticks_differ (ts[i := ?p])"
    using inv gt_c by (intro pairwise_list_update) (force simp: ticks_differ_def)+
  moreover have "\<forall>j < length ts. pc_ok c0 newCounter (ts[i := ?p] ! j)"
    using old_ok gt_c gt_o inv by (intro all_list_update) auto
  moreover have "\<forall>j < length ts. unat (pc_arg (ts[i := ?p] ! j)) + pending_ticks (ts[i := ?p]) \<le> M"
  proof (intro all_list_update)
    show "\<forall>j < length ts. unat (pc_arg (ts ! j)) + pending_ticks (ts[i := ?p]) \<le> M"
      using inv pend by fastforce
    show "unat (pc_arg ?p) + pending_ticks (ts[i := ?p]) \<le> M"
      using inv i at pend by force
  qed
  moreover have "c0 \<le> newCounter" using inv gt_c by auto
  ultimately show ?thesis using bound unat_new pend by simp
qed

lemma clock_inv_max_step:
  assumes inv: "clock_inv c0 M (c, ts)" and i: "i < length ts" and at: "ts ! i = MaxCas n c"
  shows "clock_inv c0 M (n, ts[i := MaxDone n (max n c)])"
proof -
  let ?p = "MaxDone n (max n c)"
  have gt: "c < n" using inv i at by force
  have pend: "pending_ticks (ts[i := ?p]) = pending_ticks ts"
    using pending_ticks_update [OF i, of ?p] at by simp
  have "pairwise_list ticks_differ (ts[i := ?p])"
    using inv by (intro pairwise_list_update) (auto simp: ticks_differ_def)
  moreover have "\<forall>j < length ts. pc_ok c0 n (ts ! j)"
    using inv gt by (auto intro: pc_ok_mono [OF _ less_imp_le])
  then have "\<forall>j < length ts. pc_ok c0 n (ts[i := ?p] ! j)"
    using gt by (intro all_list_update) auto
  moreover have "\<forall>j < length ts. unat (pc_arg (ts[i := ?p] ! j)) + pending_ticks ts \<le> M"
    using inv i at by (intro all_list_update) force+
  moreover have "unat n + pending_ticks ts \<le> M" using inv i at by force
  moreover have "c0 \<le> n" using inv gt by auto
  ultimately show ?thesis using pend by simp
qed

lemma clock_inv_step:
  assumes "clock_step s s'" and "clock_inv c0 M s" and "M < 2 ^ 64"
  shows "clock_inv c0 M s'"
  using assms
proof (induction rule: clock_step.induct)
  case (tick_load i ts other c)
  then show ?case by (intro clock_inv_local_step) auto
next
  case (tick_cas_ok i ts other actual newCounter c)
  then show ?case by (intro clock_inv_tick_step) auto
next
  case (tick_cas_fail i ts other actual newCounter c)
  then show ?case by (intro clock_inv_local_step) auto
next
  case (max_load i ts n c)
  then show ?case by (intro clock_inv_local_step) auto
next
  case (max_skip i ts n c)
  then show ?case by (intro clock_inv_local_step) auto
next
  case (max_cas_ok i ts n actual c)
  then show ?case by (metis clock_inv_max_step)
next
  case (max_cas_fail i ts n actual c)
  then show ?case by (intro clock_inv_local_step) auto
qed

lemma clock_inv_reachable:
  assumes "rtranclp clock_step s s'" and "clock_inv c0 M s" and "M < 2 ^ 64"
  shows "clock_inv c0 M s'"
  using assms by (induction rule: rtranclp_induct) (auto intro: clock_inv_step)

lemma clock_inv_initial:
  assumes "\<forall>i < length ts. pc_initial (ts ! i) \<and> unat (pc_arg (ts ! i)) + length ts \<le> M"
    and "unat c0 + length ts \<le> M"
  shows "clock_inv c0 M (c0, ts)"
proof -
  have pend: "pending_ticks ts \<le> length ts" by (simp add: pending_ticks_def)
  have ok: "pc_ok c0 c0 p" and nt: "\<not> pc_ticked p" if "pc_initial p" for p
    using that by (cases p; simp)+
  have "unat (pc_arg (ts ! i)) + pending_ticks ts \<le> M" if "i < length ts" for i
    using assms(1) that pend by (meson add_left_mono le_trans)
  then show ?thesis using assms pend ok nt by (auto simp: pairwise_list_def ticks_differ_def)
qed

section \<open>A thread that runs alone\<close>

lemma tick_alone_states:
  assumes "rtranclp clock_step (c, [TickLoad other]) s"
  shows "s = (c, [TickLoad other]) \<or> s = (c, [TickCas other c (max c other + 1)]) \<or>
         s = (max c other + 1, [TickDone other (max c other + 1)])"
  using assms
  by (induction rule: rtranclp_induct) (auto elim!: clock_stepE)

lemma setMax_alone_states:
  assumes "rtranclp clock_step (c, [MaxLoad n]) s"
  shows "s = (c, [MaxLoad n]) \<or> (n > c \<and> s = (c, [MaxCas n c])) \<or>
         s = (max n c, [MaxDone n (max n c)])"
  using assms
  by (induction rule: rtranclp_induct) (auto elim!: clock_stepE simp: max_def)

lemma tick_alone_run:
  "rtranclp clock_step (c, [TickLoad other]) (max c other + 1, [TickDone other (max c other + 1)])"
proof -
  have "clock_step (c, [TickLoad other]) (c, [TickCas other c (max c other + 1)])"
    using clock_step.tick_load [of 0 "[TickLoad other]" other c] by simp
  moreover have "clock_step (c, [TickCas other c (max c other + 1)])
      (max c other + 1, [TickDone other (max c other + 1)])"
    using clock_step.tick_cas_ok [of 0 "[TickCas other c (max c other + 1)]"] by simp
  ultimately show ?thesis by (meson converse_rtranclp_into_rtranclp rtranclp.rtrancl_refl)
qed

lemma setMax_alone_run:
  "rtranclp clock_step (c, [MaxLoad n]) (max n c, [MaxDone n (max n c)])"
proof (cases "n > c")
  case True
  have "clock_step (c, [MaxLoad n]) (c, [MaxCas n c])"
    using clock_step.max_load [of 0 "[MaxLoad n]" n c] True by simp
  moreover have "clock_step (c, [MaxCas n c]) (n, [MaxDone n (max n c)])"
    using clock_step.max_cas_ok [of 0 "[MaxCas n c]"] by simp
  moreover have "max n c = n" using True by simp
  ultimately show ?thesis by (metis converse_rtranclp_into_rtranclp rtranclp.rtrancl_refl)
next
  case False
  then show ?thesis
    using clock_step.max_skip [of 0 "[MaxLoad n]" n c] by (auto simp: max_def)
qed

section \<open>Properties\<close>

text \<open>C38. However the loads and compare-and-swaps of any number of concurrent
  \<^verbatim>\<open>tick\<close> and \<^verbatim>\<open>setMax\<close> calls interleave, the shared counter never
  goes back, two \<^verbatim>\<open>tick\<close> calls never return the same timestamp, every timestamp is
  above the caller's argument and above the counter at the start, and after
  \<^verbatim>\<open>setMax(n)\<close> has returned the counter is at least \<^verbatim>\<open>n\<close>; this as long as
  the counter and the arguments leave room for one increment per call.\<close>

theorem concurrent_ticks_unique:
  assumes "rtranclp clock_step (c0, ts0) (c, ts)"
    and "\<forall>i < length ts0. pc_initial (ts0 ! i) \<and> unat (pc_arg (ts0 ! i)) + length ts0 < 2 ^ 64"
    and "unat c0 + length ts0 < 2 ^ 64"
  shows "c0 \<le> c \<and>
    (\<forall>i < length ts. \<forall>other r. ts ! i = TickDone other r \<longrightarrow> other < r \<and> c0 < r \<and> r \<le> c) \<and>
    (\<forall>i < length ts. \<forall>n r. ts ! i = MaxDone n r \<longrightarrow> n \<le> c) \<and>
    (\<forall>i < length ts. \<forall>j < length ts. \<forall>oi oj r. i \<noteq> j \<longrightarrow>
       \<not> (ts ! i = TickDone oi r \<and> ts ! j = TickDone oj r))"
proof -
  have "clock_inv c0 (2 ^ 64 - 1) (c0, ts0)"
    using assms(2,3) by (intro clock_inv_initial) force+
  then have inv: "clock_inv c0 (2 ^ 64 - 1) (c, ts)"
    using assms(1) by (intro clock_inv_reachable [of "(c0, ts0)" "(c, ts)"]) simp_all
  have "\<not> (ts ! i = TickDone oi r \<and> ts ! j = TickDone oj r)"
    if "i < length ts" "j < length ts" "i \<noteq> j" for i j oi oj r
    using inv pairwise_listD [of ticks_differ ts i j] that by (auto simp: ticks_differ_def)
  moreover have ok: "pc_ok c0 c (ts ! i)" if "i < length ts" for i using inv that by simp
  have "other < r \<and> c0 < r \<and> r \<le> c" if "i < length ts" "ts ! i = TickDone other r" for i other r
    using ok [OF that(1)] that(2) by simp
  moreover have "n \<le> c" if "i < length ts" "ts ! i = MaxDone n r" for i n r
    using ok [OF that(1)] that(2) by auto
  ultimately show ?thesis using inv by simp
qed

lemma two_ticks_run:
  "rtranclp clock_step (5, [TickLoad 3, TickLoad 9]) (11, [TickDone 3 11, TickDone 9 10])"
proof -
  note step = converse_rtranclp_into_rtranclp [where r = clock_step]
  have 1: "clock_step (5, [TickLoad 3, TickLoad 9]) (5, [TickCas 3 5 6, TickLoad 9])"
    using clock_step.tick_load [of 0 "[TickLoad 3, TickLoad 9]" 3 5] by simp
  have 2: "clock_step (5, [TickCas 3 5 6, TickLoad 9]) (5, [TickCas 3 5 6, TickCas 9 5 10])"
    using clock_step.tick_load [of 1 "[TickCas 3 5 6, TickLoad 9]" 9 5] by simp
  have 3: "clock_step (5, [TickCas 3 5 6, TickCas 9 5 10]) (10, [TickCas 3 5 6, TickDone 9 10])"
    using clock_step.tick_cas_ok [of 1 "[TickCas 3 5 6, TickCas 9 5 10]" 9 5 10 5] by simp
  have 4: "clock_step (10, [TickCas 3 5 6, TickDone 9 10]) (10, [TickLoad 3, TickDone 9 10])"
    using clock_step.tick_cas_fail [of 0 "[TickCas 3 5 6, TickDone 9 10]" 3 5 6 10] by simp
  have 5: "clock_step (10, [TickLoad 3, TickDone 9 10]) (10, [TickCas 3 10 11, TickDone 9 10])"
    using clock_step.tick_load [of 0 "[TickLoad 3, TickDone 9 10]" 3 10] by simp
  have 6: "clock_step (10, [TickCas 3 10 11, TickDone 9 10]) (11, [TickDone 3 11, TickDone 9 10])"
    using clock_step.tick_cas_ok [of 0 "[TickCas 3 10 11, TickDone 9 10]" 3 10 11 10] by simp
  show ?thesis
    by (rule step [OF 1], rule step [OF 2], rule step [OF 3], rule step [OF 4], rule step [OF 5],
        rule step [OF 6], rule rtranclp.rtrancl_refl)
qed

theorem concurrent_ticks_unique_witness:
  "(5 :: u64) \<le> 11 \<and> (\<exists>ts. rtranclp clock_step (5, [TickLoad 3, TickLoad 9]) (11, ts) \<and>
     ts = [TickDone 3 11, TickDone 9 10] \<and>
     (\<forall>i < length ts. \<forall>other r. ts ! i = TickDone other r \<longrightarrow> other < r \<and> 5 < r \<and> r \<le> 11))"
proof -
  have "\<forall>i < length [TickLoad 3, TickLoad 9]. pc_initial ([TickLoad 3, TickLoad 9] ! i) \<and>
      unat (pc_arg ([TickLoad 3, TickLoad 9] ! i)) + length [TickLoad 3, TickLoad 9] < 2 ^ 64"
    by (simp add: All_less_Suc)
  note facts = concurrent_ticks_unique [OF two_ticks_run this]
  have "unat (5 :: u64) + length [TickLoad 3, TickLoad 9] < 2 ^ 64" by simp
  from facts [OF this] two_ticks_run show ?thesis by blast
qed

text \<open>A \<^verbatim>\<open>tick\<close> or \<^verbatim>\<open>setMax\<close> that no other thread disturbs can
  return, and whenever it returns it leaves the counter and the result of the sequential
  definitions the other components use; spurious failures of the compare-and-swap change
  nothing.\<close>

theorem clock_loops_refine_sequential:
  "(rtranclp clock_step (counter c, [TickLoad n]) (c', [TickDone n r]) \<longleftrightarrow>
     (r = fst (tick n c) \<and> c' = counter (snd (tick n c)))) \<and>
   (rtranclp clock_step (counter c, [MaxLoad n]) (c', [MaxDone n r]) \<longleftrightarrow>
     (r = fst (setMax n c) \<and> c' = counter (snd (setMax n c))))"
proof (intro conjI)
  show "rtranclp clock_step (counter c, [TickLoad n]) (c', [TickDone n r]) \<longleftrightarrow>
     (r = fst (tick n c) \<and> c' = counter (snd (tick n c)))"
    using tick_alone_states [of "counter c" n "(c', [TickDone n r])"]
      tick_alone_run [of "counter c" n] by (auto simp: tick_def Let_def)
  have "fst (setMax n c) = max n (counter c)" by (simp add: setMax_def Let_def)
  then show "rtranclp clock_step (counter c, [MaxLoad n]) (c', [MaxDone n r]) \<longleftrightarrow>
     (r = fst (setMax n c) \<and> c' = counter (snd (setMax n c)))"
    using setMax_alone_states [of "counter c" n "(c', [MaxDone n r])"]
      setMax_alone_run [of "counter c" n] by (auto simp only: setMax_is_max prod.inject list.inject
        clock_pc.inject clock_pc.distinct)
qed

text \<open>The operators \<^verbatim>\<open><=\<close> and \<^verbatim>\<open>>=\<close> are not the reflexive closures of
  \<^verbatim>\<open><\<close> and \<^verbatim>\<open>>\<close> that their comments announce.\<close>

lemma clock_le_iff: "clock_le a b \<longleftrightarrow> counter a = counter b \<and> nodeId a < nodeId b"
  by (auto simp: clock_le_def)

lemma clock_ge_iff: "clock_ge a b \<longleftrightarrow> counter a = counter b \<and> nodeId a > nodeId b"
  by (auto simp: clock_ge_def)

end
