(* ===== verification/Byte_Codec.thy ===== *)
theory Byte_Codec
  imports Memdb_Prelude
begin

text \<open>
  The byte-level helpers of \<^verbatim>\<open>utils/Utils.h\<close>, \<^verbatim>\<open>utils/Utils.cpp\<close>,
  \<^verbatim>\<open>utils/strings/SimpleString.h\<close> and \<^verbatim>\<open>utils/crypto/HashCalculator.cpp\<close>.
  A read outside a buffer is \<^term>\<open>None\<close>. A \<^verbatim>\<open>SimpleString\<close> is its content as a byte
  list; its \<^verbatim>\<open>size\<close> field is the length at the width of the length type.
\<close>

section \<open>Numbers in buffers\<close>

definition sizeof :: "'a::len word itself \<Rightarrow> nat" where
  "sizeof T = LENGTH('a) div 8"

definition byte_at :: "'a::len word \<Rightarrow> nat \<Rightarrow> u8" where
  "byte_at toParse i = ucast (drop_bit ((sizeof TYPE('a word) - 1 - i) * 8) toParse)"

definition appendToBuffer :: "'a::len word \<Rightarrow> bytes \<Rightarrow> bytes" where
  "appendToBuffer toParse vectorOut =
     foldl (\<lambda>out i. out @ [byte_at toParse i]) vectorOut [0..<sizeof TYPE('a word)]"

definition appendBeginningToBuffer :: "'a::len word \<Rightarrow> bytes \<Rightarrow> bytes" where
  "appendBeginningToBuffer toParse vectorOut =
     foldl (\<lambda>out i. take i out @ [byte_at toParse i] @ drop i out) vectorOut [0..<sizeof TYPE('a word)]"

definition appendBytesToBuffer :: "bytes \<Rightarrow> nat \<Rightarrow> bytes \<Rightarrow> bytes option" where
  "appendBytesToBuffer toAppend totalToAppend vectorOut =
     (if totalToAppend \<le> length toAppend
      then Some (foldl (\<lambda>out i. out @ [toAppend ! i]) vectorOut [0..<totalToAppend]) else None)"

definition copyFromBuffer :: "bytes \<Rightarrow> nat \<Rightarrow> nat \<Rightarrow> bytes option" where
  "copyFromBuffer buffer initialPosition endPosition =
     (if initialPosition \<le> endPosition + 1 \<and> endPosition + 1 \<le> length buffer
      then Some (take (endPosition + 1 - initialPosition) (drop initialPosition buffer)) else None)"

definition parse :: "bytes \<Rightarrow> 'a::len word option" where
  "parse input =
     (if length input < sizeof TYPE('a word) then None
      else Some (foldl (\<lambda>parsedValue i. parsedValue OR
                   push_bit ((sizeof TYPE('a word) - 1 - i) * 8) (ucast (input ! i)))
                 0 [0..<sizeof TYPE('a word)]))"

text \<open>
  \<^verbatim>\<open>parseFromBuffer\<close> shifts a byte that C++ has promoted to a 32-bit \<^verbatim>\<open>int\<close> and
  converts the result to the target type afterwards. A shift by 32 or more is undefined in C++;
  what the machine does then is the parameter \<open>ub_shl\<close>.
\<close>

definition int_shl :: "(u32 \<Rightarrow> nat \<Rightarrow> u32) \<Rightarrow> u8 \<Rightarrow> nat \<Rightarrow> u32" where
  "int_shl ub_shl b k = (if k < 32 then push_bit k (ucast b) else ub_shl (ucast b) k)"

text \<open>Every shift instruction maps zero to zero, whatever it does with a count of 32 or more.\<close>

definition shl_keeps_zero :: "(u32 \<Rightarrow> nat \<Rightarrow> u32) \<Rightarrow> bool" where
  "shl_keeps_zero ub_shl \<longleftrightarrow> (\<forall>k. 32 \<le> k \<longrightarrow> ub_shl 0 k = 0)"

definition parseFromBuffer :: "(u32 \<Rightarrow> nat \<Rightarrow> u32) \<Rightarrow> bytes \<Rightarrow> nat \<Rightarrow> 'a::len word option" where
  "parseFromBuffer ub_shl buffer initialPosition =
     (if length buffer < initialPosition + sizeof TYPE('a word) then None
      else Some (foldl (\<lambda>result i. result OR
                   scast (int_shl ub_shl (buffer ! (i + initialPosition))
                            (((sizeof TYPE('a word) - 1) - i) * 8)))
                 0 (rev [0..<sizeof TYPE('a word)])))"

section \<open>Sizes\<close>

definition optimizedModulePowerOfTwo :: "'a::len word \<Rightarrow> 'a word \<Rightarrow> 'a word" where
  "optimizedModulePowerOfTwo powerOfTwo num = (powerOfTwo - 1) AND num"

definition or_shifted :: "nat \<Rightarrow> 'a::len word \<Rightarrow> 'a word" where
  "or_shifted k initial = initial OR drop_bit k initial"

definition roundUpPowerOfTwo :: "'a::len word \<Rightarrow> 'a word" where
  "roundUpPowerOfTwo initial =
     (if initial \<le> 1 then 1
      else or_shifted 16 (or_shifted 8 (or_shifted 4 (or_shifted 2 (or_shifted 1 (initial - 1))))) + 1)"

section \<open>Maps, vectors and retries\<close>

definition unionMaps :: "('k \<rightharpoonup> 'v) \<Rightarrow> ('k \<rightharpoonup> 'v) \<Rightarrow> ('k \<rightharpoonup> 'v)" where
  "unionMaps first second = first ++ second"

definition collectValuesInto :: "('k \<times> 'v) list \<Rightarrow> 'v list \<Rightarrow> 'v list" where
  "collectValuesInto m out = foldl (\<lambda>v entry. v @ [snd entry]) out m"

fun utils_filter :: "'a list \<Rightarrow> ('a \<Rightarrow> bool) \<Rightarrow> 'a list" where
  "utils_filter [] predicate = []"
| "utils_filter (item # initial) predicate =
     (if predicate item then item # utils_filter initial predicate else utils_filter initial predicate)"

definition utils_concat :: "'a list \<Rightarrow> 'a list \<Rightarrow> 'a list" where
  "utils_concat a b = (if a = [] \<and> b = [] then [] else if a = [] then b else if b = [] then a else a @ b)"

text \<open>An attempt returns a successful result, returns an error result, or throws.\<close>

datatype 'a attempt = AttemptOk 'a | AttemptError | AttemptThrows

text \<open>\<open>toRetry k\<close> is what the \<open>k\<close>-th call of the retried function does.\<close>

function retryNTimesFrom :: "nat \<Rightarrow> int \<Rightarrow> (nat \<Rightarrow> 'a attempt) \<Rightarrow> 'a option" where
  "retryNTimesFrom k numberAttempts toRetry =
     (if numberAttempts > 0
      then (case toRetry k of
              AttemptOk v \<Rightarrow> Some v
            | AttemptError \<Rightarrow> retryNTimesFrom (k + 1) (numberAttempts - 1) toRetry
            | AttemptThrows \<Rightarrow> retryNTimesFrom (k + 1) (numberAttempts - 1) toRetry)
      else None)"
  by pat_completeness auto
termination by (relation "measure (\<lambda>(k, n, f). nat n)") auto

declare retryNTimesFrom.simps [simp del]

definition retryNTimesAndGet :: "int \<Rightarrow> (nat \<Rightarrow> 'a attempt) \<Rightarrow> 'a option" where
  "retryNTimesAndGet numberAttempts toRetry = retryNTimesFrom 0 numberAttempts toRetry"

definition tryOnce :: "'a attempt \<Rightarrow> bool" where
  "tryOnce toTry = (case toTry of AttemptThrows \<Rightarrow> False | _ \<Rightarrow> True)"

section \<open>SimpleString\<close>

type_synonym SimpleString = bytes

definition ss_size :: "SimpleString \<Rightarrow> memDbDataLength_t" where
  "ss_size s = word_of_nat (length s)"

definition fromNumber :: "'a::len word \<Rightarrow> SimpleString" where
  "fromNumber from = map (byte_at from) [0..<sizeof TYPE('a word)]"

definition fromSimpleStrings :: "SimpleString list \<Rightarrow> SimpleString" where
  "fromSimpleStrings values = foldl (\<lambda>result v. result @ v) [] values"

definition ss_to :: "SimpleString \<Rightarrow> 'a::len word option" where
  "ss_to s = parse s"

fun ss_eq_from :: "SimpleString \<Rightarrow> SimpleString \<Rightarrow> bool" where
  "ss_eq_from (x # xs) (y # ys) = (if x \<noteq> y then False else ss_eq_from xs ys)"
| "ss_eq_from _ _ = True"

definition ss_eq :: "SimpleString \<Rightarrow> SimpleString \<Rightarrow> bool" where
  "ss_eq self other = (if length self \<noteq> length other then False else ss_eq_from self other)"

text \<open>
  \<^verbatim>\<open>operator<\<close> hands the raw buffers to \<^verbatim>\<open>strcmp\<close>, which reads until a zero byte. The
  buffers carry no terminator of their own: \<open>after s\<close> stands for the bytes that follow the
  buffer of \<open>s\<close> in memory. Two buffers with the same content get the same bytes here, which memory does not promise;
  the theorems that compare keys are about keys that end in a zero byte, where \<open>after\<close> plays no role.
\<close>

fun strcmp_less :: "bytes \<Rightarrow> bytes \<Rightarrow> bool" where
  "strcmp_less (x # xs) (y # ys) =
     (if x \<noteq> y then x < y else if x = 0 then False else strcmp_less xs ys)"
| "strcmp_less _ _ = False"

definition ss_less :: "(SimpleString \<Rightarrow> bytes) \<Rightarrow> SimpleString \<Rightarrow> SimpleString \<Rightarrow> bool" where
  "ss_less after self a = strcmp_less (self @ after self) (a @ after a)"

section \<open>HashCalculator\<close>

text \<open>\<open>md\<close> stands for the MD5 digest of the input, sixteen bytes, computed by OpenSSL.\<close>

definition htonl :: "u32 \<Rightarrow> u32" where
  "htonl hostlong =
     push_bit 24 (ucast (ucast hostlong :: u8)) OR
     push_bit 16 (ucast (ucast (drop_bit 8 hostlong) :: u8)) OR
     push_bit 8 (ucast (ucast (drop_bit 16 hostlong) :: u8)) OR
     ucast (ucast (drop_bit 24 hostlong) :: u8)"

definition toBigEndian :: "u64 \<Rightarrow> u64" where
  "toBigEndian v =
     (let high_part = htonl (ucast (drop_bit 32 v));
          low_part = htonl (ucast (v AND 0xFFFFFFFF))
      in push_bit 32 (ucast low_part) OR ucast high_part)"

definition memcpy_u64 :: "bytes \<Rightarrow> u64" where
  "memcpy_u64 md = foldl (\<lambda>acc i. acc OR push_bit (i * 8) (ucast (md ! i))) 0 [0..<8]"

definition calculateMD5 :: "(string \<Rightarrow> bytes) \<Rightarrow> string \<Rightarrow> u64" where
  "calculateMD5 md5 input = toBigEndian (memcpy_u64 (md5 input))"

section \<open>Layout of encoded numbers\<close>

lemma foldl_snoc_map: "foldl (\<lambda>out i. out @ [f i]) xs is = xs @ map f is"
  by (induction "is" arbitrary: xs) auto

lemma appendToBuffer_eq: "appendToBuffer w out = out @ fromNumber w"
  by (simp add: appendToBuffer_def fromNumber_def foldl_snoc_map)

lemma appendBytesToBuffer_eq [simp]:
  "appendBytesToBuffer xs (length xs) out = Some (out @ xs)"
  by (simp add: appendBytesToBuffer_def foldl_snoc_map map_nth)

lemma length_fromNumber [simp, codec_simps]:
  "length (fromNumber (w :: 'a::len word)) = LENGTH('a) div 8"
  by (simp add: fromNumber_def sizeof_def)

lemma foldl_insert_front:
  "foldl (\<lambda>out i. take i out @ [f i] @ drop i out) out [0..<n] = map f [0..<n] @ out"
  by (induction n) auto

lemma appendBeginningToBuffer_eq: "appendBeginningToBuffer w out = fromNumber w @ out"
  unfolding appendBeginningToBuffer_def foldl_insert_front by (simp add: fromNumber_def)

lemma utils_filter_eq [simp]: "utils_filter xs p = filter p xs"
  by (induction xs) auto

lemma utils_concat_eq [simp]: "utils_concat a b = a @ b"
  by (simp add: utils_concat_def)

lemma collectValuesInto_eq [simp]: "collectValuesInto m out = out @ map snd m"
  unfolding collectValuesInto_def by (rule foldl_snoc_map)

lemma fromSimpleStrings_eq [simp]: "fromSimpleStrings vs = concat vs"
proof -
  have "foldl (\<lambda>result v. result @ v) acc vs = acc @ concat vs" for acc
    by (induction vs arbitrary: acc) auto
  then show ?thesis by (simp add: fromSimpleStrings_def)
qed

lemma ss_eq_from_iff: "length xs = length ys \<Longrightarrow> ss_eq_from xs ys \<longleftrightarrow> xs = ys"
  by (induction xs ys rule: list_induct2) auto

lemma ss_eq_iff [simp]: "ss_eq s t \<longleftrightarrow> s = t"
  by (auto simp: ss_eq_def ss_eq_from_iff)

section \<open>Round trips of numbers\<close>

lemma u8_bit_beyond [simp]: "8 \<le> n \<Longrightarrow> \<not> bit (b :: u8) n"
  using bit_imp_le_length [of b n] by auto

lemma bit_push_ucast [simp]:
  assumes "8 \<le> LENGTH('a::len)"
  shows "bit (push_bit s (ucast (b :: u8)) :: 'a word) n \<longleftrightarrow> n < LENGTH('a) \<and> s \<le> n \<and> bit b (n - s)"
proof -
  have "n - s < LENGTH('a)" if "bit b (n - s)" using bit_imp_le_length [OF that] assms by simp
  then show ?thesis by (auto simp: bit_simps)
qed

lemma ucast_push_byte:
  assumes "s + 8 \<le> 32"
  shows "ucast (push_bit s (ucast (b :: u8)) :: u32) = (push_bit s (ucast b) :: u64)"
proof (rule bit_word_eqI)
  fix n
  have "n < 32" if "bit b (n - s)" "s \<le> n" using bit_imp_le_length [OF that(1)] that(2) assms by simp
  then show "bit (ucast (push_bit s (ucast b) :: u32) :: u64) n \<longleftrightarrow> bit (push_bit s (ucast b) :: u64) n"
    by (auto simp: bit_unsigned_iff)
qed

lemma bit_foldl_or:
  "bit (foldl (\<lambda>acc i. acc OR f i) (a :: 'a::len word) xs) k \<longleftrightarrow> bit a k \<or> (\<exists>i \<in> set xs. bit (f i) k)"
  by (induction xs arbitrary: a) (auto simp: bit_or_iff)

lemma nth_fromNumber:
  "i < sizeof TYPE('a::len word) \<Longrightarrow> fromNumber (w :: 'a word) ! i = byte_at w i"
  by (simp add: fromNumber_def)

lemma bit_byte_at:
  "bit (byte_at (w :: 'a::len word) i) j \<longleftrightarrow> j < 8 \<and> bit w ((sizeof TYPE('a word) - 1 - i) * 8 + j)"
  by (auto simp: byte_at_def bit_simps)

text \<open>Each bit of the value lies in exactly one of its bytes.\<close>

lemma byte_cover:
  assumes "8 dvd LENGTH('a::len)" and "k < LENGTH('a)"
  obtains i where "i < sizeof TYPE('a word)" "(sizeof TYPE('a word) - 1 - i) * 8 = k div 8 * 8"
proof
  let ?n = "sizeof TYPE('a word)"
  have "k div 8 < ?n" using assms by (auto simp: sizeof_def dvd_def)
  then show "?n - 1 - k div 8 < ?n" "(?n - 1 - (?n - 1 - k div 8)) * 8 = k div 8 * 8" by auto
qed

lemma parse_fromNumber [codec_simps]:
  assumes "8 dvd LENGTH('a::len)"
  shows "parse (fromNumber (w :: 'a word) @ rest) = Some w"
proof -
  let ?n = "sizeof TYPE('a word)"
  let ?f = "\<lambda>i. push_bit ((?n - 1 - i) * 8) (ucast ((fromNumber w @ rest) ! i)) :: 'a word"
  have at: "(fromNumber w @ rest) ! i = byte_at w i" if "i < ?n" for i
    using that by (simp add: nth_append sizeof_def nth_fromNumber [unfolded sizeof_def])
  have "foldl (\<lambda>acc i. acc OR ?f i) 0 [0..<?n] = w"
  proof (rule bit_word_eqI)
    fix k assume k: "k < LENGTH('a)"
    obtain i0 where i0: "i0 < ?n" "(?n - 1 - i0) * 8 = k div 8 * 8"
      using byte_cover [OF assms k] by blast
    have sub: "k - k div 8 * 8 < 8" "k div 8 * 8 + (k - k div 8 * 8) = k"
      by (simp_all add: minus_div_mult_eq_mod)
    have "(\<exists>i \<in> set [0..<?n]. bit (?f i) k) \<longleftrightarrow> bit w k"
    proof
      assume "\<exists>i \<in> set [0..<?n]. bit (?f i) k"
      then show "bit w k" using k by (auto simp: at bit_simps bit_byte_at)
    next
      assume "bit w k"
      then have "bit (?f i0) k" using i0 k sub by (simp add: at bit_simps bit_byte_at)
      then show "\<exists>i \<in> set [0..<?n]. bit (?f i) k"
        by (rule bexI [of _ i0]) (use i0(1) in simp)
    qed
    then show "bit (foldl (\<lambda>acc i. acc OR ?f i) 0 [0..<?n]) k \<longleftrightarrow> bit w k"
      by (simp add: bit_foldl_or)
  qed
  then show ?thesis by (simp add: parse_def sizeof_def)
qed

lemma parse_fromNumber_alone [codec_simps]:
  "8 dvd LENGTH('a::len) \<Longrightarrow> parse (fromNumber (w :: 'a word)) = Some w"
  using parse_fromNumber [of w "[]"] by simp

text \<open>\<^verbatim>\<open>parseFromBuffer\<close> agrees with \<^verbatim>\<open>parse\<close> where the promoted shift is
  harmless: always up to 32 bits, and for 64 bits only below \<open>2 ^ 31\<close>.\<close>

lemma scast_int_shl:
  assumes "s + 8 \<le> 32" and "s + 8 \<le> LENGTH('a::len)"
    and "s + 8 < 32 \<or> LENGTH('a) \<le> 32 \<or> \<not> bit b 7"
  shows "scast (int_shl ub b s) = (push_bit s (ucast b) :: 'a word)"
proof (rule bit_word_eqI)
  fix k assume k: "k < LENGTH('a)"
  have top: "bit (int_shl ub b s) 31 \<longleftrightarrow> s = 24 \<and> bit b 7"
  proof -
    have "s = 24" if "bit b (31 - s)" using bit_imp_le_length [OF that] assms(1) by simp
    then show ?thesis using assms(1) by (auto simp: int_shl_def bit_simps)
  qed
  show "bit (scast (int_shl ub b s) :: 'a word) k \<longleftrightarrow> bit (push_bit s (ucast b) :: 'a word) k"
  proof (cases "k < 31")
    case True
    then show ?thesis using assms k by (auto simp: int_shl_def bit_simps min_def)
  next
    case False
    then have "bit (scast (int_shl ub b s) :: 'a word) k \<longleftrightarrow> s = 24 \<and> bit b 7"
      using k top by (simp add: bit_simps min_def)
    moreover have "bit (push_bit s (ucast b) :: 'a word) k \<longleftrightarrow> s = 24 \<and> k = 31 \<and> bit b 7"
    proof -
      have "s = 24 \<and> k = 31" if "bit b (k - s)"
        using bit_imp_le_length [OF that] assms(1) False by (simp, arith)
      then show ?thesis using False k assms(1) by (auto simp: bit_simps)
    qed
    ultimately show ?thesis using assms False k by auto
  qed
qed

lemma parseFromBuffer_conv:
  assumes dvd: "8 dvd LENGTH('a::len)"
    and conv: "\<And>i. i < sizeof TYPE('a word) \<Longrightarrow>
      scast (int_shl ub (byte_at (w :: 'a word) i) ((sizeof TYPE('a word) - 1 - i) * 8)) =
      (push_bit ((sizeof TYPE('a word) - 1 - i) * 8) (ucast (byte_at w i)) :: 'a word)"
    and pos: "length pre = pos"
  shows "parseFromBuffer ub (pre @ fromNumber w @ rest) pos = Some w"
proof -
  let ?n = "sizeof TYPE('a word)"
  let ?f = "\<lambda>i. scast (int_shl ub ((pre @ fromNumber w @ rest) ! (i + pos)) ((?n - 1 - i) * 8)) :: 'a word"
  let ?g = "\<lambda>i. push_bit ((?n - 1 - i) * 8) (ucast ((fromNumber w @ rest) ! i)) :: 'a word"
  have at: "(fromNumber w @ rest) ! i = byte_at w i" if "i < ?n" for i
    using that by (simp add: nth_append sizeof_def nth_fromNumber [unfolded sizeof_def])
  have fg: "?f i = ?g i" if "i < ?n" for i
    using that conv [OF that] at [OF that] pos by (simp add: nth_append)
  have "foldl (\<lambda>acc i. acc OR ?f i) 0 (rev [0..<?n]) = foldl (\<lambda>acc i. acc OR ?g i) 0 [0..<?n]"
    by (rule bit_word_eqI) (unfold bit_foldl_or, use fg in force)
  moreover have "\<dots> = w"
    using parse_fromNumber [OF dvd, of w rest] by (simp add: parse_def sizeof_def)
  ultimately show ?thesis using pos by (simp add: parseFromBuffer_def sizeof_def)
qed

lemma parseFromBuffer_fromNumber [codec_simps]:
  assumes "8 dvd LENGTH('a::len)" and "LENGTH('a) \<le> 32" and "length pre = pos"
  shows "parseFromBuffer ub (pre @ fromNumber (w :: 'a word) @ rest) pos = Some w"
proof (rule parseFromBuffer_conv [OF assms(1) _ assms(3)], rule scast_int_shl)
  fix i assume "i < sizeof TYPE('a word)"
  then have "(sizeof TYPE('a word) - 1 - i) * 8 + 8 \<le> LENGTH('a)"
    using assms(1) by (auto simp: sizeof_def dvd_def)
  then show "(sizeof TYPE('a word) - 1 - i) * 8 + 8 \<le> LENGTH('a)"
    "(sizeof TYPE('a word) - 1 - i) * 8 + 8 \<le> 32" using assms(2) by linarith+
  show "(sizeof TYPE('a word) - 1 - i) * 8 + 8 < 32 \<or> LENGTH('a) \<le> 32 \<or> \<not> bit (byte_at w i) 7"
    using assms(2) by simp
qed

lemma not_bit_of_less:
  fixes w :: "'a::len word"
  assumes "unat w < 2 ^ n" and "n \<le> k"
  shows "\<not> bit w k"
proof
  assume "bit w k"
  then have "bit (take_bit n (unat w)) k"
    using assms(1) by (simp add: take_bit_nat_eq_self bit_unsigned_iff)
  then show False using assms(2) by (simp add: bit_take_bit_iff)
qed

lemma parseFromBuffer_small_u64:
  assumes "unat (w :: u64) < 2 ^ 31" and zero: "shl_keeps_zero ub" and "length pre = pos"
  shows "parseFromBuffer ub (pre @ fromNumber w @ rest) pos = Some w"
proof (rule parseFromBuffer_conv [OF _ _ assms(3)])
  fix i assume i: "i < sizeof TYPE(u64)"
  let ?s = "(sizeof TYPE(u64) - 1 - i) * 8"
  have nb: "\<not> bit w k" if "31 \<le> k" for k using not_bit_of_less [OF assms(1) that] .
  show "scast (int_shl ub (byte_at w i) ?s) = (push_bit ?s (ucast (byte_at w i)) :: u64)"
  proof (cases "?s + 8 \<le> 32")
    case True
    have "?s + 8 < 32 \<or> LENGTH(64) \<le> 32 \<or> \<not> bit (byte_at w i) 7"
    proof (cases "?s + 8 = 32")
      case True
      then have "\<not> bit (byte_at w i) 7" using nb [of "?s + 7"] by (simp add: bit_byte_at)
      then show ?thesis by simp
    next
      case False
      with \<open>?s + 8 \<le> 32\<close> show ?thesis by linarith
    qed
    then show ?thesis using True by (intro scast_int_shl) simp_all
  next
    case False
    then have s: "32 \<le> ?s" by (simp add: sizeof_def)
    have "byte_at w i = 0"
      by (rule bit_word_eqI) (use nb s in \<open>simp add: bit_byte_at\<close>)
    then show ?thesis using s zero by (simp add: int_shl_def shl_keeps_zero_def)
  qed
qed simp

lemma parseFromBuffer_sign_extends:
  assumes small: "unat (w :: u64) < 2 ^ 32" and zero: "shl_keeps_zero ub"
    and pos: "length pre = pos"
  shows "parseFromBuffer ub (pre @ fromNumber w @ rest) pos = Some (scast (ucast w :: u32) :: u64)"
proof -
  let ?f = "\<lambda>i. int_shl ub ((pre @ fromNumber w @ rest) ! (i + pos)) ((8 - 1 - i) * 8)"
  have at: "(pre @ fromNumber w @ rest) ! (i + pos) = byte_at w i" if "i < 8" for i
    using that pos by (simp add: nth_append nth_fromNumber sizeof_def)
  have nb: "\<not> bit w k" if "32 \<le> k" for k using not_bit_of_less [OF small that] .
  have f: "bit (?f i) n \<longleftrightarrow> (8 - 1 - i) * 8 \<le> n \<and> bit (byte_at w i) (n - (8 - 1 - i) * 8)"
    if "i < 8" "n < 32" for i n
  proof (cases "(8 - 1 - i) * 8 < 32")
    case True
    then show ?thesis using that at [OF that(1)] by (simp add: int_shl_def)
  next
    case False
    then have "byte_at w i = 0"
      by (intro bit_word_eqI) (use nb in \<open>simp add: bit_byte_at sizeof_def\<close>)
    then show ?thesis using False at [OF that(1)] zero by (simp add: int_shl_def shl_keeps_zero_def)
  qed
  have cover: "(\<exists>i \<in> set (rev [0..<8]). bit (?f i) n) \<longleftrightarrow> bit w n" if n: "n < 32" for n
  proof
    assume "\<exists>i \<in> set (rev [0..<8]). bit (?f i) n"
    then show "bit w n" using f n by (auto simp: bit_byte_at sizeof_def)
  next
    assume "bit w n"
    have sub: "7 - (7 - n div 8) = n div 8" using n by simp
    have "bit (?f (7 - n div 8)) n"
      using f [of "7 - n div 8" n] n \<open>bit w n\<close> sub
      by (simp add: bit_byte_at sizeof_def minus_div_mult_eq_mod)
    then show "\<exists>i \<in> set (rev [0..<8]). bit (?f i) n" by (intro bexI [of _ "7 - n div 8"]) auto
  qed
  have "foldl (\<lambda>acc i. acc OR scast (?f i)) 0 (rev [0..<8]) = (scast (ucast w :: u32) :: u64)"
  proof (rule bit_word_eqI)
    fix k assume "k < LENGTH(64)"
    then have "bit (scast (?f i) :: u64) k \<longleftrightarrow> bit (?f i) (min k 31)" for i
      by (simp add: bit_simps min_def)
    moreover have "bit (scast (ucast w :: u32) :: u64) k \<longleftrightarrow> bit w (min k 31)"
      using \<open>k < LENGTH(64)\<close> by (simp add: bit_simps min_def)
    ultimately show "bit (foldl (\<lambda>acc i. acc OR scast (?f i)) (0 :: u64) (rev [0..<8])) k \<longleftrightarrow>
        bit (scast (ucast w :: u32) :: u64) k"
      using cover [of "min k 31"] by (simp add: bit_foldl_or)
  qed
  then show ?thesis using pos by (simp add: parseFromBuffer_def sizeof_def)
qed

section \<open>Powers of two\<close>

lemma optimizedModulePowerOfTwo_mod:
  assumes "k < LENGTH('a::len)"
  shows "optimizedModulePowerOfTwo (2 ^ k) (n :: 'a word) = n mod 2 ^ k"
proof -
  have "(2 ^ k - 1 :: 'a word) = mask k" by (simp add: mask_eq_exp_minus_1)
  then show ?thesis
    by (simp add: optimizedModulePowerOfTwo_def and.commute take_bit_eq_mask [symmetric] take_bit_eq_mod)
qed

lemma bit_or_shifted: "bit (or_shifted s x) k \<longleftrightarrow> bit x k \<or> bit x (k + s)"
  by (auto simp: or_shifted_def bit_or_iff bit_drop_bit_eq add.commute)

text \<open>After the five steps a bit is set when one of the 32 bits from it upwards was.\<close>

definition smeared :: "nat \<Rightarrow> 'a::len word \<Rightarrow> 'a word \<Rightarrow> bool" where
  "smeared d x y \<longleftrightarrow> (\<forall>k. bit y k \<longleftrightarrow> (\<exists>j < d. bit x (k + j)))"

lemma smeared_or_shifted:
  assumes "smeared d x y" shows "smeared (d + d) x (or_shifted d y)"
  unfolding smeared_def
proof
  fix k
  have "(\<exists>j < d + d. bit x (k + j)) \<longleftrightarrow> (\<exists>j < d. bit x (k + j)) \<or> (\<exists>j < d. bit x (k + d + j))"
    (is "?l \<longleftrightarrow> ?r")
  proof
    assume ?l
    then obtain j where j: "j < d + d" "bit x (k + j)" by blast
    show ?r
    proof (cases "j < d")
      case False
      then have "bit x (k + d + (j - d))" "j - d < d" using j by simp_all
      then show ?thesis by blast
    qed (use j in blast)
  qed (metis add.assoc add_less_mono1 add_strict_mono add.commute trans_less_add1)
  then show "bit (or_shifted d y) k \<longleftrightarrow> (\<exists>j < d + d. bit x (k + j))"
    using assms by (simp add: bit_or_shifted smeared_def)
qed

lemma smeared_start: "smeared 1 x x"
  by (simp add: smeared_def)

lemma or_shifted_smeared:
  "smeared 32 x (or_shifted 16 (or_shifted 8 (or_shifted 4 (or_shifted 2 (or_shifted 1 x)))))"
proof -
  note step = smeared_or_shifted
  have "smeared (1 + 1) x (or_shifted 1 x)" by (rule step [OF smeared_start])
  then have "smeared 2 x (or_shifted 1 x)" by (simp only: one_add_one)
  from step [OF this] have "smeared 4 x (or_shifted 2 (or_shifted 1 x))" by simp
  from step [OF this] have "smeared 8 x (or_shifted 4 (or_shifted 2 (or_shifted 1 x)))" by simp
  from step [OF this] have "smeared 16 x (or_shifted 8 (or_shifted 4 (or_shifted 2 (or_shifted 1 x))))"
    by simp
  from step [OF this] show ?thesis by simp
qed

lemma bit_top:
  fixes m :: "'a::len word"
  assumes "2 ^ t \<le> unat m" and "unat m < 2 ^ (t + 1)"
  shows "bit m t"
proof -
  have "unat m div 2 ^ t = 1"
    using assms by (simp add: div_nat_eqI)
  then have "bit (unat m) t" by (simp add: bit_iff_odd)
  then show ?thesis by (simp add: bit_unsigned_iff)
qed

lemma smeared_is_mask:
  fixes m y :: "'a::len word"
  assumes sm: "smeared 32 m y" and t: "2 ^ t \<le> unat m" "unat m < 2 ^ (t + 1)" and t32: "t < 32"
  shows "y = mask (t + 1)"
proof (rule bit_word_eqI)
  fix k assume k: "k < LENGTH('a)"
  have top: "bit m t" by (rule bit_top [OF t])
  have "(\<exists>j < 32. bit m (k + j)) \<longleftrightarrow> k \<le> t"
  proof
    assume "\<exists>j < 32. bit m (k + j)"
    then obtain j where "bit m (k + j)" by blast
    then have "\<not> t + 1 \<le> k + j" using not_bit_of_less [OF t(2)] by blast
    then show "k \<le> t" by simp
  next
    assume "k \<le> t"
    then show "\<exists>j < 32. bit m (k + j)" using top t32 by (intro exI [of _ "t - k"]) auto
  qed
  then show "bit y k \<longleftrightarrow> bit (mask (t + 1) :: 'a word) k"
    using sm k by (auto simp: smeared_def bit_mask_iff)
qed

lemma roundUpPowerOfTwo_spec:
  fixes n :: "'a::len word"
  assumes "0 < n" and "unat n \<le> 2 ^ 31" and wide: "32 \<le> LENGTH('a)"
  obtains k where "k < 32" "roundUpPowerOfTwo n = 2 ^ k" "unat n \<le> 2 ^ k" "2 ^ k < 2 * unat n"
proof (cases "n \<le> 1")
  case True
  then have "unat n = unat (1 :: 'a word)" using assms(1) by (simp add: word_le_nat_alt word_less_nat_alt)
  then have "n = 1" by (simp only: word_unat_eq_iff)
  then show ?thesis by (intro that [of 0]) (auto simp: roundUpPowerOfTwo_def)
next
  case False
  have um: "unat (n - 1) = unat n - 1" using assms(1) by (intro unat_minus_one) auto
  have n2: "2 \<le> unat n" using False by (simp add: word_le_nat_alt)
  obtain t where t: "2 ^ t \<le> unat (n - 1)" "unat (n - 1) < 2 ^ (t + 1)"
    using ex_power_ivl1 [of 2 "unat (n - 1)"] um n2 by force
  have "(2 :: nat) ^ t < 2 ^ 31" using t(1) um n2 assms(2) by linarith
  then have t31: "t < 31" by (rule power_less_imp_less_exp [rotated]) simp
  have "roundUpPowerOfTwo n = mask (t + 1) + 1"
    using False smeared_is_mask [OF or_shifted_smeared t] t31 by (simp add: roundUpPowerOfTwo_def)
  then have "roundUpPowerOfTwo n = 2 ^ (t + 1)" by (simp add: mask_eq_exp_minus_1)
  then show ?thesis using t t31 um n2 by (intro that [of "t + 1"]) auto
qed

section \<open>Hashes and retries\<close>

lemma bytes_of_or:
  fixes b0 b1 b2 b3 :: u8
  defines "x \<equiv> ucast b0 OR push_bit 8 (ucast b1) OR push_bit 16 (ucast b2) OR push_bit 24 (ucast b3) :: u32"
  shows "ucast x = b0" "ucast (drop_bit 8 x) = b1" "ucast (drop_bit 16 x) = b2" "ucast (drop_bit 24 x) = b3"
  unfolding x_def by (auto intro!: bit_word_eqI simp: bit_simps)

lemma htonl_swaps:
  fixes b0 b1 b2 b3 :: u8
  shows "htonl (ucast b0 OR push_bit 8 (ucast b1) OR push_bit 16 (ucast b2) OR push_bit 24 (ucast b3)) =
   push_bit 24 (ucast b0) OR push_bit 16 (ucast b1) OR push_bit 8 (ucast b2) OR ucast b3"
  unfolding htonl_def bytes_of_or ..

lemma halves_of_memcpy:
  fixes b0 b1 b2 b3 b4 b5 b6 b7 :: u8
  defines "x \<equiv> ucast b0 OR push_bit 8 (ucast b1) OR push_bit 16 (ucast b2) OR
    push_bit 24 (ucast b3) OR push_bit 32 (ucast b4) OR push_bit 40 (ucast b5) OR
    push_bit 48 (ucast b6) OR push_bit 56 (ucast b7) :: u64"
  shows "ucast (drop_bit 32 x) = (ucast b4 OR push_bit 8 (ucast b5) OR push_bit 16 (ucast b6) OR
      push_bit 24 (ucast b7) :: u32)"
    and "ucast (take_bit 32 x) = (ucast b0 OR push_bit 8 (ucast b1) OR push_bit 16 (ucast b2) OR
      push_bit 24 (ucast b3) :: u32)"
  unfolding x_def
  by (rule bit_word_eqI, simp add: bit_or_iff bit_unsigned_iff bit_drop_bit_eq bit_take_bit_iff)+

lemma calculateMD5_parse:
  assumes "length (md5 input) = 16"
  shows "parse (md5 input) = Some (calculateMD5 md5 input)"
proof -
  have "\<exists>b0 b1 b2 b3 b4 b5 b6 b7 rest. md5 input = b0 # b1 # b2 # b3 # b4 # b5 # b6 # b7 # rest"
    using assms by (auto simp: numeral_eq_Suc length_Suc_conv)
  then obtain b0 b1 b2 b3 b4 b5 b6 b7 rest
    where md: "md5 input = b0 # b1 # b2 # b3 # b4 # b5 # b6 # b7 # rest" by blast
  have upt: "[0..<8] = [0, 1, 2, 3, 4, 5, 6, 7 :: nat]" by (simp add: upt_rec)
  have low_half: "v AND 0xFFFFFFFF = take_bit 32 v" for v :: u64
    by (simp add: take_bit_eq_mask mask_eq_exp_minus_1)
  have memcpy: "memcpy_u64 (md5 input) = ucast b0 OR push_bit 8 (ucast b1) OR
      push_bit 16 (ucast b2) OR push_bit 24 (ucast b3) OR push_bit 32 (ucast b4) OR
      push_bit 40 (ucast b5) OR push_bit 48 (ucast b6) OR push_bit 56 (ucast b7)"
    by (simp add: memcpy_u64_def upt md or.assoc)
  have "parse (md5 input) = Some (push_bit 56 (ucast b0) OR push_bit 48 (ucast b1) OR
      push_bit 40 (ucast b2) OR push_bit 32 (ucast b3) OR push_bit 24 (ucast b4) OR
      push_bit 16 (ucast b5) OR push_bit 8 (ucast b6) OR ucast b7 :: u64)"
    by (simp add: parse_def sizeof_def upt md or.assoc)
  moreover have "calculateMD5 md5 input = push_bit 56 (ucast b0) OR push_bit 48 (ucast b1) OR
      push_bit 40 (ucast b2) OR push_bit 32 (ucast b3) OR push_bit 24 (ucast b4) OR
      push_bit 16 (ucast b5) OR push_bit 8 (ucast b6) OR ucast b7"
    unfolding calculateMD5_def toBigEndian_def Let_def memcpy low_half halves_of_memcpy htonl_swaps
    using ucast_push_byte [of 0 b3] ucast_push_byte [of 0 b7]
    by (simp add: unsigned_or_eq push_bit_or ucast_push_byte push_bit_push_bit or.assoc)
  ultimately show ?thesis by simp
qed

lemma retryNTimesFrom_first:
  assumes "int k < n" and "\<forall>j < k. \<forall>v. toRetry (i + j) \<noteq> AttemptOk v" and "toRetry (i + k) = AttemptOk v"
  shows "retryNTimesFrom i n toRetry = Some v"
  using assms
proof (induction k arbitrary: i n)
  case 0
  then show ?case by (simp add: retryNTimesFrom.simps)
next
  case (Suc k)
  have "retryNTimesFrom (i + 1) (n - 1) toRetry = Some v"
    using Suc.prems by (intro Suc.IH) (auto dest: spec [of _ "Suc _"])
  moreover have "\<forall>v. toRetry i \<noteq> AttemptOk v" using Suc.prems(2) by (auto dest: spec [of _ 0])
  ultimately show ?case
    using Suc.prems(1) by (subst retryNTimesFrom.simps) (auto split: attempt.split)
qed

section \<open>Properties\<close>

text \<open>\<^verbatim>\<open>parseFromBuffer<uint64_t>\<close> does not invert \<^verbatim>\<open>appendToBuffer\<close> on
  all values: below \<open>2 ^ 32\<close> it returns the low 32 bits sign-extended, so the value that was written
  comes back exactly when it is below \<open>2 ^ 31\<close>.\<close>

theorem parseFromBuffer_u64_below_2_31:
  fixes w :: u64
  assumes "unat w < 2 ^ 32" and "shl_keeps_zero ub_shl"
  shows "parseFromBuffer ub_shl (appendToBuffer w pre @ rest) (length pre) =
           Some (scast (ucast w :: u32) :: u64) \<and>
         (parseFromBuffer ub_shl (appendToBuffer w pre @ rest) (length pre) = Some w \<longleftrightarrow> unat w < 2 ^ 31)"
proof -
  have ext: "parseFromBuffer ub_shl (appendToBuffer w pre @ rest) (length pre) =
      Some (scast (ucast w :: u32) :: u64)"
    using parseFromBuffer_sign_extends [where ub = ub_shl and pre = pre and rest = rest, OF assms refl]
    by (simp add: appendToBuffer_eq)
  have "unat w < 2 ^ 31" if "scast (ucast w :: u32) = w"
  proof (rule ccontr)
    assume "\<not> unat w < 2 ^ 31"
    then have "bit w 31" using assms(1) by (intro bit_top) auto
    then have "bit (scast (ucast w :: u32) :: u64) 40" by (simp add: bit_simps)
    moreover have "\<not> bit w 40" using not_bit_of_less [OF assms(1)] by simp
    ultimately show False using that by simp
  qed
  moreover have "parseFromBuffer ub_shl (appendToBuffer w pre @ rest) (length pre) = Some w"
    if "unat w < 2 ^ 31"
    using parseFromBuffer_small_u64 [where ub = ub_shl and pre = pre and rest = rest, OF that assms(2) refl] by (simp add: appendToBuffer_eq)
  ultimately show ?thesis using ext by auto
qed

theorem parseFromBuffer_u64_below_2_31_witness:
  "parseFromBuffer (\<lambda>v k. push_bit (k mod 32) v) (appendToBuffer (0x80000000 :: u64) [7] @ [9]) 1 \<noteq>
     Some (0x80000000 :: u64)"
  using parseFromBuffer_u64_below_2_31 [of "0x80000000" "\<lambda>v k. push_bit (k mod 32) v" "[7]" "[9]"]
  by (simp add: shl_keeps_zero_def)

end
