(* ===== verification/Messages.thy ===== *)
theory Messages
  imports Byte_Codec Lamport_Clock
begin

text \<open>
  Requests and responses (\<^verbatim>\<open>messages/request\<close>, \<^verbatim>\<open>messages/response\<close>): the message
  records, their builders and their wire format. A parse that leaves the received buffer is
  \<^term>\<open>None\<close>; \<open>ub_shl\<close> is the machine's shift by 32 or more inside
  \<^verbatim>\<open>parseFromBuffer\<close>.
\<close>

section \<open>Requests\<close>

text \<open>The argument vector is a shared pointer that may be null (\<^term>\<open>None\<close>).\<close>

record OperationBody =
  args :: "SimpleString list option"
  timestamp :: u64
  op_nodeId :: memdbNodeId_t
  operatorNumber :: u8
  op_flag1 :: bool
  op_flag2 :: bool

record AuthenticationBody =
  authKey :: bytes
  auth_flag1 :: bool
  auth_flag2 :: bool

record Request =
  authentication :: AuthenticationBody
  operation :: OperationBody
  requestNumber :: memdbRequestNumber_t

definition op_getTotalLength :: "OperationBody \<Rightarrow> bool \<Rightarrow> memDbDataLength_t option" where
  "op_getTotalLength self includesNodeId =
     (case args self of
        None \<Rightarrow> None
      | Some as \<Rightarrow>
          let totalLength = 0 + 1 + 8;
              totalLength = (if includesNodeId then totalLength + 2 else totalLength)
          in Some (foldl (\<lambda>total arg. total + 4 + ss_size arg) totalLength as))"

definition auth_getTotalLength :: "AuthenticationBody \<Rightarrow> memDbDataLength_t" where
  "auth_getTotalLength self = 1 + word_of_nat (length (authKey self))"

definition request_getTotalLength :: "Request \<Rightarrow> memDbDataLength_t option" where
  "request_getTotalLength self =
     map_option (\<lambda>op. 0 + 4 + auth_getTotalLength (authentication self) + op)
       (op_getTotalLength (operation self) (auth_flag1 (authentication self)))"

text \<open>\<^verbatim>\<open>at\<close> throws outside the vector, and a null vector cannot be dereferenced:
  both are \<^term>\<open>None\<close>.\<close>

definition getArg :: "OperationBody \<Rightarrow> nat \<Rightarrow> SimpleString option" where
  "getArg self position =
     (case args self of None \<Rightarrow> None
      | Some as \<Rightarrow> if position < length as then Some (as ! position) else None)"

definition getArgOr :: "OperationBody \<Rightarrow> nat \<Rightarrow> SimpleString \<Rightarrow> SimpleString option" where
  "getArgOr self position other =
     (case args self of None \<Rightarrow> None
      | Some as \<Rightarrow> if position < length as then Some (as ! position) else Some other)"

definition getDoubleArgU64 :: "OperationBody \<Rightarrow> nat \<Rightarrow> u64 option" where
  "getDoubleArgU64 self start =
     Option.bind (getArg self start) (\<lambda>a1. Option.bind (ss_to a1) (\<lambda>(part1 :: u32).
     Option.bind (getArg self (start + 1)) (\<lambda>a2. Option.bind (ss_to a2) (\<lambda>(part2 :: u32).
       Some (push_bit 32 (ucast part1) OR ucast part2)))))"

text \<open>The guard of \<^verbatim>\<open>setArg\<close> lets \<open>position = size\<close> through to a write one past the
  end, which is undefined.\<close>

definition setArg :: "OperationBody \<Rightarrow> nat \<Rightarrow> SimpleString \<Rightarrow> OperationBody option" where
  "setArg self position newArg =
     (case args self of None \<Rightarrow> None
      | Some as \<Rightarrow>
          if position > length as then Some (self\<lparr>args := Some (as @ [newArg])\<rparr>)
          else if position < length as then Some (self\<lparr>args := Some (as[position := newArg])\<rparr>)
          else None)"

section \<open>RequestBuilder\<close>

record RequestBuilder =
  b_authKey :: bytes
  b_authFlag1 :: bool
  b_authFlag2 :: bool
  b_requestNumber :: memdbRequestNumber_t
  b_operatorNumber :: u8
  b_operatorFlag1 :: bool
  b_operatorFlag2 :: bool
  b_nodeId :: memdbNodeId_t
  b_timestamp :: u64
  b_args :: "SimpleString list"

text \<open>\<open>op0\<close> is the indeterminate initial value of \<^verbatim>\<open>_operatorNumber\<close>.\<close>

definition rb_builder :: "u8 \<Rightarrow> RequestBuilder" where
  "rb_builder op0 = \<lparr>b_authKey = [], b_authFlag1 = False, b_authFlag2 = False, b_requestNumber = 0,
     b_operatorNumber = op0, b_operatorFlag1 = False, b_operatorFlag2 = False, b_nodeId = 0,
     b_timestamp = 0, b_args = []\<rparr>"

definition rb_authKey :: "bytes \<Rightarrow> RequestBuilder \<Rightarrow> RequestBuilder" where
  "rb_authKey k b = b\<lparr>b_authKey := k\<rparr>"

definition rb_authFlag2 :: "bool \<Rightarrow> RequestBuilder \<Rightarrow> RequestBuilder" where
  "rb_authFlag2 v b = b\<lparr>b_authFlag2 := v\<rparr>"

definition rb_set_requestNumber :: "memdbRequestNumber_t \<Rightarrow> RequestBuilder \<Rightarrow> RequestBuilder" where
  "rb_set_requestNumber n b = b\<lparr>b_requestNumber := n\<rparr>"

definition rb_operatorNumber :: "u8 \<Rightarrow> RequestBuilder \<Rightarrow> RequestBuilder" where
  "rb_operatorNumber n b = b\<lparr>b_operatorNumber := n\<rparr>"

definition rb_operatorFlag1 :: "bool \<Rightarrow> RequestBuilder \<Rightarrow> RequestBuilder" where
  "rb_operatorFlag1 v b = b\<lparr>b_operatorFlag1 := v\<rparr>"

definition rb_operatorFlag2 :: "bool \<Rightarrow> RequestBuilder \<Rightarrow> RequestBuilder" where
  "rb_operatorFlag2 v b = b\<lparr>b_operatorFlag2 := v\<rparr>"

definition rb_set_timestamp :: "u64 \<Rightarrow> RequestBuilder \<Rightarrow> RequestBuilder" where
  "rb_set_timestamp ts b = b\<lparr>b_timestamp := ts\<rparr>"

definition rb_args :: "SimpleString list \<Rightarrow> RequestBuilder \<Rightarrow> RequestBuilder" where
  "rb_args as b = b\<lparr>b_args := as\<rparr>"

definition rb_auth :: "bytes \<Rightarrow> bool \<Rightarrow> bool \<Rightarrow> RequestBuilder \<Rightarrow> RequestBuilder" where
  "rb_auth k flag1 flag2 b = b\<lparr>b_authKey := k, b_authFlag1 := flag1, b_authFlag2 := flag2\<rparr>"

definition rb_selfNode :: "memdbNodeId_t \<Rightarrow> RequestBuilder \<Rightarrow> RequestBuilder" where
  "rb_selfNode n b = b\<lparr>b_authFlag1 := True, b_nodeId := n\<rparr>"

definition rb_addDoubleArg :: "u64 \<Rightarrow> RequestBuilder \<Rightarrow> RequestBuilder" where
  "rb_addDoubleArg arg b =
     (let part1 = ucast (drop_bit 32 arg) :: u32;
          part2 = (ucast arg :: u32) AND 0xFFFFFFFF
      in b\<lparr>b_args := (b_args b @ [fromNumber part1]) @ [fromNumber part2]\<rparr>)"

definition rb_addArg :: "SimpleString \<Rightarrow> RequestBuilder \<Rightarrow> RequestBuilder" where
  "rb_addArg arg b = b\<lparr>b_args := b_args b @ [arg]\<rparr>"

definition buildOperationBody :: "RequestBuilder \<Rightarrow> OperationBody" where
  "buildOperationBody b = \<lparr>args = Some (b_args b), timestamp = b_timestamp b, op_nodeId = b_nodeId b,
     operatorNumber = b_operatorNumber b, op_flag1 = b_operatorFlag1 b, op_flag2 = b_operatorFlag2 b\<rparr>"

definition rb_build :: "RequestBuilder \<Rightarrow> Request" where
  "rb_build b = \<lparr>authentication = \<lparr>authKey = b_authKey b, auth_flag1 = b_authFlag1 b,
        auth_flag2 = b_authFlag2 b\<rparr>,
     operation = buildOperationBody b, requestNumber = b_requestNumber b\<rparr>"

section \<open>RequestSerializer\<close>

definition with_flags :: "u8 \<Rightarrow> bool \<Rightarrow> bool \<Rightarrow> u8" where
  "with_flags v flag1 flag2 = push_bit 2 v OR push_bit 1 (of_bool flag1) OR of_bool flag2"

definition serialize_arg :: "SimpleString \<Rightarrow> bytes \<Rightarrow> bytes" where
  "serialize_arg arg out = appendToBuffer (ss_size arg) out @ take (unat (ss_size arg)) arg"

definition serialize_request :: "Request \<Rightarrow> bytes option" where
  "serialize_request request =
     (let auth = authentication request;
          op = operation request;
          out = appendToBuffer (requestNumber request) [];
          out = out @ [with_flags (word_of_nat (length (authKey auth))) (auth_flag1 auth) (auth_flag2 auth)];
          out = out @ authKey auth;
          out = out @ [with_flags (operatorNumber op) (op_flag1 op) (op_flag2 op)];
          out = appendToBuffer (timestamp op) out;
          out = (if auth_flag1 auth then appendToBuffer (op_nodeId op) out else out)
      in map_option (\<lambda>as. foldl (\<lambda>acc arg. serialize_arg arg acc) out as) (args op))"

section \<open>RequestDeserializer\<close>

definition buffer_at :: "bytes \<Rightarrow> nat \<Rightarrow> u8 option" where
  "buffer_at buffer pos = (if pos < length buffer then Some (buffer ! pos) else None)"

definition getValueWithoutFlags :: "bytes \<Rightarrow> nat \<Rightarrow> u8 option" where
  "getValueWithoutFlags buffer pos = map_option (drop_bit 2) (buffer_at buffer pos)"

definition getFlag :: "bytes \<Rightarrow> nat \<Rightarrow> u8 \<Rightarrow> bool option" where
  "getFlag buffer pos flagMask =
     map_option (\<lambda>b. (push_bit 4 (ucast b :: u32) AND ucast flagMask) \<noteq> 0) (buffer_at buffer pos)"

definition FLAG1_MASK :: u8 where "FLAG1_MASK = 0x20"
definition FLAG2_MASK :: u8 where "FLAG2_MASK = 0x10"

text \<open>The positions are numbers where the loop counts with \<^verbatim>\<open>int\<close>: the same for buffers of less than \<open>2 ^ 31\<close> bytes.\<close>

definition req_fill :: "bytes \<Rightarrow> nat \<Rightarrow> nat \<Rightarrow> bytes option" where
  "req_fill buffer initialPos endPos =
     (if endPos \<le> length buffer then Some (map (\<lambda>i. buffer ! i) [initialPos..<endPos]) else None)"

definition deserializeAuthenticacion :: "bytes \<Rightarrow> AuthenticationBody option" where
  "deserializeAuthenticacion buffer =
     Option.bind (getValueWithoutFlags buffer 4) (\<lambda>authLength.
     Option.bind (req_fill buffer (4 + 1) (4 + unat authLength + 1)) (\<lambda>k.
     Option.bind (getFlag buffer 4 FLAG1_MASK) (\<lambda>flagAuth1.
     Option.bind (getFlag buffer 4 FLAG2_MASK) (\<lambda>flagAuth2.
       Some \<lparr>authKey = k, auth_flag1 = flagAuth1, auth_flag2 = flagAuth2\<rparr>))))"

text \<open>The loop of \<^verbatim>\<open>deserializeOperation\<close>: a zero length ends it.\<close>

function deserialize_args :: "(u32 \<Rightarrow> nat \<Rightarrow> u32) \<Rightarrow> bytes \<Rightarrow> nat \<Rightarrow> SimpleString list \<Rightarrow>
    SimpleString list option" where
  "deserialize_args ub_shl buffer position arguments =
     (if position + 1 < length buffer
      then Option.bind (parseFromBuffer ub_shl buffer position) (\<lambda>(argLength :: u32).
           let position = position + 4
           in if argLength = 0 then Some arguments
              else Option.bind (req_fill buffer position (position + unat argLength)) (\<lambda>argValue.
                deserialize_args ub_shl buffer (position + unat argLength) (arguments @ [argValue])))
      else Some arguments)"
  by pat_completeness auto
termination by (relation "measure (\<lambda>(ub, buffer, position, arguments). length buffer - position)") auto

declare deserialize_args.simps [simp del]

definition deserializeOperation :: "(u32 \<Rightarrow> nat \<Rightarrow> u32) \<Rightarrow> bytes \<Rightarrow> nat \<Rightarrow> bool \<Rightarrow> OperationBody option" where
  "deserializeOperation ub_shl buffer position includesNodeId =
     Option.bind (getValueWithoutFlags buffer position) (\<lambda>opNumber.
     Option.bind (getFlag buffer position FLAG1_MASK) (\<lambda>flagOperation1.
     Option.bind (getFlag buffer position FLAG2_MASK) (\<lambda>flagOperation2.
     let position = position + 1
     in Option.bind (parseFromBuffer ub_shl buffer position) (\<lambda>ts.
     let position = position + 8
     in Option.bind (if includesNodeId then parseFromBuffer ub_shl buffer position else Some 1) (\<lambda>nId.
     let position = (if includesNodeId then position + 2 else position)
     in if position = length buffer - 1
        then Some \<lparr>args = None, timestamp = ts, op_nodeId = nId, operatorNumber = opNumber,
                   op_flag1 = flagOperation1, op_flag2 = flagOperation2\<rparr>
        else Option.bind (deserialize_args ub_shl buffer position []) (\<lambda>arguments.
          Some \<lparr>args = Some arguments, timestamp = ts, op_nodeId = nId, operatorNumber = opNumber,
                op_flag1 = flagOperation1, op_flag2 = flagOperation2\<rparr>))))))"

definition deserialize_request :: "(u32 \<Rightarrow> nat \<Rightarrow> u32) \<Rightarrow> bytes \<Rightarrow> Request option" where
  "deserialize_request ub_shl buffer =
     Option.bind (parseFromBuffer ub_shl buffer 0) (\<lambda>n.
     Option.bind (deserializeAuthenticacion buffer) (\<lambda>auth.
     Option.bind (deserializeOperation ub_shl buffer (unat (auth_getTotalLength auth) + 4) (auth_flag1 auth)) (\<lambda>op.
       Some \<lparr>authentication = auth, operation = op, requestNumber = n\<rparr>)))"

section \<open>Responses\<close>

definition AUTH_ERROR :: u8 where "AUTH_ERROR = 0"
definition UNKNOWN_KEY :: u8 where "UNKNOWN_KEY = 1"
definition UNKNOWN_OPERATOR :: u8 where "UNKNOWN_OPERATOR = 2"
definition ALREADY_REPLICATED :: u8 where "ALREADY_REPLICATED = 3"
definition NOT_AUTHORIZED :: u8 where "NOT_AUTHORIZED = 4"
definition INVALID_NODE_STATE :: u8 where "INVALID_NODE_STATE = 5"
definition INVALID_PARTITION :: u8 where "INVALID_PARTITION = 6"
definition INVALID_CALL :: u8 where "INVALID_CALL = 7"
definition SYNC_OP_LOG_EOF :: u8 where "SYNC_OP_LOG_EOF = 8"
definition UNFIXABLE_CORRUPTED_OPLOG_SEGMENT :: u8 where "UNFIXABLE_CORRUPTED_OPLOG_SEGMENT = 9"
definition CAS_FAILED :: u8 where "CAS_FAILED = 10"
definition NODE_NOT_FOUND :: u8 where "NODE_NOT_FOUND = 11"
definition INVALID_TYPE :: u8 where "INVALID_TYPE = 12"

record Response =
  responseValue :: SimpleString
  resp_requestNumber :: memdbRequestNumber_t
  resp_timestamp :: LamportClock
  errorCode :: u8
  isSuccessful :: bool

definition resp_getTotalLength :: "Response \<Rightarrow> memDbDataLength_t" where
  "resp_getTotalLength r =
     4 + 8 + 2 + 1 + (if ss_size (responseValue r) > 0 then 4 + ss_size (responseValue r) else 4)"

definition hasErrorCode :: "Response \<Rightarrow> u8 \<Rightarrow> bool" where
  "hasErrorCode r errorCodeToCheck \<longleftrightarrow> (drop_bit 1 (errorCode r) AND errorCodeToCheck) = errorCodeToCheck"

definition getResponseValueAtOffset :: "Response \<Rightarrow> nat \<Rightarrow> nat \<Rightarrow> SimpleString option" where
  "getResponseValueAtOffset r initOffset len =
     (if initOffset + len \<le> length (responseValue r)
      then Some (map (\<lambda>i. responseValue r ! (initOffset + i)) [0..<len]) else None)"

definition success_value :: "SimpleString \<Rightarrow> LamportClock \<Rightarrow> Response" where
  "success_value v ts = \<lparr>responseValue = v, resp_requestNumber = 0, resp_timestamp = ts,
     errorCode = 0, isSuccessful = True\<rparr>"

definition success :: "LamportClock \<Rightarrow> Response" where
  "success ts = \<lparr>responseValue = [], resp_requestNumber = 0, resp_timestamp = ts,
     errorCode = 0, isSuccessful = True\<rparr>"

definition error :: "u8 \<Rightarrow> Response" where
  "error code = \<lparr>responseValue = [], resp_requestNumber = 0, resp_timestamp = LamportClock 0 0,
     errorCode = code, isSuccessful = False\<rparr>"

definition error_at :: "u8 \<Rightarrow> memdbRequestNumber_t \<Rightarrow> LamportClock \<Rightarrow> Response" where
  "error_at code reqNumber ts = \<lparr>responseValue = [], resp_requestNumber = reqNumber,
     resp_timestamp = ts, errorCode = code, isSuccessful = False\<rparr>"

record ResponseBuilder =
  rb_timestamp :: LamportClock
  rb_errorCode :: u8
  rb_isSuccessful :: bool
  rb_requestNumber :: memdbRequestNumber_t
  rb_responseValue :: "SimpleString list"

definition resb_timestamp :: "LamportClock \<Rightarrow> ResponseBuilder \<Rightarrow> ResponseBuilder" where
  "resb_timestamp ts b = b\<lparr>rb_timestamp := ts\<rparr>"

definition resb_timestampCounter :: "u64 \<Rightarrow> ResponseBuilder \<Rightarrow> ResponseBuilder" where
  "resb_timestampCounter n b = b\<lparr>rb_timestamp := LamportClock 0 n\<rparr>"

definition resb_error :: "u8 \<Rightarrow> ResponseBuilder \<Rightarrow> ResponseBuilder" where
  "resb_error code b = b\<lparr>rb_errorCode := code, rb_isSuccessful := False\<rparr>"

definition resb_success :: "ResponseBuilder \<Rightarrow> ResponseBuilder" where
  "resb_success b = b\<lparr>rb_isSuccessful := True\<rparr>"

definition resb_requestNumber :: "memdbRequestNumber_t \<Rightarrow> ResponseBuilder \<Rightarrow> ResponseBuilder" where
  "resb_requestNumber n b = b\<lparr>rb_requestNumber := n\<rparr>"

definition resb_isSuccessful :: "bool \<Rightarrow> u8 \<Rightarrow> ResponseBuilder \<Rightarrow> ResponseBuilder" where
  "resb_isSuccessful ok codeIfUnsuccessful b =
     (let b = b\<lparr>rb_isSuccessful := ok\<rparr>
      in if \<not> ok then b\<lparr>rb_errorCode := codeIfUnsuccessful\<rparr> else b)"

definition resb_value :: "SimpleString \<Rightarrow> ResponseBuilder \<Rightarrow> ResponseBuilder" where
  "resb_value v b = b\<lparr>rb_responseValue := rb_responseValue b @ [v]\<rparr>"

definition resb_valueIfSuccessful :: "bool \<Rightarrow> SimpleString \<Rightarrow> ResponseBuilder \<Rightarrow> ResponseBuilder" where
  "resb_valueIfSuccessful ok v b =
     (if ok then b\<lparr>rb_responseValue := rb_responseValue b @ [v]\<rparr> else b)"

definition resb_values :: "SimpleString list \<Rightarrow> ResponseBuilder \<Rightarrow> ResponseBuilder" where
  "resb_values vs b = b\<lparr>rb_responseValue := vs\<rparr>"

definition buildResponseValue :: "ResponseBuilder \<Rightarrow> SimpleString" where
  "buildResponseValue b =
     (if rb_responseValue b = [] then fromNumber (0 :: u32)
      else if length (rb_responseValue b) > 1 then fromSimpleStrings (rb_responseValue b)
      else rb_responseValue b ! 0)"

definition resb_build :: "ResponseBuilder \<Rightarrow> Response" where
  "resb_build b = \<lparr>responseValue = buildResponseValue b, resp_requestNumber = rb_requestNumber b,
     resp_timestamp = rb_timestamp b, errorCode = rb_errorCode b, isSuccessful = rb_isSuccessful b\<rparr>"

definition serialize_response :: "Response \<Rightarrow> bytes" where
  "serialize_response r =
     (let out = appendToBuffer (resp_requestNumber r) [];
          out = appendToBuffer (counter (resp_timestamp r)) out;
          out = appendToBuffer (nodeId (resp_timestamp r)) out;
          out = out @ [push_bit 1 (errorCode r) OR of_bool (isSuccessful r)];
          out = appendToBuffer (ss_size (responseValue r)) out
      in out @ take (unat (ss_size (responseValue r))) (responseValue r))"

text \<open>The length test of \<^verbatim>\<open>deserialize\<close> asks for 17 bytes where the fixed part has 19. A
  response whose length field exceeds the received body would be read outside its buffer.\<close>

datatype response_parse = ParseError | ParseOk Response

definition deserialize_response :: "(u32 \<Rightarrow> nat \<Rightarrow> u32) \<Rightarrow> bytes \<Rightarrow> response_parse option" where
  "deserialize_response ub_shl buffer =
     (if 4 + 8 + 1 + 4 > length buffer then Some ParseError
      else
        Option.bind (parseFromBuffer ub_shl buffer 0) (\<lambda>reqNumber.
        Option.bind (parseFromBuffer ub_shl buffer 4) (\<lambda>timestampCounter.
        Option.bind (parseFromBuffer ub_shl buffer (4 + 8)) (\<lambda>timestampNodeId.
        let ts = LamportClock timestampNodeId timestampCounter
        in Option.bind (buffer_at buffer (8 + 2 + 4)) (\<lambda>b.
        let ok = (push_bit 7 b \<noteq> 0); code = drop_bit 1 b
        in Option.bind (parseFromBuffer ub_shl buffer (8 + 2 + 4 + 1)) (\<lambda>(lengthResponse :: u32).
        Option.bind (copyFromBuffer buffer (8 + 2 + 4 + 1 + 4) (length buffer - 1)) (\<lambda>body.
        if unat lengthResponse \<le> length body
        then Some (ParseOk \<lparr>responseValue = take (unat lengthResponse) body, resp_requestNumber = reqNumber,
               resp_timestamp = ts, errorCode = code, isSuccessful = ok\<rparr>)
        else None)))))))"

section \<open>Bytes with flags\<close>

lemma buffer_at_middle [simp]: "buffer_at (pre @ b # rest) (length pre) = Some b"
  by (simp add: buffer_at_def)

lemma drop_bit_with_flags:
  assumes "unat v < 64" shows "drop_bit 2 (with_flags v f1 f2) = v"
proof (rule bit_word_eqI)
  fix n
  have "\<not> bit v k" if "6 \<le> k" for k using not_bit_of_less [of v 6 k] assms that by simp
  then show "bit (drop_bit 2 (with_flags v f1 f2)) n \<longleftrightarrow> bit v n"
    by (cases "n < 6") (auto simp: with_flags_def bit_simps)
qed

lemma flag_with_flags:
  "(push_bit 4 (ucast (with_flags v f1 f2) :: u32) AND ucast FLAG1_MASK) \<noteq> 0 \<longleftrightarrow> f1"
  "(push_bit 4 (ucast (with_flags v f1 f2) :: u32) AND ucast FLAG2_MASK) \<noteq> 0 \<longleftrightarrow> f2"
proof -
  have m1: "(ucast FLAG1_MASK :: u32) = push_bit 5 1" and m2: "(ucast FLAG2_MASK :: u32) = push_bit 4 1"
    by (simp_all add: FLAG1_MASK_def FLAG2_MASK_def)
  show "(push_bit 4 (ucast (with_flags v f1 f2) :: u32) AND ucast FLAG1_MASK) \<noteq> 0 \<longleftrightarrow> f1"
    "(push_bit 4 (ucast (with_flags v f1 f2) :: u32) AND ucast FLAG2_MASK) \<noteq> 0 \<longleftrightarrow> f2"
    unfolding m1 m2 bit_iff_and_push_bit_not_eq_0 [symmetric]
    by (simp_all add: with_flags_def bit_simps)
qed

lemma getValueWithoutFlags_at:
  "unat v < 64 \<Longrightarrow> getValueWithoutFlags (pre @ with_flags v f1 f2 # rest) (length pre) = Some v"
  by (simp add: getValueWithoutFlags_def drop_bit_with_flags)

lemma getFlag_at:
  "getFlag (pre @ with_flags v f1 f2 # rest) (length pre) FLAG1_MASK = Some f1"
  "getFlag (pre @ with_flags v f1 f2 # rest) (length pre) FLAG2_MASK = Some f2"
  by (simp_all add: getFlag_def flag_with_flags)

section \<open>Round trip of requests\<close>

lemma req_fill_at: "req_fill (pre @ xs @ rest) (length pre) (length pre + length xs) = Some xs"
  by (auto simp: req_fill_def nth_append intro!: nth_equalityI)

definition arg_bytes :: "SimpleString \<Rightarrow> bytes" where
  "arg_bytes a = fromNumber (ss_size a) @ a"

lemma unat_ss_size: "length a < 2 ^ 32 \<Longrightarrow> unat (ss_size a) = length a"
  by (simp add: ss_size_def unat_of_nat_less)

lemma foldl_serialize_arg:
  assumes "\<forall>a \<in> set as. length a < 2 ^ 32"
  shows "foldl (\<lambda>acc arg. serialize_arg arg acc) out as = out @ concat (map arg_bytes as)"
  using assms
  by (induction as arbitrary: out)
    (auto simp: serialize_arg_def appendToBuffer_eq arg_bytes_def unat_ss_size)

lemma deserialize_args_concat:
  assumes "\<forall>a \<in> set as. length a < 2 ^ 32"
  shows "deserialize_args ub (pre @ concat (map arg_bytes as)) (length pre) acc =
    Some (acc @ takeWhile (\<lambda>a. a \<noteq> []) as)"
  using assms
proof (induction as arbitrary: pre acc)
  case Nil
  then show ?case by (simp add: deserialize_args.simps)
next
  case (Cons a as)
  let ?rest = "concat (map arg_bytes as)"
  let ?buf = "pre @ fromNumber (ss_size a) @ a @ ?rest"
  have buf: "pre @ concat (map arg_bytes (a # as)) = ?buf" by (simp add: arg_bytes_def)
  have len: "parseFromBuffer ub ?buf (length pre) = Some (ss_size a)"
    by (rule parseFromBuffer_fromNumber) simp_all
  have size: "unat (ss_size a) = length a" using Cons.prems by (simp add: unat_ss_size)
  then have zero: "ss_size a = 0 \<longleftrightarrow> a = []" by (metis length_0_conv unat_eq_zero)
  have fill: "req_fill ?buf (length pre + 4) (length pre + 4 + length a) = Some a"
    using req_fill_at [of "pre @ fromNumber (ss_size a)" a ?rest] by (simp add: add.assoc)
  have rec: "deserialize_args ub ?buf (length pre + 4 + length a) (acc @ [a]) =
      Some ((acc @ [a]) @ takeWhile (\<lambda>a. a \<noteq> []) as)"
    using Cons.IH [of "pre @ fromNumber (ss_size a) @ a" "acc @ [a]"] Cons.prems
    by (simp add: add.assoc)
  show ?case
    unfolding buf by (subst deserialize_args.simps) (simp add: len size zero fill rec Let_def)
qed

definition request_bytes :: "Request \<Rightarrow> SimpleString list \<Rightarrow> bytes" where
  "request_bytes r as =
     fromNumber (requestNumber r) @
     with_flags (word_of_nat (length (authKey (authentication r)))) (auth_flag1 (authentication r))
       (auth_flag2 (authentication r)) #
     authKey (authentication r) @
     with_flags (operatorNumber (operation r)) (op_flag1 (operation r)) (op_flag2 (operation r)) #
     fromNumber (timestamp (operation r)) @
     (if auth_flag1 (authentication r) then fromNumber (op_nodeId (operation r)) else []) @
     concat (map arg_bytes as)"

lemma serialize_request_bytes:
  assumes "args (operation r) = Some as" and "\<forall>a \<in> set as. length a < 2 ^ 32"
  shows "serialize_request r = Some (request_bytes r as)"
  using assms
  by (simp add: serialize_request_def request_bytes_def Let_def appendToBuffer_eq foldl_serialize_arg)

lemma deserializeAuthenticacion_at:
  assumes "length n = 4" and "length k < 64"
  shows "deserializeAuthenticacion (n @ with_flags (word_of_nat (length k)) f1 f2 # k @ rest) =
    Some \<lparr>authKey = k, auth_flag1 = f1, auth_flag2 = f2\<rparr>"
proof -
  let ?w = "with_flags (word_of_nat (length k)) f1 f2"
  let ?buf = "n @ ?w # k @ rest"
  have len: "unat (word_of_nat (length k) :: u8) = length k"
    using assms(2) by (intro unat_of_nat_less) simp
  have "req_fill ?buf 5 (5 + length k) = Some k"
    using req_fill_at [of "n @ [?w]" k rest] assms(1) by simp
  moreover have "getValueWithoutFlags ?buf 4 = Some (word_of_nat (length k))"
    using getValueWithoutFlags_at [of "word_of_nat (length k)" n f1 f2 "k @ rest"] assms len by simp
  moreover have "getFlag ?buf 4 FLAG1_MASK = Some f1" "getFlag ?buf 4 FLAG2_MASK = Some f2"
    using getFlag_at [of n _ f1 f2 "k @ rest"] assms(1) by simp_all
  ultimately show ?thesis by (simp add: deserializeAuthenticacion_def len)
qed

lemma deserializeOperation_at:
  fixes ts :: u64
  assumes op: "unat op < 64" and ts: "unat ts < 2 ^ 31" and zero: "shl_keeps_zero ub"
    and as: "\<forall>a \<in> set as. length a < 2 ^ 32"
  shows "deserializeOperation ub (pre @ with_flags op f1 f2 # fromNumber ts @
      (if inc then fromNumber nid else []) @ concat (map arg_bytes as)) (length pre) inc =
    Some \<lparr>args = Some (takeWhile (\<lambda>a. a \<noteq> []) as), timestamp = ts,
      op_nodeId = (if inc then nid else 1), operatorNumber = op, op_flag1 = f1, op_flag2 = f2\<rparr>"
proof -
  let ?nid = "if inc then fromNumber nid else []"
  let ?tail = "concat (map arg_bytes as)"
  let ?buf = "pre @ with_flags op f1 f2 # fromNumber ts @ ?nid @ ?tail"
  let ?pos = "length pre + 9 + length ?nid"
  have ts_at: "parseFromBuffer ub ?buf (length pre + 1) = Some ts"
    using parseFromBuffer_small_u64 [where pre = "pre @ [with_flags op f1 f2]" and rest = "?nid @ ?tail",
        OF ts zero refl] by simp
  have nid_at: "inc \<Longrightarrow> parseFromBuffer ub ?buf (length pre + 9) = Some nid"
    using parseFromBuffer_fromNumber [where pre = "pre @ with_flags op f1 f2 # fromNumber ts"
        and rest = ?tail and w = nid and ub = ub and pos = "length pre + 9"] by simp
  have args_at: "deserialize_args ub ?buf ?pos [] = Some (takeWhile (\<lambda>a. a \<noteq> []) as)"
    using deserialize_args_concat [OF as, of ub "pre @ with_flags op f1 f2 # fromNumber ts @ ?nid" "[]"]
    by (simp add: add.assoc)
  have not_one_left: "?pos \<noteq> length ?buf - 1"
    by (cases as) (auto simp: arg_bytes_def)
  show ?thesis
    using ts_at nid_at args_at not_one_left op
    by (cases inc) (simp_all add: deserializeOperation_def getValueWithoutFlags_at getFlag_at Let_def
        add.commute)
qed

lemma deserialize_request_bytes:
  assumes key: "length (authKey (authentication r)) < 64" and op: "unat (operatorNumber (operation r)) < 64"
    and ts: "unat (timestamp (operation r)) < 2 ^ 31" and zero: "shl_keeps_zero ub"
    and as: "\<forall>a \<in> set as. length a < 2 ^ 32"
  shows "deserialize_request ub (request_bytes r as) =
    Some (r\<lparr>operation := (operation r)\<lparr>args := Some (takeWhile (\<lambda>a. a \<noteq> []) as),
      op_nodeId := (if auth_flag1 (authentication r) then op_nodeId (operation r) else 1)\<rparr>\<rparr>)"
proof -
  let ?auth = "authentication r" and ?op = "operation r"
  let ?k = "authKey ?auth"
  let ?wa = "with_flags (word_of_nat (length ?k)) (auth_flag1 ?auth) (auth_flag2 ?auth)"
  let ?pre = "fromNumber (requestNumber r) @ ?wa # ?k"
  let ?rest = "with_flags (operatorNumber ?op) (op_flag1 ?op) (op_flag2 ?op) # fromNumber (timestamp ?op) @
     (if auth_flag1 ?auth then fromNumber (op_nodeId ?op) else []) @ concat (map arg_bytes as)"
  have buf: "request_bytes r as = ?pre @ ?rest" by (simp add: request_bytes_def)
  have n: "parseFromBuffer ub (?pre @ ?rest) 0 = Some (requestNumber r)"
    using parseFromBuffer_fromNumber [where pre = "[]" and pos = 0 and w = "requestNumber r" and ub = ub
        and rest = "?wa # ?k @ ?rest"] by simp
  have a: "deserializeAuthenticacion (?pre @ ?rest) =
      Some \<lparr>authKey = ?k, auth_flag1 = auth_flag1 ?auth, auth_flag2 = auth_flag2 ?auth\<rparr>"
    using deserializeAuthenticacion_at [OF _ key, where n = "fromNumber (requestNumber r)" and rest = ?rest]
    by simp
  have "unat (auth_getTotalLength ?auth) + 4 = length ?pre"
    using key by (simp add: auth_getTotalLength_def unat_word_ariths unat_of_nat_less)
  then have pos: "unat (auth_getTotalLength \<lparr>authKey = ?k, auth_flag1 = auth_flag1 ?auth,
      auth_flag2 = auth_flag2 ?auth\<rparr>) + 4 = length ?pre" by (simp add: auth_getTotalLength_def)
  show ?thesis
    using a n deserializeOperation_at [OF op ts zero as, of ?pre "op_flag1 ?op" "op_flag2 ?op"
        "auth_flag1 ?auth" "op_nodeId ?op"]
    unfolding deserialize_request_def buf by (simp add: pos [simplified])
qed

section \<open>Round trip of responses\<close>

lemma parse_status_byte:
  assumes "unat code < 128"
  shows "drop_bit 1 (push_bit 1 code OR of_bool ok :: u8) = code"
    and "push_bit 7 (push_bit 1 code OR of_bool ok :: u8) \<noteq> 0 \<longleftrightarrow> ok"
proof -
  have nb: "\<not> bit code k" if "7 \<le> k" for k using not_bit_of_less [of code 7 k] assms that by simp
  show "drop_bit 1 (push_bit 1 code OR of_bool ok :: u8) = code"
  proof (rule bit_word_eqI)
    fix n show "bit (drop_bit 1 (push_bit 1 code OR of_bool ok :: u8)) n \<longleftrightarrow> bit code n"
      using nb [of n] by (cases "n < 7") (auto simp: bit_simps mult.commute [of code] bit_double_iff)
  qed
  have "push_bit 7 (push_bit 1 code OR of_bool ok :: u8) = push_bit 7 (of_bool ok)"
    by (rule bit_word_eqI) (auto simp: bit_simps mult.commute [of code] bit_double_iff)
  then show "push_bit 7 (push_bit 1 code OR of_bool ok :: u8) \<noteq> 0 \<longleftrightarrow> ok" by simp
qed

definition response_header :: "Response \<Rightarrow> bytes" where
  "response_header r = fromNumber (resp_requestNumber r) @ fromNumber (counter (resp_timestamp r)) @
     fromNumber (nodeId (resp_timestamp r))"

lemma serialize_response_bytes:
  assumes "length (responseValue r) < 2 ^ 32"
  shows "serialize_response r = response_header r @
    (push_bit 1 (errorCode r) OR of_bool (isSuccessful r)) # fromNumber (ss_size (responseValue r)) @ responseValue r"
  using assms by (simp add: serialize_response_def response_header_def appendToBuffer_eq Let_def unat_ss_size)

lemma deserialize_response_bytes:
  assumes val: "length (responseValue r) < 2 ^ 32" and code: "unat (errorCode r) < 128"
    and ts: "unat (counter (resp_timestamp r)) < 2 ^ 31" and zero: "shl_keeps_zero ub"
  shows "deserialize_response ub (serialize_response r) = Some (ParseOk r)"
proof -
  let ?v = "responseValue r" and ?c = "counter (resp_timestamp r)" and ?n = "nodeId (resp_timestamp r)"
  let ?b = "push_bit 1 (errorCode r) OR of_bool (isSuccessful r)"
  let ?tail = "?b # fromNumber (ss_size ?v) @ ?v"
  let ?buf = "response_header r @ ?tail"
  have len: "length (response_header r) = 14" by (simp add: response_header_def)
  have rn: "parseFromBuffer ub ?buf 0 = Some (resp_requestNumber r)"
    using parseFromBuffer_fromNumber [where pre = "[]" and pos = 0 and w = "resp_requestNumber r" and ub = ub
        and rest = "fromNumber ?c @ fromNumber ?n @ ?tail"] by (simp add: response_header_def)
  have tc: "parseFromBuffer ub ?buf 4 = Some ?c"
    using parseFromBuffer_small_u64 [OF ts zero, where pre = "fromNumber (resp_requestNumber r)" and pos = 4
        and rest = "fromNumber ?n @ ?tail"] by (simp add: response_header_def)
  have tn: "parseFromBuffer ub ?buf 12 = Some ?n"
    using parseFromBuffer_fromNumber [where pre = "fromNumber (resp_requestNumber r) @ fromNumber ?c" and ub = ub
        and pos = 12 and w = ?n and rest = ?tail] by (simp add: response_header_def)
  have st: "buffer_at ?buf 14 = Some ?b" using buffer_at_middle [of "response_header r"] len by simp
  have ln: "parseFromBuffer ub ?buf 15 = Some (ss_size ?v)"
    using parseFromBuffer_fromNumber [where pre = "response_header r @ [?b]" and pos = 15 and ub = ub
        and w = "ss_size ?v" and rest = ?v] len by simp
  have body: "copyFromBuffer ?buf 19 (length ?buf - 1) = Some ?v"
    using len by (simp add: copyFromBuffer_def)
  show ?thesis
    unfolding serialize_response_bytes [OF val] deserialize_response_def
    using rn tc tn st ln body len parse_status_byte [OF code] unat_ss_size [OF val]
    by (simp add: Let_def)
qed

section \<open>Double arguments\<close>

lemma getDoubleArg_after_add:
  "getDoubleArgU64 (buildOperationBody (rb_addDoubleArg v b)) (length (b_args b)) = Some v"
proof -
  have parts: "parse (fromNumber w :: bytes) = Some (w :: u32)" for w by (simp add: codec_simps)
  have low: "(w :: u32) AND 0xFFFFFFFF = w" for w
  proof -
    have "(0xFFFFFFFF :: u32) = -1" by simp
    then show ?thesis by (simp only: and_minus_numerals and.right_neutral)
  qed
  have "push_bit 32 (ucast (ucast (drop_bit 32 v) :: u32)) OR ucast (ucast v :: u32) = v"
  proof (rule bit_word_eqI)
    fix n assume "n < LENGTH(64)"
    then show "bit (push_bit 32 (ucast (ucast (drop_bit 32 v) :: u32)) OR ucast (ucast v :: u32) :: u64) n \<longleftrightarrow> bit v n"
      by (cases "n < 32") (auto simp: bit_simps)
  qed
  then show ?thesis
    by (simp add: getDoubleArgU64_def getArg_def buildOperationBody_def rb_addDoubleArg_def Let_def
        ss_to_def parts nth_append low)
qed

section \<open>Properties\<close>

text \<open>C28. Serializing a request and deserializing the bytes gives the request back, when the key is
  shorter than 64 bytes, the operator number is below 64 and the timestamp below \<open>2 ^ 31\<close>; a request
  that carries no node id comes back with node id 1, and the arguments come back up to the first
  empty one.\<close>

theorem request_roundtrip:
  assumes "args (operation r) = Some as" and "\<forall>a \<in> set as. length a < 2 ^ 32"
    and "length (authKey (authentication r)) < 64" and "unat (operatorNumber (operation r)) < 64"
    and "unat (timestamp (operation r)) < 2 ^ 31" and "shl_keeps_zero ub_shl"
  shows "Option.bind (serialize_request r) (deserialize_request ub_shl) =
    Some (r\<lparr>operation := (operation r)\<lparr>args := Some (takeWhile (\<lambda>a. a \<noteq> []) as),
      op_nodeId := (if auth_flag1 (authentication r) then op_nodeId (operation r) else 1)\<rparr>\<rparr>)"
  using assms by (simp add: serialize_request_bytes deserialize_request_bytes)

definition sample_request :: Request where
  "sample_request = \<lparr>authentication = \<lparr>authKey = [97, 98], auth_flag1 = True, auth_flag2 = False\<rparr>,
     operation = \<lparr>args = Some [[1, 2, 3], [255], [], [4]], timestamp = 77, op_nodeId = 300,
       operatorNumber = 18, op_flag1 = True, op_flag2 = False\<rparr>, requestNumber = 70000\<rparr>"

theorem request_roundtrip_witness:
  "\<exists>r. Option.bind (serialize_request sample_request)
       (deserialize_request (\<lambda>v k. push_bit (k mod 32) v)) = Some r \<and>
     args (operation r) = Some [[1, 2, 3], [255]] \<and> op_nodeId (operation r) = 300"
proof -
  have "shl_keeps_zero (\<lambda>v k. push_bit (k mod 32) v)" by (simp add: shl_keeps_zero_def)
  then show ?thesis
    using request_roundtrip [of sample_request "[[1, 2, 3], [255], [], [4]]" "\<lambda>v k. push_bit (k mod 32) v"]
    by (simp add: sample_request_def)
qed

text \<open>C29. Serializing a response and deserializing the bytes gives the same response, for error codes
  below 128 (all thirteen codes of \<^verbatim>\<open>ErrorCode.h\<close>) and a clock below \<open>2 ^ 31\<close>.\<close>

theorem response_roundtrip:
  assumes "length (responseValue r) < 2 ^ 32" and "unat (errorCode r) < 128"
    and "unat (counter (resp_timestamp r)) < 2 ^ 31" and "shl_keeps_zero ub_shl"
  shows "deserialize_response ub_shl (serialize_response r) = Some (ParseOk r)"
  using assms by (rule deserialize_response_bytes)

theorem response_roundtrip_witness:
  "deserialize_response (\<lambda>v k. push_bit (k mod 32) v)
     (serialize_response (error_at INVALID_TYPE 9 (LamportClock 3 500))) =
   Some (ParseOk (error_at INVALID_TYPE 9 (LamportClock 3 500)))"
  by (rule response_roundtrip) (simp_all add: error_at_def INVALID_TYPE_def shl_keeps_zero_def)

text \<open>\<^verbatim>\<open>hasErrorCode\<close> shifts the stored code before masking, although the deserializer
  has already shifted it: for a response that carries \<^verbatim>\<open>code\<close> it does not recognise
  \<^verbatim>\<open>code\<close>, whatever non-zero code of \<^verbatim>\<open>ErrorCode.h\<close> that is, and it answers true for
  \<^verbatim>\<open>AUTH_ERROR\<close> always.\<close>

theorem hasErrorCode_misses_codes:
  "(0 < code \<and> code \<le> INVALID_TYPE \<longrightarrow> \<not> hasErrorCode (error code) code) \<and>
   hasErrorCode r AUTH_ERROR"
proof (intro conjI impI)
  show "hasErrorCode r AUTH_ERROR" by (simp add: hasErrorCode_def AUTH_ERROR_def)
  assume code: "0 < code \<and> code \<le> INVALID_TYPE"
  have "drop_bit 1 code < code"
  proof -
    have "unat (drop_bit 1 code) = unat code div 2"
      by (simp add: drop_bit_eq_div unat_div)
    moreover have "0 < unat code" using code by (simp add: word_less_nat_alt)
    ultimately show ?thesis by (simp add: word_less_nat_alt)
  qed
  then have "(drop_bit 1 code AND code) \<noteq> code"
    by (metis and.commute leD word_and_le1)
  then show "\<not> hasErrorCode (error code) code" by (simp add: hasErrorCode_def error_def)
qed

theorem hasErrorCode_misses_codes_witness:
  "\<not> hasErrorCode (error NODE_NOT_FOUND) NODE_NOT_FOUND"
  using hasErrorCode_misses_codes [of NODE_NOT_FOUND] by (simp add: NODE_NOT_FOUND_def INVALID_TYPE_def)

end
