(* ===== verification/Counters.thy ===== *)
theory Counters
  imports Memdb_Prelude
begin

text \<open>
  The replicated counters of \<^verbatim>\<open>db/counters\<close>: one array slot of increments and one of
  decrements per node, the slots assigned by \<^verbatim>\<open>CounterArrayIndexMapper\<close>. An access outside
  the arrays is \<^term>\<open>None\<close>, and so is a signed addition that leaves the 64 bits of its type,
  which C++ leaves undefined.
\<close>

section \<open>CounterArrayIndexMapper\<close>

record CounterArrayIndexMapper =
  indexByNodeId :: "memdbNodeId_t \<rightharpoonup> nat"
  lastIndexAssigned :: int

definition new_mapper :: CounterArrayIndexMapper where
  "new_mapper = \<lparr>indexByNodeId = Map.empty, lastIndexAssigned = -1\<rparr>"

definition getIndex :: "memdbNodeId_t \<Rightarrow> CounterArrayIndexMapper \<Rightarrow> nat \<times> CounterArrayIndexMapper" where
  "getIndex n m =
     (case indexByNodeId m n of
        Some i \<Rightarrow> (i, m)
      | None \<Rightarrow>
          let newIndex = lastIndexAssigned m + 1
          in (nat newIndex, m\<lparr>indexByNodeId := (indexByNodeId m)(n \<mapsto> nat newIndex),
                              lastIndexAssigned := newIndex\<rparr>))"

section \<open>Counter\<close>

record Counter =
  arrayNodeIndexMapper :: CounterArrayIndexMapper
  nIncrements :: "int list"
  nDecrements :: "int list"
  ctr_selfNodeId :: memdbNodeId_t
  nNodes :: nat

record ReplicateCounterRequest =
  otherNodeId :: memdbNodeId_t
  isIncrement :: bool
  newValue :: int
  lastSeenSelfIncrement :: int
  lastSeenSelfDecrement :: int

record ReplicateCounterResponse =
  needsIncrementSync :: bool
  needsDecrementSync :: bool
  nIncrementToSync :: int
  nDecrementToSync :: int

definition new_Counter :: "memdbNodeId_t \<Rightarrow> nat \<Rightarrow> Counter" where
  "new_Counter self n = \<lparr>arrayNodeIndexMapper = new_mapper, nIncrements = replicate n 0,
     nDecrements = replicate n 0, ctr_selfNodeId = self, nNodes = n\<rparr>"

definition getIndexByNode :: "memdbNodeId_t \<Rightarrow> Counter \<Rightarrow> nat \<times> Counter" where
  "getIndexByNode n c =
     (let (i, m) = getIndex n (arrayNodeIndexMapper c) in (i, c\<lparr>arrayNodeIndexMapper := m\<rparr>))"

definition array_get :: "int list \<Rightarrow> nat \<Rightarrow> int option" where
  "array_get xs i = (if i < length xs then Some (xs ! i) else None)"

definition array_set :: "int list \<Rightarrow> nat \<Rightarrow> int \<Rightarrow> int list option" where
  "array_set xs i v = (if i < length xs then Some (xs[i := v]) else None)"

definition int64 :: "int \<Rightarrow> int option" where
  "int64 v = (if - (2 ^ 63) \<le> v \<and> v < 2 ^ 63 then Some v else None)"

definition increment :: "Counter \<Rightarrow> (int \<times> Counter) option" where
  "increment c =
     (let (i, c) = getIndexByNode (ctr_selfNodeId c) c
      in do { v \<leftarrow> array_get (nIncrements c) i;
              v \<leftarrow> int64 (v + 1);
              xs \<leftarrow> array_set (nIncrements c) i v;
              Some (v, c\<lparr>nIncrements := xs\<rparr>) })"

definition decrement :: "Counter \<Rightarrow> (int \<times> Counter) option" where
  "decrement c =
     (let (i, c) = getIndexByNode (ctr_selfNodeId c) c
      in do { v \<leftarrow> array_get (nDecrements c) i;
              v \<leftarrow> int64 (v + 1);
              xs \<leftarrow> array_set (nDecrements c) i v;
              Some (v, c\<lparr>nDecrements := xs\<rparr>) })"

definition maybeResizeCounters :: "nat \<Rightarrow> Counter \<Rightarrow> Counter" where
  "maybeResizeCounters index c =
     (if index \<ge> nNodes c
      then c\<lparr>nIncrements := nIncrements c @ replicate (index + 1 - nNodes c) 0,
             nDecrements := nDecrements c @ replicate (index + 1 - nNodes c) 0,
             nNodes := index + 1\<rparr>
      else c)"

definition syncIncrement :: "int \<Rightarrow> memdbNodeId_t \<Rightarrow> Counter \<Rightarrow> Counter option" where
  "syncIncrement valueToSync other c =
     (let (i, c) = getIndexByNode other c; c = maybeResizeCounters i c
      in do { v \<leftarrow> array_get (nIncrements c) i;
              if valueToSync > v
              then do { xs \<leftarrow> array_set (nIncrements c) i valueToSync; Some (c\<lparr>nIncrements := xs\<rparr>) }
              else Some c })"

definition syncDecrement :: "int \<Rightarrow> memdbNodeId_t \<Rightarrow> Counter \<Rightarrow> Counter option" where
  "syncDecrement valueToSync other c =
     (let (i, c) = getIndexByNode other c; c = maybeResizeCounters i c
      in do { v \<leftarrow> array_get (nDecrements c) i;
              if valueToSync > v
              then do { xs \<leftarrow> array_set (nDecrements c) i valueToSync; Some (c\<lparr>nDecrements := xs\<rparr>) }
              else Some c })"

text \<open>The sum that \<^verbatim>\<open>count\<close> returns, and the same loops with every addition inside the 64 bits of
  \<^verbatim>\<open>actualValue\<close>.\<close>

definition count :: "Counter \<Rightarrow> int" where
  "count c = foldl (\<lambda>v i. v - nDecrements c ! i)
               (foldl (\<lambda>v i. v + nIncrements c ! i) 0 [0..<nNodes c]) [0..<nNodes c]"

definition checked_count :: "Counter \<Rightarrow> int option" where
  "checked_count c =
     foldl (\<lambda>actualValue i. Option.bind actualValue (\<lambda>v. int64 (v - nDecrements c ! i)))
       (foldl (\<lambda>actualValue i. Option.bind actualValue (\<lambda>v. int64 (v + nIncrements c ! i)))
          (Some 0) [0..<nNodes c]) [0..<nNodes c]"

definition updateCounterFromReplication :: "ReplicateCounterRequest \<Rightarrow> Counter \<Rightarrow> Counter option" where
  "updateCounterFromReplication request c =
     (let (i, c) = getIndexByNode (otherNodeId request) c
      in if isIncrement request
         then do { v \<leftarrow> array_get (nIncrements c) i;
                   if v < newValue request
                   then do { xs \<leftarrow> array_set (nIncrements c) i (newValue request);
                             Some (c\<lparr>nIncrements := xs\<rparr>) }
                   else Some c }
         else do { v \<leftarrow> array_get (nDecrements c) i;
                   if v < newValue request
                   then do { xs \<leftarrow> array_set (nDecrements c) i (newValue request);
                             Some (c\<lparr>nDecrements := xs\<rparr>) }
                   else Some c })"

definition onReplicationCounter ::
  "ReplicateCounterRequest \<Rightarrow> Counter \<Rightarrow> (ReplicateCounterResponse \<times> Counter) option" where
  "onReplicationCounter request c =
     (let (i, c) = getIndexByNode (otherNodeId request) c; c = maybeResizeCounters i c
      in do { c \<leftarrow> updateCounterFromReplication request c;
              let (j, c) = getIndexByNode (ctr_selfNodeId c) c;
              inc \<leftarrow> array_get (nIncrements c) j;
              dec \<leftarrow> array_get (nDecrements c) j;
              Some (\<lparr>needsIncrementSync = lastSeenSelfIncrement request < inc,
                     needsDecrementSync = lastSeenSelfDecrement request < dec,
                     nIncrementToSync = (if lastSeenSelfIncrement request < inc then inc else 0),
                     nDecrementToSync = (if lastSeenSelfDecrement request < dec then dec else 0)\<rparr>, c) })"

text \<open>\<^verbatim>\<open>getLastSeen\<close> compares the node id, not the index, with the size of the arrays; it also
  assigns an index to a node it has not seen.\<close>

definition getLastSeen :: "memdbNodeId_t \<Rightarrow> Counter \<Rightarrow> ((int \<times> int) \<times> Counter) option" where
  "getLastSeen n c =
     (if unat n \<ge> nNodes c then Some ((0, 0), c)
      else let (i, c) = getIndexByNode n c
           in do { inc \<leftarrow> array_get (nIncrements c) i;
                   dec \<leftarrow> array_get (nDecrements c) i;
                   Some ((inc, dec), c) })"

section \<open>Invariant and abstraction\<close>

text \<open>The assigned indices are those from zero to the last one assigned, each given to one node;
  the arrays have one slot for each of \<^verbatim>\<open>nNodes\<close>.\<close>

definition mapper_ok :: "CounterArrayIndexMapper \<Rightarrow> bool" where
  "mapper_ok m \<longleftrightarrow> finite (dom (indexByNodeId m)) \<and> inj_on (indexByNodeId m) (dom (indexByNodeId m)) \<and>
     lastIndexAssigned m = int (card (dom (indexByNodeId m))) - 1 \<and>
     (\<forall>n i. indexByNodeId m n = Some i \<longrightarrow> i < card (dom (indexByNodeId m)))"

definition counter_ok :: "Counter \<Rightarrow> bool" where
  "counter_ok c \<longleftrightarrow> mapper_ok (arrayNodeIndexMapper c) \<and>
     length (nIncrements c) = nNodes c \<and> length (nDecrements c) = nNodes c"

text \<open>What a counter records of a node: increments and decrements seen.\<close>

definition slot :: "int list \<Rightarrow> nat option \<Rightarrow> int" where
  "slot xs oi = (case oi of None \<Rightarrow> 0 | Some i \<Rightarrow> if i < length xs then xs ! i else 0)"

definition incs :: "Counter \<Rightarrow> memdbNodeId_t \<Rightarrow> int" where
  "incs c n = slot (nIncrements c) (indexByNodeId (arrayNodeIndexMapper c) n)"

definition decs :: "Counter \<Rightarrow> memdbNodeId_t \<Rightarrow> int" where
  "decs c n = slot (nDecrements c) (indexByNodeId (arrayNodeIndexMapper c) n)"

text \<open>A set of nodes fits a counter when the arrays have a slot for each of them.\<close>

definition fits :: "memdbNodeId_t set \<Rightarrow> Counter \<Rightarrow> bool" where
  "fits N c \<longleftrightarrow> finite N \<and> card N \<le> nNodes c \<and> ctr_selfNodeId c \<in> N \<and>
     dom (indexByNodeId (arrayNodeIndexMapper c)) \<subseteq> N \<and>
     (\<forall>i. i < nNodes c \<longrightarrow> i \<notin> ran (indexByNodeId (arrayNodeIndexMapper c)) \<longrightarrow>
        nIncrements c ! i = 0 \<and> nDecrements c ! i = 0)"

section \<open>Access by node\<close>

lemma slot_Some [simp]: "i < length xs \<Longrightarrow> slot xs (Some i) = xs ! i"
  by (simp add: slot_def)

lemma mapper_ok_new: "mapper_ok new_mapper"
  by (simp add: mapper_ok_def new_mapper_def)

lemma counter_ok_new: "counter_ok (new_Counter self n)"
  by (simp add: counter_ok_def new_Counter_def mapper_ok_new)

lemma fits_new: "finite N \<Longrightarrow> card N \<le> n \<Longrightarrow> self \<in> N \<Longrightarrow> fits N (new_Counter self n)"
  by (simp add: fits_def new_Counter_def new_mapper_def)

lemma getIndex_ok:
  assumes "mapper_ok m" and "getIndex n m = (i, m')"
  shows "mapper_ok m'" and "indexByNodeId m' n = Some i" and "dom (indexByNodeId m') = insert n (dom (indexByNodeId m))"
    and "\<forall>k. k \<noteq> n \<longrightarrow> indexByNodeId m' k = indexByNodeId m k"
    and "indexByNodeId m n = None \<Longrightarrow> i \<notin> ran (indexByNodeId m)"
    and "\<forall>j. indexByNodeId m n = Some j \<longrightarrow> j = i"
proof -
  have all: "mapper_ok m' \<and> indexByNodeId m' n = Some i \<and> dom (indexByNodeId m') = insert n (dom (indexByNodeId m)) \<and>
      (\<forall>k. k \<noteq> n \<longrightarrow> indexByNodeId m' k = indexByNodeId m k) \<and>
      (indexByNodeId m n = None \<longrightarrow> i \<notin> ran (indexByNodeId m)) \<and>
      (\<forall>j. indexByNodeId m n = Some j \<longrightarrow> j = i)"
  proof (cases "indexByNodeId m n")
    case (Some j)
    then show ?thesis using assms by (auto simp: getIndex_def)
  next
    case None
    let ?D = "dom (indexByNodeId m)"
    have fresh: "n \<notin> ?D" using None by auto
    have i: "i = card ?D" and m': "m' = m\<lparr>indexByNodeId := (indexByNodeId m)(n \<mapsto> card ?D),
        lastIndexAssigned := int (card ?D)\<rparr>"
      using assms None by (auto simp: getIndex_def mapper_ok_def Let_def)
    have below: "\<forall>k j. indexByNodeId m k = Some j \<longrightarrow> j < card ?D" using assms(1) by (simp add: mapper_ok_def)
    have "inj_on (indexByNodeId m') (insert n ?D)"
      unfolding m' using assms(1) fresh below
      by (auto simp: mapper_ok_def inj_on_def dest: sym) (metis less_irrefl)+
    then have "mapper_ok m'"
      using assms(1) fresh below None unfolding m' by (auto simp: mapper_ok_def less_Suc_eq)
    then show ?thesis using None below by (auto simp: m' i ran_def)
  qed
  then show "mapper_ok m'" "indexByNodeId m' n = Some i"
    "dom (indexByNodeId m') = insert n (dom (indexByNodeId m))"
    "\<forall>k. k \<noteq> n \<longrightarrow> indexByNodeId m' k = indexByNodeId m k"
    "indexByNodeId m n = None \<Longrightarrow> i \<notin> ran (indexByNodeId m)"
    "\<forall>j. indexByNodeId m n = Some j \<longrightarrow> j = i" by blast+
qed

text \<open>Finding (or assigning) the index of a node changes nothing that can be observed, and the index
  is inside the arrays when the nodes of the cluster fit.\<close>

lemma getIndexByNode_ok:
  assumes ok: "counter_ok c" and fits: "fits N c" and n: "n \<in> N" and get: "getIndexByNode n c = (i, c')"
  shows "counter_ok c'" and "fits N c'" and "i < nNodes c'" and "incs c' = incs c" and "decs c' = decs c"
    and "indexByNodeId (arrayNodeIndexMapper c') n = Some i"
    and "nIncrements c' = nIncrements c" and "nDecrements c' = nDecrements c"
    and "nNodes c' = nNodes c" and "ctr_selfNodeId c' = ctr_selfNodeId c"
proof -
  let ?m = "arrayNodeIndexMapper c"
  obtain m' where gi: "getIndex n ?m = (i, m')" and c': "c' = c\<lparr>arrayNodeIndexMapper := m'\<rparr>"
    using get by (auto simp: getIndexByNode_def split: prod.splits)
  have mok: "mapper_ok ?m" using ok by (simp add: counter_ok_def)
  note g = getIndex_ok [OF mok gi]
  have dom: "dom (indexByNodeId m') \<subseteq> N" using g(3) fits n by (auto simp: fits_def)
  have "i < card (dom (indexByNodeId m'))" using g(1,2) by (auto simp: mapper_ok_def)
  also have "\<dots> \<le> card N" using dom fits by (intro card_mono) (auto simp: fits_def)
  finally have i: "i < nNodes c" using fits by (simp add: fits_def)
  have same_slot: "slot xs (indexByNodeId m' k) = slot xs (indexByNodeId ?m k)"
    if zero: "\<forall>j. j < nNodes c \<longrightarrow> j \<notin> ran (indexByNodeId ?m) \<longrightarrow> xs ! j = 0" and "length xs = nNodes c" for xs k
  proof (cases "k = n")
    case True
    show ?thesis
    proof (cases "indexByNodeId ?m n")
      case None
      then have "xs ! i = 0" using zero i g(5) by blast
      then show ?thesis using True None g(2) i that(2) by (simp add: slot_def)
    next
      case (Some j)
      then show ?thesis using True g(2,6) by simp
    qed
  qed (use g(4) in simp)
  have ran: "ran (indexByNodeId ?m) \<subseteq> ran (indexByNodeId m')"
    using g(2,4,6) by (auto simp: ran_def) metis
  show "counter_ok c'" using ok g(1) by (simp add: c' counter_ok_def)
  show "fits N c'" using fits dom ran by (auto simp: fits_def c')
  show "i < nNodes c'" "indexByNodeId (arrayNodeIndexMapper c') n = Some i" using i g(2) by (simp_all add: c')
  show "incs c' = incs c" "decs c' = decs c"
    using same_slot [of "nIncrements c"] same_slot [of "nDecrements c"] fits ok
    by (auto simp: incs_def decs_def c' fits_def counter_ok_def)
  show "nIncrements c' = nIncrements c" "nDecrements c' = nDecrements c" "nNodes c' = nNodes c"
    "ctr_selfNodeId c' = ctr_selfNodeId c" by (simp_all add: c')
qed

lemma slot_list_update:
  assumes "mapper_ok m" and "indexByNodeId m n = Some i" and "i < length xs"
  shows "slot (xs[i := v]) (indexByNodeId m k) = (if k = n then v else slot xs (indexByNodeId m k))"
proof (cases "indexByNodeId m k")
  case (Some j)
  have "j = i \<longleftrightarrow> k = n"
    using assms(1,2) Some by (auto simp: mapper_ok_def inj_on_def dom_def)
  then show ?thesis using Some assms(3) by (auto simp: slot_def)
qed (use assms(2) in \<open>auto simp: slot_def\<close>)

section \<open>Operations by node\<close>

lemma write_increments:
  assumes "counter_ok c" and "fits N c" and "indexByNodeId (arrayNodeIndexMapper c) n = Some i" and "i < nNodes c"
  shows "counter_ok (c\<lparr>nIncrements := (nIncrements c)[i := v]\<rparr>)"
    and "fits N (c\<lparr>nIncrements := (nIncrements c)[i := v]\<rparr>)"
    and "incs (c\<lparr>nIncrements := (nIncrements c)[i := v]\<rparr>) = (incs c)(n := v)"
    and "decs (c\<lparr>nIncrements := (nIncrements c)[i := v]\<rparr>) = decs c"
  using assms
  by (auto simp: counter_ok_def fits_def incs_def decs_def slot_list_update ran_def nth_list_update fun_eq_iff)

lemma write_decrements:
  assumes "counter_ok c" and "fits N c" and "indexByNodeId (arrayNodeIndexMapper c) n = Some i" and "i < nNodes c"
  shows "counter_ok (c\<lparr>nDecrements := (nDecrements c)[i := v]\<rparr>)"
    and "fits N (c\<lparr>nDecrements := (nDecrements c)[i := v]\<rparr>)"
    and "decs (c\<lparr>nDecrements := (nDecrements c)[i := v]\<rparr>) = (decs c)(n := v)"
    and "incs (c\<lparr>nDecrements := (nDecrements c)[i := v]\<rparr>) = incs c"
  using assms
  by (auto simp: counter_ok_def fits_def incs_def decs_def slot_list_update ran_def nth_list_update fun_eq_iff)

lemma array_get_slot:
  assumes "counter_ok c" and "indexByNodeId (arrayNodeIndexMapper c) n = Some i" and "i < nNodes c"
  shows "array_get (nIncrements c) i = Some (incs c n)" and "array_get (nDecrements c) i = Some (decs c n)"
  using assms by (simp_all add: array_get_def counter_ok_def incs_def decs_def)

lemma array_set_inside:
  assumes "counter_ok c" and "i < nNodes c"
  shows "array_set (nIncrements c) i v = Some ((nIncrements c)[i := v])"
    and "array_set (nDecrements c) i v = Some ((nDecrements c)[i := v])"
  using assms by (simp_all add: array_set_def counter_ok_def)

lemma maybeResizeCounters_id [simp]: "i < nNodes c \<Longrightarrow> maybeResizeCounters i c = c"
  by (simp add: maybeResizeCounters_def)

lemma increment_spec:
  assumes ok: "counter_ok c" "fits N c" and room: "int64 (incs c (ctr_selfNodeId c) + 1) = Some (incs c (ctr_selfNodeId c) + 1)"
  shows "\<exists>c'. increment c = Some (incs c (ctr_selfNodeId c) + 1, c') \<and> counter_ok c' \<and> fits N c' \<and>
    incs c' = (incs c)(ctr_selfNodeId c := incs c (ctr_selfNodeId c) + 1) \<and> decs c' = decs c"
proof -
  obtain i c1 where g: "getIndexByNode (ctr_selfNodeId c) c = (i, c1)" by fastforce
  have "ctr_selfNodeId c \<in> N" using ok(2) by (simp add: fits_def)
  note f = getIndexByNode_ok [OF ok this g]
  show ?thesis using f array_get_slot [OF f(1) f(6) f(3)] array_set_inside [OF f(1) f(3)]
      write_increments [OF f(1,2,6,3)] room by (auto simp: increment_def g)
qed

lemma decrement_spec:
  assumes ok: "counter_ok c" "fits N c" and room: "int64 (decs c (ctr_selfNodeId c) + 1) = Some (decs c (ctr_selfNodeId c) + 1)"
  shows "\<exists>c'. decrement c = Some (decs c (ctr_selfNodeId c) + 1, c') \<and> counter_ok c' \<and> fits N c' \<and>
    decs c' = (decs c)(ctr_selfNodeId c := decs c (ctr_selfNodeId c) + 1) \<and> incs c' = incs c"
proof -
  obtain i c1 where g: "getIndexByNode (ctr_selfNodeId c) c = (i, c1)" by fastforce
  have "ctr_selfNodeId c \<in> N" using ok(2) by (simp add: fits_def)
  note f = getIndexByNode_ok [OF ok this g]
  show ?thesis using f array_get_slot [OF f(1) f(6) f(3)] array_set_inside [OF f(1) f(3)]
      write_decrements [OF f(1,2,6,3)] room by (auto simp: decrement_def g)
qed

text \<open>A replication message and a synchronisation both raise one slot to a maximum.\<close>

lemma updateCounterFromReplication_spec:
  assumes "counter_ok c" and "fits N c" and "otherNodeId r \<in> N"
  shows "\<exists>c'. updateCounterFromReplication r c = Some c' \<and> counter_ok c' \<and> fits N c' \<and>
    ctr_selfNodeId c' = ctr_selfNodeId c \<and>
    incs c' = (if isIncrement r then (incs c)(otherNodeId r := max (incs c (otherNodeId r)) (newValue r)) else incs c) \<and>
    decs c' = (if isIncrement r then decs c else (decs c)(otherNodeId r := max (decs c (otherNodeId r)) (newValue r)))"
proof -
  obtain i c1 where g: "getIndexByNode (otherNodeId r) c = (i, c1)" by fastforce
  note f = getIndexByNode_ok [OF assms g]
  show ?thesis
    using f array_get_slot [OF f(1) f(6) f(3)] array_set_inside [OF f(1) f(3)]
      write_increments [OF f(1,2,6,3)] write_decrements [OF f(1,2,6,3)]
    by (auto simp: updateCounterFromReplication_def g max_def fun_eq_iff)
qed

lemma onReplicationCounter_spec:
  assumes "counter_ok c" and "fits N c" and "otherNodeId r \<in> N"
  shows "\<exists>resp c'. onReplicationCounter r c = Some (resp, c') \<and> counter_ok c' \<and> fits N c' \<and>
    ctr_selfNodeId c' = ctr_selfNodeId c \<and>
    incs c' = (if isIncrement r then (incs c)(otherNodeId r := max (incs c (otherNodeId r)) (newValue r)) else incs c) \<and>
    decs c' = (if isIncrement r then decs c else (decs c)(otherNodeId r := max (decs c (otherNodeId r)) (newValue r))) \<and>
    resp = \<lparr>needsIncrementSync = lastSeenSelfIncrement r < incs c' (ctr_selfNodeId c),
      needsDecrementSync = lastSeenSelfDecrement r < decs c' (ctr_selfNodeId c),
      nIncrementToSync = (if lastSeenSelfIncrement r < incs c' (ctr_selfNodeId c) then incs c' (ctr_selfNodeId c) else 0),
      nDecrementToSync = (if lastSeenSelfDecrement r < decs c' (ctr_selfNodeId c) then decs c' (ctr_selfNodeId c) else 0)\<rparr>"
proof -
  obtain i c1 where g: "getIndexByNode (otherNodeId r) c = (i, c1)" by fastforce
  note f = getIndexByNode_ok [OF assms g]
  obtain c2 where u: "updateCounterFromReplication r c1 = Some c2" "counter_ok c2" "fits N c2"
    "ctr_selfNodeId c2 = ctr_selfNodeId c1"
    "incs c2 = (if isIncrement r then (incs c1)(otherNodeId r := max (incs c1 (otherNodeId r)) (newValue r)) else incs c1)"
    "decs c2 = (if isIncrement r then decs c1 else (decs c1)(otherNodeId r := max (decs c1 (otherNodeId r)) (newValue r)))"
    using updateCounterFromReplication_spec [OF f(1,2) assms(3)] by auto
  have self: "ctr_selfNodeId c \<in> N" using assms(2) by (simp add: fits_def)
  obtain j c3 where g2: "getIndexByNode (ctr_selfNodeId c) c2 = (j, c3)" by fastforce
  note h = getIndexByNode_ok [OF u(2,3) self g2]
  have "onReplicationCounter r c = Some (\<lparr>needsIncrementSync = lastSeenSelfIncrement r < incs c3 (ctr_selfNodeId c),
      needsDecrementSync = lastSeenSelfDecrement r < decs c3 (ctr_selfNodeId c),
      nIncrementToSync = (if lastSeenSelfIncrement r < incs c3 (ctr_selfNodeId c) then incs c3 (ctr_selfNodeId c) else 0),
      nDecrementToSync = (if lastSeenSelfDecrement r < decs c3 (ctr_selfNodeId c) then decs c3 (ctr_selfNodeId c) else 0)\<rparr>, c3)"
    using f(3,10) u(1,4) array_get_slot [OF h(1,6,3)]
    by (simp add: onReplicationCounter_def g g2)
  then show ?thesis using f(4,5,10) h(1,2,4,5,10) u(4-6) by simp
qed

lemma syncIncrement_spec:
  assumes "counter_ok c" and "fits N c" and "n \<in> N"
  shows "\<exists>c'. syncIncrement v n c = Some c' \<and> counter_ok c' \<and> fits N c' \<and>
    incs c' = (incs c)(n := max (incs c n) v) \<and> decs c' = decs c"
proof -
  obtain i c1 where g: "getIndexByNode n c = (i, c1)" by fastforce
  note f = getIndexByNode_ok [OF assms g]
  show ?thesis
    using f array_get_slot [OF f(1) f(6) f(3)] array_set_inside [OF f(1) f(3)]
      write_increments [OF f(1,2,6,3)]
    by (auto simp: syncIncrement_def g max_def fun_eq_iff)
qed

lemma syncDecrement_spec:
  assumes "counter_ok c" and "fits N c" and "n \<in> N"
  shows "\<exists>c'. syncDecrement v n c = Some c' \<and> counter_ok c' \<and> fits N c' \<and>
    decs c' = (decs c)(n := max (decs c n) v) \<and> incs c' = incs c"
proof -
  obtain i c1 where g: "getIndexByNode n c = (i, c1)" by fastforce
  note f = getIndexByNode_ok [OF assms g]
  show ?thesis
    using f array_get_slot [OF f(1) f(6) f(3)] array_set_inside [OF f(1) f(3)]
      write_decrements [OF f(1,2,6,3)]
    by (auto simp: syncDecrement_def g max_def fun_eq_iff)
qed

section \<open>Count\<close>

lemma foldl_plus: "foldl (\<lambda>v i. v + f i) a xs = a + (\<Sum>i\<leftarrow>xs. f i :: int)"
  by (induction xs arbitrary: a) simp_all

lemma foldl_minus: "foldl (\<lambda>v i. v - f i) a xs = a - (\<Sum>i\<leftarrow>xs. f i :: int)"
  by (induction xs arbitrary: a) simp_all

lemma count_arrays: "count c = (\<Sum>i < nNodes c. nIncrements c ! i) - (\<Sum>i < nNodes c. nDecrements c ! i)"
  by (simp add: count_def foldl_plus foldl_minus interv_sum_list_conv_sum_set_nat atLeast0LessThan)

lemma sum_slots:
  assumes ok: "mapper_ok m" and dom: "dom (indexByNodeId m) \<subseteq> N" and N: "finite N"
    and bound: "card (dom (indexByNodeId m)) \<le> length xs"
    and zero: "\<forall>i. i < length xs \<longrightarrow> i \<notin> ran (indexByNodeId m) \<longrightarrow> xs ! i = 0"
  shows "(\<Sum>i < length xs. xs ! i) = (\<Sum>n \<in> N. slot xs (indexByNodeId m n))"
proof -
  let ?D = "dom (indexByNodeId m)" and ?ix = "\<lambda>n. the (indexByNodeId m n)"
  have inj: "inj_on ?ix ?D"
  proof (rule inj_onI)
    fix x y assume "x \<in> ?D" "y \<in> ?D" "?ix x = ?ix y"
    then have "indexByNodeId m x = indexByNodeId m y" by auto
    then show "x = y" using ok \<open>x \<in> ?D\<close> \<open>y \<in> ?D\<close> by (auto simp only: mapper_ok_def dest: inj_onD)
  qed
  have ran: "?ix ` ?D = ran (indexByNodeId m)" by (force simp: ran_def image_def)
  have inside: "?ix n < length xs" if "n \<in> ?D" for n
    using ok that bound by (fastforce simp: mapper_ok_def)
  have sub: "ran (indexByNodeId m) \<subseteq> {..<length xs}" unfolding ran [symmetric] using inside by blast
  have "(\<Sum>i < length xs. xs ! i) = (\<Sum>i \<in> ran (indexByNodeId m). xs ! i)"
    using zero sub by (intro sum.mono_neutral_right) auto
  also have "\<dots> = (\<Sum>n \<in> ?D. xs ! ?ix n)"
    unfolding ran [symmetric] using inj by (simp add: sum.reindex)
  also have "\<dots> = (\<Sum>n \<in> ?D. slot xs (indexByNodeId m n))"
  proof (intro sum.cong refl)
    fix n assume n: "n \<in> ?D"
    then obtain i where "indexByNodeId m n = Some i" by blast
    then show "xs ! ?ix n = slot xs (indexByNodeId m n)" using inside [OF n] by simp
  qed
  also have "\<dots> = (\<Sum>n \<in> N. slot xs (indexByNodeId m n))"
    using dom N by (intro sum.mono_neutral_left) (auto simp: slot_def split: option.splits)
  finally show ?thesis .
qed

lemma count_by_node:
  assumes "counter_ok c" and "fits N c"
  shows "count c = (\<Sum>n \<in> N. incs c n) - (\<Sum>n \<in> N. decs c n)"
proof -
  let ?m = "arrayNodeIndexMapper c"
  have "card (dom (indexByNodeId ?m)) \<le> nNodes c"
    using assms card_mono [of N "dom (indexByNodeId ?m)"] by (force simp: fits_def)
  then show ?thesis
    using sum_slots [of ?m N "nIncrements c"] sum_slots [of ?m N "nDecrements c"] assms
    by (simp add: count_arrays incs_def decs_def counter_ok_def fits_def)
qed

lemma sum_incs: "counter_ok c \<Longrightarrow> fits N c \<Longrightarrow> sum_list (nIncrements c) = (\<Sum>n \<in> N. incs c n)"
  and sum_decs: "counter_ok c \<Longrightarrow> fits N c \<Longrightarrow> sum_list (nDecrements c) = (\<Sum>n \<in> N. decs c n)"
  using sum_slots [of "arrayNodeIndexMapper c" N "nIncrements c"] sum_slots [of "arrayNodeIndexMapper c" N "nDecrements c"]
    card_mono [of N "dom (indexByNodeId (arrayNodeIndexMapper c))"]
  by (auto simp: counter_ok_def fits_def incs_def decs_def sum_list_sum_nth atLeast0LessThan)

lemma sum_one_more:
  assumes "finite N" and "x \<in> N"
  shows "(\<Sum>n \<in> N. (f(x := f x + 1)) n) = (\<Sum>n \<in> N. f n) + (1 :: int)"
proof -
  have "(\<Sum>n \<in> N - {x}. (f(x := f x + 1)) n) = (\<Sum>n \<in> N - {x}. f n)" by (intro sum.cong) auto
  then show ?thesis using assms by (simp add: sum.remove [of N x])
qed

text \<open>Non-negative slots whose sums are inside 64 bits keep every partial sum there.\<close>

lemma slot_bounds: "\<forall>v \<in> set xs. 0 \<le> v \<Longrightarrow> 0 \<le> slot xs oi \<and> slot xs oi \<le> sum_list xs"
  using member_le_sum_list [of "slot xs oi" xs] sum_list_nonneg [of xs]
  by (auto simp: slot_def split: option.splits)

lemma checked_additions:
  assumes "\<forall>i \<in> set xs. 0 \<le> f i" and "0 \<le> a" and "a + (\<Sum>i\<leftarrow>xs. f i) < 2 ^ 63"
  shows "foldl (\<lambda>a i. Option.bind a (\<lambda>v. int64 (v + f i))) (Some a) xs = Some (a + (\<Sum>i\<leftarrow>xs. f i))"
  using assms
proof (induction xs arbitrary: a)
  case (Cons x xs)
  have "0 \<le> (\<Sum>i\<leftarrow>xs. f i)" using Cons.prems(1) by (intro sum_list_nonneg) auto
  then have "int64 (a + f x) = Some (a + f x)" using Cons.prems by (simp add: int64_def)
  then show ?case using Cons.IH [of "a + f x"] Cons.prems by (simp add: add.assoc)
qed simp

lemma checked_subtractions:
  assumes "\<forall>i \<in> set xs. 0 \<le> f i" and "a < 2 ^ 63" and "- (2 ^ 63) \<le> a - (\<Sum>i\<leftarrow>xs. f i)"
  shows "foldl (\<lambda>a i. Option.bind a (\<lambda>v. int64 (v - f i))) (Some a) xs = Some (a - (\<Sum>i\<leftarrow>xs. f i))"
  using assms
proof (induction xs arbitrary: a)
  case (Cons x xs)
  have "0 \<le> (\<Sum>i\<leftarrow>xs. f i)" using Cons.prems(1) by (intro sum_list_nonneg) auto
  then have "int64 (a - f x) = Some (a - f x)" using Cons.prems by (simp add: int64_def)
  then show ?case using Cons.IH [of "a - f x"] Cons.prems by (simp add: algebra_simps)
qed simp

lemma checked_count_arrays:
  assumes "\<forall>i < nNodes c. 0 \<le> nIncrements c ! i \<and> 0 \<le> nDecrements c ! i"
    and "(\<Sum>i\<leftarrow>[0..<nNodes c]. nIncrements c ! i) < 2 ^ 63" and "(\<Sum>i\<leftarrow>[0..<nNodes c]. nDecrements c ! i) < 2 ^ 63"
  shows "checked_count c = Some (count c)"
proof -
  have "0 \<le> (\<Sum>i\<leftarrow>[0..<nNodes c]. nIncrements c ! i)" using assms(1) by (intro sum_list_nonneg) auto
  then show ?thesis
    using checked_additions [of "[0..<nNodes c]" "(!) (nIncrements c)" 0]
      checked_subtractions [of "[0..<nNodes c]" "(!) (nDecrements c)" "\<Sum>i\<leftarrow>[0..<nNodes c]. nIncrements c ! i"] assms
    by (simp add: checked_count_def count_def foldl_plus foldl_minus)
qed

lemma checked_count_by_node:
  assumes ok: "counter_ok c" and fits: "fits N c" and nonneg: "\<forall>n. 0 \<le> incs c n" "\<forall>n. 0 \<le> decs c n"
    and "(\<Sum>n \<in> N. incs c n) < 2 ^ 63" and "(\<Sum>n \<in> N. decs c n) < 2 ^ 63"
  shows "checked_count c = Some (count c)"
proof (rule checked_count_arrays)
  show "\<forall>i < nNodes c. 0 \<le> nIncrements c ! i \<and> 0 \<le> nDecrements c ! i"
  proof (intro allI impI)
    fix i assume i: "i < nNodes c"
    show "0 \<le> nIncrements c ! i \<and> 0 \<le> nDecrements c ! i"
    proof (cases "i \<in> ran (indexByNodeId (arrayNodeIndexMapper c))")
      case True
      then obtain n where "indexByNodeId (arrayNodeIndexMapper c) n = Some i" by (auto simp: ran_def)
      then show ?thesis using nonneg [THEN spec, of n] i ok by (simp add: incs_def decs_def counter_ok_def)
    qed (use fits i in \<open>simp add: fits_def\<close>)
  qed
  show "(\<Sum>i\<leftarrow>[0..<nNodes c]. nIncrements c ! i) < 2 ^ 63" "(\<Sum>i\<leftarrow>[0..<nNodes c]. nDecrements c ! i) < 2 ^ 63"
    using assms(5,6) sum_incs [OF ok fits] sum_decs [OF ok fits] ok
    by (simp_all add: counter_ok_def sum_list_sum_nth interv_sum_list_conv_sum_set_nat)
qed

section \<open>Registers that only grow\<close>

text \<open>
  The contract behind the replication of counters: a family of registers that a message raises to a
  maximum. Messages may then be lost, repeated and reordered; two replicas that have received the
  same messages read the same.
\<close>

locale max_registers =
  fixes ok :: "'s \<Rightarrow> bool" and reading :: "'s \<Rightarrow> 'k \<Rightarrow> int" and raise :: "'k \<times> int \<Rightarrow> 's \<Rightarrow> 's option"
    and keys :: "'k set"
  assumes raise_ok: "ok s \<Longrightarrow> k \<in> keys \<Longrightarrow>
    \<exists>s'. raise (k, v) s = Some s' \<and> ok s' \<and> reading s' = (reading s)(k := max (reading s k) v)"
begin

fun raises :: "('k \<times> int) list \<Rightarrow> 's \<Rightarrow> 's option" where
  "raises [] s = Some s"
| "raises (u # us) s = Option.bind (raise u s) (raises us)"

lemma raises_reading:
  assumes "ok s" and "fst ` set us \<subseteq> keys"
  shows "\<exists>s'. raises us s = Some s' \<and> ok s' \<and>
    (\<forall>k. reading s' k = Max (insert (reading s k) {v. (k, v) \<in> set us}))"
  using assms
proof (induction us arbitrary: s)
  case (Cons u us)
  obtain k v where u: "u = (k, v)" by fastforce
  obtain s1 where s1: "raise u s = Some s1" "ok s1" "reading s1 = (reading s)(k := max (reading s k) v)"
    using raise_ok [of s k v] Cons.prems u by auto
  obtain s2 where s2: "raises us s1 = Some s2" "ok s2"
    "\<forall>k. reading s2 k = Max (insert (reading s1 k) {v. (k, v) \<in> set us})"
    using Cons.IH [OF s1(2)] Cons.prems by auto
  have fin: "finite {v. (j, v) \<in> set us}" for j
    by (rule finite_subset [of _ "snd ` set us"]) force+
  have "reading s2 j = Max (insert (reading s j) {v. (j, v) \<in> set (u # us)})" for j
  proof (cases "j = k")
    case True
    then have "{w. (j, w) \<in> set (u # us)} = insert v {w. (j, w) \<in> set us}" by (auto simp: u)
    moreover have "Max (insert (max (reading s k) v) {w. (k, w) \<in> set us}) =
        Max (insert (reading s k) (insert v {w. (k, w) \<in> set us}))"
      using fin [of k] by (cases "{w. (k, w) \<in> set us} = {}") (auto simp: max.assoc)
    ultimately show ?thesis using s2(3) s1(3) True by simp
  qed (use s2(3) s1(3) u in simp)
  then show ?case using s1 s2 by auto
qed simp

lemma replicas_agree:
  assumes "ok s" and "ok t" and "reading s = reading t" and "set us = set vs" and "fst ` set us \<subseteq> keys"
  shows "\<exists>s' t'. raises us s = Some s' \<and> raises vs t = Some t' \<and> reading s' = reading t'"
  using raises_reading [OF assms(1,5)] raises_reading [OF assms(2), of vs] assms(3-5)
  by (auto simp: fun_eq_iff)

end

section \<open>Replicas of a counter\<close>

definition ctr_reading :: "Counter \<Rightarrow> bool \<times> memdbNodeId_t \<Rightarrow> int" where
  "ctr_reading c k = (if fst k then incs c (snd k) else decs c (snd k))"

definition deliver :: "ReplicateCounterRequest \<Rightarrow> Counter \<Rightarrow> Counter option" where
  "deliver r c = map_option snd (onReplicationCounter r c)"

fun deliver_all :: "ReplicateCounterRequest list \<Rightarrow> Counter \<Rightarrow> Counter option" where
  "deliver_all [] c = Some c"
| "deliver_all (r # rs) c = Option.bind (deliver r c) (deliver_all rs)"

definition ctr_raise :: "(bool \<times> memdbNodeId_t) \<times> int \<Rightarrow> Counter \<Rightarrow> Counter option" where
  "ctr_raise u = deliver \<lparr>otherNodeId = snd (fst u), isIncrement = fst (fst u), newValue = snd u,
     lastSeenSelfIncrement = 0, lastSeenSelfDecrement = 0\<rparr>"

definition raise_of :: "ReplicateCounterRequest \<Rightarrow> (bool \<times> memdbNodeId_t) \<times> int" where
  "raise_of r = ((isIncrement r, otherNodeId r), newValue r)"

lemma deliver_raise: "deliver r = ctr_raise (raise_of r)"
proof
  fix c
  let ?r = "\<lparr>otherNodeId = otherNodeId r, isIncrement = isIncrement r, newValue = newValue r,
     lastSeenSelfIncrement = 0, lastSeenSelfDecrement = 0\<rparr>"
  have "updateCounterFromReplication r = updateCounterFromReplication ?r"
    by (simp add: updateCounterFromReplication_def fun_eq_iff split: prod.split cong: if_cong)
  then show "deliver r c = ctr_raise (raise_of r) c"
    by (simp add: deliver_def ctr_raise_def raise_of_def onReplicationCounter_def map_option_bind comp_def
        case_prod_beta Let_def)
qed

interpretation ctr: max_registers "\<lambda>c. counter_ok c \<and> fits N c" ctr_reading ctr_raise "UNIV \<times> N"
  for N
proof
  fix c and k :: "bool \<times> memdbNodeId_t" and v
  assume "counter_ok c \<and> fits N c" and "k \<in> UNIV \<times> N"
  then have "counter_ok c" "fits N c" "snd k \<in> N" by auto
  then obtain resp c' where "onReplicationCounter \<lparr>otherNodeId = snd k, isIncrement = fst k, newValue = v,
     lastSeenSelfIncrement = 0, lastSeenSelfDecrement = 0\<rparr> c = Some (resp, c')" "counter_ok c'" "fits N c'"
    "incs c' = (if fst k then (incs c)(snd k := max (incs c (snd k)) v) else incs c)"
    "decs c' = (if fst k then decs c else (decs c)(snd k := max (decs c (snd k)) v))"
    using onReplicationCounter_spec [of c N "\<lparr>otherNodeId = snd k, isIncrement = fst k, newValue = v,
       lastSeenSelfIncrement = 0, lastSeenSelfDecrement = 0\<rparr>"] by auto
  then show "\<exists>c'. ctr_raise (k, v) c = Some c' \<and> (counter_ok c' \<and> fits N c') \<and>
      ctr_reading c' = (ctr_reading c)(k := max (ctr_reading c k) v)"
    by (intro exI [of _ c']) (auto simp: ctr_raise_def deliver_def ctr_reading_def fun_eq_iff prod_eq_iff)
qed

lemma deliver_all_raises: "deliver_all rs = ctr.raises (map raise_of rs)"
  by (induction rs; rule ext; simp add: deliver_raise)

lemma count_reading:
  assumes "counter_ok c" and "fits N c" and "counter_ok d" and "fits N d" and "ctr_reading c = ctr_reading d"
  shows "count c = count d"
proof -
  have "incs c n = incs d n" "decs c n = decs d n" for n
    using fun_cong [OF assms(5), of "(True, n)"] fun_cong [OF assms(5), of "(False, n)"]
    by (simp_all add: ctr_reading_def)
  then show ?thesis using assms by (simp add: count_by_node [of _ N])
qed

section \<open>Properties\<close>

text \<open>C18. Two replicas of a counter that start with the same readings and receive the same
  replication messages, in any order and each any number of times, end with the same count, and each
  slot holds the greatest value seen for it. The nodes involved must fit the arrays.\<close>

theorem counter_replicas_converge:
  assumes "counter_ok c" and "fits N c" and "counter_ok d" and "fits N d"
    and "incs c = incs d" and "decs c = decs d"
    and "raise_of ` set rs = raise_of ` set qs" and "otherNodeId ` set rs \<subseteq> N"
  shows "\<exists>c' d'. deliver_all rs c = Some c' \<and> deliver_all qs d = Some d' \<and> count c' = count d' \<and>
    (\<forall>n. incs c' n = Max (insert (incs c n) {newValue r | r. r \<in> set rs \<and> isIncrement r \<and> otherNodeId r = n}))"
proof -
  let ?us = "map raise_of rs" and ?vs = "map raise_of qs"
  have read: "ctr_reading c = ctr_reading d" using assms(5,6) by (simp add: ctr_reading_def fun_eq_iff)
  have keys: "fst ` set ?us \<subseteq> UNIV \<times> N" using assms(8) by (auto simp: raise_of_def)
  then have keys': "fst ` set ?vs \<subseteq> UNIV \<times> N" using assms(7) by simp
  obtain c' where c': "ctr.raises ?us c = Some c'" "counter_ok c'" "fits N c'"
    "\<forall>k. ctr_reading c' k = Max (insert (ctr_reading c k) {v. (k, v) \<in> set ?us})"
    using ctr.raises_reading [where N = N, OF conjI [OF assms(1,2)] keys] by blast
  obtain d' where d': "ctr.raises ?vs d = Some d'" "counter_ok d'" "fits N d'"
    "\<forall>k. ctr_reading d' k = Max (insert (ctr_reading d k) {v. (k, v) \<in> set ?vs})"
    using ctr.raises_reading [where N = N, OF conjI [OF assms(3,4)] keys'] by blast
  have "ctr_reading c' = ctr_reading d'" using c'(4) d'(4) read assms(7) by (simp add: fun_eq_iff)
  then have "count c' = count d'" using c' d' by (intro count_reading)
  moreover have "incs c' n = Max (insert (incs c n) {newValue r | r. r \<in> set rs \<and> isIncrement r \<and> otherNodeId r = n})" for n
  proof -
    have "{v. ((True, n), v) \<in> set ?us} = {newValue r | r. r \<in> set rs \<and> isIncrement r \<and> otherNodeId r = n}"
      by (auto simp: raise_of_def)
    moreover have "ctr_reading c' (True, n) = Max (insert (ctr_reading c (True, n)) {v. ((True, n), v) \<in> set ?us})"
      using c'(4) by blast
    ultimately show ?thesis by (simp only: ctr_reading_def fst_conv snd_conv if_True)
  qed
  ultimately show ?thesis using c'(1) d'(1) by (auto simp: deliver_all_raises)
qed

definition sample_message :: "memdbNodeId_t \<Rightarrow> bool \<Rightarrow> int \<Rightarrow> ReplicateCounterRequest" where
  "sample_message n b v = \<lparr>otherNodeId = n, isIncrement = b, newValue = v,
     lastSeenSelfIncrement = 0, lastSeenSelfDecrement = 0\<rparr>"

theorem counter_replicas_converge_witness:
  "\<exists>c' d'. deliver_all [sample_message 2 True 5, sample_message 3 False 1, sample_message 2 True 4] (new_Counter 1 3) = Some c' \<and>
     deliver_all [sample_message 3 False 1, sample_message 2 True 4, sample_message 2 True 5, sample_message 2 True 4]
       (new_Counter 1 3) = Some d' \<and> count c' = count d'"
proof -
  have fit: "fits {1, 2, 3} (new_Counter 1 3)" by (rule fits_new) simp_all
  have sets: "raise_of ` set [sample_message 2 True 5, sample_message 3 False 1, sample_message 2 True 4] =
      raise_of ` set [sample_message 3 False 1, sample_message 2 True 4, sample_message 2 True 5, sample_message 2 True 4]"
    "otherNodeId ` set [sample_message 2 True 5, sample_message 3 False 1, sample_message 2 True 4] \<subseteq> {1, 2, 3}"
    by (auto simp: sample_message_def raise_of_def)
  show ?thesis
    using counter_replicas_converge [OF counter_ok_new fit counter_ok_new fit refl refl sets] by blast
qed

text \<open>C32. On a counter whose cluster fits its arrays and whose totals of increments and of decrements
  leave room for one more in 64 bits, \<^verbatim>\<open>increment\<close> and \<^verbatim>\<open>decrement\<close> succeed, return the node's own new
  total and move the count by exactly one; no addition of the three loops overflows.\<close>

theorem increment_decrement_count:
  assumes "counter_ok c" and "fits N c" and "\<forall>v \<in> set (nIncrements c) \<union> set (nDecrements c). 0 \<le> v"
    and "sum_list (nIncrements c) + 1 < 2 ^ 63" and "sum_list (nDecrements c) + 1 < 2 ^ 63"
  shows "checked_count c = Some (count c) \<and>
    (\<exists>c'. increment c = Some (incs c (ctr_selfNodeId c) + 1, c') \<and> counter_ok c' \<and> fits N c' \<and>
      checked_count c' = Some (count c + 1)) \<and>
    (\<exists>c'. decrement c = Some (decs c (ctr_selfNodeId c) + 1, c') \<and> counter_ok c' \<and> fits N c' \<and>
      checked_count c' = Some (count c - 1))"
proof -
  note nonneg = assms(3) and room = assms(4,5)
  have self: "ctr_selfNodeId c \<in> N" using assms(2) by (simp add: fits_def)
  have slots: "0 \<le> incs c n" "incs c n \<le> sum_list (nIncrements c)" "0 \<le> decs c n" "decs c n \<le> sum_list (nDecrements c)" for n
    using slot_bounds [of "nIncrements c"] slot_bounds [of "nDecrements c"] nonneg by (auto simp: incs_def decs_def)
  have int64: "int64 (incs c (ctr_selfNodeId c) + 1) = Some (incs c (ctr_selfNodeId c) + 1)"
    "int64 (decs c (ctr_selfNodeId c) + 1) = Some (decs c (ctr_selfNodeId c) + 1)"
    using slots [of "ctr_selfNodeId c"] room by (simp_all add: int64_def)
  obtain c1 where c1: "increment c = Some (incs c (ctr_selfNodeId c) + 1, c1)" "counter_ok c1" "fits N c1"
    "incs c1 = (incs c)(ctr_selfNodeId c := incs c (ctr_selfNodeId c) + 1)" "decs c1 = decs c"
    using increment_spec [OF assms(1,2) int64(1)] by blast
  obtain c2 where c2: "decrement c = Some (decs c (ctr_selfNodeId c) + 1, c2)" "counter_ok c2" "fits N c2"
    "decs c2 = (decs c)(ctr_selfNodeId c := decs c (ctr_selfNodeId c) + 1)" "incs c2 = incs c"
    using decrement_spec [OF assms(1,2) int64(2)] by blast
  have N: "finite N" using assms(2) by (simp add: fits_def)
  have c: "checked_count c = Some (count c)" using slots(1,3) room by (intro checked_count_by_node [OF assms(1,2)]) (simp_all add: sum_incs [OF assms(1,2)] sum_decs [OF assms(1,2)])
  have "checked_count c1 = Some (count c1)" "checked_count c2 = Some (count c2)"
    using slots(1,3) room
    by (intro checked_count_by_node [OF c1(2,3)] checked_count_by_node [OF c2(2,3)];
        simp add: c1(4,5) c2(4,5) sum_incs [OF assms(1,2)] sum_decs [OF assms(1,2)] sum_one_more [OF N self] add_nonneg_nonneg
          del: fun_upd_apply; simp add: add_nonneg_nonneg)+
  moreover have "count c1 = count c + 1" "count c2 = count c - 1"
    unfolding count_by_node [OF assms(1,2)] count_by_node [OF c1(2,3)] count_by_node [OF c2(2,3)] c1(4,5) c2(4,5)
    by (simp_all add: sum_one_more [OF N self] del: fun_upd_apply)
  ultimately show ?thesis using c c1(1-3) c2(1-3) by auto
qed

theorem increment_decrement_count_witness:
  "\<exists>c'. increment (new_Counter 7 2) = Some (1, c') \<and> checked_count c' = Some 1"
proof -
  have "fits {7, 9} (new_Counter 7 2)" by (rule fits_new) simp_all
  moreover have "incs (new_Counter 7 2) 7 = 0" "count (new_Counter 7 2) = 0" "ctr_selfNodeId (new_Counter 7 2) = 7"
    by (simp_all add: incs_def new_Counter_def new_mapper_def slot_def count_def numeral_2_eq_2)
  moreover have "\<forall>v \<in> set (nIncrements (new_Counter 7 2)) \<union> set (nDecrements (new_Counter 7 2)). 0 \<le> v"
    "sum_list (nIncrements (new_Counter 7 2)) + 1 < 2 ^ 63" "sum_list (nDecrements (new_Counter 7 2)) + 1 < 2 ^ 63"
    by (simp_all add: new_Counter_def sum_list_replicate)
  ultimately show ?thesis using increment_decrement_count [OF counter_ok_new] by fastforce
qed

text \<open>The slot of the node itself is read without resizing: a counter that was created for one node
  reads outside its arrays as soon as another node replicates to it.\<close>

lemma replication_outside_arrays:
  assumes "otherNodeId r \<noteq> self"
  shows "onReplicationCounter r (new_Counter self 1) = None"
  using assms
  by (simp add: onReplicationCounter_def updateCounterFromReplication_def new_Counter_def new_mapper_def
      getIndexByNode_def getIndex_def Let_def array_get_def array_set_def maybeResizeCounters_def)

text \<open>\<^verbatim>\<open>getLastSeen\<close> reports nothing for a node whose id is not below the number of nodes,
  whatever has been received from it.\<close>

lemma getLastSeen_large_id: "unat n \<ge> nNodes c \<Longrightarrow> getLastSeen n c = Some ((0, 0), c)"
  by (simp add: getLastSeen_def)

end
