(* ===== verification/Avl_Heap.thy ===== *)
theory Avl_Heap
  imports Byte_Codec Lamport_Clock Counters
begin

text \<open>
  The search tree of \<^verbatim>\<open>db/AVLTree.h\<close>, as the pointer structure it is: a heap of nodes, a heap
  of the payloads the nodes share by pointer, and the root pointer. A null or dangling dereference, a
  payload cast to the wrong type and a loop that does not end are \<^term>\<open>None\<close>. Addresses are given
  out by counting up. Node heights are integers in place of \<^verbatim>\<open>int16_t\<close>: in a well-formed tree none exceeds
  64 (\<open>avl_height_fits_int16\<close> in \<^theory_text>\<open>Avl_Ops\<close>).
\<close>

section \<open>Data\<close>

type_synonym addr = nat

datatype NodeType = DATA | COUNTER

record DataAVLNode =
  data_value :: SimpleString
  data_timestamp :: LamportClock

datatype payload = DataP DataAVLNode | CounterP Counter

record AVLNode =
  key :: SimpleString
  left :: "addr option"
  right :: "addr option"
  data :: addr
  keyHash :: u32
  height :: int
  nodeType :: NodeType

record AVLTree =
  root :: "addr option"
  nodes :: "addr \<rightharpoonup> AVLNode"
  datas :: "addr \<rightharpoonup> payload"
  next_addr :: addr

record MapEntry =
  entry_key :: SimpleString
  entry_keyHash :: u32
  entry_type :: NodeType
  entry_data :: addr

definition empty_tree :: AVLTree where
  "empty_tree = \<lparr>root = None, nodes = Map.empty, datas = Map.empty, next_addr = 0\<rparr>"

fun as_data :: "payload \<Rightarrow> DataAVLNode option" where
  "as_data (DataP d) = Some d"
| "as_data (CounterP c) = None"

fun as_counter :: "payload \<Rightarrow> Counter option" where
  "as_counter (CounterP c) = Some c"
| "as_counter (DataP d) = None"

definition store_node :: "addr \<Rightarrow> AVLNode \<Rightarrow> AVLTree \<Rightarrow> AVLTree" where
  "store_node a n T = T\<lparr>nodes := (nodes T)(a \<mapsto> n)\<rparr>"

definition store_data :: "addr \<Rightarrow> payload \<Rightarrow> AVLTree \<Rightarrow> AVLTree" where
  "store_data d p T = T\<lparr>datas := (datas T)(d \<mapsto> p)\<rparr>"

definition new_AVLNode :: "SimpleString \<Rightarrow> u32 \<Rightarrow> NodeType \<Rightarrow> payload \<Rightarrow> AVLTree \<Rightarrow> addr \<times> AVLTree" where
  "new_AVLNode k h ty p T =
     (let a = next_addr T
      in (a, T\<lparr>nodes := (nodes T)(a \<mapsto> \<lparr>key = k, left = None, right = None, data = a, keyHash = h,
                 height = -1, nodeType = ty\<rparr>),
               datas := (datas T)(a \<mapsto> p), next_addr := a + 1\<rparr>))"

section \<open>Heights and rotations\<close>

definition getHeight :: "AVLTree \<Rightarrow> addr option \<Rightarrow> int option" where
  "getHeight T p = (case p of None \<Rightarrow> Some (-1) | Some a \<Rightarrow> map_option height (nodes T a))"

definition updateHeight :: "addr \<Rightarrow> AVLTree \<Rightarrow> AVLTree option" where
  "updateHeight a T = do {
     n \<leftarrow> nodes T a;
     rightHeight \<leftarrow> getHeight T (right n);
     leftHeight \<leftarrow> getHeight T (left n);
     Some (store_node a (n\<lparr>height := max leftHeight rightHeight + 1\<rparr>) T) }"

definition getHeightFactor :: "AVLTree \<Rightarrow> addr option \<Rightarrow> int option" where
  "getHeightFactor T p = (case p of None \<Rightarrow> Some 0 | Some a \<Rightarrow> do {
     n \<leftarrow> nodes T a;
     rightHeight \<leftarrow> getHeight T (right n);
     leftHeight \<leftarrow> getHeight T (left n);
     Some (rightHeight - leftHeight) })"

definition updateRootReferenceIfNeccesary :: "addr \<Rightarrow> addr \<Rightarrow> AVLTree \<Rightarrow> AVLTree" where
  "updateRootReferenceIfNeccesary oldReference newReference T =
     (if root T = Some oldReference then T\<lparr>root := Some newReference\<rparr> else T)"

definition rotateRight :: "addr \<Rightarrow> AVLTree \<Rightarrow> (addr \<times> AVLTree) option" where
  "rotateRight a T = do {
     n \<leftarrow> nodes T a;
     leftChild \<leftarrow> left n;
     let T = updateRootReferenceIfNeccesary a leftChild T;
     c \<leftarrow> nodes T leftChild;
     let T = store_node a (n\<lparr>left := right c\<rparr>) T;
     c \<leftarrow> nodes T leftChild;
     let T = store_node leftChild (c\<lparr>right := Some a\<rparr>) T;
     T \<leftarrow> updateHeight a T;
     T \<leftarrow> updateHeight leftChild T;
     Some (leftChild, T) }"

definition rotateLeft :: "addr \<Rightarrow> AVLTree \<Rightarrow> (addr \<times> AVLTree) option" where
  "rotateLeft a T = do {
     n \<leftarrow> nodes T a;
     rightChild \<leftarrow> right n;
     c \<leftarrow> nodes T rightChild;
     let T = store_node a (n\<lparr>right := left c\<rparr>) T;
     c \<leftarrow> nodes T rightChild;
     let T = store_node rightChild (c\<lparr>left := Some a\<rparr>) T;
     let T = updateRootReferenceIfNeccesary a rightChild T;
     T \<leftarrow> updateHeight a T;
     T \<leftarrow> updateHeight rightChild T;
     Some (rightChild, T) }"

definition rebalance_left_heavy :: "addr \<Rightarrow> AVLTree \<Rightarrow> (addr \<times> AVLTree) option" where
  "rebalance_left_heavy a T = do {
     n \<leftarrow> nodes T a;
     leftFactor \<leftarrow> getHeightFactor T (left n);
     T \<leftarrow> (if leftFactor > 0 then do {
         l \<leftarrow> left n;
         (l', T) \<leftarrow> rotateLeft l T;
         n \<leftarrow> nodes T a;
         Some (store_node a (n\<lparr>left := Some l'\<rparr>) T) }
       else Some T);
     rotateRight a T }"

definition rebalance_right_heavy :: "addr \<Rightarrow> AVLTree \<Rightarrow> (addr \<times> AVLTree) option" where
  "rebalance_right_heavy a T = do {
     n \<leftarrow> nodes T a;
     rightFactor \<leftarrow> getHeightFactor T (right n);
     T \<leftarrow> (if rightFactor < 0 then do {
         r \<leftarrow> right n;
         (r', T) \<leftarrow> rotateRight r T;
         n \<leftarrow> nodes T a;
         Some (store_node a (n\<lparr>right := Some r'\<rparr>) T) }
       else Some T);
     rotateLeft a T }"

definition rebalance :: "addr \<Rightarrow> AVLTree \<Rightarrow> (addr \<times> AVLTree) option" where
  "rebalance a T = do {
     T \<leftarrow> updateHeight a T;
     heightFactor \<leftarrow> getHeightFactor T (Some a);
     (a, T) \<leftarrow> (if heightFactor < -1 then rebalance_left_heavy a T else Some (a, T));
     if heightFactor > 1 then rebalance_right_heavy a T else Some (a, T) }"

section \<open>Insertion\<close>

text \<open>An edit threads the tree, the clock (a pointer that may be null) and the timestamp field of the
  result.\<close>

type_synonym edit = "AVLTree \<times> LamportClock option \<times> u64"

definition updateClock :: "LamportClock option \<Rightarrow> UpdateClockStrategy \<Rightarrow> u64 \<Rightarrow> u64 \<times> LamportClock option" where
  "updateClock clk updateType othersValue =
     (case clk of None \<Rightarrow> (0, None)
      | Some c \<Rightarrow> (let (v, c') = clock_update updateType othersValue c in (v, Some c')))"

definition stamp_data :: "bool \<Rightarrow> LamportClock \<Rightarrow> u64 \<Rightarrow> DataAVLNode \<Rightarrow> DataAVLNode" where
  "stamp_data requestFromNode ts newTimestampCounter d =
     (if requestFromNode then d\<lparr>data_timestamp := ts\<rparr>
      else d\<lparr>data_timestamp := LamportClock (nodeId ts) newTimestampCounter\<rparr>)"

definition result_timestamp :: "bool \<Rightarrow> LamportClock \<Rightarrow> u64 \<Rightarrow> u64" where
  "result_timestamp requestFromNode ts newTimestampCounter =
     (if requestFromNode then counter ts else newTimestampCounter)"

definition insert_leaf ::
  "addr \<Rightarrow> LamportClock \<Rightarrow> UpdateClockStrategy \<Rightarrow> bool \<Rightarrow> edit \<Rightarrow> (addr option \<times> edit) option" where
  "insert_leaf toInsert ts strategy requestFromNode = (\<lambda>(T, clk, res). do {
     let (newTimestampCounter, clk) = updateClock clk strategy (counter ts);
     n \<leftarrow> nodes T toInsert;
     p \<leftarrow> datas T (data n);
     d \<leftarrow> as_data p;
     let T = store_data (data n) (DataP (stamp_data requestFromNode ts newTimestampCounter d)) T;
     let T = (if root T = None then T\<lparr>root := Some toInsert\<rparr> else T);
     Some (Some toInsert, T, clk, result_timestamp requestFromNode ts newTimestampCounter) })"

definition overwrite_data ::
  "addr \<Rightarrow> addr \<Rightarrow> LamportClock \<Rightarrow> UpdateClockStrategy \<Rightarrow> bool \<Rightarrow> edit \<Rightarrow> edit option option" where
  "overwrite_data toInsert a ts strategy requestFromNode = (\<lambda>(T, clk, res). do {
     let ignoreTimestamps = (strategy = NONE \<or> \<not> requestFromNode);
     last \<leftarrow> nodes T a;
     if nodeType last \<noteq> DATA then Some None
     else do {
       n \<leftarrow> nodes T toInsert;
       pnew \<leftarrow> datas T (data n);
       dataNodeToInsert \<leftarrow> as_data pnew;
       plast \<leftarrow> datas T (data last);
       dataLastNode \<leftarrow> as_data plast;
       if \<not> ignoreTimestamps \<and> clock_gt (data_timestamp dataLastNode) ts then Some None
       else do {
         let dataLastNode = dataLastNode\<lparr>data_value := data_value dataNodeToInsert\<rparr>;
         c \<leftarrow> clk;
         let (newTimestampCounter, c) = clock_update strategy (counter ts) c;
         let T = store_data (data last) (DataP (stamp_data requestFromNode ts newTimestampCounter dataLastNode)) T;
         Some (Some (T, Some c, result_timestamp requestFromNode ts newTimestampCounter)) } } })"

definition set_left :: "addr \<Rightarrow> addr option \<Rightarrow> AVLTree \<Rightarrow> AVLTree option" where
  "set_left a inserted T = (case inserted of None \<Rightarrow> Some T
     | Some i \<Rightarrow> do { n \<leftarrow> nodes T a; Some (store_node a (n\<lparr>left := Some i\<rparr>) T) })"

definition set_right :: "addr \<Rightarrow> addr option \<Rightarrow> AVLTree \<Rightarrow> AVLTree option" where
  "set_right a inserted T = (case inserted of None \<Rightarrow> Some T
     | Some i \<Rightarrow> do { n \<leftarrow> nodes T a; Some (store_node a (n\<lparr>right := Some i\<rparr>) T) })"

definition rebalance_edit :: "addr \<Rightarrow> edit \<Rightarrow> (addr option \<times> edit) option" where
  "rebalance_edit a = (\<lambda>(T, clk, res). do { (a', T) \<leftarrow> rebalance a T; Some (Some a', T, clk, res) })"

partial_function (option) insertRecursiveData ::
  "addr \<Rightarrow> addr option \<Rightarrow> LamportClock \<Rightarrow> UpdateClockStrategy \<Rightarrow> bool \<Rightarrow> edit \<Rightarrow> (addr option \<times> edit) option" where
  "insertRecursiveData toInsert lst ts strategy requestFromNode e =
     (case lst of
        None \<Rightarrow> insert_leaf toInsert ts strategy requestFromNode e
      | Some a \<Rightarrow> do {
          n \<leftarrow> nodes (fst e) a;
          new \<leftarrow> nodes (fst e) toInsert;
          if keyHash n > keyHash new then do {
            (inserted, T, clk, res) \<leftarrow> insertRecursiveData toInsert (left n) ts strategy requestFromNode e;
            T \<leftarrow> set_left a inserted T;
            rebalance_edit a (T, clk, res) }
          else if keyHash n < keyHash new then do {
            (inserted, T, clk, res) \<leftarrow> insertRecursiveData toInsert (right n) ts strategy requestFromNode e;
            T \<leftarrow> set_right a inserted T;
            rebalance_edit a (T, clk, res) }
          else do {
            r \<leftarrow> overwrite_data toInsert a ts strategy requestFromNode e;
            (case r of None \<Rightarrow> Some (None, e) | Some e \<Rightarrow> rebalance_edit a e) } })"

partial_function (option) insertRecursiveCounter ::
  "addr \<Rightarrow> addr option \<Rightarrow> AVLTree \<Rightarrow> (addr option \<times> AVLTree) option" where
  "insertRecursiveCounter toInsert lst T =
     (case lst of
        None \<Rightarrow> Some (Some toInsert, if root T = None then T\<lparr>root := Some toInsert\<rparr> else T)
      | Some a \<Rightarrow> do {
          n \<leftarrow> nodes T a;
          new \<leftarrow> nodes T toInsert;
          if keyHash n > keyHash new then do {
            (inserted, T) \<leftarrow> insertRecursiveCounter toInsert (left n) T;
            T \<leftarrow> set_left a inserted T;
            (a', T) \<leftarrow> rebalance a T;
            Some (Some a', T) }
          else if keyHash n < keyHash new then do {
            (inserted, T) \<leftarrow> insertRecursiveCounter toInsert (right n) T;
            T \<leftarrow> set_right a inserted T;
            (a', T) \<leftarrow> rebalance a T;
            Some (Some a', T) }
          else Some (None, T) })"

text \<open>The public operations. \<open>Some (None, ...)\<close> is the error result.\<close>

definition addData ::
  "SimpleString \<Rightarrow> u32 \<Rightarrow> SimpleString \<Rightarrow> LamportClock \<Rightarrow> UpdateClockStrategy \<Rightarrow> bool \<Rightarrow> AVLTree \<Rightarrow>
     LamportClock option \<Rightarrow> (u64 option \<times> AVLTree \<times> LamportClock option) option" where
  "addData k h v timestampFromNode strategy requestFromNode T clk = do {
     let (newDataNode, T) = new_AVLNode k h DATA (DataP \<lparr>data_value = v, data_timestamp = LamportClock 0 0\<rparr>) T;
     (insertedNode, T, clk, res) \<leftarrow>
       insertRecursiveData newDataNode (root T) timestampFromNode strategy requestFromNode (T, clk, 0);
     Some (if insertedNode \<noteq> None then Some res else None, T, clk) }"

definition addCounter ::
  "SimpleString \<Rightarrow> u32 \<Rightarrow> memdbNodeId_t \<Rightarrow> nat \<Rightarrow> AVLTree \<Rightarrow> (bool \<times> AVLTree) option" where
  "addCounter k h self n T = do {
     let (newDataNode, T) = new_AVLNode k h COUNTER (CounterP (new_Counter self n)) T;
     (inserted, T) \<leftarrow> insertRecursiveCounter newDataNode (root T) T;
     Some (inserted \<noteq> None, T) }"

section \<open>Search, traversal and clearing\<close>

partial_function (option) get_from :: "AVLTree \<Rightarrow> u32 \<Rightarrow> addr option \<Rightarrow> addr option option" where
  "get_from T keyHashToSearch node =
     (case node of
        None \<Rightarrow> Some None
      | Some a \<Rightarrow> do {
          n \<leftarrow> nodes T a;
          if keyHash n = keyHashToSearch then Some (Some a)
          else if keyHashToSearch < keyHash n then get_from T keyHashToSearch (left n)
          else get_from T keyHashToSearch (right n) })"

definition avl_get :: "AVLTree \<Rightarrow> u32 \<Rightarrow> addr option option" where
  "avl_get T keyHashToSearch = get_from T keyHashToSearch (root T)"

definition avl_contains :: "AVLTree \<Rightarrow> u32 \<Rightarrow> bool option" where
  "avl_contains T keyHashToSearch = map_option (\<lambda>p. p \<noteq> None) (avl_get T keyHashToSearch)"

definition entry_of :: "AVLNode \<Rightarrow> MapEntry" where
  "entry_of n = \<lparr>entry_key = key n, entry_keyHash = keyHash n, entry_type = nodeType n, entry_data = data n\<rparr>"

partial_function (option) getOrderedByHashRecursive :: "AVLTree \<Rightarrow> addr \<Rightarrow> MapEntry list \<Rightarrow> MapEntry list option" where
  "getOrderedByHashRecursive T a toReturn = do {
     n \<leftarrow> nodes T a;
     toReturn \<leftarrow> (case left n of Some l \<Rightarrow> getOrderedByHashRecursive T l toReturn | None \<Rightarrow> Some toReturn);
     let toReturn = toReturn @ [entry_of n];
     (case right n of Some r \<Rightarrow> getOrderedByHashRecursive T r toReturn | None \<Rightarrow> Some toReturn) }"

definition getOrderedByHash :: "AVLTree \<Rightarrow> MapEntry list option" where
  "getOrderedByHash T = (case root T of Some a \<Rightarrow> getOrderedByHashRecursive T a [] | None \<Rightarrow> Some [])"

partial_function (option) clearRecursive :: "addr \<Rightarrow> AVLTree \<Rightarrow> AVLTree option" where
  "clearRecursive a T = do {
     n \<leftarrow> nodes T a;
     T \<leftarrow> (case left n of Some l \<Rightarrow> clearRecursive l T | None \<Rightarrow> Some T);
     n \<leftarrow> nodes T a;
     T \<leftarrow> (case right n of Some r \<Rightarrow> clearRecursive r T | None \<Rightarrow> Some T);
     Some (T\<lparr>nodes := (nodes T)(a := None)\<rparr>) }"

text \<open>\<^verbatim>\<open>clear\<close> dereferences the root without a test and leaves the root pointer as it was.\<close>

definition avl_clear :: "AVLTree \<Rightarrow> AVLTree option" where
  "avl_clear T = (case root T of Some a \<Rightarrow> clearRecursive a T | None \<Rightarrow> None)"

section \<open>Removal\<close>

partial_function (option) mostLeftChild :: "AVLTree \<Rightarrow> addr \<Rightarrow> addr option" where
  "mostLeftChild T a = do {
     n \<leftarrow> nodes T a;
     (case left n of Some l \<Rightarrow> mostLeftChild T l | None \<Rightarrow> Some a) }"

definition rebalance_ptr :: "addr option \<Rightarrow> AVLTree \<Rightarrow> (addr option \<times> AVLTree) option" where
  "rebalance_ptr p T = (case p of None \<Rightarrow> Some (None, T)
     | Some a \<Rightarrow> do { (a', T) \<leftarrow> rebalance a T; Some (Some a', T) })"

text \<open>
  The timestamp handed to the inner removal of the two-child case is read from a payload that may have
  been released; it is used neither for comparison nor for the clock there (strategy
  \<^verbatim>\<open>NONE\<close>), so the caller's timestamp stands for it.
\<close>

partial_function (option) removeRecursiveData ::
  "addr option \<Rightarrow> u32 \<Rightarrow> LamportClock \<Rightarrow> UpdateClockStrategy \<Rightarrow> bool \<Rightarrow> bool \<Rightarrow> edit \<Rightarrow>
     (addr option \<times> bool \<times> edit) option" where
  "removeRecursiveData lst keyHashToRemove ts strategy checkTimestamps removed e =
     (case lst of
        None \<Rightarrow> Some (None, removed, e)
      | Some a \<Rightarrow> do {
          n \<leftarrow> nodes (fst e) a;
          if keyHash n > keyHashToRemove then do {
            (p, removed, T, clk, res) \<leftarrow>
              removeRecursiveData (left n) keyHashToRemove ts strategy checkTimestamps removed e;
            n \<leftarrow> nodes T a;
            (q, T) \<leftarrow> rebalance_ptr (Some a) (store_node a (n\<lparr>left := p\<rparr>) T);
            Some (q, removed, T, clk, res) }
          else if keyHash n < keyHashToRemove then do {
            (p, removed, T, clk, res) \<leftarrow>
              removeRecursiveData (left n) keyHashToRemove ts strategy checkTimestamps removed e;
            n \<leftarrow> nodes T a;
            (q, T) \<leftarrow> rebalance_ptr (Some a) (store_node a (n\<lparr>right := p\<rparr>) T);
            Some (q, removed, T, clk, res) }
          else if nodeType n \<noteq> DATA then Some (Some a, False, fst e, fst (snd e), 0)
          else do {
            p \<leftarrow> datas (fst e) (data n);
            dataNodeLast \<leftarrow> as_data p;
            if \<not> (strategy = NONE \<or> \<not> checkTimestamps) \<and> clock_gt (data_timestamp dataNodeLast) ts
            then Some (Some a, False, fst e, fst (snd e), 0)
            else do {
              let T = fst e;
              let rootRemoved = (root T = Some a);
              c \<leftarrow> fst (snd e);
              let (res, c) = clock_update strategy (counter ts) c;
              (case (left n, right n) of
                 (Some l, Some r) \<Rightarrow> do {
                   temp \<leftarrow> mostLeftChild T r;
                   m \<leftarrow> nodes T temp;
                   let T = store_node a (n\<lparr>keyHash := keyHash m, data := data m, nodeType := nodeType m\<rparr>) T;
                   (p, ignore, T, clk, res) \<leftarrow>
                     removeRecursiveData (Some r) (keyHash m) ts NONE (strategy = NONE \<or> \<not> checkTimestamps)
                       False (T, Some c, res);
                   n \<leftarrow> nodes T a;
                   (q, T) \<leftarrow> rebalance_ptr (Some a) (store_node a (n\<lparr>right := p\<rparr>) T);
                   Some (q, True, T, clk, res) }
               | (l, r) \<Rightarrow> do {
                   let child = (if l = None then r else l);
                   let T = (if rootRemoved then T\<lparr>root := child\<rparr> else T);
                   let T = T\<lparr>nodes := (nodes T)(a := None)\<rparr>;
                   (q, T) \<leftarrow> rebalance_ptr child T;
                   Some (q, True, T, Some c, res) }) } } })"

definition removeData ::
  "u32 \<Rightarrow> LamportClock \<Rightarrow> UpdateClockStrategy \<Rightarrow> bool \<Rightarrow> AVLTree \<Rightarrow> LamportClock option \<Rightarrow>
     (u64 option \<times> AVLTree \<times> LamportClock option) option" where
  "removeData h ts strategy checkTimestamps T clk = do {
     (p, removed, T, clk, res) \<leftarrow> removeRecursiveData (root T) h ts strategy checkTimestamps False (T, clk, 0);
     Some (if removed then Some res else None, T, clk) }"

declare insertRecursiveData.simps [code] insertRecursiveCounter.simps [code] get_from.simps [code]
  getOrderedByHashRecursive.simps [code] clearRecursive.simps [code] mostLeftChild.simps [code]
  removeRecursiveData.simps [code]

end
