(* ===== verification/Avl_Shape.thy ===== *)
theory Avl_Shape
  imports Avl_Heap
begin

text \<open>
  Trees behind the heap of \<^theory_text>\<open>Avl_Heap\<close>: the address-annotated tree a heap represents, and
  the pointer-level rotations and rebalancing as functions on it. The footprint of every operation is
  the set of addresses of the tree it works on.
\<close>

section \<open>Trees in the heap\<close>

record cell =
  c_key :: SimpleString
  c_data :: addr
  c_hash :: u32
  c_type :: NodeType

datatype ptree = Tip | Bin ptree addr cell int ptree

fun ptr :: "ptree \<Rightarrow> addr option" where
  "ptr Tip = None"
| "ptr (Bin l a c h r) = Some a"

fun ht :: "ptree \<Rightarrow> int" where
  "ht Tip = -1"
| "ht (Bin l a c h r) = h"

fun addrs :: "ptree \<Rightarrow> addr set" where
  "addrs Tip = {}"
| "addrs (Bin l a c h r) = insert a (addrs l \<union> addrs r)"

fun cells :: "ptree \<Rightarrow> cell set" where
  "cells Tip = {}"
| "cells (Bin l a c h r) = insert c (cells l \<union> cells r)"

definition mk_node :: "cell \<Rightarrow> int \<Rightarrow> addr option \<Rightarrow> addr option \<Rightarrow> AVLNode" where
  "mk_node c h p q = \<lparr>key = c_key c, left = p, right = q, data = c_data c, keyHash = c_hash c,
     height = h, nodeType = c_type c\<rparr>"

fun tree_at :: "(addr \<rightharpoonup> AVLNode) \<Rightarrow> ptree \<Rightarrow> bool" where
  "tree_at m Tip = True"
| "tree_at m (Bin l a c h r) \<longleftrightarrow> m a = Some (mk_node c h (ptr l) (ptr r)) \<and> tree_at m l \<and> tree_at m r"

text \<open>No address occurs twice.\<close>

fun sep :: "ptree \<Rightarrow> bool" where
  "sep Tip = True"
| "sep (Bin l a c h r) \<longleftrightarrow> a \<notin> addrs l \<and> a \<notin> addrs r \<and> addrs l \<inter> addrs r = {} \<and> sep l \<and> sep r"

fun low_ok :: "ptree \<Rightarrow> bool" where
  "low_ok Tip = True"
| "low_ok (Bin l a c h r) \<longleftrightarrow> -1 \<le> h \<and> low_ok l \<and> low_ok r"

lemma mk_node_simps [simp]:
  "key (mk_node c h p q) = c_key c" "left (mk_node c h p q) = p" "right (mk_node c h p q) = q"
  "data (mk_node c h p q) = c_data c" "keyHash (mk_node c h p q) = c_hash c"
  "height (mk_node c h p q) = h" "nodeType (mk_node c h p q) = c_type c"
  "(mk_node c h p q)\<lparr>left := p'\<rparr> = mk_node c h p' q" "(mk_node c h p q)\<lparr>right := q'\<rparr> = mk_node c h p q'"
  "(mk_node c h p q)\<lparr>height := h'\<rparr> = mk_node c h' p q"
  by (simp_all add: mk_node_def)

lemma ptr_eq_None [simp]: "ptr t = None \<longleftrightarrow> t = Tip"
  by (cases t) auto

lemma ptr_in_addrs: "ptr t = Some a \<Longrightarrow> a \<in> addrs t"
  by (cases t) auto

lemma finite_addrs [simp]: "finite (addrs t)"
  by (induction t) auto

lemma finite_cells [simp]: "finite (cells t)"
  by (induction t) auto

lemma ht_ge: "low_ok t \<Longrightarrow> -1 \<le> ht t"
  by (cases t) auto

lemma tree_at_frame: "tree_at m t \<Longrightarrow> \<forall>a \<in> addrs t. m' a = m a \<Longrightarrow> tree_at m' t"
  by (induction t) auto

lemma tree_at_upd [simp]: "a \<notin> addrs t \<Longrightarrow> tree_at (m(a := x)) t \<longleftrightarrow> tree_at m t"
  by (induction t) auto

lemma getHeight_ptr: "tree_at (nodes T) t \<Longrightarrow> getHeight T (ptr t) = Some (ht t)"
  by (cases t) (auto simp: getHeight_def)

lemma store_node_simps [simp]:
  "nodes (store_node a n T) = (nodes T)(a \<mapsto> n)" "datas (store_node a n T) = datas T"
  "root (store_node a n T) = root T" "next_addr (store_node a n T) = next_addr T"
  by (simp_all add: store_node_def)

lemma store_data_simps [simp]:
  "nodes (store_data d p T) = nodes T" "datas (store_data d p T) = (datas T)(d \<mapsto> p)"
  "root (store_data d p T) = root T" "next_addr (store_data d p T) = next_addr T"
  by (simp_all add: store_data_def)

lemma updateRoot_simps [simp]:
  "nodes (updateRootReferenceIfNeccesary a b T) = nodes T"
  "datas (updateRootReferenceIfNeccesary a b T) = datas T"
  "next_addr (updateRootReferenceIfNeccesary a b T) = next_addr T"
  "root (updateRootReferenceIfNeccesary a b T) = (if root T = Some a then Some b else root T)"
  by (simp_all add: updateRootReferenceIfNeccesary_def)

lemma updateHeight_at:
  assumes "nodes T a = Some (mk_node c h (ptr l) (ptr r))" and "tree_at (nodes T) l" and "tree_at (nodes T) r"
  shows "updateHeight a T = Some (store_node a (mk_node c (max (ht l) (ht r) + 1) (ptr l) (ptr r)) T)"
  using assms by (simp add: updateHeight_def getHeight_ptr)

lemma getHeightFactor_at:
  assumes "tree_at (nodes T) (Bin l a c h r)"
  shows "getHeightFactor T (Some a) = Some (ht r - ht l)"
  using assms by (simp add: getHeightFactor_def getHeight_ptr)

section \<open>Rotations and rebalancing as functions\<close>

definition mk :: "ptree \<Rightarrow> addr \<Rightarrow> cell \<Rightarrow> ptree \<Rightarrow> ptree" where
  "mk l a c r = Bin l a c (max (ht l) (ht r) + 1) r"

fun rotR :: "ptree \<Rightarrow> addr \<Rightarrow> cell \<Rightarrow> ptree \<Rightarrow> ptree" where
  "rotR (Bin ll b cb hb lr) a c r = mk ll b cb (mk lr a c r)"
| "rotR Tip a c r = mk Tip a c r"

fun rotL :: "ptree \<Rightarrow> addr \<Rightarrow> cell \<Rightarrow> ptree \<Rightarrow> ptree" where
  "rotL l a c (Bin rl b cb hb rr) = mk (mk l a c rl) b cb rr"
| "rotL l a c Tip = mk l a c Tip"

fun balL :: "ptree \<Rightarrow> addr \<Rightarrow> cell \<Rightarrow> ptree \<Rightarrow> ptree" where
  "balL (Bin ll b cb hb lr) a c r =
     (if ht lr - ht ll > 0 then rotR (rotL ll b cb lr) a c r else rotR (Bin ll b cb hb lr) a c r)"
| "balL Tip a c r = mk Tip a c r"

fun balR :: "ptree \<Rightarrow> addr \<Rightarrow> cell \<Rightarrow> ptree \<Rightarrow> ptree" where
  "balR l a c (Bin rl b cb hb rr) =
     (if ht rr - ht rl < 0 then rotL l a c (rotR rl b cb rr) else rotL l a c (Bin rl b cb hb rr))"
| "balR l a c Tip = mk l a c Tip"

definition rebal :: "ptree \<Rightarrow> addr \<Rightarrow> cell \<Rightarrow> ptree \<Rightarrow> ptree" where
  "rebal l a c r =
     (if ht r - ht l < -1 then balL l a c r else if ht r - ht l > 1 then balR l a c r else mk l a c r)"

lemma ht_mk [simp]: "ht (mk l a c r) = max (ht l) (ht r) + 1" by (simp add: mk_def)
lemma ptr_mk [simp]: "ptr (mk l a c r) = Some a" by (simp add: mk_def)
lemma addrs_mk [simp]: "addrs (mk l a c r) = insert a (addrs l \<union> addrs r)" by (simp add: mk_def)
lemma cells_mk [simp]: "cells (mk l a c r) = insert c (cells l \<union> cells r)" by (simp add: mk_def)
lemma mk_neq_Tip [simp]: "mk l a c r \<noteq> Tip" by (simp add: mk_def)
lemma sep_mk [simp]: "sep (mk l a c r) \<longleftrightarrow> a \<notin> addrs l \<and> a \<notin> addrs r \<and> addrs l \<inter> addrs r = {} \<and> sep l \<and> sep r"
  by (simp add: mk_def)
lemma tree_at_mk [simp]: "tree_at m (mk l a c r) \<longleftrightarrow>
    m a = Some (mk_node c (max (ht l) (ht r) + 1) (ptr l) (ptr r)) \<and> tree_at m l \<and> tree_at m r"
  by (simp add: mk_def)

lemma rot_contents [simp]:
  "addrs (rotR l a c r) = insert a (addrs l \<union> addrs r)" "cells (rotR l a c r) = insert c (cells l \<union> cells r)"
  "addrs (rotL l a c r) = insert a (addrs l \<union> addrs r)" "cells (rotL l a c r) = insert c (cells l \<union> cells r)"
  by (cases l; auto; fail | cases r; auto; fail)+

lemma rebal_contents [simp]:
  "addrs (rebal l a c r) = insert a (addrs l \<union> addrs r)" "cells (rebal l a c r) = insert c (cells l \<union> cells r)"
  by (cases l; cases r; auto simp: rebal_def)+

lemma rot_sep:
  "sep (mk l a c r) \<Longrightarrow> sep (rotR l a c r)" "sep (mk l a c r) \<Longrightarrow> sep (rotL l a c r)"
  by (cases l; auto; fail | cases r; auto; fail)+

section \<open>Operations that stay inside a tree\<close>

text \<open>\<open>moves T t T' t'\<close>: the heap of \<open>T'\<close> holds \<open>t'\<close> where that of \<open>T\<close> held \<open>t\<close>; nothing outside
  the addresses of \<open>t\<close> has changed, and the root pointer has followed if it pointed to \<open>t\<close>.\<close>

definition moves :: "AVLTree \<Rightarrow> ptree \<Rightarrow> AVLTree \<Rightarrow> ptree \<Rightarrow> bool" where
  "moves T t T' t' \<longleftrightarrow> tree_at (nodes T') t' \<and> sep t' \<and> addrs t' = addrs t \<and>
     (\<forall>x. x \<notin> addrs t \<longrightarrow> nodes T' x = nodes T x) \<and> datas T' = datas T \<and> next_addr T' = next_addr T \<and>
     root T' = (if root T = ptr t then ptr t' else root T)"

definition root_outside :: "AVLTree \<Rightarrow> ptree \<Rightarrow> bool" where
  "root_outside T t \<longleftrightarrow> (\<forall>a. root T = Some a \<longrightarrow> a \<in> addrs t \<longrightarrow> ptr t = Some a)"

lemma rotateRight_moves:
  assumes at: "tree_at (nodes T) (Bin l a c h r)" and sep: "sep (Bin l a c h r)" and l: "l \<noteq> Tip"
  shows "\<exists>b T'. rotateRight a T = Some (b, T') \<and> ptr (rotR l a c r) = Some b \<and>
    moves T (Bin l a c h r) T' (rotR l a c r)"
proof -
  obtain ll b cb hb lr where l_eq: "l = Bin ll b cb hb lr" using l by (cases l) auto
  have ab: "a \<noteq> b" "a \<notin> addrs ll" "a \<notin> addrs lr" "a \<notin> addrs r" "b \<notin> addrs ll" "b \<notin> addrs lr" "b \<notin> addrs r"
    using sep by (auto simp: l_eq)
  let ?T1 = "updateRootReferenceIfNeccesary a b T"
  let ?T2 = "store_node a (mk_node c h (ptr lr) (ptr r)) ?T1"
  let ?T3 = "store_node b (mk_node cb hb (ptr ll) (Some a)) ?T2"
  let ?T4 = "store_node a (mk_node c (max (ht lr) (ht r) + 1) (ptr lr) (ptr r)) ?T3"
  let ?T5 = "store_node b (mk_node cb (max (ht ll) (max (ht lr) (ht r) + 1) + 1) (ptr ll) (Some a)) ?T4"
  have u4: "updateHeight a ?T3 = Some ?T4"
    using at ab by (intro updateHeight_at) (simp_all add: l_eq)
  have u5: "updateHeight b ?T4 = Some ?T5"
    using at ab updateHeight_at [of ?T4 b cb hb ll "mk lr a c r"] by (simp add: l_eq)
  have "rotateRight a T = Some (b, ?T5)"
    using at ab u4 u5 by (simp add: rotateRight_def l_eq)
  moreover have "moves T (Bin l a c h r) ?T5 (rotR l a c r)"
    using at ab sep by (auto simp: moves_def l_eq)
  ultimately show ?thesis by (simp add: l_eq)
qed

lemma rotateLeft_moves:
  assumes at: "tree_at (nodes T) (Bin l a c h r)" and sep: "sep (Bin l a c h r)" and r: "r \<noteq> Tip"
  shows "\<exists>b T'. rotateLeft a T = Some (b, T') \<and> ptr (rotL l a c r) = Some b \<and>
    moves T (Bin l a c h r) T' (rotL l a c r)"
proof -
  obtain rl b cb hb rr where r_eq: "r = Bin rl b cb hb rr" using r by (cases r) auto
  have ab: "a \<noteq> b" "a \<notin> addrs rl" "a \<notin> addrs rr" "a \<notin> addrs l" "b \<notin> addrs rl" "b \<notin> addrs rr" "b \<notin> addrs l"
    using sep by (auto simp: r_eq)
  let ?T2 = "store_node a (mk_node c h (ptr l) (ptr rl)) T"
  let ?T3 = "updateRootReferenceIfNeccesary a b (store_node b (mk_node cb hb (Some a) (ptr rr)) ?T2)"
  let ?T4 = "store_node a (mk_node c (max (ht l) (ht rl) + 1) (ptr l) (ptr rl)) ?T3"
  let ?T5 = "store_node b (mk_node cb (max (max (ht l) (ht rl) + 1) (ht rr) + 1) (Some a) (ptr rr)) ?T4"
  have u4: "updateHeight a ?T3 = Some ?T4"
    using at ab by (intro updateHeight_at) (simp_all add: r_eq)
  have u5: "updateHeight b ?T4 = Some ?T5"
    using at ab updateHeight_at [of ?T4 b cb hb "mk l a c rl" rr] by (simp add: r_eq)
  have "rotateLeft a T = Some (b, ?T5)"
    using at ab u4 u5 by (simp add: rotateLeft_def r_eq)
  moreover have "moves T (Bin l a c h r) ?T5 (rotL l a c r)"
    using at ab sep by (auto simp: moves_def r_eq)
  ultimately show ?thesis by (simp add: r_eq)
qed

lemma moves_trans:
  assumes "moves T t T1 t1" and "moves T1 t1 T2 t2" and "root_outside T t"
  shows "moves T t T2 t2"
proof -
  have "root T2 = (if root T = ptr t then ptr t2 else root T)"
  proof (cases "root T = ptr t")
    case False
    have "root T \<noteq> ptr t1 \<or> ptr t1 = None"
    proof (cases "ptr t1")
      case (Some a)
      then have "a \<in> addrs t" using assms(1) ptr_in_addrs [of t1 a] by (auto simp: moves_def)
      then show ?thesis using Some False assms(3) by (auto simp: root_outside_def)
    qed simp
    moreover have "t1 = Tip \<longrightarrow> t = Tip \<and> t2 = Tip"
      using assms(1,2) by (cases t; cases t2) (auto simp: moves_def)
    ultimately show ?thesis using False assms(1,2) by (auto simp: moves_def)
  qed (use assms(1,2) in \<open>auto simp: moves_def\<close>)
  then show ?thesis using assms(1,2) by (auto simp: moves_def)
qed

lemma moves_outside:
  "moves T t T' t' \<Longrightarrow> tree_at (nodes T) u \<Longrightarrow> addrs u \<inter> addrs t = {} \<Longrightarrow> tree_at (nodes T') u"
  by (rule tree_at_frame [of "nodes T" u]) (auto simp: moves_def)

text \<open>Replacing the left (right) child of a node by what a step made of it.\<close>

lemma moves_left:
  assumes at: "tree_at (nodes T) (Bin l a c h r)" and sep: "sep (Bin l a c h r)"
    and m: "moves T l T1 l1" and out: "root_outside T (Bin l a c h r)"
    and T': "T' = store_node a (mk_node c h' (ptr l1) (ptr r)) T1"
  shows "moves T (Bin l a c h r) T' (Bin l1 a c h' r)"
proof -
  have "root T \<noteq> ptr l \<or> l = Tip"
    using out sep by (cases l) (auto simp: root_outside_def)
  moreover have "l = Tip \<longrightarrow> l1 = Tip" using m by (cases l1) (auto simp: moves_def)
  moreover have "tree_at (nodes T1) r" using moves_outside [OF m, of r] at sep by auto
  moreover have "a \<notin> addrs l1" "a \<notin> addrs r" "addrs l1 = addrs l" "addrs l1 \<inter> addrs r = {}"
    using m sep by (auto simp: moves_def)
  ultimately show ?thesis using m sep unfolding T' by (auto simp: moves_def)
qed

lemma moves_right:
  assumes at: "tree_at (nodes T) (Bin l a c h r)" and sep: "sep (Bin l a c h r)"
    and m: "moves T r T1 r1" and out: "root_outside T (Bin l a c h r)"
    and T': "T' = store_node a (mk_node c h' (ptr l) (ptr r1)) T1"
  shows "moves T (Bin l a c h r) T' (Bin l a c h' r1)"
proof -
  have "root T \<noteq> ptr r \<or> r = Tip"
    using out sep by (cases r) (auto simp: root_outside_def)
  moreover have "r = Tip \<longrightarrow> r1 = Tip" using m by (cases r1) (auto simp: moves_def)
  moreover have "tree_at (nodes T1) l" using moves_outside [OF m, of l] at sep by auto
  moreover have "a \<notin> addrs r1" "a \<notin> addrs l" "addrs r1 = addrs r" "addrs l \<inter> addrs r1 = {}"
    using m sep by (auto simp: moves_def)
  ultimately show ?thesis using m sep unfolding T' by (auto simp: moves_def)
qed

lemma moves_refl: "tree_at (nodes T) t \<Longrightarrow> sep t \<Longrightarrow> moves T t T t"
  by (auto simp: moves_def)

lemma moves_root_outside:
  assumes "moves T t T' t'" and "root_outside T t" shows "root_outside T' t'"
  unfolding root_outside_def
proof (intro allI impI)
  fix a assume a: "root T' = Some a" "a \<in> addrs t'"
  show "ptr t' = Some a"
  proof (cases "root T = ptr t")
    case True
    then show ?thesis using assms(1) a by (simp add: moves_def)
  next
    case False
    then have "root T = Some a" "a \<in> addrs t" using assms(1) a by (auto simp: moves_def)
    then show ?thesis using assms(2) False by (auto simp: root_outside_def)
  qed
qed

lemma root_outside_child:
  assumes "root_outside T (Bin l a c h r)" and "sep (Bin l a c h r)"
  shows "root_outside T l" and "root_outside T r"
  using assms by (auto simp: root_outside_def)

lemma rebalance_left:
  assumes at: "tree_at (nodes T) (Bin l a c h r)" and sep: "sep (Bin l a c h r)"
    and low: "low_ok l" "low_ok r" and out: "root_outside T (Bin l a c h r)"
    and heavy: "ht r - ht l < -1"
  shows "\<exists>b T'. rebalance_left_heavy a T = Some (b, T') \<and> ptr (balL l a c r) = Some b \<and>
    moves T (Bin l a c h r) T' (balL l a c r)"
proof -
  have "l \<noteq> Tip" using heavy low ht_ge [of r] by (cases l) auto
  then obtain ll b cb hb lr where l: "l = Bin ll b cb hb lr" by (cases l) auto
  have lf: "getHeightFactor T (Some b) = Some (ht lr - ht ll)"
    using at getHeightFactor_at [of T ll b cb hb lr] by (simp add: l)
  show ?thesis
  proof (cases "ht lr - ht ll > 0")
    case True
    then have "lr \<noteq> Tip" using low ht_ge [of ll] by (cases lr) (auto simp: l)
    moreover have "tree_at (nodes T) l" "sep l" using at sep by auto
    ultimately obtain b' T1 where T1: "rotateLeft b T = Some (b', T1)" "ptr (rotL ll b cb lr) = Some b'"
      "moves T l T1 (rotL ll b cb lr)"
      using rotateLeft_moves [of T ll b cb hb lr] by (auto simp: l)
    let ?l1 = "rotL ll b cb lr"
    let ?T2 = "store_node a (mk_node c h (ptr ?l1) (ptr r)) T1"
    have m: "moves T (Bin l a c h r) ?T2 (Bin ?l1 a c h r)" by (rule moves_left [OF at sep T1(3) out refl])
    have na: "nodes T1 a = nodes T a" using T1(3) sep by (auto simp: moves_def)
    have "?l1 \<noteq> Tip" using T1(2) by auto
    then obtain b'' T3 where T3: "rotateRight a ?T2 = Some (b'', T3)" "ptr (rotR ?l1 a c r) = Some b''"
      "moves ?T2 (Bin ?l1 a c h r) T3 (rotR ?l1 a c r)"
      using rotateRight_moves [of ?T2 ?l1 a c h r] m by (auto simp: moves_def)
    have "moves T (Bin l a c h r) T3 (rotR ?l1 a c r)" by (rule moves_trans [OF m T3(3) out])
    then show ?thesis using at True lf T1(1,2) T3(1,2) na by (simp add: l rebalance_left_heavy_def)
  next
    case False
    then show ?thesis using rotateRight_moves [OF at sep \<open>l \<noteq> Tip\<close>] at lf by (simp add: l rebalance_left_heavy_def)
  qed
qed

lemma rebalance_right:
  assumes at: "tree_at (nodes T) (Bin l a c h r)" and sep: "sep (Bin l a c h r)"
    and low: "low_ok l" "low_ok r" and out: "root_outside T (Bin l a c h r)"
    and heavy: "ht r - ht l > 1"
  shows "\<exists>b T'. rebalance_right_heavy a T = Some (b, T') \<and> ptr (balR l a c r) = Some b \<and>
    moves T (Bin l a c h r) T' (balR l a c r)"
proof -
  have "r \<noteq> Tip" using heavy low ht_ge [of l] by (cases r) auto
  then obtain rl b cb hb rr where r: "r = Bin rl b cb hb rr" by (cases r) auto
  have rf: "getHeightFactor T (Some b) = Some (ht rr - ht rl)"
    using at getHeightFactor_at [of T rl b cb hb rr] by (simp add: r)
  show ?thesis
  proof (cases "ht rr - ht rl < 0")
    case True
    then have "rl \<noteq> Tip" using low ht_ge [of rr] by (cases rl) (auto simp: r)
    moreover have "tree_at (nodes T) r" "sep r" using at sep by auto
    ultimately obtain b' T1 where T1: "rotateRight b T = Some (b', T1)" "ptr (rotR rl b cb rr) = Some b'"
      "moves T r T1 (rotR rl b cb rr)"
      using rotateRight_moves [of T rl b cb hb rr] by (auto simp: r)
    let ?r1 = "rotR rl b cb rr"
    let ?T2 = "store_node a (mk_node c h (ptr l) (ptr ?r1)) T1"
    have m: "moves T (Bin l a c h r) ?T2 (Bin l a c h ?r1)" by (rule moves_right [OF at sep T1(3) out refl])
    have na: "nodes T1 a = nodes T a" using T1(3) sep by (auto simp: moves_def)
    have "?r1 \<noteq> Tip" using T1(2) by auto
    then obtain b'' T3 where T3: "rotateLeft a ?T2 = Some (b'', T3)" "ptr (rotL l a c ?r1) = Some b''"
      "moves ?T2 (Bin l a c h ?r1) T3 (rotL l a c ?r1)"
      using rotateLeft_moves [of ?T2 l a c h ?r1] m by (auto simp: moves_def)
    have "moves T (Bin l a c h r) T3 (rotL l a c ?r1)" by (rule moves_trans [OF m T3(3) out])
    then show ?thesis using at True rf T1(1,2) T3(1,2) na by (simp add: r rebalance_right_heavy_def)
  next
    case False
    then show ?thesis using rotateLeft_moves [OF at sep \<open>r \<noteq> Tip\<close>] at rf by (simp add: r rebalance_right_heavy_def)
  qed
qed

lemma rebalance_moves:
  assumes at: "tree_at (nodes T) (Bin l a c h r)" and sep: "sep (Bin l a c h r)"
    and low: "low_ok l" "low_ok r" and out: "root_outside T (Bin l a c h r)"
  shows "\<exists>b T'. rebalance a T = Some (b, T') \<and> ptr (rebal l a c r) = Some b \<and>
    moves T (Bin l a c h r) T' (rebal l a c r)"
proof -
  define H where "H = max (ht l) (ht r) + 1"
  define T1 where "T1 = store_node a (mk_node c H (ptr l) (ptr r)) T"
  have u: "updateHeight a T = Some T1"
    unfolding T1_def H_def using at by (intro updateHeight_at) auto
  have m: "moves T (Bin l a c h r) T1 (Bin l a c H r)" using at sep by (auto simp: moves_def T1_def)
  then have at1: "tree_at (nodes T1) (Bin l a c H r)" and sep1: "sep (Bin l a c H r)" by (auto simp: moves_def)
  have out1: "root_outside T1 (Bin l a c H r)" by (rule moves_root_outside [OF m out])
  note f = getHeightFactor_at [OF at1]
  consider "ht r - ht l < -1" | "ht r - ht l > 1" | "\<not> ht r - ht l < -1" "\<not> ht r - ht l > 1" by linarith
  then show ?thesis
  proof cases
    case 1
    obtain b T' where b: "rebalance_left_heavy a T1 = Some (b, T')" "ptr (balL l a c r) = Some b"
      "moves T1 (Bin l a c H r) T' (balL l a c r)"
      using rebalance_left [OF at1 sep1 low out1 1] by blast
    have "rebalance a T = Some (b, T')" using 1 by (simp add: rebalance_def u f b(1))
    moreover have "rebal l a c r = balL l a c r" using 1 by (simp add: rebal_def)
    ultimately show ?thesis using b(2) moves_trans [OF m b(3) out] by simp
  next
    case 2
    obtain b T' where b: "rebalance_right_heavy a T1 = Some (b, T')" "ptr (balR l a c r) = Some b"
      "moves T1 (Bin l a c H r) T' (balR l a c r)"
      using rebalance_right [OF at1 sep1 low out1 2] by blast
    have "rebalance a T = Some (b, T')" using 2 by (simp add: rebalance_def u f b(1))
    moreover have "rebal l a c r = balR l a c r" using 2 by (simp add: rebal_def)
    ultimately show ?thesis using b(2) moves_trans [OF m b(3) out] by simp
  next
    case 3
    have "rebalance a T = Some (a, T1)" using 3 by (simp add: rebalance_def u f)
    moreover have "rebal l a c r = Bin l a c H r" using 3 by (simp add: rebal_def mk_def H_def)
    ultimately show ?thesis using m by simp
  qed
qed

end
