(* ===== verification/Avl_Insert.thy ===== *)
theory Avl_Insert
  imports Avl_Shape
begin

text \<open>
  Insertion into the tree of \<^theory_text>\<open>Avl_Heap\<close>: the invariant of the stored heights and of the
  order, insertion as a function on trees, and the proof that the recursive pointer code implements
  it.
\<close>

section \<open>Invariants\<close>

text \<open>
  A new leaf is created with height \<open>-1\<close>, the height of the null pointer, and gets its height only
  when it is next on the path of an operation. So a stored height is one above the higher child, or
  \<open>-1\<close> at a leaf that has not been visited since.
\<close>

fun hinv :: "ptree \<Rightarrow> bool" where
  "hinv Tip = True"
| "hinv (Bin l a c h r) \<longleftrightarrow> hinv l \<and> hinv r \<and> \<bar>ht r - ht l\<bar> \<le> 1 \<and>
     (h = max (ht l) (ht r) + 1 \<or> h = -1 \<and> l = Tip \<and> r = Tip)"

fun bst :: "ptree \<Rightarrow> bool" where
  "bst Tip = True"
| "bst (Bin l a c h r) \<longleftrightarrow> bst l \<and> bst r \<and> (\<forall>x \<in> cells l. c_hash x < c_hash c) \<and> (\<forall>x \<in> cells r. c_hash c < c_hash x)"

fun tfind :: "ptree \<Rightarrow> u32 \<Rightarrow> (addr \<times> cell) option" where
  "tfind Tip h = None"
| "tfind (Bin l a c hh r) h =
     (if c_hash c = h then Some (a, c) else if h < c_hash c then tfind l h else tfind r h)"

fun ins :: "bool \<Rightarrow> addr \<Rightarrow> cell \<Rightarrow> ptree \<Rightarrow> ptree" where
  "ins acc x nc Tip = Bin Tip x nc (-1) Tip"
| "ins acc x nc (Bin l a c h r) =
     (if c_hash c > c_hash nc then rebal (ins acc x nc l) a c r
      else if c_hash c < c_hash nc then rebal l a c (ins acc x nc r)
      else if acc then rebal l a c r else Bin l a c h r)"

section \<open>Heights\<close>

lemma hinv_ht: "hinv t \<Longrightarrow> -1 \<le> ht t"
  by (induction t) auto

lemma hinv_low_ok: "hinv t \<Longrightarrow> low_ok t"
proof (induction t)
  case (Bin l a c h r)
  then show ?case using hinv_ht [of "Bin l a c h r"] by simp
qed simp

lemma hinv_nonneg:
  "hinv (Bin l a c h r) \<Longrightarrow> 0 \<le> h \<Longrightarrow> h = max (ht l) (ht r) + 1"
  by auto

lemma hinv_mk: "hinv l \<Longrightarrow> hinv r \<Longrightarrow> \<bar>ht r - ht l\<bar> \<le> 1 \<Longrightarrow> hinv (mk l a c r)"
  by (simp add: mk_def)

lemma balL_hinv:
  assumes l: "hinv l" and r: "hinv r" and d: "ht r - ht l = -2"
  shows "hinv (balL l a c r) \<and> ht l \<le> ht (balL l a c r) \<and> ht (balL l a c r) \<le> ht l + 1"
proof (cases l)
  case Tip
  then show ?thesis using d hinv_ht [OF r] by simp
next
  case [simp]: (Bin ll b cb hb lr)
  have hb: "1 \<le> hb" using d hinv_ht [OF r] by simp
  then have h: "hb = max (ht ll) (ht lr) + 1" and kids: "hinv ll" "hinv lr" "\<bar>ht lr - ht ll\<bar> \<le> 1"
    using l by auto
  show ?thesis
  proof (cases "ht lr - ht ll > 0")
    case True
    then have lr_ht: "ht lr = hb - 1" "ht ll = hb - 2" using h kids(3) by auto
    show ?thesis
    proof (cases lr)
      case Tip
      then show ?thesis using lr_ht hb by simp
    next
      case [simp]: (Bin rl e ce he rr)
      have "he = max (ht rl) (ht rr) + 1" "hinv rl" "hinv rr" "\<bar>ht rr - ht rl\<bar> \<le> 1"
        using kids(2) lr_ht hb by auto
      then show ?thesis using True lr_ht d kids(1) r by (auto simp: mk_def)
    qed
  next
    case False
    then show ?thesis using h kids d r by (auto simp: mk_def)
  qed
qed

lemma balR_hinv:
  assumes l: "hinv l" and r: "hinv r" and d: "ht r - ht l = 2"
  shows "hinv (balR l a c r) \<and> ht r \<le> ht (balR l a c r) \<and> ht (balR l a c r) \<le> ht r + 1"
proof (cases r)
  case Tip
  then show ?thesis using d hinv_ht [OF l] by simp
next
  case [simp]: (Bin rl b cb hb rr)
  have hb: "1 \<le> hb" using d hinv_ht [OF l] by simp
  then have h: "hb = max (ht rl) (ht rr) + 1" and kids: "hinv rl" "hinv rr" "\<bar>ht rr - ht rl\<bar> \<le> 1"
    using r by auto
  show ?thesis
  proof (cases "ht rr - ht rl < 0")
    case True
    then have rl_ht: "ht rl = hb - 1" "ht rr = hb - 2" using h kids(3) by auto
    show ?thesis
    proof (cases rl)
      case Tip
      then show ?thesis using rl_ht hb by simp
    next
      case [simp]: (Bin ll e ce he lr)
      have "he = max (ht ll) (ht lr) + 1" "hinv ll" "hinv lr" "\<bar>ht lr - ht ll\<bar> \<le> 1"
        using kids(1) rl_ht hb by auto
      then show ?thesis using True rl_ht d kids(2) l by (auto simp: mk_def)
    qed
  next
    case False
    then show ?thesis using h kids d l by (auto simp: mk_def)
  qed
qed

lemma rebal_hinv:
  assumes "hinv l" and "hinv r" and "\<bar>ht r - ht l\<bar> \<le> 2"
  shows "hinv (rebal l a c r)" and "max (ht l) (ht r) \<le> ht (rebal l a c r)"
    and "ht (rebal l a c r) \<le> max (ht l) (ht r) + 1"
proof -
  consider "ht r - ht l = -2" | "ht r - ht l = 2" | "\<bar>ht r - ht l\<bar> \<le> 1" using assms(3) by linarith
  then have "hinv (rebal l a c r) \<and> max (ht l) (ht r) \<le> ht (rebal l a c r) \<and>
    ht (rebal l a c r) \<le> max (ht l) (ht r) + 1"
  proof cases
    case 1
    then show ?thesis using balL_hinv [OF assms(1,2) 1, of a c] by (simp add: rebal_def)
  next
    case 2
    then show ?thesis using balR_hinv [OF assms(1,2) 2, of a c] by (simp add: rebal_def)
  next
    case 3
    then show ?thesis using assms by (auto simp: rebal_def mk_def)
  qed
  then show "hinv (rebal l a c r)" "max (ht l) (ht r) \<le> ht (rebal l a c r)"
    "ht (rebal l a c r) \<le> max (ht l) (ht r) + 1" by auto
qed

lemma rebal_balanced: "\<bar>ht r - ht l\<bar> \<le> 1 \<Longrightarrow> rebal l a c r = mk l a c r"
  by (auto simp: rebal_def)

lemma ins_hinv:
  assumes "hinv t"
  shows "hinv (ins acc x nc t) \<and> ht t \<le> ht (ins acc x nc t) \<and> ht (ins acc x nc t) \<le> ht t + 1"
  using assms
proof (induction t)
  case (Bin l a c h r)
  then have kids: "hinv l" "hinv r" "\<bar>ht r - ht l\<bar> \<le> 1"
    and h: "h = max (ht l) (ht r) + 1 \<or> h = -1 \<and> l = Tip \<and> r = Tip" by auto
  consider "c_hash c > c_hash nc" | "c_hash c < c_hash nc" | "c_hash c = c_hash nc" by fastforce
  then show ?case
  proof cases
    case 1
    let ?l = "ins acc x nc l"
    have l: "hinv ?l" "ht l \<le> ht ?l" "ht ?l \<le> ht l + 1" using Bin.IH(1) kids(1) by auto
    have d: "\<bar>ht r - ht ?l\<bar> \<le> 2" using l kids(3) by linarith
    note R = rebal_hinv [OF l(1) kids(2) d, of a c]
    have b: "ht (rebal ?l a c r) = max (ht ?l) (ht r) + 1" if "\<bar>ht r - ht ?l\<bar> \<le> 1"
      using that by (simp add: rebal_balanced)
    have "h \<le> ht (rebal ?l a c r) \<and> ht (rebal ?l a c r) \<le> h + 1"
      using R(2,3) b l(2,3) kids(3) h by (cases "\<bar>ht r - ht ?l\<bar> \<le> 1") auto
    then show ?thesis using 1 R(1) by simp
  next
    case 2
    let ?r = "ins acc x nc r"
    have r: "hinv ?r" "ht r \<le> ht ?r" "ht ?r \<le> ht r + 1" using Bin.IH(2) kids(2) by auto
    have d: "\<bar>ht ?r - ht l\<bar> \<le> 2" using r kids(3) by linarith
    note R = rebal_hinv [OF kids(1) r(1) d, of a c]
    have b: "ht (rebal l a c ?r) = max (ht l) (ht ?r) + 1" if "\<bar>ht ?r - ht l\<bar> \<le> 1"
      using that by (simp add: rebal_balanced)
    have "h \<le> ht (rebal l a c ?r) \<and> ht (rebal l a c ?r) \<le> h + 1"
      using R(2,3) b r(2,3) kids(3) h by (cases "\<bar>ht ?r - ht l\<bar> \<le> 1") auto
    then show ?thesis using 2 R(1) by auto
  next
    case 3
    then show ?thesis using kids h by (auto simp: rebal_balanced mk_def)
  qed
qed simp

section \<open>Order\<close>

lemma bst_mk [simp]: "bst (mk l a c r) \<longleftrightarrow> bst l \<and> bst r \<and> (\<forall>x \<in> cells l. c_hash x < c_hash c) \<and>
    (\<forall>x \<in> cells r. c_hash c < c_hash x)"
  by (simp add: mk_def)

lemma rot_bst: "bst (mk l a c r) \<Longrightarrow> bst (rotR l a c r)" "bst (mk l a c r) \<Longrightarrow> bst (rotL l a c r)"
  by (cases l; fastforce; fail | cases r; fastforce; fail)+

lemma balL_bst: "bst (mk l a c r) \<Longrightarrow> bst (balL l a c r)"
proof (cases l)
  case [simp]: (Bin ll b cb hb lr)
  assume b: "bst (mk l a c r)"
  have "bst (mk (rotL ll b cb lr) a c r)" using b rot_bst(2) [of ll b cb lr] by auto
  then show ?thesis using b rot_bst(1) [of "rotL ll b cb lr" a c r] rot_bst(1) [of l a c r] by simp
qed simp

lemma balR_bst: "bst (mk l a c r) \<Longrightarrow> bst (balR l a c r)"
proof (cases r)
  case [simp]: (Bin rl b cb hb rr)
  assume b: "bst (mk l a c r)"
  have "bst (mk l a c (rotR rl b cb rr))" using b rot_bst(1) [of rl b cb rr] by auto
  then show ?thesis using b rot_bst(2) [of l a c "rotR rl b cb rr"] rot_bst(2) [of l a c r] by simp
qed simp

lemma rebal_bst: "bst (mk l a c r) \<Longrightarrow> bst (rebal l a c r)"
  by (simp add: rebal_def balL_bst balR_bst del: bst_mk)

lemma ins_cells:
  "cells (ins acc x nc t) = (if tfind t (c_hash nc) = None then insert nc (cells t) else cells t)"
  by (induction t) auto

lemma ins_bst: "bst t \<Longrightarrow> bst (ins acc x nc t)"
proof (induction t)
  case (Bin l a c h r)
  then show ?case
    using ins_cells [of acc x nc l] ins_cells [of acc x nc r]
    by (auto intro!: rebal_bst)
qed simp

lemma find_cells: "tfind t h = Some (a, c) \<Longrightarrow> c \<in> cells t \<and> c_hash c = h \<and> a \<in> addrs t"
  by (induction t) (auto split: if_splits)

lemma find_complete: "bst t \<Longrightarrow> c \<in> cells t \<Longrightarrow> \<exists>a. tfind t (c_hash c) = Some (a, c)"
proof (induction t)
  case (Bin l a d h r)
  consider "c = d" | "c \<in> cells l" | "c \<in> cells r" using Bin.prems by auto
  then show ?case
  proof cases
    case 2
    then have "c_hash c < c_hash d" using Bin.prems by auto
    then show ?thesis using Bin 2 by auto
  next
    case 3
    then have "c_hash d < c_hash c" using Bin.prems by auto
    then show ?thesis using Bin 3 by auto
  qed simp
qed simp

definition lookup :: "ptree \<Rightarrow> u32 \<Rightarrow> cell option" where
  "lookup t h = map_option snd (tfind t h)"

lemma lookup_iff: "bst t \<Longrightarrow> lookup t h = Some c \<longleftrightarrow> c \<in> cells t \<and> c_hash c = h"
  using find_cells [of t h] find_complete [of t c] by (auto simp: lookup_def)

lemma lookup_eqI: "bst t \<Longrightarrow> bst u \<Longrightarrow> cells t = cells u \<Longrightarrow> lookup t = lookup u"
proof (rule ext)
  fix h assume "bst t" "bst u" "cells t = cells u"
  then show "lookup t h = lookup u h"
    using lookup_iff [of t h] lookup_iff [of u h] by (metis option.exhaust)
qed

lemma lookup_ins:
  assumes "bst t"
  shows "lookup (ins acc x nc t) = (if lookup t (c_hash nc) = None then (lookup t)(c_hash nc \<mapsto> nc) else lookup t)"
proof (cases "tfind t (c_hash nc)")
  case None
  have fresh: "c_hash c \<noteq> c_hash nc" if "c \<in> cells t" for c using find_complete [OF assms that] None by auto
  have "lookup (ins acc x nc t) h = ((lookup t)(c_hash nc \<mapsto> nc)) h" for h
  proof -
    have "lookup (ins acc x nc t) h = Some c \<longleftrightarrow> ((lookup t)(c_hash nc \<mapsto> nc)) h = Some c" for c
      using lookup_iff [OF ins_bst [OF assms], of acc x nc h c] lookup_iff [OF assms, of h c] None fresh
      by (auto simp: ins_cells)
    then show ?thesis by (metis option.exhaust)
  qed
  then show ?thesis using None by (auto simp: lookup_def fun_eq_iff)
next
  case (Some p)
  then show ?thesis using lookup_eqI [OF ins_bst [OF assms] assms] by (simp add: ins_cells lookup_def)
qed

section \<open>The pointer code implements insertion\<close>

text \<open>\<open>grows\<close> is \<^term>\<open>moves\<close> for a step that may bring in the nodes of \<open>X\<close> and touch
  payloads.\<close>

definition grows :: "AVLTree \<Rightarrow> ptree \<Rightarrow> AVLTree \<Rightarrow> ptree \<Rightarrow> addr set \<Rightarrow> bool" where
  "grows T t T' t' X \<longleftrightarrow> tree_at (nodes T') t' \<and> sep t' \<and> addrs t' = X \<union> addrs t \<and>
     (\<forall>x. x \<notin> X \<union> addrs t \<longrightarrow> nodes T' x = nodes T x) \<and> next_addr T' = next_addr T \<and>
     root T' = (if root T = ptr t then ptr t' else root T)"

text \<open>The root pointer is null only for the empty tree.\<close>

definition root_set :: "AVLTree \<Rightarrow> ptree \<Rightarrow> bool" where
  "root_set T t \<longleftrightarrow> (root T = None \<longrightarrow> t = Tip)"

lemma growsD:
  assumes "grows T t T' t' X"
  shows "tree_at (nodes T') t'" and "sep t'" and "addrs t' = X \<union> addrs t"
    and "x \<notin> X \<Longrightarrow> x \<notin> addrs t \<Longrightarrow> nodes T' x = nodes T x" and "next_addr T' = next_addr T"
    and "root T' = (if root T = ptr t then ptr t' else root T)"
  using assms by (simp_all add: grows_def)

lemma rebal_not_Tip: "rebal l a c r \<noteq> Tip"
  using rebal_contents(1) [of l a c r] by (metis addrs.simps(1) insert_not_empty)

lemma ins_not_Tip: "ins acc x nc t \<noteq> Tip"
  by (cases t) (auto simp: rebal_not_Tip)

lemma grows_left:
  assumes at: "tree_at (nodes T) (Bin l a c h r)" and sep: "sep (Bin l a c h r)"
    and out: "root_outside T (Bin l a c h r)" and set: "root_set T (Bin l a c h r)"
    and g: "grows T l T1 l1 X" and X: "X \<inter> addrs (Bin l a c h r) = {}" and rX: "\<forall>x \<in> X. root T \<noteq> Some x"
    and l1: "l1 \<noteq> Tip" "low_ok l1" "low_ok r"
  shows "\<exists>b T'. Option.bind (set_left a (ptr l1) T1) (rebalance a) = Some (b, T') \<and>
    ptr (rebal l1 a c r) = Some b \<and> grows T (Bin l a c h r) T' (rebal l1 a c r) X \<and> datas T' = datas T1"
proof -
  obtain i where i: "ptr l1 = Some i" using l1(1) by (cases l1) auto
  let ?T2 = "store_node a (mk_node c h (ptr l1) (ptr r)) T1"
  have na: "nodes T1 a = nodes T a" using sep X by (intro growsD(4) [OF g]) auto
  have r: "tree_at (nodes T1) r"
  proof (rule tree_at_frame)
    show "tree_at (nodes T) r" using at by simp
    show "\<forall>x \<in> addrs r. nodes T1 x = nodes T x" using sep X by (auto intro!: growsD(4) [OF g])
  qed
  have disj: "a \<notin> addrs l1" "a \<notin> addrs r" "addrs l1 \<inter> addrs r = {}" "addrs l1 = X \<union> addrs l"
    using growsD(3) [OF g] sep X by auto
  have at2: "tree_at (nodes ?T2) (Bin l1 a c h r)" and sep2: "sep (Bin l1 a c h r)"
    using growsD(1,2) [OF g] r disj sep by auto
  have "root T \<noteq> ptr l" using out set sep by (cases l) (auto simp: root_outside_def root_set_def)
  then have root2: "root ?T2 = root T" using growsD(6) [OF g] by simp
  have out2: "root_outside ?T2 (Bin l1 a c h r)"
    unfolding root_outside_def root2
  proof (intro allI impI)
    fix x assume x: "root T = Some x" "x \<in> addrs (Bin l1 a c h r)"
    then have "x \<in> addrs (Bin l a c h r)" using rX disj(4) by auto
    then show "ptr (Bin l1 a c h r) = Some x" using out x(1) by (auto simp: root_outside_def)
  qed
  obtain b T' where b: "rebalance a ?T2 = Some (b, T')" "ptr (rebal l1 a c r) = Some b"
    "moves ?T2 (Bin l1 a c h r) T' (rebal l1 a c r)"
    using rebalance_moves [OF at2 sep2 l1(2,3) out2] by blast
  have "set_left a (ptr l1) T1 = Some ?T2" using na at i by (simp add: set_left_def)
  moreover have "grows T (Bin l a c h r) T' (rebal l1 a c r) X"
  proof -
    have "root T' = (if root T = ptr (Bin l a c h r) then ptr (rebal l1 a c r) else root T)"
      using b(3) root2 by (simp add: moves_def)
    moreover have "nodes T' x = nodes T x" if "x \<notin> X \<union> addrs (Bin l a c h r)" for x
    proof -
      have "nodes T' x = nodes ?T2 x" using b(3) disj(4) that by (simp add: moves_def)
      then show ?thesis using growsD(4) [OF g, of x] that by simp
    qed
    moreover have "X \<union> addrs (Bin l a c h r) = addrs (rebal l1 a c r)" using disj(4) by auto
    ultimately show ?thesis using b(3) g unfolding grows_def moves_def by simp
  qed
  moreover have "datas T' = datas T1" using b(3) by (simp add: moves_def)
  ultimately show ?thesis using b(1,2) by simp
qed

lemma grows_right:
  assumes at: "tree_at (nodes T) (Bin l a c h r)" and sep: "sep (Bin l a c h r)"
    and out: "root_outside T (Bin l a c h r)" and set: "root_set T (Bin l a c h r)"
    and g: "grows T r T1 r1 X" and X: "X \<inter> addrs (Bin l a c h r) = {}" and rX: "\<forall>x \<in> X. root T \<noteq> Some x"
    and r1: "r1 \<noteq> Tip" "low_ok r1" "low_ok l"
  shows "\<exists>b T'. Option.bind (set_right a (ptr r1) T1) (rebalance a) = Some (b, T') \<and>
    ptr (rebal l a c r1) = Some b \<and> grows T (Bin l a c h r) T' (rebal l a c r1) X \<and> datas T' = datas T1"
proof -
  obtain i where i: "ptr r1 = Some i" using r1(1) by (cases r1) auto
  let ?T2 = "store_node a (mk_node c h (ptr l) (ptr r1)) T1"
  have na: "nodes T1 a = nodes T a" using sep X by (intro growsD(4) [OF g]) auto
  have l: "tree_at (nodes T1) l"
  proof (rule tree_at_frame)
    show "tree_at (nodes T) l" using at by simp
    show "\<forall>x \<in> addrs l. nodes T1 x = nodes T x" using sep X by (auto intro!: growsD(4) [OF g])
  qed
  have disj: "a \<notin> addrs r1" "a \<notin> addrs l" "addrs l \<inter> addrs r1 = {}" "addrs r1 = X \<union> addrs r"
    using growsD(3) [OF g] sep X by auto
  have at2: "tree_at (nodes ?T2) (Bin l a c h r1)" and sep2: "sep (Bin l a c h r1)"
    using growsD(1,2) [OF g] l disj sep by auto
  have "root T \<noteq> ptr r" using out set sep by (cases r) (auto simp: root_outside_def root_set_def)
  then have root2: "root ?T2 = root T" using growsD(6) [OF g] by simp
  have out2: "root_outside ?T2 (Bin l a c h r1)"
    unfolding root_outside_def root2
  proof (intro allI impI)
    fix x assume x: "root T = Some x" "x \<in> addrs (Bin l a c h r1)"
    then have "x \<in> addrs (Bin l a c h r)" using rX disj(4) by auto
    then show "ptr (Bin l a c h r1) = Some x" using out x(1) by (auto simp: root_outside_def)
  qed
  obtain b T' where b: "rebalance a ?T2 = Some (b, T')" "ptr (rebal l a c r1) = Some b"
    "moves ?T2 (Bin l a c h r1) T' (rebal l a c r1)"
    using rebalance_moves [OF at2 sep2 r1(3,2) out2] by blast
  have "set_right a (ptr r1) T1 = Some ?T2" using na at i by (simp add: set_right_def)
  moreover have "grows T (Bin l a c h r) T' (rebal l a c r1) X"
  proof -
    have "root T' = (if root T = ptr (Bin l a c h r) then ptr (rebal l a c r1) else root T)"
      using b(3) root2 by (simp add: moves_def)
    moreover have "nodes T' x = nodes T x" if "x \<notin> X \<union> addrs (Bin l a c h r)" for x
    proof -
      have "nodes T' x = nodes ?T2 x" using b(3) disj(4) that by (simp add: moves_def)
      then show ?thesis using growsD(4) [OF g, of x] that by simp
    qed
    moreover have "X \<union> addrs (Bin l a c h r) = addrs (rebal l a c r1)" using disj(4) by auto
    ultimately show ?thesis using b(3) g unfolding grows_def moves_def by simp
  qed
  moreover have "datas T' = datas T1" using b(3) by (simp add: moves_def)
  ultimately show ?thesis using b(1,2) by simp
qed

lemma insertRecursiveData_new:
  assumes "tree_at (nodes T) t" and "sep t" and "hinv t" and "x \<notin> addrs t"
    and new: "nodes T x = Some (mk_node nc (-1) None None)"
    and "root_outside T t" and "root_set T t" and rx: "root T \<noteq> Some x"
    and "tfind t (c_hash nc) = None" and d: "datas T (c_data nc) = Some (DataP d)"
    and clk: "updateClock clk st (counter ts) = (n, clk')"
  shows "\<exists>T'. insertRecursiveData x (ptr t) ts st rn (T, clk, res) =
      Some (ptr (ins acc x nc t), T', clk', result_timestamp rn ts n) \<and>
    grows T t T' (ins acc x nc t) {x} \<and> datas T' = (datas T)(c_data nc \<mapsto> DataP (stamp_data rn ts n d))"
  using assms(1-4,6,7,9)
proof (induction t)
  case Tip
  then show ?case
    using new d clk rx
    by (subst insertRecursiveData.simps) (auto simp: insert_leaf_def grows_def)
next
  case (Bin l a c h r)
  have low: "low_ok l" "low_ok r" and hs: "hinv l" "hinv r" using Bin.prems(3) by (auto intro: hinv_low_ok)
  have X: "{x} \<inter> addrs (Bin l a c h r) = {}" "\<forall>y \<in> {x}. root T \<noteq> Some y" using Bin.prems(4) rx by auto
  have kids: "root_outside T l" "root_outside T r" "root_set T l" "root_set T r"
    using root_outside_child [OF Bin.prems(5,2)] Bin.prems(6) by (auto simp: root_set_def)
  have pl: "tree_at (nodes T) l" "tree_at (nodes T) r" "sep l" "sep r" "x \<notin> addrs l" "x \<notin> addrs r"
    using Bin.prems(1,2,4) by auto
  show ?case
  proof (cases "c_hash c > c_hash nc")
    case True
    have fl: "tfind l (c_hash nc) = None" using Bin.prems(7) True by (simp split: if_splits)
    obtain T1 where T1: "insertRecursiveData x (ptr l) ts st rn (T, clk, res) =
        Some (ptr (ins acc x nc l), T1, clk', result_timestamp rn ts n)" "grows T l T1 (ins acc x nc l) {x}"
      "datas T1 = (datas T)(c_data nc \<mapsto> DataP (stamp_data rn ts n d))"
      using Bin.IH(1) [OF pl(1,3) hs(1) pl(5) kids(1,3) fl] by blast
    have lowl: "low_ok (ins acc x nc l)" using ins_hinv [OF hs(1)] hinv_low_ok by blast
    obtain b T' where b: "Option.bind (set_left a (ptr (ins acc x nc l)) T1) (rebalance a) = Some (b, T')"
      "ptr (rebal (ins acc x nc l) a c r) = Some b" "grows T (Bin l a c h r) T' (rebal (ins acc x nc l) a c r) {x}"
      "datas T' = datas T1"
      using grows_left [OF Bin.prems(1,2,5,6) T1(2) X ins_not_Tip lowl low(2)] by blast
    show ?thesis
      using Bin.prems(1) new True T1(1,3) b
      by (subst insertRecursiveData.simps) (auto simp: rebalance_edit_def bind_eq_Some_conv)
  next
    case False
    then have lt: "c_hash c < c_hash nc" and fr: "tfind r (c_hash nc) = None"
      using Bin.prems(7) by (auto split: if_splits)
    obtain T1 where T1: "insertRecursiveData x (ptr r) ts st rn (T, clk, res) =
        Some (ptr (ins acc x nc r), T1, clk', result_timestamp rn ts n)" "grows T r T1 (ins acc x nc r) {x}"
      "datas T1 = (datas T)(c_data nc \<mapsto> DataP (stamp_data rn ts n d))"
      using Bin.IH(2) [OF pl(2,4) hs(2) pl(6) kids(2,4) fr] by blast
    have lowr: "low_ok (ins acc x nc r)" using ins_hinv [OF hs(2)] hinv_low_ok by blast
    obtain b T' where b: "Option.bind (set_right a (ptr (ins acc x nc r)) T1) (rebalance a) = Some (b, T')"
      "ptr (rebal l a c (ins acc x nc r)) = Some b" "grows T (Bin l a c h r) T' (rebal l a c (ins acc x nc r)) {x}"
      "datas T' = datas T1"
      using grows_right [OF Bin.prems(1,2,5,6) T1(2) X ins_not_Tip lowr low(1)] by blast
    show ?thesis
      using Bin.prems(1) new False lt T1(1,3) b
      by (subst insertRecursiveData.simps) (auto simp: rebalance_edit_def bind_eq_Some_conv)
  qed
qed

text \<open>Whether a write is applied to the payload it finds.\<close>

definition accepts :: "UpdateClockStrategy \<Rightarrow> bool \<Rightarrow> LamportClock \<Rightarrow> DataAVLNode \<Rightarrow> bool" where
  "accepts st rn ts d0 \<longleftrightarrow> \<not> (\<not> (st = NONE \<or> \<not> rn) \<and> clock_gt (data_timestamp d0) ts)"

lemma overwrite_data_accepts:
  assumes "nodes T a = Some (mk_node c0 h p q)" and "nodes T x = Some (mk_node nc h' p' q')"
    and "datas T (c_data nc) = Some (DataP d)" and "datas T (c_data c0) = Some (DataP d0)" and "c_type c0 = DATA"
    and "accepts st rn ts d0" and "clock_update st (counter ts) k = (n, k')"
  shows "overwrite_data x a ts st rn (T, Some k, res) =
    Some (Some (store_data (c_data c0) (DataP (stamp_data rn ts n (d0\<lparr>data_value := data_value d\<rparr>))) T,
      Some k', result_timestamp rn ts n))"
  using assms by (auto simp: overwrite_data_def accepts_def)

lemma overwrite_data_rejects:
  assumes "nodes T a = Some (mk_node c0 h p q)" and "nodes T x = Some (mk_node nc h' p' q')"
    and "datas T (c_data nc) = Some (DataP d)"
    and "c_type c0 = DATA \<Longrightarrow> \<exists>d0. datas T (c_data c0) = Some (DataP d0) \<and> \<not> accepts st rn ts d0"
  shows "overwrite_data x a ts st rn (T, clk, res) = Some None"
  using assms by (cases "c_type c0") (auto simp: overwrite_data_def accepts_def)

lemma insertRecursiveData_accepted:
  assumes "tree_at (nodes T) t" and "sep t" and "hinv t"
    and new: "nodes T x = Some (mk_node nc (-1) None None)"
    and "root_outside T t" and "root_set T t"
    and "tfind t (c_hash nc) = Some (a0, c0)" and d: "datas T (c_data nc) = Some (DataP d)"
    and d0: "datas T (c_data c0) = Some (DataP d0)" "c_type c0 = DATA" "accepts st rn ts d0"
    and clk: "clock_update st (counter ts) k = (n, k')"
  shows "\<exists>T'. insertRecursiveData x (ptr t) ts st rn (T, Some k, res) =
      Some (ptr (ins True x nc t), T', Some k', result_timestamp rn ts n) \<and>
    grows T t T' (ins True x nc t) {} \<and>
    datas T' = (datas T)(c_data c0 \<mapsto> DataP (stamp_data rn ts n (d0\<lparr>data_value := data_value d\<rparr>)))"
  using assms(1-3,5,6,7)
proof (induction t)
  case (Bin l a c h r)
  have low: "low_ok l" "low_ok r" and hs: "hinv l" "hinv r" using Bin.prems(3) by (auto intro: hinv_low_ok)
  have X: "{} \<inter> addrs (Bin l a c h r) = {}" "\<forall>y \<in> {}. root T \<noteq> Some y" by auto
  have kids: "root_outside T l" "root_outside T r" "root_set T l" "root_set T r"
    using root_outside_child [OF Bin.prems(4,2)] Bin.prems(5) by (auto simp: root_set_def)
  have pl: "tree_at (nodes T) l" "tree_at (nodes T) r" "sep l" "sep r"
    using Bin.prems(1,2) by auto
  consider "c_hash c > c_hash nc" | "c_hash c < c_hash nc" | "c_hash c = c_hash nc" by fastforce
  then show ?case
  proof cases
    case 1
    have fl: "tfind l (c_hash nc) = Some (a0, c0)" using Bin.prems(6) 1 by (simp split: if_splits)
    obtain T1 where T1: "insertRecursiveData x (ptr l) ts st rn (T, Some k, res) =
        Some (ptr (ins True x nc l), T1, Some k', result_timestamp rn ts n)" "grows T l T1 (ins True x nc l) {}"
      "datas T1 = (datas T)(c_data c0 \<mapsto> DataP (stamp_data rn ts n (d0\<lparr>data_value := data_value d\<rparr>)))"
      using Bin.IH(1) [OF pl(1,3) hs(1) kids(1,3) fl] by blast
    have lowl: "low_ok (ins True x nc l)" using ins_hinv [OF hs(1)] hinv_low_ok by blast
    obtain b T' where b: "Option.bind (set_left a (ptr (ins True x nc l)) T1) (rebalance a) = Some (b, T')"
      "ptr (rebal (ins True x nc l) a c r) = Some b" "grows T (Bin l a c h r) T' (rebal (ins True x nc l) a c r) {}"
      "datas T' = datas T1"
      using grows_left [OF Bin.prems(1,2,4,5) T1(2) X ins_not_Tip lowl low(2)] by blast
    show ?thesis
      using Bin.prems(1) new 1 T1(1,3) b
      by (subst insertRecursiveData.simps) (auto simp: rebalance_edit_def bind_eq_Some_conv)
  next
    case 2
    have fr: "tfind r (c_hash nc) = Some (a0, c0)" using Bin.prems(6) 2 by (auto split: if_splits)
    obtain T1 where T1: "insertRecursiveData x (ptr r) ts st rn (T, Some k, res) =
        Some (ptr (ins True x nc r), T1, Some k', result_timestamp rn ts n)" "grows T r T1 (ins True x nc r) {}"
      "datas T1 = (datas T)(c_data c0 \<mapsto> DataP (stamp_data rn ts n (d0\<lparr>data_value := data_value d\<rparr>)))"
      using Bin.IH(2) [OF pl(2,4) hs(2) kids(2,4) fr] by blast
    have lowr: "low_ok (ins True x nc r)" using ins_hinv [OF hs(2)] hinv_low_ok by blast
    obtain b T' where b: "Option.bind (set_right a (ptr (ins True x nc r)) T1) (rebalance a) = Some (b, T')"
      "ptr (rebal l a c (ins True x nc r)) = Some b" "grows T (Bin l a c h r) T' (rebal l a c (ins True x nc r)) {}"
      "datas T' = datas T1"
      using grows_right [OF Bin.prems(1,2,4,5) T1(2) X ins_not_Tip lowr low(1)] by blast
    have "\<not> c_hash nc < c_hash c" using 2 by auto
    then show ?thesis
      using Bin.prems(1) new 2 T1(1,3) b
      by (subst insertRecursiveData.simps) (auto simp: rebalance_edit_def bind_eq_Some_conv)
  next
    case 3
    then have [simp]: "a0 = a" "c0 = c" using Bin.prems(6) by auto
    let ?T1 = "store_data (c_data c) (DataP (stamp_data rn ts n (d0\<lparr>data_value := data_value d\<rparr>))) T"
    have "overwrite_data x a ts st rn (T, Some k, res) = Some (Some (?T1, Some k', result_timestamp rn ts n))"
      using Bin.prems(1) new d d0 clk by (intro overwrite_data_accepts) auto
    moreover obtain b T' where "rebalance a ?T1 = Some (b, T')" "ptr (rebal l a c r) = Some b"
      "moves ?T1 (Bin l a c h r) T' (rebal l a c r)"
      using rebalance_moves [of ?T1 l a c h r] Bin.prems(1,2,4) low by (auto simp: root_outside_def)
    ultimately show ?thesis
      using 3 Bin.prems(1) new
      by (subst insertRecursiveData.simps) (auto simp: rebalance_edit_def moves_def grows_def)
  qed
qed simp

lemma hinv_inner: "hinv (Bin l a c h r) \<Longrightarrow> l \<noteq> Tip \<or> r \<noteq> Tip \<Longrightarrow> rebal l a c r = Bin l a c h r"
  by (auto simp: rebal_balanced mk_def)

text \<open>A write that is not applied leaves the tree as it is. It is reported, by a null pointer, only
  when the node it meets is the root.\<close>

lemma insertRecursiveData_rejected:
  assumes "tree_at (nodes T) t" and "sep t" and "hinv t"
    and new: "nodes T x = Some (mk_node nc (-1) None None)"
    and "root_outside T t" and "root_set T t"
    and "tfind t (c_hash nc) = Some (a0, c0)" and d: "datas T (c_data nc) = Some (DataP d)"
    and rej: "c_type c0 = DATA \<Longrightarrow> \<exists>d0. datas T (c_data c0) = Some (DataP d0) \<and> \<not> accepts st rn ts d0"
  shows "\<exists>T'. insertRecursiveData x (ptr t) ts st rn (T, clk, res) =
      Some (if ptr t = Some a0 then None else ptr t, T', clk, res) \<and>
    grows T t T' t {} \<and> datas T' = datas T"
  using assms(1-3,5,6,7)
proof (induction t)
  case (Bin l a c h r)
  have low: "low_ok l" "low_ok r" and hs: "hinv l" "hinv r" using Bin.prems(3) by (auto intro: hinv_low_ok)
  have X: "{} \<inter> addrs (Bin l a c h r) = {}" "\<forall>y \<in> {}. root T \<noteq> Some y" by auto
  have kids: "root_outside T l" "root_outside T r" "root_set T l" "root_set T r"
    using root_outside_child [OF Bin.prems(4,2)] Bin.prems(5) by (auto simp: root_set_def)
  have pl: "tree_at (nodes T) l" "tree_at (nodes T) r" "sep l" "sep r"
    using Bin.prems(1,2) by auto
  consider "c_hash c > c_hash nc" | "c_hash c < c_hash nc" | "c_hash c = c_hash nc" by fastforce
  then show ?case
  proof cases
    case 1
    have fl: "tfind l (c_hash nc) = Some (a0, c0)" using Bin.prems(6) 1 by (simp split: if_splits)
    then have inner: "l \<noteq> Tip" "a0 \<noteq> a" using find_cells [OF fl] Bin.prems(2) by auto
    note same = hinv_inner [OF Bin.prems(3) disjI1 [OF inner(1)]]
    obtain T1 where T1: "insertRecursiveData x (ptr l) ts st rn (T, clk, res) =
        Some (if ptr l = Some a0 then None else ptr l, T1, clk, res)" "grows T l T1 l {}" "datas T1 = datas T"
      using Bin.IH(1) [OF pl(1,3) hs(1) kids(1,3) fl] by blast
    obtain b T' where b: "Option.bind (set_left a (ptr l) T1) (rebalance a) = Some (b, T')" "b = a"
      "grows T (Bin l a c h r) T' (Bin l a c h r) {}" "datas T' = datas T1"
      using grows_left [OF Bin.prems(1,2,4,5) T1(2) X inner(1) low] same by auto
    have na: "nodes T1 a = Some (mk_node c h (ptr l) (ptr r))"
      using growsD(4) [OF T1(2), of a] Bin.prems(1,2) by auto
    then have noop: "set_left a (ptr l) T1 = Some T1"
      using inner(1) by (cases l) (auto simp: set_left_def store_node_def map_upd_triv)
    then have reb: "rebalance a T1 = Some (a, T')" using b(1,2) by simp
    have sl: "set_left a (if ptr l = Some a0 then None else ptr l) T1 = Some T1"
      using noop by (simp add: set_left_def)
    show ?thesis
      using Bin.prems(1) new 1 T1(1,3) b(3,4) inner(2) reb sl
      by (subst insertRecursiveData.simps) (auto simp: rebalance_edit_def)
  next
    case 2
    have fr: "tfind r (c_hash nc) = Some (a0, c0)" using Bin.prems(6) 2 by (auto split: if_splits)
    then have inner: "r \<noteq> Tip" "a0 \<noteq> a" using find_cells [OF fr] Bin.prems(2) by auto
    note same = hinv_inner [OF Bin.prems(3) disjI2 [OF inner(1)]]
    obtain T1 where T1: "insertRecursiveData x (ptr r) ts st rn (T, clk, res) =
        Some (if ptr r = Some a0 then None else ptr r, T1, clk, res)" "grows T r T1 r {}" "datas T1 = datas T"
      using Bin.IH(2) [OF pl(2,4) hs(2) kids(2,4) fr] by blast
    obtain b T' where b: "Option.bind (set_right a (ptr r) T1) (rebalance a) = Some (b, T')" "b = a"
      "grows T (Bin l a c h r) T' (Bin l a c h r) {}" "datas T' = datas T1"
      using grows_right [OF Bin.prems(1,2,4,5) T1(2) X inner(1) low(2,1)] same by auto
    have na: "nodes T1 a = Some (mk_node c h (ptr l) (ptr r))"
      using growsD(4) [OF T1(2), of a] Bin.prems(1,2) by auto
    then have noop: "set_right a (ptr r) T1 = Some T1"
      using inner(1) by (cases r) (auto simp: set_right_def store_node_def map_upd_triv)
    then have reb: "rebalance a T1 = Some (a, T')" using b(1,2) by simp
    have sr: "set_right a (if ptr r = Some a0 then None else ptr r) T1 = Some T1"
      using noop by (simp add: set_right_def)
    have "\<not> c_hash nc < c_hash c" using 2 by auto
    then show ?thesis
      using Bin.prems(1) new 2 T1(1,3) b(3,4) inner(2) reb sr
      by (subst insertRecursiveData.simps) (auto simp: rebalance_edit_def)
  next
    case 3
    then have [simp]: "a0 = a" "c0 = c" using Bin.prems(6) by auto
    have "overwrite_data x a ts st rn (T, clk, res) = Some None"
      using Bin.prems(1) new d rej by (intro overwrite_data_rejects) auto
    then show ?thesis
      using 3 Bin.prems(1,2) new
      by (subst insertRecursiveData.simps) (auto simp: grows_def)
  qed
qed simp

section \<open>Search\<close>

lemma get_from_tfind: "tree_at (nodes T) t \<Longrightarrow> get_from T h (ptr t) = Some (map_option fst (tfind t h))"
proof (induction t)
  case Tip
  then show ?case by (subst get_from.simps) simp
next
  case (Bin l a c hh r)
  then show ?case by (subst get_from.simps) auto
qed

lemma tfind_node: "tree_at m t \<Longrightarrow> tfind t h = Some (a, c) \<Longrightarrow> \<exists>hh p q. m a = Some (mk_node c hh p q)"
  by (induction t) (auto split: if_splits)

section \<open>Well-formed stores and what they hold\<close>

definition payload_fits :: "NodeType \<Rightarrow> payload \<Rightarrow> bool" where
  "payload_fits ty p \<longleftrightarrow> (case p of DataP d \<Rightarrow> ty = DATA | CounterP c \<Rightarrow> ty = COUNTER)"

definition payloads_ok :: "AVLTree \<Rightarrow> ptree \<Rightarrow> bool" where
  "payloads_ok T t \<longleftrightarrow> inj_on c_data (cells t) \<and>
     (\<forall>c \<in> cells t. c_data c < next_addr T \<and> (\<exists>p. datas T (c_data c) = Some p \<and> payload_fits (c_type c) p))"

definition holds :: "AVLTree \<Rightarrow> ptree \<Rightarrow> bool" where
  "holds T t \<longleftrightarrow> tree_at (nodes T) t \<and> sep t \<and> hinv t \<and> bst t \<and> root T = ptr t \<and>
     (\<forall>a \<in> addrs t. a < next_addr T) \<and> payloads_ok T t"

definition avl_ok :: "AVLTree \<Rightarrow> bool" where
  "avl_ok T \<longleftrightarrow> (\<exists>t. holds T t)"

text \<open>What a search for a hash finds: the key stored in the node and its payload.\<close>

definition contents :: "AVLTree \<Rightarrow> u32 \<rightharpoonup> SimpleString \<times> payload" where
  "contents T h = do { found \<leftarrow> avl_get T h; a \<leftarrow> found; n \<leftarrow> nodes T a; p \<leftarrow> datas T (data n); Some (key n, p) }"

lemma avl_ok_empty: "avl_ok empty_tree"
  unfolding avl_ok_def by (rule exI [of _ Tip]) (simp add: holds_def payloads_ok_def empty_tree_def)

lemma contents_empty: "contents empty_tree = Map.empty"
  by (rule ext) (simp add: contents_def avl_get_def empty_tree_def get_from.simps)

lemma holds_contents:
  assumes "holds T t"
  shows "contents T h = (case lookup t h of None \<Rightarrow> None
    | Some c \<Rightarrow> map_option (\<lambda>p. (c_key c, p)) (datas T (c_data c)))"
proof -
  have at: "tree_at (nodes T) t" and root: "root T = ptr t" using assms by (auto simp: holds_def)
  have g: "avl_get T h = Some (map_option fst (tfind t h))"
    using get_from_tfind [OF at] by (simp add: avl_get_def root)
  show ?thesis
  proof (cases "tfind t h")
    case (Some ac)
    obtain a c where ac: "ac = (a, c)" by fastforce
    obtain hh p q where "nodes T a = Some (mk_node c hh p q)" using tfind_node [OF at] Some ac by blast
    then show ?thesis using Some ac g by (cases "datas T (c_data c)") (auto simp: contents_def lookup_def)
  qed (simp add: contents_def lookup_def g)
qed

lemma holds_cell:
  assumes "holds T t" and "lookup t h = Some c"
  obtains p where "datas T (c_data c) = Some p" "payload_fits (c_type c) p" "c \<in> cells t" "c_hash c = h"
    "contents T h = Some (c_key c, p)"
proof -
  have "c \<in> cells t" "c_hash c = h" using assms lookup_iff [of t h c] by (auto simp: holds_def)
  moreover obtain p where "datas T (c_data c) = Some p" "payload_fits (c_type c) p"
    using assms(1) \<open>c \<in> cells t\<close> by (auto simp: holds_def payloads_ok_def)
  ultimately show ?thesis using that holds_contents [OF assms(1), of h] assms(2) by simp
qed

lemma payload_fits_simps [simp]:
  "payload_fits ty (DataP d) \<longleftrightarrow> ty = DATA" "payload_fits ty (CounterP c) \<longleftrightarrow> ty = COUNTER"
  by (simp_all add: payload_fits_def)

text \<open>A step that brings in one cell with its payload.\<close>

lemma holds_grow_new:
  assumes H: "holds T t" and g: "grows T0 t T' (ins acc x nc t) {x}"
    and root: "root T0 = ptr t" and nxt: "next_addr T0 = Suc x" "x = next_addr T"
    and none: "lookup t (c_hash nc) = None" and cd: "c_data nc = x" "payload_fits (c_type nc) p"
    and d: "datas T' = (datas T)(x \<mapsto> p)"
  shows "holds T' (ins acc x nc t)" and "contents T' = (contents T)(c_hash nc \<mapsto> (c_key nc, p))"
proof -
  have old: "hinv t" "bst t" "\<forall>a \<in> addrs t. a < x" "payloads_ok T t" using H nxt by (auto simp: holds_def)
  have cs: "cells (ins acc x nc t) = insert nc (cells t)"
    using none by (simp add: ins_cells lookup_def)
  have older: "c_data c < x" if "c \<in> cells t" for c using old(4) that nxt(2) by (auto simp: payloads_ok_def)
  have "payloads_ok T' (ins acc x nc t)"
    unfolding payloads_ok_def
  proof (intro conjI ballI)
    show "inj_on c_data (cells (ins acc x nc t))"
    proof -
      have "x \<notin> c_data ` cells t" using older by blast
      then show ?thesis using old(4) cd(1) by (auto simp: cs payloads_ok_def)
    qed
    fix c assume "c \<in> cells (ins acc x nc t)"
    then consider "c = nc" | "c \<in> cells t" by (auto simp: cs)
    then show "c_data c < next_addr T'" "\<exists>p. datas T' (c_data c) = Some p \<and> payload_fits (c_type c) p"
      using cd growsD(5) [OF g] nxt d older old(4) by (cases; fastforce simp: payloads_ok_def)+
  qed
  then show H': "holds T' (ins acc x nc t)"
    using growsD [OF g] root nxt old ins_hinv [OF old(1)] ins_bst [OF old(2)]
    by (auto simp: holds_def less_Suc_eq)
  have "contents T' h = ((contents T)(c_hash nc \<mapsto> (c_key nc, p))) h" for h
  proof (cases "h = c_hash nc")
    case True
    then show ?thesis using holds_contents [OF H', of h] lookup_ins [OF old(2)] none d cd by simp
  next
    case False
    then have same: "lookup (ins acc x nc t) h = lookup t h" using lookup_ins [OF old(2)] none by simp
    show ?thesis
    proof (cases "lookup t h")
      case (Some c)
      then have "c_data c \<noteq> x" using older lookup_iff [OF old(2)] by (metis less_irrefl)
      then show ?thesis using holds_contents [OF H', of h] holds_contents [OF H, of h] same Some d False by simp
    qed (use holds_contents [OF H', of h] holds_contents [OF H, of h] same False in simp)
  qed
  then show "contents T' = (contents T)(c_hash nc \<mapsto> (c_key nc, p))" by (rule ext)
qed

text \<open>A step that changes the payload of one cell.\<close>

lemma holds_grow_update:
  assumes H: "holds T t" and g: "grows T0 t T' u {}" and root: "root T0 = ptr t"
    and nxt: "next_addr T \<le> next_addr T0" and u: "hinv u" "bst u" "cells u = cells t"
    and c0: "c0 \<in> cells t" "payload_fits (c_type c0) p"
    and d: "\<forall>a < next_addr T. datas T' a = ((datas T)(c_data c0 \<mapsto> p)) a"
  shows "holds T' u" and "contents T' = (contents T)(c_hash c0 \<mapsto> (c_key c0, p))"
proof -
  have old: "bst t" "\<forall>a \<in> addrs t. a < next_addr T" "payloads_ok T t" using H by (auto simp: holds_def)
  have below: "c_data c < next_addr T" if "c \<in> cells t" for c using old(3) that by (simp add: payloads_ok_def)
  have "payloads_ok T' u"
    unfolding payloads_ok_def u(3)
  proof (intro conjI ballI)
    show "inj_on c_data (cells t)" using old(3) by (simp add: payloads_ok_def)
    fix c assume c: "c \<in> cells t"
    show "c_data c < next_addr T'" using below [OF c] growsD(5) [OF g] nxt by simp
    show "\<exists>p. datas T' (c_data c) = Some p \<and> payload_fits (c_type c) p"
    proof (cases "c_data c = c_data c0")
      case True
      then have "c = c0" using old(3) c c0(1) by (auto simp: payloads_ok_def dest: inj_onD)
      then show ?thesis using d below [OF c] c0(2) by auto
    next
      case False
      then show ?thesis using d below [OF c] old(3) c by (auto simp: payloads_ok_def)
    qed
  qed
  then show H': "holds T' u"
    using growsD [OF g] root u old(2) nxt by (auto simp: holds_def intro: less_le_trans)
  have lk: "lookup u = lookup t" using lookup_eqI [OF u(2) old(1) u(3)] .
  have "contents T' h = ((contents T)(c_hash c0 \<mapsto> (c_key c0, p))) h" for h
  proof (cases "lookup t h")
    case None
    then have "h \<noteq> c_hash c0" using lookup_iff [OF old(1), of h c0] c0(1) by auto
    then show ?thesis using None holds_contents [OF H', of h] holds_contents [OF H, of h] lk by simp
  next
    case (Some c)
    then have c: "c \<in> cells t" "c_hash c = h" using lookup_iff [OF old(1)] by auto
    show ?thesis
    proof (cases "c = c0")
      case True
      then show ?thesis using Some c holds_contents [OF H', of h] lk d below [OF c(1)] by simp
    next
      case False
      then have "c_data c \<noteq> c_data c0" using old(3) c(1) c0(1) by (auto simp: payloads_ok_def dest: inj_onD)
      moreover have "h \<noteq> c_hash c0" using False Some lookup_iff [OF old(1), of h c0] c0(1) by auto
      ultimately show ?thesis
        using Some holds_contents [OF H', of h] holds_contents [OF H, of h] lk d below [OF c(1)] by simp
    qed
  qed
  then show "contents T' = (contents T)(c_hash c0 \<mapsto> (c_key c0, p))" by (rule ext)
qed

section \<open>Last writer wins\<close>

text \<open>The abstract effect of a write on the contents: a missing key is added; a value is replaced when
  the write is accepted (always for a client, by timestamp for a node); a counter is never replaced.
  The key stored with an entry stays that of the first write.\<close>

definition applied :: "UpdateClockStrategy \<Rightarrow> bool \<Rightarrow> LamportClock \<Rightarrow> (SimpleString \<times> payload) option \<Rightarrow> bool" where
  "applied st rn ts e = (case e of None \<Rightarrow> True
     | Some (k0, DataP d0) \<Rightarrow> accepts st rn ts d0 | Some (k0, CounterP c) \<Rightarrow> False)"

definition stored_key :: "SimpleString \<Rightarrow> (SimpleString \<times> payload) option \<Rightarrow> SimpleString" where
  "stored_key k e = (case e of None \<Rightarrow> k | Some (k0, p) \<Rightarrow> k0)"

definition written :: "SimpleString \<Rightarrow> bool \<Rightarrow> LamportClock \<Rightarrow> u64 \<Rightarrow> payload" where
  "written v rn ts n = DataP (stamp_data rn ts n \<lparr>data_value = v, data_timestamp = LamportClock 0 0\<rparr>)"

definition write_spec ::
  "SimpleString \<Rightarrow> u32 \<Rightarrow> SimpleString \<Rightarrow> LamportClock \<Rightarrow> UpdateClockStrategy \<Rightarrow> bool \<Rightarrow> u64 \<Rightarrow>
     (u32 \<rightharpoonup> SimpleString \<times> payload) \<Rightarrow> (u32 \<rightharpoonup> SimpleString \<times> payload)" where
  "write_spec k h v ts st rn n m =
     (if applied st rn ts (m h) then m(h \<mapsto> (stored_key k (m h), written v rn ts n)) else m)"

lemma stamp_data_written:
  "DataP (stamp_data rn ts n (d0\<lparr>data_value := v\<rparr>)) = written v rn ts n"
  by (cases d0) (simp add: stamp_data_def written_def)

definition root_is :: "AVLTree \<Rightarrow> u32 \<Rightarrow> bool" where
  "root_is T h \<longleftrightarrow> (\<exists>a n. root T = Some a \<and> nodes T a = Some n \<and> keyHash n = h)"

lemma new_node_start:
  assumes H: "holds T t"
    and T0: "new_AVLNode k h ty p T = (x, T0)"
  shows "x = next_addr T" and "next_addr T0 = Suc x" and "root T0 = ptr t" and "tree_at (nodes T0) t"
    and "nodes T0 x = Some (mk_node \<lparr>c_key = k, c_data = x, c_hash = h, c_type = ty\<rparr> (-1) None None)"
    and "datas T0 = (datas T)(x \<mapsto> p)"
    and "x \<notin> addrs t" and "root T0 \<noteq> Some x" and "root_outside T0 t" and "root_set T0 t" and "root T0 = root T"
proof -
  have fresh: "next_addr T \<notin> addrs t" using H by (auto simp: holds_def)
  show "x = next_addr T" "next_addr T0 = Suc x" "root T0 = ptr t" "tree_at (nodes T0) t"
    "nodes T0 x = Some (mk_node \<lparr>c_key = k, c_data = x, c_hash = h, c_type = ty\<rparr> (-1) None None)"
    "datas T0 = (datas T)(x \<mapsto> p)"
    "x \<notin> addrs t" "root T0 = root T"
    using T0 H fresh by (auto simp: new_AVLNode_def holds_def mk_node_def Let_def)
  then show "root_outside T0 t" "root_set T0 t" "root T0 \<noteq> Some x"
    using ptr_in_addrs [of t] by (auto simp: root_outside_def root_set_def)
qed

lemma addData_holds:
  assumes H: "holds T t" and clk: "clock_update st (counter ts) c = (n, c')"
  shows "\<exists>T'. addData k h v ts st rn T (Some c) =
      Some (if applied st rn ts (contents T h) then Some (result_timestamp rn ts n)
            else if root_is T h then None else Some 0,
          T', if applied st rn ts (contents T h) then Some c' else Some c) \<and>
    avl_ok T' \<and> contents T' = write_spec k h v ts st rn n (contents T)"
proof -
  let ?d = "\<lparr>data_value = v, data_timestamp = LamportClock 0 0\<rparr>"
  obtain x T0 where T0: "new_AVLNode k h DATA (DataP ?d) T = (x, T0)" by fastforce
  note S = new_node_start [OF H T0]
  let ?nc = "\<lparr>c_key = k, c_data = x, c_hash = h, c_type = DATA\<rparr>"
  have t: "sep t" "hinv t" "bst t" using H by (auto simp: holds_def)
  have dx: "datas T0 (c_data ?nc) = Some (DataP ?d)" using S(6) by simp
  show ?thesis
  proof (cases "tfind t h")
    case None
    then have lk: "lookup t (c_hash ?nc) = None" and ct: "contents T h = None"
      using holds_contents [OF H, of h] by (auto simp: lookup_def)
    have nf: "tfind t (c_hash ?nc) = None" using None by simp
    have uc: "updateClock (Some c) st (counter ts) = (n, Some c')" using clk by (simp add: updateClock_def)
    obtain T' where T': "insertRecursiveData x (ptr t) ts st rn (T0, Some c, 0) =
        Some (ptr (ins True x ?nc t), T', Some c', result_timestamp rn ts n)"
      "grows T0 t T' (ins True x ?nc t) {x}" "datas T' = (datas T0)(c_data ?nc \<mapsto> DataP (stamp_data rn ts n ?d))"
      using insertRecursiveData_new [OF S(4) t(1,2) S(7,5,9,10,8) nf dx uc] by blast
    have "datas T' = (datas T)(x \<mapsto> written v rn ts n)" using T'(3) S(6) by (simp add: written_def)
    then have "holds T' (ins True x ?nc t)" "contents T' = (contents T)(c_hash ?nc \<mapsto> (c_key ?nc, written v rn ts n))"
      using holds_grow_new [OF H T'(2) S(3,2,1) lk, of "written v rn ts n"] by (auto simp: written_def)
    then show ?thesis
      using T'(1) T0 S(3) ct ins_not_Tip [of True x ?nc t]
      by (auto simp: addData_def avl_ok_def write_spec_def applied_def stored_key_def)
  next
    case (Some ac)
    obtain a0 c0 where ac: "ac = (a0, c0)" by fastforce
    have lk: "lookup t h = Some c0" using Some ac by (simp add: lookup_def)
    obtain p where p: "datas T (c_data c0) = Some p" "payload_fits (c_type c0) p" "c0 \<in> cells t" "c_hash c0 = h"
      "contents T h = Some (c_key c0, p)" using holds_cell [OF H lk] by blast
    have older: "c_data c0 < x" using H p(3) S(1) by (auto simp: holds_def payloads_ok_def)
    then have p0: "datas T0 (c_data c0) = Some p" using p(1) S(6) by simp
    have fnd: "tfind t (c_hash ?nc) = Some (a0, c0)" using Some ac by simp
    have nxt: "next_addr T \<le> next_addr T0" using S(1,2) by simp
    show ?thesis
    proof (cases "applied st rn ts (contents T h)")
      case True
      then obtain d0 where d0: "p = DataP d0" "accepts st rn ts d0"
        using p(5) by (auto simp: applied_def split: payload.splits)
      have ty: "c_type c0 = DATA" using p(2) d0(1) by simp
      obtain T' where T': "insertRecursiveData x (ptr t) ts st rn (T0, Some c, 0) =
          Some (ptr (ins True x ?nc t), T', Some c', result_timestamp rn ts n)"
        "grows T0 t T' (ins True x ?nc t) {}"
        "datas T' = (datas T0)(c_data c0 \<mapsto> DataP (stamp_data rn ts n (d0\<lparr>data_value := data_value ?d\<rparr>)))"
        using insertRecursiveData_accepted [OF S(4) t(1,2) S(5,9,10) fnd dx p0 [unfolded d0(1)] ty d0(2) clk] by blast
      have "datas T' = (datas T0)(c_data c0 \<mapsto> written v rn ts n)" using T'(3) by (simp add: stamp_data_written)
      then have d': "\<forall>a < next_addr T. datas T' a = ((datas T)(c_data c0 \<mapsto> written v rn ts n)) a"
        using S(1,6) by auto
      have u: "hinv (ins True x ?nc t)" "bst (ins True x ?nc t)" "cells (ins True x ?nc t) = cells t"
        using ins_hinv [OF t(2)] ins_bst [OF t(3)] fnd by (auto simp: ins_cells)
      have fit: "payload_fits (c_type c0) (written v rn ts n)" using ty by (simp add: written_def)
      have "holds T' (ins True x ?nc t)" "contents T' = (contents T)(c_hash c0 \<mapsto> (c_key c0, written v rn ts n))"
        using holds_grow_update [OF H T'(2) S(3) nxt u p(3) fit d'] by auto
      then show ?thesis
        using T'(1) T0 S(3) True p ins_not_Tip [of True x ?nc t]
        by (auto simp: addData_def avl_ok_def write_spec_def stored_key_def)
    next
      case False
      then have rej: "c_type c0 = DATA \<Longrightarrow> \<exists>d0. datas T0 (c_data c0) = Some (DataP d0) \<and> \<not> accepts st rn ts d0"
        using p p0 by (cases p) (auto simp: applied_def)
      obtain T' where T': "insertRecursiveData x (ptr t) ts st rn (T0, Some c, 0) =
          Some (if ptr t = Some a0 then None else ptr t, T', Some c, 0)" "grows T0 t T' t {}" "datas T' = datas T0"
        using insertRecursiveData_rejected [OF S(4) t(1,2) S(5,9,10) fnd dx rej] by blast
      have d': "\<forall>a < next_addr T. datas T' a = ((datas T)(c_data c0 \<mapsto> p)) a"
        using T'(3) S(1,6) p(1) by auto
      have ok: "holds T' t" "contents T' = (contents T)(c_hash c0 \<mapsto> (c_key c0, p))"
        using holds_grow_update [OF H T'(2) S(3) nxt t(2,3) refl p(3,2) d'] by auto
      then have "contents T' = contents T" using p(4,5) by (simp add: map_upd_triv)
      moreover have "ptr t = Some a0 \<longleftrightarrow> root_is T h"
      proof -
        obtain l a c1 hh r where tb: "t = Bin l a c1 hh r" using fnd by (cases t) auto
        have "nodes T a = Some (mk_node c1 hh (ptr l) (ptr r))" "root T = Some a" using H tb by (auto simp: holds_def)
        moreover have "a0 = a \<longleftrightarrow> c_hash c1 = h"
          using fnd t(1) find_cells [of l h a0 c0] find_cells [of r h a0 c0] by (auto simp: tb split: if_splits)
        ultimately show ?thesis by (auto simp: root_is_def tb)
      qed
      moreover have "ptr t \<noteq> None" using fnd by (cases t) auto
      ultimately show ?thesis
        using T'(1) T0 S(3) False ok(1) by (auto simp: addData_def avl_ok_def write_spec_def)
    qed
  qed
qed

end
