(* ===== verification/Avl_Ops.thy ===== *)
theory Avl_Ops
  imports Avl_Insert
begin

text \<open>
  The other operations on the tree of \<^theory_text>\<open>Avl_Heap\<close>: the in-order traversal, the insertion of
  counters, clearing and removal, and the bound on the stored heights that makes \<^verbatim>\<open>int16_t\<close>
  wide enough. The properties of the tree stand at the end.
\<close>

section \<open>Heights fit in 16 bits\<close>

lemma hinv_card:
  "hinv t \<Longrightarrow> bst t \<Longrightarrow> 2 ^ (nat (ht t + 1) div 2) \<le> card (cells t) + 1"
proof (induction t)
  case (Bin l a c h r)
  have c: "card (cells (Bin l a c h r)) = Suc (card (cells l) + card (cells r))"
  proof -
    have "c \<notin> cells l \<union> cells r" using Bin.prems(2) by auto
    moreover have "cells l \<inter> cells r = {}" using Bin.prems(2) by fastforce
    ultimately show ?thesis by (simp add: card_Un_disjoint)
  qed
  show ?case
  proof (cases "h \<le> 0")
    case True
    then have "h + 1 \<le> 1" by simp
    then have "nat (h + 1) div 2 = 0" by simp
    then show ?thesis by simp
  next
    case False
    then have h: "h = max (ht l) (ht r) + 1" "\<bar>ht r - ht l\<bar> \<le> 1" using Bin.prems(1) by auto
    have low: "2 ^ (nat (h - 1) div 2) \<le> card (cells t) + 1"
      if "2 ^ (nat (ht t + 1) div 2) \<le> card (cells t) + 1" "h - 2 \<le> ht t" for t
    proof -
      have "nat (h - 1) div 2 \<le> nat (ht t + 1) div 2" using that(2) by (intro div_le_mono) simp
      then have "(2 :: nat) ^ (nat (h - 1) div 2) \<le> 2 ^ (nat (ht t + 1) div 2)" by (rule power_increasing) simp
      then show ?thesis using that(1) by linarith
    qed
    have "2 ^ (nat (h - 1) div 2) \<le> card (cells l) + 1" "2 ^ (nat (h - 1) div 2) \<le> card (cells r) + 1"
      using low [of l] low [of r] Bin.IH Bin.prems h by auto
    moreover have "nat (h + 1) div 2 = Suc (nat (h - 1) div 2)"
      using False by (simp add: nat_add_distrib nat_diff_distrib)
    ultimately show ?thesis using c by simp
  qed
qed simp

lemma card_cells_hashes: "bst t \<Longrightarrow> card (cells t) \<le> 2 ^ 32"
proof -
  assume "bst t"
  then have "inj_on c_hash (cells t)" using lookup_iff [of t] by (auto intro!: inj_onI) (metis option.inject)
  then have "card (cells t) = card (c_hash ` cells t)" by (simp add: card_image)
  also have "\<dots> \<le> card (UNIV :: u32 set)" by (rule card_mono) simp_all
  also have "\<dots> = 2 ^ 32" by (simp add: card_word)
  finally show ?thesis .
qed

lemma ht_bound: "hinv t \<Longrightarrow> bst t \<Longrightarrow> ht t \<le> 64"
proof (rule ccontr)
  assume t: "hinv t" "bst t" and "\<not> ht t \<le> 64"
  then have "33 \<le> nat (ht t + 1) div 2" by linarith
  then have "(2 :: nat) ^ 33 \<le> 2 ^ (nat (ht t + 1) div 2)" by (rule power_increasing) simp
  also have "\<dots> \<le> card (cells t) + 1" by (rule hinv_card [OF t])
  also have "\<dots> \<le> 2 ^ 32 + 1" using card_cells_hashes [OF t(2)] by simp
  finally show False by simp
qed

lemma tfind_height:
  "tree_at m t \<Longrightarrow> hinv t \<Longrightarrow> bst t \<Longrightarrow> tfind t h = Some (a, c) \<Longrightarrow>
     \<exists>n. m a = Some n \<and> -1 \<le> height n \<and> height n \<le> 64"
proof (induction t)
  case (Bin l a' c' hh r)
  then show ?case
    using hinv_ht [of "Bin l a' c' hh r"] ht_bound [of "Bin l a' c' hh r"] by (auto split: if_splits)
qed simp

section \<open>Traversal\<close>

fun inorder :: "ptree \<Rightarrow> cell list" where
  "inorder Tip = []"
| "inorder (Bin l a c h r) = inorder l @ c # inorder r"

definition cell_entry :: "cell \<Rightarrow> MapEntry" where
  "cell_entry c = \<lparr>entry_key = c_key c, entry_keyHash = c_hash c, entry_type = c_type c, entry_data = c_data c\<rparr>"

lemma set_inorder [simp]: "set (inorder t) = cells t"
  by (induction t) auto

lemma inorder_sorted: "bst t \<Longrightarrow> sorted_wrt (<) (map c_hash (inorder t))"
  by (induction t) (auto simp: sorted_wrt_append intro: less_trans)

lemma entry_of_mk_node [simp]: "entry_of (mk_node c h p q) = cell_entry c"
  by (simp add: entry_of_def cell_entry_def)

lemma getOrderedByHashRecursive_inorder:
  "tree_at (nodes T) t \<Longrightarrow> ptr t = Some a \<Longrightarrow>
     getOrderedByHashRecursive T a acc = Some (acc @ map cell_entry (inorder t))"
proof (induction t arbitrary: a acc)
  case (Bin l a' c h r)
  have "nodes T a = Some (mk_node c h (ptr l) (ptr r))" using Bin.prems by simp
  then show ?case
    using Bin.IH Bin.prems
    by (cases l; cases r) (simp_all add: getOrderedByHashRecursive.simps [of T a])
qed simp

lemma getOrderedByHash_inorder:
  assumes "holds T t"
  shows "getOrderedByHash T = Some (map cell_entry (inorder t))"
proof -
  have t: "tree_at (nodes T) t" "root T = ptr t" using assms by (auto simp: holds_def)
  show ?thesis
  proof (cases "ptr t")
    case (Some a)
    then show ?thesis
      using t getOrderedByHashRecursive_inorder [OF t(1) Some, of "[]"] by (simp add: getOrderedByHash_def)
  qed (use t in \<open>simp add: getOrderedByHash_def\<close>)
qed

section \<open>Counters\<close>

lemma insertRecursiveCounter_new:
  assumes "tree_at (nodes T) t" and "sep t" and "hinv t" and "x \<notin> addrs t"
    and new: "nodes T x = Some (mk_node nc (-1) None None)"
    and "root_outside T t" and "root_set T t" and rx: "root T \<noteq> Some x"
    and "tfind t (c_hash nc) = None"
  shows "\<exists>T'. insertRecursiveCounter x (ptr t) T = Some (ptr (ins True x nc t), T') \<and>
    grows T t T' (ins True x nc t) {x} \<and> datas T' = datas T"
  using assms(1-4,6,7,9)
proof (induction t)
  case Tip
  then show ?case
    using new rx by (subst insertRecursiveCounter.simps) (auto simp: grows_def)
next
  case (Bin l a c h r)
  have low: "low_ok l" "low_ok r" and hs: "hinv l" "hinv r" using Bin.prems(3) by (auto intro: hinv_low_ok)
  have X: "{x} \<inter> addrs (Bin l a c h r) = {}" "\<forall>y \<in> {x}. root T \<noteq> Some y" using Bin.prems(4) rx by auto
  have kids: "root_outside T l" "root_outside T r" "root_set T l" "root_set T r"
    using root_outside_child [OF Bin.prems(5,2)] Bin.prems(6) by (auto simp: root_set_def)
  have pl: "tree_at (nodes T) l" "tree_at (nodes T) r" "sep l" "sep r" "x \<notin> addrs l" "x \<notin> addrs r"
    using Bin.prems(1,2,4) by auto
  show ?case
  proof (cases "c_hash c > c_hash nc")
    case True
    have fl: "tfind l (c_hash nc) = None" using Bin.prems(7) True by (simp split: if_splits)
    obtain T1 where T1: "insertRecursiveCounter x (ptr l) T = Some (ptr (ins True x nc l), T1)"
      "grows T l T1 (ins True x nc l) {x}" "datas T1 = datas T"
      using Bin.IH(1) [OF pl(1,3) hs(1) pl(5) kids(1,3) fl] by blast
    have lowl: "low_ok (ins True x nc l)" using ins_hinv [OF hs(1)] hinv_low_ok by blast
    obtain b T' where b: "Option.bind (set_left a (ptr (ins True x nc l)) T1) (rebalance a) = Some (b, T')"
      "ptr (rebal (ins True x nc l) a c r) = Some b" "grows T (Bin l a c h r) T' (rebal (ins True x nc l) a c r) {x}"
      "datas T' = datas T1"
      using grows_left [OF Bin.prems(1,2,5,6) T1(2) X ins_not_Tip lowl low(2)] by blast
    show ?thesis
      using Bin.prems(1) new True T1(1,3) b
      by (subst insertRecursiveCounter.simps) (auto simp: bind_eq_Some_conv)
  next
    case False
    then have lt: "c_hash c < c_hash nc" and fr: "tfind r (c_hash nc) = None"
      using Bin.prems(7) by (auto split: if_splits)
    obtain T1 where T1: "insertRecursiveCounter x (ptr r) T = Some (ptr (ins True x nc r), T1)"
      "grows T r T1 (ins True x nc r) {x}" "datas T1 = datas T"
      using Bin.IH(2) [OF pl(2,4) hs(2) pl(6) kids(2,4) fr] by blast
    have lowr: "low_ok (ins True x nc r)" using ins_hinv [OF hs(2)] hinv_low_ok by blast
    obtain b T' where b: "Option.bind (set_right a (ptr (ins True x nc r)) T1) (rebalance a) = Some (b, T')"
      "ptr (rebal l a c (ins True x nc r)) = Some b" "grows T (Bin l a c h r) T' (rebal l a c (ins True x nc r)) {x}"
      "datas T' = datas T1"
      using grows_right [OF Bin.prems(1,2,5,6) T1(2) X ins_not_Tip lowr low(1)] by blast
    show ?thesis
      using Bin.prems(1) new False lt T1(1,3) b
      by (subst insertRecursiveCounter.simps) (auto simp: bind_eq_Some_conv)
  qed
qed

lemma addCounter_holds:
  assumes H: "holds T t" and absent: "contents T h = None"
  shows "\<exists>T'. addCounter k h self n T = Some (True, T') \<and> avl_ok T' \<and>
    contents T' = (contents T)(h \<mapsto> (k, CounterP (new_Counter self n)))"
proof -
  let ?p = "CounterP (new_Counter self n)"
  obtain x T0 where T0: "new_AVLNode k h COUNTER ?p T = (x, T0)" by fastforce
  note S = new_node_start [OF H T0]
  let ?nc = "\<lparr>c_key = k, c_data = x, c_hash = h, c_type = COUNTER\<rparr>"
  have t: "sep t" "hinv t" using H by (auto simp: holds_def)
  have lk: "lookup t (c_hash ?nc) = None"
  proof (rule ccontr)
    assume "lookup t (c_hash ?nc) \<noteq> None"
    then obtain c where "lookup t h = Some c" by auto
    then show False using holds_cell [OF H] absent by (metis option.distinct(1))
  qed
  then have nf: "tfind t (c_hash ?nc) = None" by (simp add: lookup_def)
  obtain T' where T': "insertRecursiveCounter x (ptr t) T0 = Some (ptr (ins True x ?nc t), T')"
    "grows T0 t T' (ins True x ?nc t) {x}" "datas T' = datas T0"
    using insertRecursiveCounter_new [OF S(4) t S(7,5,9,10,8) nf] by blast
  have "holds T' (ins True x ?nc t)" "contents T' = (contents T)(c_hash ?nc \<mapsto> (c_key ?nc, ?p))"
    using holds_grow_new [OF H T'(2) S(3,2,1) lk, of ?p] T'(3) S(6) by auto
  moreover obtain b where "ptr (ins True x ?nc t) = Some b" using ins_not_Tip [of True x ?nc t] by fastforce
  ultimately show ?thesis using T'(1) T0 S(3) by (auto simp: addCounter_def avl_ok_def)
qed

section \<open>Clearing\<close>

lemma clearRecursive_frees:
  "tree_at (nodes T) t \<Longrightarrow> sep t \<Longrightarrow> ptr t = Some a \<Longrightarrow>
     clearRecursive a T = Some (T\<lparr>nodes := (\<lambda>x. if x \<in> addrs t then None else nodes T x)\<rparr>)"
proof (induction t arbitrary: a T)
  case (Bin l a' c h r)
  have a: "a' = a" "nodes T a = Some (mk_node c h (ptr l) (ptr r))" using Bin.prems by auto
  define T1 where "T1 = T\<lparr>nodes := (\<lambda>x. if x \<in> addrs l then None else nodes T x)\<rparr>"
  have l: "(case ptr l of Some b \<Rightarrow> clearRecursive b T | None \<Rightarrow> Some T) = Some T1"
    using Bin.IH(1) [of T] Bin.prems by (cases l) (auto simp: T1_def)
  have r1: "tree_at (nodes T1) r"
  proof (rule tree_at_frame)
    show "tree_at (nodes T) r" using Bin.prems by simp
    show "\<forall>x \<in> addrs r. nodes T1 x = nodes T x" using Bin.prems by (auto simp: T1_def)
  qed
  define T2 where "T2 = T1\<lparr>nodes := (\<lambda>x. if x \<in> addrs r then None else nodes T1 x)\<rparr>"
  have r: "(case ptr r of Some b \<Rightarrow> clearRecursive b T1 | None \<Rightarrow> Some T1) = Some T2"
    using Bin.IH(2) [OF r1] Bin.prems by (cases r) (auto simp: T2_def)
  have n1: "nodes T1 a = Some (mk_node c h (ptr l) (ptr r))" using a Bin.prems by (simp add: T1_def)
  have "clearRecursive a T = Some (T2\<lparr>nodes := (nodes T2)(a := None)\<rparr>)"
    by (subst clearRecursive.simps) (simp add: a(2) l n1 r)
  also have "T2\<lparr>nodes := (nodes T2)(a := None)\<rparr> =
      T\<lparr>nodes := (\<lambda>x. if x \<in> addrs (Bin l a' c h r) then None else nodes T x)\<rparr>"
    by (auto simp: T2_def T1_def a(1) fun_eq_iff)
  finally show ?case .
qed simp

section \<open>Sequences of writes\<close>

text \<open>Trees built by writes, with the clock that issued them, for the examples below.\<close>

fun avl_writes ::
  "(SimpleString \<times> u32 \<times> SimpleString \<times> LamportClock) list \<Rightarrow> bool \<Rightarrow> AVLTree \<Rightarrow> LamportClock \<Rightarrow>
     (AVLTree \<times> LamportClock) option" where
  "avl_writes [] rn T c = Some (T, c)"
| "avl_writes ((k, h, v, ts) # ws) rn T c = do {
     (res, T', c') \<leftarrow> addData k h v ts TICK rn T (Some c);
     c'' \<leftarrow> c';
     avl_writes ws rn T' c'' }"

lemma avl_writes_ok: "avl_ok T \<Longrightarrow> \<exists>T' c'. avl_writes ws rn T c = Some (T', c') \<and> avl_ok T'"
proof (induction ws arbitrary: T c)
  case (Cons w ws)
  obtain k h v ts where w: "w = (k, h, v, ts)" by (cases w)
  obtain t where t: "holds T t" using Cons.prems by (auto simp: avl_ok_def)
  obtain n c' where n: "clock_update TICK (counter ts) c = (n, c')" by fastforce
  obtain res T' d where a: "addData k h v ts TICK rn T (Some c) = Some (res, T', Some d)" "avl_ok T'"
    using addData_holds [OF t n, of k h v rn] by (cases "applied TICK rn ts (contents T h)") auto
  then show ?case using Cons.IH [OF a(2), of d] by (auto simp: w)
qed simp

section \<open>Properties\<close>

text \<open>C1. On a well-formed tree every write returns: it neither dereferences a null or dangling pointer
  nor loops. The tree it leaves is well formed (ordered, balanced, no sharing), and its contents are
  those of the last-writer-wins map: the entry is created or replaced exactly when the write is
  accepted, every other entry is untouched, and the clock advances only on acceptance.\<close>

theorem addData_last_writer_wins:
  assumes "avl_ok T" and "clock_update st (counter ts) c = (n, c')"
  shows "\<exists>res T'. addData k h v ts st rn T (Some c) =
      Some (res, T', Some (if applied st rn ts (contents T h) then c' else c)) \<and>
    avl_ok T' \<and> contents T' = write_spec k h v ts st rn n (contents T) \<and>
    (applied st rn ts (contents T h) \<longrightarrow> res = Some (result_timestamp rn ts n))"
proof -
  obtain t where "holds T t" using assms(1) by (auto simp: avl_ok_def)
  from addData_holds [OF this assms(2), of k h v rn] show ?thesis by (auto split: if_splits)
qed

theorem addData_last_writer_wins_witness:
  "\<exists>res T'. addData [107] 5 [118] (LamportClock 1 0) TICK False empty_tree (Some (LamportClock 1 7)) =
      Some (res, T', Some (LamportClock 1 8)) \<and>
    avl_ok T' \<and> contents T' 5 = Some ([107], DataP \<lparr>data_value = [118], data_timestamp = LamportClock 1 8\<rparr>) \<and>
    res = Some 8"
proof -
  have clk: "clock_update TICK (counter (LamportClock 1 0)) (LamportClock 1 7) = (8, LamportClock 1 8)"
    by code_simp
  have acc: "applied TICK False (LamportClock 1 0) (contents empty_tree 5)"
    by (simp add: contents_empty applied_def)
  obtain res T' where r: "addData [107] 5 [118] (LamportClock 1 0) TICK False empty_tree (Some (LamportClock 1 7)) =
      Some (res, T', Some (LamportClock 1 8))" "avl_ok T'"
    "contents T' = write_spec [107] 5 [118] (LamportClock 1 0) TICK False 8 (contents empty_tree)"
    "res = Some (result_timestamp False (LamportClock 1 0) 8)"
    using addData_last_writer_wins [OF avl_ok_empty clk, of "[107]" 5 "[118]" False] acc by auto
  moreover have "contents T' 5 = Some ([107], DataP \<lparr>data_value = [118], data_timestamp = LamportClock 1 8\<rparr>)"
    using acc by (simp add: r(3) write_spec_def contents_empty stored_key_def written_def stamp_data_def)
  ultimately show ?thesis by (auto simp: result_timestamp_def)
qed

text \<open>A replicated write that loses against the stored entry is reported as an error only when the
  entry it meets is at the root of its bucket; anywhere else the caller gets a success carrying
  timestamp 0, although nothing was written.\<close>

theorem addData_rejection_masked:
  assumes "avl_ok T" and "\<not> applied st rn ts (contents T h)" and "\<not> root_is T h"
  shows "\<exists>T'. addData k h v ts st rn T (Some c) = Some (Some 0, T', Some c) \<and> contents T' = contents T"
proof -
  obtain t where t: "holds T t" using assms(1) by (auto simp: avl_ok_def)
  obtain n c' where n: "clock_update st (counter ts) c = (n, c')" by fastforce
  from addData_holds [OF t n, of k h v rn] assms(2,3) show ?thesis by (auto simp: write_spec_def)
qed

theorem addData_rejection_masked_witness:
  "\<exists>T c T'. avl_writes [([97], 5, [1], LamportClock 1 10), ([98], 3, [2], LamportClock 1 10)] True
       empty_tree (LamportClock 2 0) = Some (T, c) \<and>
     addData [98] 3 [9] (LamportClock 1 4) SET_MAX True T (Some c) = Some (Some 0, T', Some c) \<and>
     contents T' 3 = Some ([98], DataP \<lparr>data_value = [2], data_timestamp = LamportClock 1 10\<rparr>)"
proof -
  let ?ws = "[([97], 5, [1], LamportClock 1 10), ([98], 3, [2], LamportClock 1 10)]"
  obtain T c where T: "avl_writes ?ws True empty_tree (LamportClock 2 0) = Some (T, c)" "avl_ok T"
    using avl_writes_ok [OF avl_ok_empty] by blast
  have "case avl_writes ?ws True empty_tree (LamportClock 2 0) of None \<Rightarrow> False
     | Some (T, c) \<Rightarrow> root T = Some 0 \<and> map_option keyHash (nodes T 0) = Some 5 \<and>
         contents T 3 = Some ([98], DataP \<lparr>data_value = [2], data_timestamp = LamportClock 1 10\<rparr>)"
    by code_simp
  then have e: "root T = Some 0" "map_option keyHash (nodes T 0) = Some 5"
    "contents T 3 = Some ([98], DataP \<lparr>data_value = [2], data_timestamp = LamportClock 1 10\<rparr>)"
    using T(1) by auto
  have "\<not> applied SET_MAX True (LamportClock 1 4) (contents T 3)"
    unfolding e(3) by code_simp
  moreover have "\<not> root_is T 3" using e(1,2) by (auto simp: root_is_def)
  ultimately obtain T' where "addData [98] 3 [9] (LamportClock 1 4) SET_MAX True T (Some c) = Some (Some 0, T', Some c)"
    "contents T' = contents T"
    using addData_rejection_masked [OF T(2)] by blast
  then show ?thesis using T(1) e(3) by auto
qed

text \<open>Every stored height a search can meet lies between -1 and 64, so the 16-bit height field, an integer in the
  model, does not overflow in a well-formed tree: keys are told apart by a 32-bit hash.\<close>

lemma avl_height_fits_int16:
  assumes "avl_ok T" and "avl_get T h = Some (Some a)"
  shows "\<exists>n. nodes T a = Some n \<and> -1 \<le> height n \<and> height n \<le> 64"
proof -
  obtain t where t: "holds T t" using assms(1) by (auto simp: avl_ok_def)
  then have "tree_at (nodes T) t" "hinv t" "bst t" "root T = ptr t" by (auto simp: holds_def)
  then show ?thesis
    using assms(2) get_from_tfind [of T t h] tfind_height [of "nodes T" t h] by (auto simp: avl_get_def)
qed

text \<open>C30. The traversal used to ship a bucket to another node returns for every well-formed tree, yields
  the entries in strictly increasing order of hash and misses none: a hash is in the list exactly when
  a search finds it.\<close>

theorem getOrderedByHash_sorted_complete:
  assumes "avl_ok T"
  shows "\<exists>es. getOrderedByHash T = Some es \<and> sorted_wrt (<) (map entry_keyHash es) \<and>
    (\<forall>h. h \<in> set (map entry_keyHash es) \<longleftrightarrow> contents T h \<noteq> None)"
proof -
  obtain t where t: "holds T t" using assms by (auto simp: avl_ok_def)
  then have b: "bst t" by (simp add: holds_def)
  have hs: "map entry_keyHash (map cell_entry (inorder t)) = map c_hash (inorder t)"
    by (simp add: cell_entry_def)
  have "h \<in> c_hash ` cells t \<longleftrightarrow> contents T h \<noteq> None" for h
  proof (cases "lookup t h")
    case (Some c)
    then show ?thesis using holds_cell [OF t Some] by (metis imageI option.distinct(1))
  qed (use holds_contents [OF t, of h] lookup_iff [OF b, of h] in auto)
  then show ?thesis
    using getOrderedByHash_inorder [OF t] inorder_sorted [OF b] hs
    by (intro exI [of _ "map cell_entry (inorder t)"]) (simp only: set_map hs set_inorder, simp)
qed

theorem getOrderedByHash_sorted_complete_witness:
  "\<exists>T c es. avl_writes [([97], 5, [1], LamportClock 1 10), ([98], 3, [2], LamportClock 1 10),
       ([99], 9, [3], LamportClock 1 10)] True empty_tree (LamportClock 2 0) = Some (T, c) \<and>
     getOrderedByHash T = Some es \<and> sorted_wrt (<) (map entry_keyHash es) \<and> 9 \<in> set (map entry_keyHash es)"
proof -
  let ?ws = "[([97], 5, [1], LamportClock 1 10), ([98], 3, [2], LamportClock 1 10), ([99], 9, [3], LamportClock 1 10)]"
  obtain T c where T: "avl_writes ?ws True empty_tree (LamportClock 2 0) = Some (T, c)" "avl_ok T"
    using avl_writes_ok [OF avl_ok_empty] by blast
  have "case avl_writes ?ws True empty_tree (LamportClock 2 0) of None \<Rightarrow> False
     | Some (T, c) \<Rightarrow> contents T 9 \<noteq> None"
    by code_simp
  then have "contents T 9 \<noteq> None" using T(1) by simp
  then show ?thesis using getOrderedByHash_sorted_complete [OF T(2)] T(1) by blast
qed

text \<open>Clearing a bucket frees its nodes but keeps the root pointer, so the first operation on the
  cleared bucket follows a dangling pointer, whatever key it looks for; and clearing a bucket that
  never held a key dereferences a null root.\<close>

theorem avl_clear_leaves_dangling_root:
  assumes "avl_ok T"
  shows "case root T of None \<Rightarrow> avl_clear T = None
    | Some a \<Rightarrow> \<exists>T'. avl_clear T = Some T' \<and> root T' = Some a \<and> (\<forall>h. avl_get T' h = None)"
proof (cases "root T")
  case (Some a)
  obtain t where t: "holds T t" using assms by (auto simp: avl_ok_def)
  then have h: "tree_at (nodes T) t" "sep t" "ptr t = Some a" using Some by (auto simp: holds_def)
  then have "avl_clear T = Some (T\<lparr>nodes := (\<lambda>x. if x \<in> addrs t then None else nodes T x)\<rparr>)"
    using clearRecursive_frees [OF h] Some by (simp add: avl_clear_def)
  moreover have "a \<in> addrs t" using ptr_in_addrs h(3) .
  ultimately show ?thesis using Some by (simp add: avl_get_def get_from.simps)
qed (simp add: avl_clear_def)

theorem avl_clear_leaves_dangling_root_witness:
  "avl_clear empty_tree = None"
  using avl_clear_leaves_dangling_root [OF avl_ok_empty] by (simp add: empty_tree_def)

text \<open>C39. Removing a key whose hash is above that of a root with no smaller keys is reported as an
  error and cuts off the whole right subtree: every key of the bucket except the root's is lost. The
  search for the key goes down the left branch, and the result replaces the right one.\<close>

theorem removeData_drops_greater_keys:
  assumes "root T = Some a" and "nodes T a = Some n" and "left n = None" and "keyHash n < k"
  shows "\<exists>T'. removeData k ts st chk T clk = Some (None, T', clk) \<and>
    (\<forall>h. avl_get T' h = Some (if h = keyHash n then Some a else None))"
proof -
  have ne: "keyHash n \<noteq> k" "\<not> keyHash n > k" using assms(4) by auto
  let ?n = "n\<lparr>right := None, height := 0\<rparr>"
  have cut: "rebalance a (store_node a (n\<lparr>right := None\<rparr>) T) = Some (a, store_node a ?n T)"
    using assms(3) by (simp add: rebalance_def updateHeight_def getHeight_def getHeightFactor_def store_node_def)
  have inner: "removeRecursiveData None k ts st chk False (T, clk, 0) = Some (None, False, T, clk, 0)"
    by (subst removeRecursiveData.simps) simp
  have "removeRecursiveData (Some a) k ts st chk False (T, clk, 0) = Some (Some a, False, store_node a ?n T, clk, 0)"
    using assms(2,3,4) ne by (subst removeRecursiveData.simps) (simp add: inner cut rebalance_ptr_def)
  then have "removeData k ts st chk T clk = Some (None, store_node a ?n T, clk)"
    using assms(1) by (simp add: removeData_def)
  moreover have "avl_get (store_node a ?n T) h = Some (if h = keyHash n then Some a else None)" for h
    using assms(1,3) by (auto simp: avl_get_def get_from.simps)
  ultimately show ?thesis by blast
qed

theorem removeData_drops_greater_keys_witness:
  "\<exists>T c T'. avl_writes [([97], 1, [1], LamportClock 1 10), ([98], 2, [2], LamportClock 1 10)] True
       empty_tree (LamportClock 2 0) = Some (T, c) \<and> avl_get T 2 = Some (Some 1) \<and>
     removeData 9 (LamportClock 1 20) TICK False T (Some c) = Some (None, T', Some c) \<and> avl_get T' 2 = Some None"
proof -
  let ?ws = "[([97], 1, [1], LamportClock 1 10), ([98], 2, [2], LamportClock 1 10)]"
  have "case avl_writes ?ws True empty_tree (LamportClock 2 0) of None \<Rightarrow> False
     | Some (T, c) \<Rightarrow> root T = Some 0 \<and> map_option keyHash (nodes T 0) = Some 1 \<and>
         map_option left (nodes T 0) = Some None \<and> avl_get T 2 = Some (Some 1)"
    by code_simp
  then obtain T c where T: "avl_writes ?ws True empty_tree (LamportClock 2 0) = Some (T, c)" "root T = Some 0"
    "map_option keyHash (nodes T 0) = Some 1" "map_option left (nodes T 0) = Some None" "avl_get T 2 = Some (Some 1)"
    by (auto split: option.splits)
  then obtain n where n: "nodes T 0 = Some n" "keyHash n = 1" "left n = None" by auto
  then have "keyHash n < 9" by simp
  from removeData_drops_greater_keys [OF T(2) n(1,3) this, of "LamportClock 1 20" TICK False "Some c"]
  show ?thesis using T(1,5) n(2) by auto
qed

end
