(* ===== verification/Shared_Lock.thy ===== *)
theory Shared_Lock
  imports Memdb_Prelude
begin

text \<open>
  The reader-writer lock of \<^verbatim>\<open>utils/threads/SharedLock.cpp\<close>, built from two mutexes and two
  counters. First as operations of one thread, as the map of \<^theory_text>\<open>Db_Map\<close> uses them, then as
  the interleaving of the statements of any number of threads.
\<close>

section \<open>One thread\<close>

text \<open>The counters have 64 bits in the code; they count threads that hold or wait for the lock.\<close>

record SharedLock =
  lockedSharedCount :: int
  sharedCountLock :: bool
  lock :: bool
  lockedExclusiveCount :: nat

definition new_SharedLock :: SharedLock where
  "new_SharedLock = \<lparr>lockedSharedCount = 0, sharedCountLock = False, lock = False, lockedExclusiveCount = 0\<rparr>"

text \<open>Locking a mutex that is held does not return (\<^term>\<open>None\<close>).\<close>

definition lockShared :: "SharedLock \<Rightarrow> SharedLock option" where
  "lockShared s =
     (if sharedCountLock s then None
      else let s = s\<lparr>sharedCountLock := True, lockedSharedCount := lockedSharedCount s + 1\<rparr>
           in do { s \<leftarrow> (if lockedSharedCount s = 1 then if lock s then None else Some (s\<lparr>lock := True\<rparr>) else Some s);
                   Some (s\<lparr>sharedCountLock := False\<rparr>) })"

definition unlockShared :: "SharedLock \<Rightarrow> SharedLock option" where
  "unlockShared s =
     (if sharedCountLock s then None
      else let s = s\<lparr>sharedCountLock := True, lockedSharedCount := lockedSharedCount s - 1\<rparr>;
               s = (if lockedSharedCount s = 0 then s\<lparr>lock := False\<rparr> else s)
           in Some (s\<lparr>sharedCountLock := False\<rparr>))"

definition lockExclusive :: "SharedLock \<Rightarrow> SharedLock option" where
  "lockExclusive s =
     (if lock s then None else Some (s\<lparr>lock := True, lockedExclusiveCount := lockedExclusiveCount s + 1\<rparr>))"

definition unlockExclusive :: "SharedLock \<Rightarrow> SharedLock" where
  "unlockExclusive s =
     (let s = s\<lparr>lockedExclusiveCount := lockedExclusiveCount s - 1\<rparr>
      in if lockedExclusiveCount s = 0 then s\<lparr>lockedExclusiveCount := 0, lock := False\<rparr> else s)"

definition lock_free :: "SharedLock \<Rightarrow> bool" where
  "lock_free s \<longleftrightarrow> s = new_SharedLock"

lemma lock_pairs:
  assumes "lock_free s"
  shows "Option.bind (lockExclusive s) (Some \<circ> unlockExclusive) = Some s"
    and "Option.bind (lockShared s) unlockShared = Some s"
  using assms
  by (simp_all add: lock_free_def new_SharedLock_def lockExclusive_def unlockExclusive_def lockShared_def
      unlockShared_def Let_def)

section \<open>Many threads\<close>

text \<open>The program counter of a thread: before a call, inside one of the four operations, or between a
  lock and its unlock.\<close>

datatype lock_pc = Idle
  | SharedCount | SharedAcquire | SharedRelease | Reading
  | UnsharedCount | UnsharedUnlock | UnsharedRelease
  | ExclusiveCount | Writing | ExclusiveUnlock

record lock_system =
  shared_lock :: SharedLock
  owner :: "nat option"
  pcs :: "lock_pc list"

definition goto :: "nat \<Rightarrow> lock_pc \<Rightarrow> SharedLock \<Rightarrow> lock_system \<Rightarrow> lock_system" where
  "goto i p s S = S\<lparr>shared_lock := s, pcs := (pcs S)[i := p]\<rparr>"

text \<open>One statement of thread \<open>i\<close>.\<close>

inductive lock_step :: "nat \<Rightarrow> lock_system \<Rightarrow> lock_system \<Rightarrow> bool" where
  call_shared: "i < length (pcs S) \<Longrightarrow> pcs S ! i = Idle \<Longrightarrow> shared_lock S = s \<Longrightarrow> \<not> sharedCountLock s \<Longrightarrow>
    lock_step i S (goto i SharedCount (s\<lparr>sharedCountLock := True\<rparr>) S)"
| shared_count: "i < length (pcs S) \<Longrightarrow> pcs S ! i = SharedCount \<Longrightarrow> shared_lock S = s \<Longrightarrow>
    lock_step i S (goto i (if lockedSharedCount s + 1 = 1 then SharedAcquire else SharedRelease)
      (s\<lparr>lockedSharedCount := lockedSharedCount s + 1\<rparr>) S)"
| shared_acquire: "i < length (pcs S) \<Longrightarrow> pcs S ! i = SharedAcquire \<Longrightarrow> shared_lock S = s \<Longrightarrow> \<not> lock s \<Longrightarrow>
    lock_step i S (goto i SharedRelease (s\<lparr>lock := True\<rparr>) S\<lparr>owner := Some i\<rparr>)"
| shared_release: "i < length (pcs S) \<Longrightarrow> pcs S ! i = SharedRelease \<Longrightarrow> shared_lock S = s \<Longrightarrow>
    lock_step i S (goto i Reading (s\<lparr>sharedCountLock := False\<rparr>) S)"
| call_unshared: "i < length (pcs S) \<Longrightarrow> pcs S ! i = Reading \<Longrightarrow> shared_lock S = s \<Longrightarrow> \<not> sharedCountLock s \<Longrightarrow>
    lock_step i S (goto i UnsharedCount (s\<lparr>sharedCountLock := True\<rparr>) S)"
| unshared_count: "i < length (pcs S) \<Longrightarrow> pcs S ! i = UnsharedCount \<Longrightarrow> shared_lock S = s \<Longrightarrow>
    lock_step i S (goto i (if lockedSharedCount s - 1 = 0 then UnsharedUnlock else UnsharedRelease)
      (s\<lparr>lockedSharedCount := lockedSharedCount s - 1\<rparr>) S)"
| unshared_unlock: "i < length (pcs S) \<Longrightarrow> pcs S ! i = UnsharedUnlock \<Longrightarrow> shared_lock S = s \<Longrightarrow>
    lock_step i S (goto i UnsharedRelease (s\<lparr>lock := False\<rparr>) S\<lparr>owner := None\<rparr>)"
| unshared_release: "i < length (pcs S) \<Longrightarrow> pcs S ! i = UnsharedRelease \<Longrightarrow> shared_lock S = s \<Longrightarrow>
    lock_step i S (goto i Idle (s\<lparr>sharedCountLock := False\<rparr>) S)"
| call_exclusive: "i < length (pcs S) \<Longrightarrow> pcs S ! i = Idle \<Longrightarrow> shared_lock S = s \<Longrightarrow> \<not> lock s \<Longrightarrow>
    lock_step i S (goto i ExclusiveCount (s\<lparr>lock := True\<rparr>) S\<lparr>owner := Some i\<rparr>)"
| exclusive_count: "i < length (pcs S) \<Longrightarrow> pcs S ! i = ExclusiveCount \<Longrightarrow> shared_lock S = s \<Longrightarrow>
    lock_step i S (goto i Writing (s\<lparr>lockedExclusiveCount := lockedExclusiveCount s + 1\<rparr>) S)"
| call_unexclusive: "i < length (pcs S) \<Longrightarrow> pcs S ! i = Writing \<Longrightarrow> shared_lock S = s \<Longrightarrow>
    lock_step i S (goto i (if lockedExclusiveCount s - 1 = 0 then ExclusiveUnlock else Idle)
      (s\<lparr>lockedExclusiveCount := lockedExclusiveCount s - 1\<rparr>) S)"
| exclusive_unlock: "i < length (pcs S) \<Longrightarrow> pcs S ! i = ExclusiveUnlock \<Longrightarrow> shared_lock S = s \<Longrightarrow>
    lock_step i S (goto i Idle (s\<lparr>lockedExclusiveCount := 0, lock := False\<rparr>) S\<lparr>owner := None\<rparr>)"

inductive lock_reach :: "nat \<Rightarrow> lock_system \<Rightarrow> bool" for n where
  start: "lock_reach n \<lparr>shared_lock = new_SharedLock, owner = None, pcs = replicate n Idle\<rparr>"
| move: "lock_reach n S \<Longrightarrow> lock_step i S S' \<Longrightarrow> lock_reach n S'"

section \<open>Invariant\<close>

definition num :: "lock_pc set \<Rightarrow> lock_system \<Rightarrow> nat" where
  "num A S = length (filter (\<lambda>p. p \<in> A) (pcs S))"

definition counted :: "lock_pc set" where
  "counted = {SharedAcquire, SharedRelease, Reading, UnsharedCount}"

definition counting :: "lock_pc set" where
  "counting = {SharedCount, SharedAcquire, SharedRelease, UnsharedCount, UnsharedUnlock, UnsharedRelease}"

definition exclusive :: "lock_pc set" where
  "exclusive = {ExclusiveCount, Writing, ExclusiveUnlock}"

definition readers_hold :: "lock_system \<Rightarrow> bool" where
  "readers_hold S \<longleftrightarrow> 0 < num counted S \<and> num {SharedAcquire} S = 0 \<or> 0 < num {UnsharedUnlock} S"

definition lock_inv :: "lock_system \<Rightarrow> bool" where
  "lock_inv S \<longleftrightarrow>
     lockedSharedCount (shared_lock S) = int (num counted S) \<and>
     num counting S = (if sharedCountLock (shared_lock S) then 1 else 0) \<and>
     num exclusive S + (if readers_hold S then 1 else 0) = (if lock (shared_lock S) then 1 else 0) \<and>
     lockedExclusiveCount (shared_lock S) = num {Writing} S \<and>
     (0 < num {SharedAcquire} S \<longrightarrow> num counted S = 1) \<and> (0 < num {UnsharedUnlock} S \<longrightarrow> num counted S = 0)"

lemma num_goto:
  assumes "i < length (pcs S)" and "pcs S ! i = p"
  shows "num A (goto i q s S) + (if p \<in> A then 1 else 0) = num A S + (if q \<in> A then 1 else 0)"
  using length_filter_list_update [OF assms(1), of "\<lambda>p. p \<in> A" q] assms(2) by (simp add: num_def goto_def)

lemma num_pos:
  assumes "i < length (pcs S)" and "pcs S ! i \<in> A"
  shows "0 < num A S"
  using assms by (auto simp: num_def filter_empty_conv)

lemma num_owner [simp]: "num A (S\<lparr>owner := w\<rparr>) = num A S"
  by (simp add: num_def)

lemma goto_simps [simp]: "shared_lock (goto i p s S) = s" "length (pcs (goto i p s S)) = length (pcs S)"
  "owner (goto i p s S) = owner S"
  by (simp_all add: goto_def)

lemma num_subset: "A \<subseteq> B \<Longrightarrow> num A S \<le> num B S"
proof -
  assume "A \<subseteq> B"
  then have "filter (\<lambda>p. p \<in> A) (pcs S) = filter (\<lambda>p. p \<in> A) (filter (\<lambda>p. p \<in> B) (pcs S))"
    by (auto intro: filter_cong)
  then show ?thesis unfolding num_def by (metis length_filter_le)
qed

lemma num_disjoint: "A \<inter> B = {} \<Longrightarrow> num A S + num B S = num (A \<union> B) S"
proof -
  assume d: "A \<inter> B = {}"
  have "length (filter (\<lambda>p. p \<in> A) ps) + length (filter (\<lambda>p. p \<in> B) ps) = length (filter (\<lambda>p. p \<in> A \<union> B) ps)" for ps
    using d by (induction ps) auto
  then show ?thesis by (simp add: num_def)
qed

lemma groups_iff [simp]:
  "p \<in> counted \<longleftrightarrow> p = SharedAcquire \<or> p = SharedRelease \<or> p = Reading \<or> p = UnsharedCount"
  "p \<in> counting \<longleftrightarrow> p = SharedCount \<or> p = SharedAcquire \<or> p = SharedRelease \<or> p = UnsharedCount \<or>
     p = UnsharedUnlock \<or> p = UnsharedRelease"
  "p \<in> exclusive \<longleftrightarrow> p = ExclusiveCount \<or> p = Writing \<or> p = ExclusiveUnlock"
  by (simp_all add: counted_def counting_def exclusive_def)

lemma only_counting:
  assumes "lock_inv S" and "i < length (pcs S)" and "pcs S ! i = p" and "p \<in> counting" and "q \<in> counting" and "q \<noteq> p"
  shows "num {q} S = 0"
proof -
  have "num {p} S + num {q} S \<le> num counting S"
    using num_disjoint [of "{p}" "{q}" S] num_subset [of "{p} \<union> {q}" counting S] assms(4-6) by simp
  moreover have "0 < num {p} S" using num_pos [OF assms(2), of "{p}"] assms(3) by simp
  moreover have "num counting S \<le> 1" using assms(1) by (simp add: lock_inv_def)
  ultimately show ?thesis by simp
qed

lemma goto_inv:
  assumes "lock_inv S" and "i < length (pcs S)" and "pcs S ! i = p"
  shows "num counted (goto i q s S) + (if p \<in> counted then 1 else 0) = num counted S + (if q \<in> counted then 1 else 0)"
    and "num counting (goto i q s S) + (if p \<in> counting then 1 else 0) = num counting S + (if q \<in> counting then 1 else 0)"
    and "num exclusive (goto i q s S) + (if p \<in> exclusive then 1 else 0) = num exclusive S + (if q \<in> exclusive then 1 else 0)"
    and "num {SharedAcquire} (goto i q s S) + (if p = SharedAcquire then 1 else 0) = num {SharedAcquire} S + (if q = SharedAcquire then 1 else 0)"
    and "num {UnsharedUnlock} (goto i q s S) + (if p = UnsharedUnlock then 1 else 0) = num {UnsharedUnlock} S + (if q = UnsharedUnlock then 1 else 0)"
    and "num {Writing} (goto i q s S) + (if p = Writing then 1 else 0) = num {Writing} S + (if q = Writing then 1 else 0)"
  using num_goto [OF assms(2,3), of counted q s] num_goto [OF assms(2,3), of counting q s]
    num_goto [OF assms(2,3), of exclusive q s] num_goto [OF assms(2,3), of "{SharedAcquire}" q s]
    num_goto [OF assms(2,3), of "{UnsharedUnlock}" q s] num_goto [OF assms(2,3), of "{Writing}" q s]
  by (simp_all only: singleton_iff)

lemma num_bounds:
  assumes "i < length (pcs S)" and "pcs S ! i = p"
  shows "p \<in> counted \<Longrightarrow> 0 < num counted S" and "p \<in> exclusive \<Longrightarrow> 0 < num exclusive S"
    and "p = SharedAcquire \<Longrightarrow> 0 < num {SharedAcquire} S" and "p = UnsharedUnlock \<Longrightarrow> 0 < num {UnsharedUnlock} S"
    and "num {SharedAcquire} S \<le> num counted S" and "num {Writing} S \<le> num exclusive S"
    and "num {SharedAcquire} S \<le> num counting S" and "num {UnsharedUnlock} S \<le> num counting S"
    and "p = ExclusiveCount \<or> p = ExclusiveUnlock \<Longrightarrow> num {Writing} S < num exclusive S"
    and "p = Writing \<Longrightarrow> 0 < num {Writing} S"
proof -
  have pos: "p \<in> A \<Longrightarrow> 0 < num A S" for A using num_pos [OF assms(1)] assms(2) by simp
  show "p \<in> counted \<Longrightarrow> 0 < num counted S" "p \<in> exclusive \<Longrightarrow> 0 < num exclusive S" by (erule pos)+
  show "p = SharedAcquire \<Longrightarrow> 0 < num {SharedAcquire} S" "p = UnsharedUnlock \<Longrightarrow> 0 < num {UnsharedUnlock} S"
    "p = Writing \<Longrightarrow> 0 < num {Writing} S" by (simp_all add: pos)
  show "num {SharedAcquire} S \<le> num counted S" "num {Writing} S \<le> num exclusive S"
    "num {SharedAcquire} S \<le> num counting S" "num {UnsharedUnlock} S \<le> num counting S"
    by (rule num_subset; simp)+
  assume p: "p = ExclusiveCount \<or> p = ExclusiveUnlock"
  then have "num {Writing} S + num {p} S = num ({Writing} \<union> {p}) S" by (intro num_disjoint) auto
  also have "\<dots> \<le> num exclusive S" using p by (intro num_subset) auto
  finally show "num {Writing} S < num exclusive S" using pos [of "{p}"] by simp
qed

lemma lock_step_inv:
  assumes "lock_step i S S'" and inv: "lock_inv S"
  shows "lock_inv S'"
  using assms(1)
proof cases
  case (call_shared s)
  show ?thesis
    using inv goto_inv [OF inv call_shared(2,3), of "SharedCount" "s\<lparr>sharedCountLock := True\<rparr>"] num_bounds [OF call_shared(2,3)] call_shared
    by (simp add: lock_inv_def readers_hold_def)
next
  case (shared_count s)
  show ?thesis
    using inv goto_inv [OF inv shared_count(2,3), of "if lockedSharedCount s + 1 = 1 then SharedAcquire else SharedRelease" "s\<lparr>lockedSharedCount := lockedSharedCount s + 1\<rparr>"] num_bounds [OF shared_count(2,3)] shared_count
      only_counting [OF inv shared_count(2,3), of SharedAcquire] only_counting [OF inv shared_count(2,3), of UnsharedUnlock]
    by (simp add: lock_inv_def readers_hold_def split: if_splits)
next
  case (shared_acquire s)
  show ?thesis
    using inv goto_inv [OF inv shared_acquire(2,3), of "SharedRelease" "s\<lparr>lock := True\<rparr>"] num_bounds [OF shared_acquire(2,3)] shared_acquire
      only_counting [OF inv shared_acquire(2,3), of UnsharedUnlock]
    by (simp add: lock_inv_def readers_hold_def split: if_splits)
next
  case (shared_release s)
  show ?thesis
    using inv goto_inv [OF inv shared_release(2,3), of "Reading" "s\<lparr>sharedCountLock := False\<rparr>"] num_bounds [OF shared_release(2,3)] shared_release
      only_counting [OF inv shared_release(2,3), of SharedAcquire] only_counting [OF inv shared_release(2,3), of UnsharedUnlock]
    by (simp add: lock_inv_def readers_hold_def split: if_splits)
next
  case (call_unshared s)
  show ?thesis
    using inv goto_inv [OF inv call_unshared(2,3), of "UnsharedCount" "s\<lparr>sharedCountLock := True\<rparr>"] num_bounds [OF call_unshared(2,3)] call_unshared
    by (simp add: lock_inv_def readers_hold_def split: if_splits)
next
  case (unshared_count s)
  show ?thesis
    using inv goto_inv [OF inv unshared_count(2,3), of "if lockedSharedCount s - 1 = 0 then UnsharedUnlock else UnsharedRelease" "s\<lparr>lockedSharedCount := lockedSharedCount s - 1\<rparr>"] num_bounds [OF unshared_count(2,3)] unshared_count
      only_counting [OF inv unshared_count(2,3), of SharedAcquire] only_counting [OF inv unshared_count(2,3), of UnsharedUnlock]
    by (simp add: lock_inv_def readers_hold_def split: if_splits)
next
  case (unshared_unlock s)
  show ?thesis
    using inv goto_inv [OF inv unshared_unlock(2,3), of "UnsharedRelease" "s\<lparr>lock := False\<rparr>"] num_bounds [OF unshared_unlock(2,3)] unshared_unlock
      only_counting [OF inv unshared_unlock(2,3), of SharedAcquire]
    by (simp add: lock_inv_def readers_hold_def split: if_splits)
next
  case (unshared_release s)
  show ?thesis
    using inv goto_inv [OF inv unshared_release(2,3), of "Idle" "s\<lparr>sharedCountLock := False\<rparr>"] num_bounds [OF unshared_release(2,3)] unshared_release
    by (simp add: lock_inv_def readers_hold_def split: if_splits)
next
  case (call_exclusive s)
  show ?thesis
    using inv goto_inv [OF inv call_exclusive(2,3), of "ExclusiveCount" "s\<lparr>lock := True\<rparr>"] num_bounds [OF call_exclusive(2,3)] call_exclusive
    by (simp add: lock_inv_def readers_hold_def split: if_splits)
next
  case (exclusive_count s)
  show ?thesis
    using inv goto_inv [OF inv exclusive_count(2,3), of "Writing" "s\<lparr>lockedExclusiveCount := lockedExclusiveCount s + 1\<rparr>"] num_bounds [OF exclusive_count(2,3)] exclusive_count
    by (simp add: lock_inv_def readers_hold_def split: if_splits)
next
  case (call_unexclusive s)
  show ?thesis
    using inv goto_inv [OF inv call_unexclusive(2,3), of "if lockedExclusiveCount s - 1 = 0 then ExclusiveUnlock else Idle" "s\<lparr>lockedExclusiveCount := lockedExclusiveCount s - 1\<rparr>"] num_bounds [OF call_unexclusive(2,3)] call_unexclusive
    by (simp add: lock_inv_def readers_hold_def split: if_splits)
next
  case (exclusive_unlock s)
  show ?thesis
    using inv goto_inv [OF inv exclusive_unlock(2,3), of "Idle" "s\<lparr>lockedExclusiveCount := 0, lock := False\<rparr>"] num_bounds [OF exclusive_unlock(2,3)] exclusive_unlock
    by (simp add: lock_inv_def readers_hold_def split: if_splits)
qed

lemma lock_reach_inv: "lock_reach n S \<Longrightarrow> lock_inv S"
proof (induction rule: lock_reach.induct)
  case start
  have "num A \<lparr>shared_lock = new_SharedLock, owner = None, pcs = replicate n Idle\<rparr> = (if Idle \<in> A then n else 0)" for A
    by (simp add: num_def)
  then show ?case by (simp add: lock_inv_def readers_hold_def new_SharedLock_def)
qed (rule lock_step_inv)

text \<open>The step relation as a function of the thread and, before a call, of the operation it calls.\<close>

definition lock_next :: "nat \<Rightarrow> bool \<Rightarrow> lock_system \<Rightarrow> lock_system option" where
  "lock_next i excl S =
     (if i < length (pcs S) then
        let s = shared_lock S in
        (case pcs S ! i of
           Idle \<Rightarrow>
             if excl then if lock s then None else Some (goto i ExclusiveCount (s\<lparr>lock := True\<rparr>) S\<lparr>owner := Some i\<rparr>)
             else if sharedCountLock s then None else Some (goto i SharedCount (s\<lparr>sharedCountLock := True\<rparr>) S)
         | SharedCount \<Rightarrow>
             Some (goto i (if lockedSharedCount s + 1 = 1 then SharedAcquire else SharedRelease)
               (s\<lparr>lockedSharedCount := lockedSharedCount s + 1\<rparr>) S)
         | SharedAcquire \<Rightarrow>
             if lock s then None else Some (goto i SharedRelease (s\<lparr>lock := True\<rparr>) S\<lparr>owner := Some i\<rparr>)
         | SharedRelease \<Rightarrow> Some (goto i Reading (s\<lparr>sharedCountLock := False\<rparr>) S)
         | Reading \<Rightarrow>
             if sharedCountLock s then None else Some (goto i UnsharedCount (s\<lparr>sharedCountLock := True\<rparr>) S)
         | UnsharedCount \<Rightarrow>
             Some (goto i (if lockedSharedCount s - 1 = 0 then UnsharedUnlock else UnsharedRelease)
               (s\<lparr>lockedSharedCount := lockedSharedCount s - 1\<rparr>) S)
         | UnsharedUnlock \<Rightarrow> Some (goto i UnsharedRelease (s\<lparr>lock := False\<rparr>) S\<lparr>owner := None\<rparr>)
         | UnsharedRelease \<Rightarrow> Some (goto i Idle (s\<lparr>sharedCountLock := False\<rparr>) S)
         | ExclusiveCount \<Rightarrow> Some (goto i Writing (s\<lparr>lockedExclusiveCount := lockedExclusiveCount s + 1\<rparr>) S)
         | Writing \<Rightarrow>
             Some (goto i (if lockedExclusiveCount s - 1 = 0 then ExclusiveUnlock else Idle)
               (s\<lparr>lockedExclusiveCount := lockedExclusiveCount s - 1\<rparr>) S)
         | ExclusiveUnlock \<Rightarrow> Some (goto i Idle (s\<lparr>lockedExclusiveCount := 0, lock := False\<rparr>) S\<lparr>owner := None\<rparr>))
      else None)"

fun lock_run :: "(nat \<times> bool) list \<Rightarrow> lock_system \<Rightarrow> lock_system option" where
  "lock_run [] S = Some S"
| "lock_run ((i, excl) # sched) S = Option.bind (lock_next i excl S) (lock_run sched)"

abbreviation lock_start :: "nat \<Rightarrow> lock_system" where
  "lock_start n \<equiv> \<lparr>shared_lock = new_SharedLock, owner = None, pcs = replicate n Idle\<rparr>"

lemma lock_next_step:
  assumes nx: "lock_next i excl S = Some S'"
  shows "lock_step i S S'"
proof -
  have i: "i < length (pcs S)" using nx by (simp add: lock_next_def split: if_split_asm)
  note defs = lock_next_def Let_def
  show ?thesis
  proof (cases "pcs S ! i")
    case Idle
    then show ?thesis
      using lock_step.call_shared [OF i Idle refl] lock_step.call_exclusive [OF i Idle refl] nx i
      by (simp add: defs split: if_split_asm)
  next
    case SharedCount
    then show ?thesis using lock_step.shared_count [OF i SharedCount refl] nx i by (simp add: defs split: if_split_asm)
  next
    case SharedAcquire
    then show ?thesis using lock_step.shared_acquire [OF i SharedAcquire refl] nx i by (simp add: defs split: if_split_asm)
  next
    case SharedRelease
    then show ?thesis using lock_step.shared_release [OF i SharedRelease refl] nx i by (simp add: defs split: if_split_asm)
  next
    case Reading
    then show ?thesis using lock_step.call_unshared [OF i Reading refl] nx i by (simp add: defs split: if_split_asm)
  next
    case UnsharedCount
    then show ?thesis using lock_step.unshared_count [OF i UnsharedCount refl] nx i by (simp add: defs split: if_split_asm)
  next
    case UnsharedUnlock
    then show ?thesis using lock_step.unshared_unlock [OF i UnsharedUnlock refl] nx i by (simp add: defs split: if_split_asm)
  next
    case UnsharedRelease
    then show ?thesis using lock_step.unshared_release [OF i UnsharedRelease refl] nx i by (simp add: defs split: if_split_asm)
  next
    case ExclusiveCount
    then show ?thesis using lock_step.exclusive_count [OF i ExclusiveCount refl] nx i by (simp add: defs split: if_split_asm)
  next
    case Writing
    then show ?thesis using lock_step.call_unexclusive [OF i Writing refl] nx i by (simp add: defs split: if_split_asm)
  next
    case ExclusiveUnlock
    then show ?thesis using lock_step.exclusive_unlock [OF i ExclusiveUnlock refl] nx i by (simp add: defs split: if_split_asm)
  qed
qed

lemma lock_run_reach: "lock_reach n S \<Longrightarrow> lock_run sched S = Some S' \<Longrightarrow> lock_reach n S'"
proof (induction sched arbitrary: S)
  case (Cons m sched)
  obtain i excl where m: "m = (i, excl)" by (cases m)
  then obtain S1 where "lock_next i excl S = Some S1" "lock_run sched S1 = Some S'" using Cons.prems by (auto simp: bind_eq_Some_conv)
  then show ?case using Cons.IH Cons.prems(1) lock_next_step lock_reach.move by blast
qed simp

section \<open>Properties\<close>

text \<open>C21. Whatever the number of threads and the interleaving of their statements, a thread between
  \<^verbatim>\<open>lockExclusive\<close> and \<^verbatim>\<open>unlockExclusive\<close> is alone: no other thread is in its
  writing section, and none is in its reading section.\<close>

theorem shared_lock_excludes:
  assumes "lock_reach n S" and "i < length (pcs S)" and "pcs S ! i = Writing"
    and "j < length (pcs S)" and "j \<noteq> i"
  shows "pcs S ! j \<noteq> Writing \<and> pcs S ! j \<noteq> Reading"
proof -
  have inv: "lock_inv S" by (rule lock_reach_inv [OF assms(1)])
  have w: "0 < num exclusive S" using num_pos [OF assms(2), of exclusive] assms(3) by simp
  then have one: "num exclusive S = 1" "\<not> readers_hold S" using inv by (auto simp: lock_inv_def split: if_splits)
  have "pcs S ! j \<noteq> Writing"
  proof
    assume j: "pcs S ! j = Writing"
    have "num exclusive (goto i Idle (shared_lock S) S) = 0"
      using num_goto [OF assms(2,3), of exclusive Idle "shared_lock S"] one(1) by simp
    moreover have "0 < num exclusive (goto i Idle (shared_lock S) S)"
      using num_pos [of j "goto i Idle (shared_lock S) S" exclusive] assms(4,5) j by (simp add: goto_def)
    ultimately show False by simp
  qed
  moreover have "pcs S ! j \<noteq> Reading"
  proof
    assume j: "pcs S ! j = Reading"
    then have "0 < num counted S" using num_pos [OF assms(4), of counted] by simp
    then have acq: "0 < num {SharedAcquire} S" "num counted S = 1" using one(2) inv by (auto simp: readers_hold_def lock_inv_def)
    have "num {SharedAcquire} S + num {Reading} S \<le> num counted S"
      using num_disjoint [of "{SharedAcquire}" "{Reading}" S] num_subset [of "{SharedAcquire} \<union> {Reading}" counted S] by simp
    moreover have "0 < num {Reading} S" using num_pos [OF assms(4), of "{Reading}"] j by simp
    ultimately show False using acq by simp
  qed
  ultimately show ?thesis by simp
qed

theorem shared_lock_excludes_witness:
  "\<exists>S. lock_run [(0, True), (0, True), (1, False), (1, False)] (lock_start 2) = Some S \<and>
     pcs S ! 0 = Writing \<and> pcs S ! 1 = SharedAcquire \<and> pcs S ! 1 \<noteq> Writing \<and> pcs S ! 1 \<noteq> Reading"
proof -
  obtain S where S: "lock_run [(0, True), (0, True), (1, False), (1, False)] (lock_start 2) = Some S"
    "pcs S = [Writing, SharedAcquire]"
    by (simp add: lock_next_def goto_def new_SharedLock_def numeral_2_eq_2)
  have "lock_reach 2 S" using lock_run_reach [OF lock_reach.start S(1)] .
  then show ?thesis using shared_lock_excludes [of 2 S 0 1] S by simp
qed

text \<open>The last reader releases a mutex that another thread locked: with two readers the first to
  enter locks \<^verbatim>\<open>lock\<close> and may leave first, so that the unlock is executed by a thread that is
  not the owner, which \<^verbatim>\<open>std::mutex\<close> leaves undefined.\<close>

theorem shared_lock_foreign_unlock:
  "\<exists>S. lock_reach 2 S \<and> pcs S ! 1 = UnsharedUnlock \<and> owner S = Some 0 \<and> lock (shared_lock S)"
proof -
  let ?sched = "[(0, False), (0, False), (0, False), (0, False), (1, False), (1, False), (1, False),
    (0, False), (0, False), (0, False), (1, False), (1, False)]"
  obtain S where S: "lock_run ?sched (lock_start 2) = Some S" "pcs S ! 1 = UnsharedUnlock" "owner S = Some 0"
    "lock (shared_lock S)"
    by (simp add: lock_next_def goto_def new_SharedLock_def numeral_2_eq_2)
  then show ?thesis using lock_run_reach [OF lock_reach.start S(1)] by blast
qed

end
