(* ===== verification/Db_Map.thy ===== *)
theory Db_Map
  imports Avl_Ops Shared_Lock
begin

text \<open>
  The hash map of \<^verbatim>\<open>db/Map.h\<close>, a vector of AVL trees guarded by a vector of reader-writer
  locks, and the stores per partition of \<^verbatim>\<open>db/MemDbStores.cpp\<close>. An operation that waits
  for a lock nobody will release, or that indexes out of range, is \<^term>\<open>None\<close>.
\<close>

section \<open>Hashing\<close>

text \<open>
  \<^verbatim>\<open>calculateHash\<close> adds in double precision and converts back to 32 bits after every byte.
  Below \<open>2 ^ 32\<close> everything is exact; above, and for the product of zero and infinity from position
  207 on, the conversion is undefined in C++ and its result is the parameter \<open>ub\<close>.
\<close>

type_synonym double_ub = "u32 \<Rightarrow> u8 \<Rightarrow> nat \<Rightarrow> u32"

fun hash_from :: "double_ub \<Rightarrow> nat \<Rightarrow> u32 \<Rightarrow> SimpleString \<Rightarrow> u32" where
  "hash_from ub i hashCode [] = hashCode"
| "hash_from ub i hashCode (b # bs) =
     hash_from ub (i + 1)
       (if i < 207 \<and> unat hashCode + unat b * 31 ^ i < 2 ^ 32 then word_of_nat (unat hashCode + unat b * 31 ^ i)
        else ub hashCode b i) bs"

definition calculateHash :: "double_ub \<Rightarrow> SimpleString \<Rightarrow> u32" where
  "calculateHash ub k = hash_from ub 0 0 k"

section \<open>The map\<close>

record MemMap =
  map_size :: u32
  buckets :: "AVLTree list"
  locks :: "SharedLock list"
  numberBuckets :: u32

definition new_Map :: "u32 \<Rightarrow> MemMap" where
  "new_Map n = (let numberBuckets = roundUpPowerOfTwo n in
     \<lparr>map_size = 0, buckets = replicate (unat numberBuckets) empty_tree,
      locks = replicate (unat numberBuckets) new_SharedLock, numberBuckets = numberBuckets\<rparr>)"

definition bucket_index :: "MemMap \<Rightarrow> u32 \<Rightarrow> nat" where
  "bucket_index M h = unat (optimizedModulePowerOfTwo (numberBuckets M) h)"

definition at :: "'a list \<Rightarrow> nat \<Rightarrow> 'a option" where
  "at xs i = (if i < length xs then Some (xs ! i) else None)"

definition getBucket :: "MemMap \<Rightarrow> u32 \<Rightarrow> AVLTree option" where
  "getBucket M h = at (buckets M) (bucket_index M h)"

definition setBucket :: "u32 \<Rightarrow> AVLTree \<Rightarrow> MemMap \<Rightarrow> MemMap" where
  "setBucket h T M = M\<lparr>buckets := (buckets M)[bucket_index M h := T]\<rparr>"

definition getNodeByKeyHash :: "MemMap \<Rightarrow> u32 \<Rightarrow> addr option option" where
  "getNodeByKeyHash M h = do { T \<leftarrow> getBucket M h; avl_get T h }"

definition on_lock :: "u32 \<Rightarrow> (SharedLock \<Rightarrow> SharedLock option) \<Rightarrow> MemMap \<Rightarrow> MemMap option" where
  "on_lock h f M = do { l \<leftarrow> at (locks M) (bucket_index M h); l \<leftarrow> f l; Some (M\<lparr>locks := (locks M)[bucket_index M h := l]\<rparr>) }"

definition lockRead :: "u32 \<Rightarrow> MemMap \<Rightarrow> MemMap option" where
  "lockRead h = on_lock h lockShared"

definition unlockRead :: "u32 \<Rightarrow> MemMap \<Rightarrow> MemMap option" where
  "unlockRead h = on_lock h unlockShared"

definition lockWrite :: "u32 \<Rightarrow> MemMap \<Rightarrow> MemMap option" where
  "lockWrite h = on_lock h lockExclusive"

definition unlockWrite :: "u32 \<Rightarrow> MemMap \<Rightarrow> MemMap option" where
  "unlockWrite h = on_lock h (\<lambda>l. Some (unlockExclusive l))"

definition putData ::
  "double_ub \<Rightarrow> SimpleString \<Rightarrow> SimpleString \<Rightarrow> LamportClock \<Rightarrow> UpdateClockStrategy \<Rightarrow> bool \<Rightarrow>
     MemMap \<Rightarrow> LamportClock option \<Rightarrow> (u64 option \<times> MemMap \<times> LamportClock option) option" where
  "putData ub k v ts strategy requestFromNode M clk = do {
     let keyHash = calculateHash ub k;
     M \<leftarrow> lockWrite keyHash M;
     bucket \<leftarrow> getBucket M keyHash;
     (addResult, bucket, clk) \<leftarrow> addData k keyHash v ts strategy requestFromNode bucket clk;
     M \<leftarrow> unlockWrite keyHash (setBucket keyHash bucket M);
     Some (addResult, M, clk) }"

text \<open>The error path of \<^verbatim>\<open>updateCounter\<close> returns without releasing the lock.\<close>

definition updateCounter ::
  "double_ub \<Rightarrow> SimpleString \<Rightarrow> memdbNodeId_t \<Rightarrow> nat \<Rightarrow> bool \<Rightarrow> MemMap \<Rightarrow> (int option \<times> MemMap) option" where
  "updateCounter ub k self n inc M = do {
     let hash = calculateHash ub k;
     M \<leftarrow> lockWrite hash M;
     bucket \<leftarrow> getBucket M hash;
     found \<leftarrow> avl_get bucket hash;
     (bucket, found) \<leftarrow> (if found = None then do {
         (added, bucket) \<leftarrow> addCounter k hash self n bucket;
         found \<leftarrow> avl_get bucket hash;
         Some (bucket, found) }
       else Some (bucket, found));
     let M = setBucket hash bucket M;
     a \<leftarrow> found;
     node \<leftarrow> nodes bucket a;
     if nodeType node \<noteq> COUNTER then Some (None, M)
     else do {
       p \<leftarrow> datas bucket (data node);
       c \<leftarrow> as_counter p;
       (v, c) \<leftarrow> (if inc then increment c else decrement c);
       M \<leftarrow> unlockWrite hash (setBucket hash (store_data (data node) (CounterP c) bucket) M);
       Some (Some v, M) } }"

definition putCounter ::
  "double_ub \<Rightarrow> SimpleString \<Rightarrow> memdbNodeId_t \<Rightarrow> nat \<Rightarrow> MemMap \<Rightarrow> (bool \<times> MemMap) option" where
  "putCounter ub k self n M = do {
     let hash = calculateHash ub k;
     M \<leftarrow> lockWrite hash M;
     bucket \<leftarrow> getBucket M hash;
     found \<leftarrow> avl_get bucket hash;
     (added, bucket) \<leftarrow> (if found = None then do {
         (inserted, bucket) \<leftarrow> addCounter k hash self n bucket;
         Some (True, bucket) }
       else Some (False, bucket));
     M \<leftarrow> unlockWrite hash (setBucket hash bucket M);
     Some (added, M) }"

definition map_get :: "double_ub \<Rightarrow> SimpleString \<Rightarrow> MemMap \<Rightarrow> (MapEntry option \<times> MemMap) option" where
  "map_get ub k M = do {
     let hash = calculateHash ub k;
     M \<leftarrow> lockRead hash M;
     bucket \<leftarrow> getBucket M hash;
     found \<leftarrow> getNodeByKeyHash M hash;
     response \<leftarrow> (case found of Some a \<Rightarrow> do { n \<leftarrow> nodes bucket a; Some (Some (entry_of n)) } | None \<Rightarrow> Some None);
     M \<leftarrow> unlockRead hash M;
     Some (response, M) }"

definition map_remove ::
  "double_ub \<Rightarrow> SimpleString \<Rightarrow> LamportClock \<Rightarrow> UpdateClockStrategy \<Rightarrow> bool \<Rightarrow> MemMap \<Rightarrow>
     LamportClock option \<Rightarrow> (u64 option \<times> MemMap \<times> LamportClock option) option" where
  "map_remove ub k ts strategy checkTimestamps M clk = do {
     let hash = calculateHash ub k;
     M \<leftarrow> lockWrite hash M;
     bucket \<leftarrow> getBucket M hash;
     (removeResult, bucket, clk) \<leftarrow> removeData hash ts strategy checkTimestamps bucket clk;
     M \<leftarrow> unlockWrite hash (setBucket hash bucket M);
     Some (removeResult, M, clk) }"

fun clear_buckets :: "nat list \<Rightarrow> MemMap \<Rightarrow> MemMap option" where
  "clear_buckets [] M = Some M"
| "clear_buckets (i # is) M = do {
     l \<leftarrow> at (locks M) i;
     l \<leftarrow> lockExclusive l;
     T \<leftarrow> at (buckets M) i;
     T \<leftarrow> avl_clear T;
     clear_buckets is (M\<lparr>buckets := (buckets M)[i := T], locks := (locks M)[i := unlockExclusive l]\<rparr>) }"

definition map_clear :: "MemMap \<Rightarrow> MemMap option" where
  "map_clear M = clear_buckets [0..<unat (numberBuckets M)] M"

definition map_contains :: "double_ub \<Rightarrow> SimpleString \<Rightarrow> MemMap \<Rightarrow> bool option" where
  "map_contains ub k M = map_option (\<lambda>p. p \<noteq> None) (getNodeByKeyHash M (calculateHash ub k))"

definition getSize :: "MemMap \<Rightarrow> int" where
  "getSize M = sint (map_size M)"

section \<open>Iteration by bucket\<close>

record BucketMapHashOrderedIterator =
  it_map :: MemMap
  actualBucket :: u32

definition bucketIterator :: "MemMap \<Rightarrow> BucketMapHashOrderedIterator" where
  "bucketIterator M = \<lparr>it_map = M, actualBucket = 0\<rparr>"

definition bucket_next ::
  "BucketMapHashOrderedIterator \<Rightarrow> (MapEntry list \<times> BucketMapHashOrderedIterator) option" where
  "bucket_next it = do {
     T \<leftarrow> at (buckets (it_map it)) (unat (actualBucket it));
     es \<leftarrow> getOrderedByHash T;
     Some (es, it\<lparr>actualBucket := actualBucket it + 1\<rparr>) }"

definition bucket_hasNext :: "BucketMapHashOrderedIterator \<Rightarrow> bool" where
  "bucket_hasNext it \<longleftrightarrow> actualBucket it < numberBuckets (it_map it)"

definition bucket_totalSize :: "BucketMapHashOrderedIterator \<Rightarrow> u64" where
  "bucket_totalSize it = ucast (numberBuckets (it_map it))"

section \<open>Stores by partition\<close>

type_synonym MemDbStores = "u32 \<rightharpoonup> MemMap"

fun initialize_from :: "nat list \<Rightarrow> u32 \<Rightarrow> MemDbStores \<Rightarrow> MemDbStores" where
  "initialize_from [] nBuckets stores = stores"
| "initialize_from (i # is) nBuckets stores = initialize_from is nBuckets (stores(word_of_nat i \<mapsto> new_Map nBuckets))"

definition initializeStoresMap :: "u32 \<Rightarrow> u32 \<Rightarrow> MemDbStores \<Rightarrow> MemDbStores" where
  "initializeStoresMap partitionsPerNode nBuckets = initialize_from [0..<unat partitionsPerNode] nBuckets"

definition removeByPartitionId :: "u32 \<Rightarrow> MemDbStores \<Rightarrow> MemDbStores" where
  "removeByPartitionId partitionId stores = stores(partitionId := None)"

definition getByPartitionId :: "u32 \<Rightarrow> MemDbStores \<Rightarrow> MemMap option" where
  "getByPartitionId partitionId stores = stores partitionId"

section \<open>Well-formed maps and their view\<close>

definition map_shape :: "MemMap \<Rightarrow> bool" where
  "map_shape M \<longleftrightarrow> (\<exists>k < 32. numberBuckets M = 2 ^ k \<and> length (buckets M) = 2 ^ k \<and> length (locks M) = 2 ^ k)"

definition map_ok :: "MemMap \<Rightarrow> bool" where
  "map_ok M \<longleftrightarrow> map_shape M \<and> (\<forall>T \<in> set (buckets M). avl_ok T) \<and> (\<forall>l \<in> set (locks M). lock_free l)"

text \<open>What a hash is bound to: the contents of its bucket.\<close>

definition map_view :: "MemMap \<Rightarrow> u32 \<rightharpoonup> SimpleString \<times> payload" where
  "map_view M h = contents (buckets M ! bucket_index M h) h"

lemma unat_two_power: "k < 32 \<Longrightarrow> unat ((2 :: u32) ^ k) = 2 ^ k"
  using unat_of_nat_less [of "2 ^ k", where 'a = 32] power_strict_increasing [of k 32 "2 :: nat"] by simp

lemma bucket_index_less:
  assumes "map_shape M"
  shows "bucket_index M h < length (buckets M)" and "bucket_index M h < length (locks M)"
proof -
  obtain k where k: "k < 32" "numberBuckets M = 2 ^ k" "length (buckets M) = 2 ^ k" "length (locks M) = 2 ^ k"
    using assms by (auto simp: map_shape_def)
  have p: "unat ((2 :: u32) ^ k) = 2 ^ k" by (rule unat_two_power [OF k(1)])
  have "unat (h mod 2 ^ k) < 2 ^ k" using p by (metis mod_less_divisor unat_mod_distrib zero_less_numeral zero_less_power)
  then have "bucket_index M h < 2 ^ k"
    using optimizedModulePowerOfTwo_mod [of k h] k by (simp add: bucket_index_def)
  then show "bucket_index M h < length (buckets M)" "bucket_index M h < length (locks M)" using k by simp_all
qed

lemma new_Map_ok:
  assumes "0 < n" and "unat n \<le> 2 ^ 31"
  shows "map_ok (new_Map n)" and "map_view (new_Map n) = Map.empty"
proof -
  obtain k where k: "k < 32" "roundUpPowerOfTwo n = 2 ^ k"
    using roundUpPowerOfTwo_spec [of n] assms by auto
  have p: "unat ((2 :: u32) ^ k) = 2 ^ k" by (rule unat_two_power [OF k(1)])
  show ok: "map_ok (new_Map n)"
    using k p by (auto simp: map_ok_def map_shape_def new_Map_def avl_ok_empty lock_free_def)
  then have "bucket_index (new_Map n) h < length (buckets (new_Map n))" for h
    using bucket_index_less by (simp add: map_ok_def)
  then show "map_view (new_Map n) = Map.empty"
    by (intro ext) (simp add: map_view_def new_Map_def contents_empty Let_def)
qed

lemma bucket_index_update [simp]:
  "bucket_index (M\<lparr>buckets := bs\<rparr>) h = bucket_index M h" "bucket_index (M\<lparr>locks := ls\<rparr>) h = bucket_index M h"
  by (simp_all add: bucket_index_def)

lemma map_shape_update [simp]:
  "length bs = length (buckets M) \<Longrightarrow> map_shape (M\<lparr>buckets := bs\<rparr>) \<longleftrightarrow> map_shape M"
  "length ls = length (locks M) \<Longrightarrow> map_shape (M\<lparr>locks := ls\<rparr>) \<longleftrightarrow> map_shape M"
  by (simp_all add: map_shape_def)

text \<open>The operations under the write lock come down to an operation on one bucket.\<close>

lemma write_locked:
  assumes "map_ok M"
  obtains M1 where "lockWrite h M = Some M1" "getBucket M1 h = Some (buckets M ! bucket_index M h)"
    "\<And>T. unlockWrite h (setBucket h T M1) = Some (setBucket h T M)" "buckets M1 = buckets M"
    "numberBuckets M1 = numberBuckets M" "\<not> lock_free (locks M1 ! bucket_index M1 h)"
    "lock (locks M1 ! bucket_index M1 h)" "map_shape M1"
proof -
  let ?i = "bucket_index M h"
  have sh: "map_shape M" using assms by (simp add: map_ok_def)
  note i = bucket_index_less [OF sh, of h]
  have free: "locks M ! ?i = new_SharedLock" using assms i(2) by (auto simp: map_ok_def lock_free_def)
  let ?l = "new_SharedLock\<lparr>lock := True, lockedExclusiveCount := 1\<rparr>"
  let ?M1 = "M\<lparr>locks := (locks M)[?i := ?l]\<rparr>"
  have "lockWrite h M = Some ?M1"
    using i free by (simp add: lockWrite_def on_lock_def at_def lockExclusive_def new_SharedLock_def)
  moreover have "unlockWrite h (setBucket h T ?M1) = Some (setBucket h T M)" for T
  proof -
    have "unlockExclusive ?l = locks M ! ?i" by (simp add: free unlockExclusive_def new_SharedLock_def)
    then show ?thesis using i by (simp add: unlockWrite_def on_lock_def at_def setBucket_def)
  qed
  ultimately show ?thesis
    using i sh by (intro that [of ?M1]) (auto simp: getBucket_def at_def lock_free_def new_SharedLock_def)
qed

lemma setBucket_ok:
  assumes "map_ok M" and "avl_ok T"
  shows "map_ok (setBucket h T M)"
  using assms by (auto simp: map_ok_def setBucket_def dest!: set_update_subset_insert [THEN subsetD])

lemma setBucket_view:
  assumes "map_ok M" and "\<And>h'. h' \<noteq> h \<Longrightarrow> contents T h' = contents (buckets M ! bucket_index M h) h'"
  shows "map_view (setBucket h T M) = (map_view M)(h := contents T h)"
proof
  fix h'
  have "bucket_index M h < length (buckets M)" using bucket_index_less assms(1) by (simp add: map_ok_def)
  then show "map_view (setBucket h T M) h' = ((map_view M)(h := contents T h)) h'"
    using assms(2) [of h'] by (cases "bucket_index M h' = bucket_index M h") (auto simp: map_view_def setBucket_def)
qed

lemma bucket_ok: "map_ok M \<Longrightarrow> avl_ok (buckets M ! bucket_index M h)"
  using bucket_index_less(1) [of M h] by (simp add: map_ok_def)

lemma putData_view:
  assumes ok: "map_ok M" and clk: "clock_update st (counter ts) c = (n, c')"
  shows "\<exists>res M'. putData ub k v ts st rn M (Some c) =
      Some (res, M', Some (if applied st rn ts (map_view M (calculateHash ub k)) then c' else c)) \<and>
    map_ok M' \<and> map_view M' = write_spec k (calculateHash ub k) v ts st rn n (map_view M) \<and>
    (applied st rn ts (map_view M (calculateHash ub k)) \<longrightarrow> res = Some (result_timestamp rn ts n))"
proof -
  let ?h = "calculateHash ub k"
  let ?T = "buckets M ! bucket_index M ?h"
  obtain M1 where M1: "lockWrite ?h M = Some M1" "getBucket M1 ?h = Some ?T"
    "\<And>T. unlockWrite ?h (setBucket ?h T M1) = Some (setBucket ?h T M)"
    using write_locked [OF ok] by metis
  obtain t where t: "holds ?T t" using bucket_ok [OF ok] by (auto simp: avl_ok_def)
  obtain res T' where T': "addData k ?h v ts st rn ?T (Some c) =
      Some (res, T', Some (if applied st rn ts (contents ?T ?h) then c' else c))" "avl_ok T'"
    "contents T' = write_spec k ?h v ts st rn n (contents ?T)"
    "applied st rn ts (contents ?T ?h) \<longrightarrow> res = Some (result_timestamp rn ts n)"
    using addData_holds [OF t clk, of k ?h v rn] by (auto split: if_splits)
  have "map_view (setBucket ?h T' M) = (map_view M)(?h := contents T' ?h)"
    by (rule setBucket_view [OF ok]) (simp add: T'(3) write_spec_def)
  also have "\<dots> = write_spec k ?h v ts st rn n (map_view M)"
    by (auto simp: T'(3) write_spec_def map_view_def)
  finally have "map_view (setBucket ?h T' M) = write_spec k ?h v ts st rn n (map_view M)" .
  then show ?thesis
    using M1 T' setBucket_ok [OF ok T'(2), of ?h] by (auto simp: putData_def map_view_def)
qed

text \<open>Reading leaves the map as it is and returns the entry of the hash, whose payload the caller
  shares.\<close>

lemma map_get_view:
  assumes ok: "map_ok M"
  shows "\<exists>r. map_get ub k M = Some (r, M) \<and>
    (case map_view M (calculateHash ub k) of None \<Rightarrow> r = None
     | Some (k0, p) \<Rightarrow> \<exists>e. r = Some e \<and> entry_key e = k0 \<and> entry_keyHash e = calculateHash ub k \<and>
         datas (buckets M ! bucket_index M (calculateHash ub k)) (entry_data e) = Some p \<and>
         payload_fits (entry_type e) p)"
proof -
  let ?h = "calculateHash ub k"
  let ?i = "bucket_index M ?h"
  let ?T = "buckets M ! ?i"
  have sh: "map_shape M" using ok by (simp add: map_ok_def)
  note i = bucket_index_less [OF sh, of ?h]
  have free: "locks M ! ?i = new_SharedLock" using ok i(2) by (auto simp: map_ok_def lock_free_def)
  let ?l = "new_SharedLock\<lparr>lockedSharedCount := 1, lock := True\<rparr>"
  let ?M1 = "M\<lparr>locks := (locks M)[?i := ?l]\<rparr>"
  have lk: "lockRead ?h M = Some ?M1"
    using i free by (simp add: lockRead_def on_lock_def at_def lockShared_def new_SharedLock_def Let_def)
  have "unlockShared ?l = Some (locks M ! ?i)" by (simp add: free unlockShared_def new_SharedLock_def Let_def)
  then have ul: "unlockRead ?h ?M1 = Some M" using i by (simp add: unlockRead_def on_lock_def at_def)
  have gb: "getBucket ?M1 ?h = Some ?T" using i by (simp add: getBucket_def at_def)
  obtain t where t: "holds ?T t" using bucket_ok [OF ok] by (auto simp: avl_ok_def)
  then have at: "tree_at (nodes ?T) t" "root ?T = ptr t" by (auto simp: holds_def)
  have g: "getNodeByKeyHash ?M1 ?h = Some (map_option fst (tfind t ?h))"
    using gb at get_from_tfind [OF at(1)] by (simp add: getNodeByKeyHash_def avl_get_def)
  show ?thesis
  proof (cases "tfind t ?h")
    case None
    then have "map_view M ?h = None" using holds_contents [OF t, of ?h] by (simp add: map_view_def lookup_def)
    then show ?thesis using lk ul gb g None by (simp add: map_get_def)
  next
    case (Some ac)
    obtain a c where ac: "ac = (a, c)" by fastforce
    have lkc: "lookup t ?h = Some c" using Some ac by (simp add: lookup_def)
    obtain p where p: "datas ?T (c_data c) = Some p" "payload_fits (c_type c) p" "c_hash c = ?h"
      "contents ?T ?h = Some (c_key c, p)" using holds_cell [OF t lkc] by blast
    obtain hh q r where n: "nodes ?T a = Some (mk_node c hh q r)" using tfind_node [OF at(1)] Some ac by blast
    then show ?thesis using lk ul gb g Some ac p by (simp add: map_get_def map_view_def entry_of_def)
  qed
qed

section \<open>Replicated writes converge\<close>

text \<open>A store whose writes carry a timestamp and keep, per slot, the greatest one.\<close>

definition newer :: "'t::linorder \<Rightarrow> 'v \<Rightarrow> ('t \<times> 'v) option \<Rightarrow> ('t \<times> 'v) option" where
  "newer t v e = (case e of None \<Rightarrow> Some (t, v) | Some (t0, v0) \<Rightarrow> if t < t0 then e else Some (t, v))"

locale lww_store =
  fixes ok :: "'s \<Rightarrow> bool"
    and reading :: "'s \<Rightarrow> 'k \<Rightarrow> ('t::linorder \<times> 'v) option"
    and put :: "'w \<Rightarrow> 's \<Rightarrow> 's option"
    and slot_of :: "'w \<Rightarrow> 'k"
    and stamp_of :: "'w \<Rightarrow> 't"
    and value_of :: "'w \<Rightarrow> 'v"
  assumes write_newer: "ok s \<Longrightarrow> \<exists>s'. put w s = Some s' \<and> ok s' \<and>
      reading s' = (reading s)(slot_of w := newer (stamp_of w) (value_of w) (reading s (slot_of w)))"
begin

fun writes :: "'w list \<Rightarrow> 's \<Rightarrow> 's option" where
  "writes [] s = Some s"
| "writes (w # ws) s = Option.bind (put w s) (writes ws)"

text \<open>What a slot reads is the write with the greatest timestamp.\<close>

definition winner :: "'w list \<Rightarrow> 's \<Rightarrow> 'k \<Rightarrow> ('t \<times> 'v) option \<Rightarrow> bool" where
  "winner ws s k e \<longleftrightarrow>
     (case e of
        None \<Rightarrow> reading s k = None \<and> (\<forall>w \<in> set ws. slot_of w \<noteq> k)
      | Some (t, v) \<Rightarrow>
          (reading s k = Some (t, v) \<or> (\<exists>w \<in> set ws. slot_of w = k \<and> stamp_of w = t \<and> value_of w = v)) \<and>
          (\<forall>w \<in> set ws. slot_of w = k \<longrightarrow> stamp_of w \<le> t) \<and>
          (\<forall>t0 v0. reading s k = Some (t0, v0) \<longrightarrow> t0 \<le> t))"

lemma writes_winner:
  assumes "ok s"
  shows "\<exists>s'. writes ws s = Some s' \<and> ok s' \<and> (\<forall>k. winner ws s k (reading s' k))"
  using assms
proof (induction ws arbitrary: s)
  case Nil
  then show ?case by (auto simp: winner_def split: option.splits)
next
  case (Cons w ws)
  obtain s1 where s1: "put w s = Some s1" "ok s1"
    "reading s1 = (reading s)(slot_of w := newer (stamp_of w) (value_of w) (reading s (slot_of w)))"
    using write_newer [OF Cons.prems] by blast
  obtain s' where s': "writes ws s1 = Some s'" "ok s'" "\<forall>k. winner ws s1 k (reading s' k)"
    using Cons.IH [OF s1(2)] by blast
  have "winner (w # ws) s k (reading s' k)" for k
    using s'(3) [THEN spec, of k] s1(3)
    by (auto simp: winner_def newer_def split: option.splits if_splits)
  then show ?case using s1(1) s'(1,2) by auto
qed

lemma winner_cong: "set ws = set ws2 \<Longrightarrow> reading s = reading s2 \<Longrightarrow> winner ws s = winner ws2 s2"
  by (intro ext) (simp only: winner_def)

lemma writes_converge:
  assumes "ok s" and "ok s2" and "reading s = reading s2" and "set ws = set ws2"
    and same: "\<forall>w \<in> set ws. \<forall>w2 \<in> set ws. slot_of w = slot_of w2 \<longrightarrow> stamp_of w = stamp_of w2 \<longrightarrow> value_of w = value_of w2"
    and old: "\<forall>w \<in> set ws. \<forall>v0. reading s (slot_of w) = Some (stamp_of w, v0) \<longrightarrow> v0 = value_of w"
  shows "\<exists>s' s2'. writes ws s = Some s' \<and> writes ws2 s2 = Some s2' \<and> ok s' \<and> ok s2' \<and> reading s' = reading s2'"
proof -
  obtain s' where s': "writes ws s = Some s'" "ok s'" "\<forall>k. winner ws s k (reading s' k)"
    using writes_winner [OF assms(1)] by blast
  obtain s2' where s2': "writes ws2 s2 = Some s2'" "ok s2'" "\<forall>k. winner ws2 s2 k (reading s2' k)"
    using writes_winner [OF assms(2)] by blast
  have "reading s' k = reading s2' k" for k
  proof -
    have w: "winner ws s k (reading s' k)" "winner ws s k (reading s2' k)"
      using s'(3) s2'(3) winner_cong [OF assms(4,3)] by simp_all
    show ?thesis
    proof (cases "reading s' k")
      case None
      then show ?thesis using w by (cases "reading s2' k") (auto simp: winner_def)
    next
      case (Some e)
      obtain t v where e: "e = (t, v)" by (cases e)
      obtain t2 v2 where e2: "reading s2' k = Some (t2, v2)"
        using w Some e by (cases "reading s2' k") (auto simp: winner_def)
      have tt: "t = t2" using w Some e e2 by (auto simp: winner_def intro: antisym)
      have v: "reading s k = Some (t, v) \<or> (\<exists>w \<in> set ws. slot_of w = k \<and> stamp_of w = t \<and> value_of w = v)"
        "reading s k = Some (t, v2) \<or> (\<exists>w \<in> set ws. slot_of w = k \<and> stamp_of w = t \<and> value_of w = v2)"
        using w Some e e2 tt by (simp_all add: winner_def)
      have old': "v0 = value_of w'" if "w' \<in> set ws" "slot_of w' = k" "stamp_of w' = t" "reading s k = Some (t, v0)" for w' v0
        using old that by blast
      have same': "value_of w1 = value_of w2" if "w1 \<in> set ws" "w2 \<in> set ws" "slot_of w1 = k" "slot_of w2 = k"
        "stamp_of w1 = t" "stamp_of w2 = t" for w1 w2
        using bspec [OF bspec [OF same that(1)] that(2)] that by simp
      have "v = v2" using v(1)
      proof
        assume r: "reading s k = Some (t, v)"
        then show ?thesis using v(2) old' [of _ v] by auto
      next
        assume "\<exists>w \<in> set ws. slot_of w = k \<and> stamp_of w = t \<and> value_of w = v"
        then obtain w1 where w1: "w1 \<in> set ws" "slot_of w1 = k" "stamp_of w1 = t" "value_of w1 = v" by blast
        then show ?thesis using v(2) old' [OF w1(1-3), of v2] same' [OF w1(1) _ w1(2) _ w1(3)] by blast
      qed
      then show ?thesis using Some e e2 tt by simp
    qed
  qed
  then show ?thesis using s'(1,2) s2'(1,2) by (intro exI conjI ext)
qed

end

section \<open>Replicas of the map\<close>

record replicated_write =
  rw_key :: SimpleString
  rw_value :: SimpleString
  rw_timestamp :: LamportClock

text \<open>A write received from another node, as \<^verbatim>\<open>SetOperator\<close> hands it to the map.\<close>

definition replicated_put ::
  "double_ub \<Rightarrow> replicated_write \<Rightarrow> MemMap \<times> LamportClock \<Rightarrow> (MemMap \<times> LamportClock) option" where
  "replicated_put ub w = (\<lambda>(M, c). do {
     (res, M', clk) \<leftarrow> putData ub (rw_key w) (rw_value w) (rw_timestamp w) SET_MAX True M (Some c);
     c' \<leftarrow> clk;
     Some (M', c') })"

fun replicate_all ::
  "double_ub \<Rightarrow> replicated_write list \<Rightarrow> MemMap \<times> LamportClock \<Rightarrow> (MemMap \<times> LamportClock) option" where
  "replicate_all ub [] s = Some s"
| "replicate_all ub (w # ws) s = Option.bind (replicated_put ub w s) (replicate_all ub ws)"

definition map_reading :: "MemMap \<Rightarrow> u32 \<Rightarrow> (LamportClock \<times> SimpleString) option" where
  "map_reading M h = (case map_view M h of Some (k0, DataP d) \<Rightarrow> Some (data_timestamp d, data_value d) | _ \<Rightarrow> None)"

definition data_only :: "MemMap \<Rightarrow> bool" where
  "data_only M \<longleftrightarrow> (\<forall>h k c. map_view M h \<noteq> Some (k, CounterP c))"

interpretation map_lww: lww_store "\<lambda>(M, c). map_ok M \<and> data_only M" "\<lambda>(M, c). map_reading M"
    "replicated_put ub" "\<lambda>w. calculateHash ub (rw_key w)" rw_timestamp rw_value
  for ub
proof
  fix s :: "MemMap \<times> LamportClock" and w :: replicated_write
  assume s: "case s of (M, c) \<Rightarrow> map_ok M \<and> data_only M"
  obtain M c where Mc: "s = (M, c)" by (cases s)
  then have ok: "map_ok M" "data_only M" using s by auto
  let ?h = "calculateHash ub (rw_key w)" and ?ts = "rw_timestamp w"
  obtain n c' where n: "clock_update SET_MAX (counter ?ts) c = (n, c')" by fastforce
  obtain res M' where M': "putData ub (rw_key w) (rw_value w) ?ts SET_MAX True M (Some c) =
      Some (res, M', Some (if applied SET_MAX True ?ts (map_view M ?h) then c' else c))" "map_ok M'"
    "map_view M' = write_spec (rw_key w) ?h (rw_value w) ?ts SET_MAX True n (map_view M)"
    using putData_view [OF ok(1) n] by blast
  have "map_reading M' = (map_reading M)(?h := newer ?ts (rw_value w) (map_reading M ?h))"
  proof
    fix h
    show "map_reading M' h = ((map_reading M)(?h := newer ?ts (rw_value w) (map_reading M ?h))) h"
      using ok(2)
      by (auto simp: map_reading_def M'(3) write_spec_def newer_def applied_def accepts_def written_def
          stamp_data_def data_only_def split: option.splits payload.splits)
  qed
  moreover have "data_only M'"
    using ok(2) by (auto simp: data_only_def M'(3) write_spec_def written_def)
  ultimately show "\<exists>s'. replicated_put ub w s = Some s' \<and> (case s' of (M, c) \<Rightarrow> map_ok M \<and> data_only M) \<and>
      (case s' of (M, c) \<Rightarrow> map_reading M) = ((case s of (M, c) \<Rightarrow> map_reading M)
        (?h := newer ?ts (rw_value w) ((case s of (M, c) \<Rightarrow> map_reading M) ?h)))"
    using M'(1,2) by (auto simp: replicated_put_def Mc)
qed

lemma replicate_all_writes: "replicate_all ub ws s = map_lww.writes ub ws s"
proof (induction ws arbitrary: s)
  case (Cons w ws)
  then have "replicate_all ub ws = map_lww.writes ub ws" by (intro ext)
  then show ?case by simp
qed simp

lemma new_Map_data_only: "0 < n \<Longrightarrow> unat n \<le> 2 ^ 31 \<Longrightarrow> data_only (new_Map n)"
  by (simp add: data_only_def new_Map_ok)

section \<open>Properties\<close>

text \<open>C7. A write through the map locks and releases the lock of the bucket, leaves the map well formed
  and changes the binding of the key's hash exactly as the last-writer-wins map does; every other
  binding, in the same bucket or in another, is untouched.\<close>

theorem putData_last_writer_wins:
  assumes "map_ok M" and "clock_update st (counter ts) c = (n, c')"
  shows "\<exists>res M'. putData ub k v ts st rn M (Some c) =
      Some (res, M', Some (if applied st rn ts (map_view M (calculateHash ub k)) then c' else c)) \<and>
    map_ok M' \<and> map_view M' = write_spec k (calculateHash ub k) v ts st rn n (map_view M) \<and>
    (applied st rn ts (map_view M (calculateHash ub k)) \<longrightarrow> res = Some (result_timestamp rn ts n))"
  using assms by (rule putData_view)

theorem putData_last_writer_wins_witness:
  "\<exists>res M'. putData (\<lambda>h b i. 0) [97] [118] (LamportClock 1 0) TICK False (new_Map 10) (Some (LamportClock 1 7)) =
      Some (res, M', Some (LamportClock 1 8)) \<and> map_ok M' \<and> res = Some 8 \<and>
    map_view M' 97 = Some ([97], DataP \<lparr>data_value = [118], data_timestamp = LamportClock 1 8\<rparr>)"
proof -
  have "0 < (10 :: u32)" "unat (10 :: u32) \<le> 2 ^ 31" by simp_all
  note ok = new_Map_ok(1) [OF this] and v = new_Map_ok(2) [OF this]
  have clk: "clock_update TICK (counter (LamportClock 1 0)) (LamportClock 1 7) = (8, LamportClock 1 8)"
    by code_simp
  have h: "calculateHash (\<lambda>h b i. 0) [97] = 97" by (simp add: calculateHash_def)
  have acc: "applied TICK False (LamportClock 1 0) (map_view (new_Map 10) 97)" by (simp add: v applied_def)
  have w: "write_spec [97] 97 [118] (LamportClock 1 0) TICK False 8 (map_view (new_Map 10)) 97 =
      Some ([97], DataP \<lparr>data_value = [118], data_timestamp = LamportClock 1 8\<rparr>)"
    using acc by (simp add: v write_spec_def stored_key_def written_def stamp_data_def)
  have r: "result_timestamp False (LamportClock 1 0) 8 = 8" by (simp add: result_timestamp_def)
  obtain M' where "putData (\<lambda>h b i. 0) [97] [118] (LamportClock 1 0) TICK False (new_Map 10) (Some (LamportClock 1 7)) =
      Some (Some 8, M', Some (LamportClock 1 8))" "map_ok M'"
    "map_view M' = write_spec [97] 97 [118] (LamportClock 1 0) TICK False 8 (map_view (new_Map 10))"
    using putData_last_writer_wins [OF ok clk, of "\<lambda>h b i. 0" "[97]" "[118]" False, unfolded h] acc r by auto
  then show ?thesis using w by simp
qed

text \<open>C2. Replicas converge: two nodes whose stores read the same and that receive the same replicated
  writes, each in its own order and any number of times, end with the same timestamp and value for
  every key, whatever their clocks and numbers of buckets. Writes to one key with equal timestamps
  must carry equal values, which the Lamport clocks provide.\<close>

theorem map_replicas_converge:
  assumes "map_ok M" and "data_only M" and "map_ok N" and "data_only N" and "map_reading M = map_reading N"
    and "set ws = set vs"
    and "\<forall>w \<in> set ws. \<forall>v \<in> set ws. calculateHash ub (rw_key w) = calculateHash ub (rw_key v) \<longrightarrow>
      rw_timestamp w = rw_timestamp v \<longrightarrow> rw_value w = rw_value v"
    and "\<forall>w \<in> set ws. \<forall>v0. map_reading M (calculateHash ub (rw_key w)) = Some (rw_timestamp w, v0) \<longrightarrow> v0 = rw_value w"
  shows "\<exists>M' c' N' d'. replicate_all ub ws (M, c) = Some (M', c') \<and> replicate_all ub vs (N, d) = Some (N', d') \<and>
    map_ok M' \<and> map_ok N' \<and> map_reading M' = map_reading N'"
proof -
  have ok: "case (M, c) of (M, c) \<Rightarrow> map_ok M \<and> data_only M" "case (N, d) of (M, c) \<Rightarrow> map_ok M \<and> data_only M"
    and rd: "(case (M, c) of (M, c) \<Rightarrow> map_reading M) = (case (N, d) of (M, c) \<Rightarrow> map_reading M)"
    using assms(1-5) by simp_all
  have old: "\<forall>w \<in> set ws. \<forall>v0. (case (M, c) of (M, c) \<Rightarrow> map_reading M) (calculateHash ub (rw_key w)) =
      Some (rw_timestamp w, v0) \<longrightarrow> v0 = rw_value w"
    using assms(8) by (simp only: prod.case)
  obtain M' c' N' d' where r: "map_lww.writes ub ws (M, c) = Some (M', c')" "map_lww.writes ub vs (N, d) = Some (N', d')"
    "map_ok M'" "map_ok N'" "map_reading M' = map_reading N'"
    using map_lww.writes_converge [where ub = ub, OF ok rd assms(6,7) old] by auto
  show ?thesis
    unfolding replicate_all_writes by (intro exI conjI) (rule r)+
qed

theorem map_replicas_converge_witness:
  "\<exists>M' c' N' d'.
     replicate_all (\<lambda>h b i. 0) [\<lparr>rw_key = [97], rw_value = [1], rw_timestamp = LamportClock 1 5\<rparr>,
       \<lparr>rw_key = [97], rw_value = [2], rw_timestamp = LamportClock 2 9\<rparr>] (new_Map 4, LamportClock 1 0) = Some (M', c') \<and>
     replicate_all (\<lambda>h b i. 0) [\<lparr>rw_key = [97], rw_value = [2], rw_timestamp = LamportClock 2 9\<rparr>,
       \<lparr>rw_key = [97], rw_value = [1], rw_timestamp = LamportClock 1 5\<rparr>] (new_Map 16, LamportClock 2 0) = Some (N', d') \<and>
     map_reading M' = map_reading N'"
proof -
  have b: "0 < (4 :: u32)" "unat (4 :: u32) \<le> 2 ^ 31" "0 < (16 :: u32)" "unat (16 :: u32) \<le> 2 ^ 31" by simp_all
  note ok = new_Map_ok [OF b(1,2)] new_Map_ok [OF b(3,4)] new_Map_data_only [OF b(1,2)] new_Map_data_only [OF b(3,4)]
  have e: "map_reading (new_Map 4) = map_reading (new_Map 16)" "map_reading (new_Map 4) h = None" for h
    using ok by (simp_all add: map_reading_def fun_eq_iff)
  let ?w = "\<lparr>rw_key = [97], rw_value = [1], rw_timestamp = LamportClock 1 5\<rparr>"
    and ?v = "\<lparr>rw_key = [97], rw_value = [2], rw_timestamp = LamportClock 2 9\<rparr>"
  have s: "set [?w, ?v] = set [?v, ?w]" by auto
  have c: "\<forall>w \<in> set [?w, ?v]. \<forall>v \<in> set [?w, ?v]. calculateHash (\<lambda>h b i. 0) (rw_key w) = calculateHash (\<lambda>h b i. 0) (rw_key v) \<longrightarrow>
      rw_timestamp w = rw_timestamp v \<longrightarrow> rw_value w = rw_value v"
    "\<forall>w \<in> set [?w, ?v]. \<forall>v0. map_reading (new_Map 4) (calculateHash (\<lambda>h b i. 0) (rw_key w)) = Some (rw_timestamp w, v0) \<longrightarrow> v0 = rw_value w"
    by (simp_all add: e(2))
  show ?thesis using map_replicas_converge [OF ok(1,5,3,6) e(1) s c, of "LamportClock 1 0" "LamportClock 2 0"] by (elim exE conjE) (intro exI conjI)
qed

text \<open>Keys are told apart by their 32-bit hash alone: a write to a key whose hash is taken replaces
  the value of the other key, and a read of the written key returns the entry of the other one.\<close>

theorem colliding_keys_share_entry:
  assumes "map_ok M" and "calculateHash ub k = calculateHash ub k2" and "map_view M (calculateHash ub k) = Some (k, DataP d)"
  shows "\<exists>res M' c' e n. putData ub k2 v ts st False M (Some c) = Some (res, M', Some c') \<and>
    map_get ub k2 M' = Some (Some e, M') \<and> map_get ub k M' = Some (Some e, M') \<and> entry_key e = k \<and>
    map_view M' (calculateHash ub k) = Some (k, DataP \<lparr>data_value = v, data_timestamp = LamportClock (nodeId ts) n\<rparr>)"
proof -
  obtain n c' where n: "clock_update st (counter ts) c = (n, c')" by fastforce
  have acc: "applied st False ts (map_view M (calculateHash ub k2))"
    using assms(2,3) by (simp add: applied_def accepts_def)
  obtain res M' where M': "putData ub k2 v ts st False M (Some c) = Some (res, M', Some c')" "map_ok M'"
    "map_view M' = write_spec k2 (calculateHash ub k2) v ts st False n (map_view M)"
    using putData_view [OF assms(1) n, of ub k2 v False] acc by auto
  have v: "map_view M' (calculateHash ub k) = Some (k, DataP \<lparr>data_value = v, data_timestamp = LamportClock (nodeId ts) n\<rparr>)"
    using acc assms(2,3) by (simp add: M'(3) write_spec_def stored_key_def written_def stamp_data_def)
  obtain e where e: "map_get ub k M' = Some (Some e, M')" "entry_key e = k"
    using map_get_view [OF M'(2), of ub k] v by auto
  have "map_get ub k2 M' = map_get ub k M'" by (simp add: map_get_def assms(2))
  then show ?thesis using M'(1) e v by auto
qed

theorem colliding_keys_share_entry_witness:
  "\<exists>M c1 res M' c' e. putData (\<lambda>h b i. 0) [65, 98] [1] (LamportClock 1 0) TICK False (new_Map 4) (Some (LamportClock 1 0)) =
       Some (Some 1, M, Some c1) \<and>
     putData (\<lambda>h b i. 0) [96, 97] [2] (LamportClock 1 0) TICK False M (Some c1) = Some (res, M', Some c') \<and>
     map_get (\<lambda>h b i. 0) [96, 97] M' = Some (Some e, M') \<and> entry_key e = [65, 98]"
proof -
  have "0 < (4 :: u32)" "unat (4 :: u32) \<le> 2 ^ 31" by simp_all
  note ok = new_Map_ok(1) [OF this] and v = new_Map_ok(2) [OF this]
  have h: "calculateHash (\<lambda>h b i. 0) [65, 98] = 3103" "calculateHash (\<lambda>h b i. 0) [96, 97] = 3103"
    by (simp_all add: calculateHash_def)
  have clk: "clock_update TICK (counter (LamportClock 1 0)) (LamportClock 1 0) = (1, LamportClock 1 1)" by code_simp
  have acc: "applied TICK False (LamportClock 1 0) (map_view (new_Map 4) 3103)" by (simp add: v applied_def)
  obtain res M where M: "putData (\<lambda>h b i. 0) [65, 98] [1] (LamportClock 1 0) TICK False (new_Map 4) (Some (LamportClock 1 0)) =
       Some (res, M, Some (LamportClock 1 1))" "map_ok M" "res = Some 1"
    "map_view M = write_spec [65, 98] 3103 [1] (LamportClock 1 0) TICK False 1 (map_view (new_Map 4))"
    using putData_view [OF ok clk, of "\<lambda>h b i. 0" "[65, 98]" "[1]" False] acc
    unfolding h by (auto simp: result_timestamp_def)
  have "map_view M (calculateHash (\<lambda>h b i. 0) [65, 98]) = Some ([65, 98], DataP \<lparr>data_value = [1], data_timestamp = LamportClock 1 1\<rparr>)"
    unfolding h M(4) using acc by (simp add: v write_spec_def stored_key_def written_def stamp_data_def)
  then obtain res2 M' c' e where "putData (\<lambda>h b i. 0) [96, 97] [2] (LamportClock 1 0) TICK False M (Some (LamportClock 1 1)) = Some (res2, M', Some c')"
    "map_get (\<lambda>h b i. 0) [96, 97] M' = Some (Some e, M')" "entry_key e = [65, 98]"
    using colliding_keys_share_entry [OF M(2) trans [OF h(1) h(2) [symmetric]], of _ "[2]" "LamportClock 1 0" TICK "LamportClock 1 1"] by blast
  then show ?thesis using M(1,3) by blast
qed

lemma clear_buckets_blocked: "i \<in> set is \<Longrightarrow> lock (locks M ! i) \<Longrightarrow> clear_buckets is M = None"
proof (induction "is" arbitrary: M)
  case (Cons j js)
  show ?case
  proof (cases "j = i")
    case True
    then show ?thesis using Cons.prems(2) by (simp add: at_def lockExclusive_def)
  next
    case False
    then have "i \<in> set js" using Cons.prems(1) by simp
    then show ?thesis using Cons.IH Cons.prems(2) False by (simp split: Option.bind_split)
  qed
qed simp



section \<open>Iterating over the buckets\<close>

text \<open>The loop of the callers: fetch buckets as long as there is one.\<close>

partial_function (option) drain :: "BucketMapHashOrderedIterator \<Rightarrow> MapEntry list list option" where
  "drain it = (if bucket_hasNext it then do { (es, it) \<leftarrow> bucket_next it; ess \<leftarrow> drain it; Some (es # ess) } else Some [])"

lemma drain_from:
  assumes "map_ok M" and "i \<le> length (buckets M)"
  shows "\<exists>ess. drain \<lparr>it_map = M, actualBucket = word_of_nat i\<rparr> = Some ess \<and>
    list_all2 (\<lambda>es T. getOrderedByHash T = Some es) ess (drop i (buckets M))"
  using assms(2)
proof (induction rule: inc_induct)
  case base
  obtain k where k: "k < 32" "numberBuckets M = 2 ^ k" "length (buckets M) = 2 ^ k"
    using assms(1) by (auto simp: map_ok_def map_shape_def)
  then show ?case by (subst drain.simps) (simp add: bucket_hasNext_def)
next
  case (step i)
  obtain k where k: "k < 32" "numberBuckets M = 2 ^ k" "length (buckets M) = 2 ^ k"
    using assms(1) by (auto simp: map_ok_def map_shape_def)
  have i: "i < 2 ^ k" using step.hyps k by simp
  have "(2 :: nat) ^ k < 2 ^ 32" using k(1) by (simp add: power_strict_increasing del: power_numeral)
  then have u: "unat (word_of_nat i :: u32) = i" using i by (intro unat_of_nat_less) simp
  have has: "bucket_hasNext \<lparr>it_map = M, actualBucket = word_of_nat i\<rparr>"
    using i k unat_two_power [OF k(1)] u by (simp add: bucket_hasNext_def word_less_nat_alt)
  have "avl_ok (buckets M ! i)" using assms(1) step.hyps by (simp add: map_ok_def)
  then obtain t es where es: "getOrderedByHash (buckets M ! i) = Some es"
    using getOrderedByHash_inorder by (auto simp: avl_ok_def)
  have nx: "bucket_next \<lparr>it_map = M, actualBucket = word_of_nat i\<rparr> =
      Some (es, \<lparr>it_map = M, actualBucket = word_of_nat (Suc i)\<rparr>)"
    using step.hyps es u by (simp add: bucket_next_def at_def add.commute)
  obtain ess where "drain \<lparr>it_map = M, actualBucket = word_of_nat (Suc i)\<rparr> = Some ess"
    "list_all2 (\<lambda>es T. getOrderedByHash T = Some es) ess (drop (Suc i) (buckets M))"
    using step.IH by blast
  moreover have "drop i (buckets M) = buckets M ! i # drop (Suc i) (buckets M)"
    using step.hyps by (simp add: Cons_nth_drop_Suc)
  ultimately show ?case using has nx es by (subst drain.simps) simp
qed

text \<open>C31. The iteration over the buckets ends for every well-formed map, whatever its number of buckets,
  and visits each bucket once, so that every key that can be read is in one of the lists it yields.\<close>

theorem bucket_iteration_complete:
  assumes "map_ok M"
  shows "\<exists>ess. drain (bucketIterator M) = Some ess \<and> length ess = unat (bucket_totalSize (bucketIterator M)) \<and>
    (\<forall>h. map_view M h \<noteq> None \<longrightarrow> h \<in> set (map entry_keyHash (concat ess)))"
proof -
  obtain ess where e: "drain (bucketIterator M) = Some ess"
    "list_all2 (\<lambda>es T. getOrderedByHash T = Some es) ess (buckets M)"
    using drain_from [OF assms, of 0] by (auto simp: bucketIterator_def)
  obtain k where k: "k < 32" "numberBuckets M = 2 ^ k" "length (buckets M) = 2 ^ k"
    using assms by (auto simp: map_ok_def map_shape_def)
  have len: "length ess = unat (bucket_totalSize (bucketIterator M))"
    using list_all2_lengthD [OF e(2)] k unat_two_power [OF k(1)]
    by (simp add: bucket_totalSize_def bucketIterator_def unsigned_ucast_eq take_bit_nat_eq_self)
  have "h \<in> set (map entry_keyHash (concat ess))" if h: "map_view M h \<noteq> None" for h
  proof -
    let ?i = "bucket_index M h"
    have i: "?i < length (buckets M)" using bucket_index_less(1) assms by (simp add: map_ok_def)
    then have g: "getOrderedByHash (buckets M ! ?i) = Some (ess ! ?i)" using e(2) by (auto simp: list_all2_conv_all_nth)
    obtain t where t: "holds (buckets M ! ?i) t" using bucket_ok [OF assms] by (auto simp: avl_ok_def)
    then have b: "bst t" by (simp add: holds_def)
    have es: "ess ! ?i = map cell_entry (inorder t)" using g getOrderedByHash_inorder [OF t] by simp
    obtain c where "lookup t h = Some c"
      using h holds_contents [OF t, of h] by (auto simp: map_view_def split: option.splits)
    then have "c \<in> set (inorder t)" "c_hash c = h" using lookup_iff [OF b] by auto
    then have "h \<in> entry_keyHash ` set (ess ! ?i)" by (auto simp: es cell_entry_def image_image)
    moreover have "ess ! ?i \<in> set ess" using i list_all2_lengthD [OF e(2)] by simp
    ultimately show ?thesis by auto
  qed
  then show ?thesis using e(1) len by blast
qed

theorem bucket_iteration_complete_witness:
  "\<exists>ess. drain (bucketIterator (new_Map 3)) = Some ess \<and> length ess = unat (bucket_totalSize (bucketIterator (new_Map 3)))"
proof -
  have "0 < (3 :: u32)" "unat (3 :: u32) \<le> 2 ^ 31" by simp_all
  then show ?thesis using bucket_iteration_complete [OF new_Map_ok(1)] by blast
qed

end
