(* ===== verification/Files.thy ===== *)
theory Files
  imports Byte_Codec "HOL-Library.AList"
begin

text \<open>
  The helpers of \<^verbatim>\<open>utils/files/FileUtils.cpp\<close> (the POSIX branches),
  \<^verbatim>\<open>utils/strings/StringUtils.cpp\<close> and \<^verbatim>\<open>utils/compression/Compressor.cpp\<close>.
  The file system is explicit: the regular files with their contents, in the order a directory
  iterator meets them, and the directories. A file or directory can be created where its parent
  directory exists. What a thrown exception reports is a value of \<open>io_error\<close>.
\<close>

section \<open>Paths and the file system\<close>

record FileSystem =
  fs_files :: "(string \<times> bytes) list"
  fs_dirs :: "string list"

datatype io_error =
    CannotOpen string
  | ErrorSeeking
  | ErrorCreating string
  | NotADirectory string
  | CompressionFailed int
  | OutOfRange

definition parent_dir :: "string \<Rightarrow> string" where
  "parent_dir path =
     (let r = dropWhile (\<lambda>c. c \<noteq> CHR ''/'') (rev path)
      in if r = [] then ''.'' else if tl r = [] then ''/'' else rev (tl r))"

definition file_name :: "string \<Rightarrow> string" where
  "file_name path = rev (takeWhile (\<lambda>c. c \<noteq> CHR ''/'') (rev path))"

definition is_dir :: "FileSystem \<Rightarrow> string \<Rightarrow> bool" where
  "is_dir fs path \<longleftrightarrow> path = ''.'' \<or> path = ''/'' \<or> path \<in> set (fs_dirs fs)"

definition content :: "FileSystem \<Rightarrow> string \<Rightarrow> bytes option" where
  "content fs path = map_of (fs_files fs) path"

definition set_content :: "string \<Rightarrow> bytes \<Rightarrow> FileSystem \<Rightarrow> FileSystem" where
  "set_content path c fs = fs\<lparr>fs_files := AList.update path c (fs_files fs)\<rparr>"

definition can_open :: "FileSystem \<Rightarrow> string \<Rightarrow> bool" where
  "can_open fs path \<longleftrightarrow> content fs path \<noteq> None \<or> (\<not> is_dir fs path \<and> is_dir fs (parent_dir path))"

lemma content_set_content [simp]:
  "content (set_content p c fs) q = (if q = p then Some c else content fs q)"
  by (simp add: content_def set_content_def update_conv')

lemma is_dir_set_content [simp]: "is_dir (set_content p c fs) q = is_dir fs q"
  by (simp add: is_dir_def set_content_def)

lemma can_open_set_content [simp]: "can_open fs p \<Longrightarrow> can_open (set_content q c fs) p"
  by (auto simp: can_open_def)

section \<open>StringUtils\<close>

text \<open>\<^verbatim>\<open>getline\<close> until the stream is exhausted: a trailing delimiter gives no last empty token.\<close>

function getlines :: "char \<Rightarrow> string \<Rightarrow> string list" where
  "getlines delimiter stream =
     (if stream = [] then []
      else takeWhile (\<lambda>c. c \<noteq> delimiter) stream #
           getlines delimiter (tl (dropWhile (\<lambda>c. c \<noteq> delimiter) stream)))"
  by pat_completeness auto
termination
proof (relation "measure (\<lambda>(d, s). length s)")
  fix d :: char and s :: string assume "s \<noteq> []"
  then have "length (tl (dropWhile (\<lambda>c. c \<noteq> d) s)) < length s"
    using length_dropWhile_le [of "\<lambda>c. c \<noteq> d" s] by (cases s) auto
  then show "((d, tl (dropWhile (\<lambda>c. c \<noteq> d) s)), (d, s)) \<in> measure (\<lambda>(d, s). length s)" by simp
qed simp

declare getlines.simps [simp del]

definition split :: "string \<Rightarrow> char \<Rightarrow> string list" where
  "split stringToSplit delimiter = (if stringToSplit = [] then [] else getlines delimiter stringToSplit)"

section \<open>FileUtils\<close>

definition deleteTopBytes :: "string \<Rightarrow> u64 \<Rightarrow> FileSystem \<Rightarrow> io_error + FileSystem" where
  "deleteTopBytes path nBytesToDelete fs =
     (case content fs path of
        None \<Rightarrow> Inl (CannotOpen path)
      | Some c \<Rightarrow>
          if length c < unat nBytesToDelete then Inl ErrorSeeking
          else Inr (set_content path (take (length c - unat nBytesToDelete) c) fs))"

definition writeBytes :: "string \<Rightarrow> bytes \<Rightarrow> FileSystem \<Rightarrow> io_error + FileSystem" where
  "writeBytes path bytes fs =
     (if can_open fs path then Inr (set_content path bytes fs) else Inl (CannotOpen path))"

text \<open>The file is opened with \<^verbatim>\<open>ios::trunc\<close>: it is emptied before the bytes go to \<open>ptr\<close>, and the gap
  before them reads as zeros.\<close>

definition writeBytesAt :: "string \<Rightarrow> u64 \<Rightarrow> bytes \<Rightarrow> FileSystem \<Rightarrow> io_error + FileSystem" where
  "writeBytesAt path ptr bytes fs =
     (if can_open fs path
      then Inr (set_content path (if bytes = [] then [] else replicate (unat ptr) 0 @ bytes) fs)
      else Inl (CannotOpen path))"

definition fs_exists :: "string \<Rightarrow> FileSystem \<Rightarrow> bool" where
  "fs_exists path fs \<longleftrightarrow> content fs path \<noteq> None \<or> is_dir fs path"

definition createDirectory :: "string \<Rightarrow> FileSystem \<Rightarrow> FileSystem" where
  "createDirectory path fs =
     (if \<not> fs_exists path fs \<and> is_dir fs (parent_dir path) then fs\<lparr>fs_dirs := path # fs_dirs fs\<rparr> else fs)"

text \<open>The vector is zero-filled before the read; what lies past the end of the file, or the whole of
  it when the file is missing, stays zero. A vector longer than \<^verbatim>\<open>max_size\<close> is an exception.\<close>

definition seekBytes :: "string \<Rightarrow> u64 \<Rightarrow> u64 \<Rightarrow> FileSystem \<Rightarrow> bytes option" where
  "seekBytes path ptr totalBytes fs =
     (if 2 ^ 63 \<le> unat totalBytes then None
      else let c = (case content fs path of Some c \<Rightarrow> take (unat totalBytes) (drop (unat ptr) c) | None \<Rightarrow> [])
           in Some (c @ replicate (unat totalBytes - length c) 0))"

definition ls :: "string \<Rightarrow> FileSystem \<Rightarrow> io_error + string list" where
  "ls path fs =
     (if is_dir fs path
      then Inr (map (\<lambda>(p, c). file_name p) (filter (\<lambda>(p, c). parent_dir p = path) (fs_files fs)))
      else Inl (NotADirectory path))"

definition getFileInPath :: "string \<Rightarrow> string \<Rightarrow> string" where
  "getFileInPath basePath fileName = basePath @ ''/'' @ fileName"

text \<open>The position of a stream that could not be opened is -1.\<close>

definition file_size :: "string \<Rightarrow> string \<Rightarrow> FileSystem \<Rightarrow> u64" where
  "file_size basePath fileName fs =
     (case content fs (basePath @ ''/'' @ fileName) of Some c \<Rightarrow> word_of_nat (length c) | None \<Rightarrow> -1)"

fun mkdir_parts :: "string \<Rightarrow> bool \<Rightarrow> string list \<Rightarrow> FileSystem \<Rightarrow> FileSystem" where
  "mkdir_parts lastPathChecked first [] fs = fs"
| "mkdir_parts lastPathChecked first (part # parts) fs =
     (let lastPathChecked = (if first then lastPathChecked else lastPathChecked @ ''/'' @ part)
      in if lastPathChecked = '''' then mkdir_parts ''/'' False parts fs
         else if \<not> fs_exists lastPathChecked fs
              then mkdir_parts lastPathChecked False parts (createDirectory lastPathChecked fs)
              else mkdir_parts lastPathChecked False parts fs)"

text \<open>The first element of an empty split does not exist.\<close>

definition mkdirAll :: "string \<Rightarrow> FileSystem \<Rightarrow> FileSystem option" where
  "mkdirAll path fs =
     (case split path CHR ''/'' of [] \<Rightarrow> None | part # parts \<Rightarrow> Some (mkdir_parts part True (part # parts) fs))"

definition createFile :: "string \<Rightarrow> string \<Rightarrow> FileSystem \<Rightarrow> (io_error + FileSystem) option" where
  "createFile path name fs = do {
     fs \<leftarrow> mkdirAll path fs;
     let fullPath = path @ ''/'' @ name;
     Some (if can_open fs fullPath then Inr (set_content fullPath [] fs) else Inl (ErrorCreating fullPath)) }"

text \<open>Writes to a stream that could not be opened are ignored.\<close>

definition appendBytes :: "string \<Rightarrow> bytes \<Rightarrow> FileSystem \<Rightarrow> FileSystem" where
  "appendBytes path bytes fs =
     (if can_open fs path
      then set_content path ((case content fs path of Some c \<Rightarrow> c | None \<Rightarrow> []) @ bytes) fs else fs)"

text \<open>The file is emptied and then removed; \<^verbatim>\<open>remove\<close> also deletes an empty directory of that name.\<close>

definition fs_clear :: "string \<Rightarrow> FileSystem \<Rightarrow> FileSystem" where
  "fs_clear path fs =
     (if content fs path \<noteq> None then fs\<lparr>fs_files := AList.delete path (fs_files fs)\<rparr>
      else if path \<in> set (fs_dirs fs) \<and> (\<forall>p \<in> set (map fst (fs_files fs) @ fs_dirs fs). parent_dir p \<noteq> path)
      then fs\<lparr>fs_dirs := removeAll path (fs_dirs fs)\<rparr>
      else fs)"

definition readBytes :: "string \<Rightarrow> FileSystem \<Rightarrow> bytes" where
  "readBytes path fs = (case content fs path of Some c \<Rightarrow> c | None \<Rightarrow> [])"

section \<open>Compressor\<close>

text \<open>zlib is a parameter: the return code and the bytes written. The destination of
  \<^verbatim>\<open>uncompressBytes\<close> is a zeroed buffer of the original size.\<close>

definition compressBytes :: "(bytes \<Rightarrow> int \<times> bytes) \<Rightarrow> bytes \<Rightarrow> int + bytes" where
  "compressBytes zlib_compress uncompressed =
     (let (ret, compressed) = zlib_compress uncompressed in if ret = 0 then Inr compressed else Inl ret)"

definition uncompressBytes :: "(nat \<Rightarrow> bytes \<Rightarrow> int \<times> bytes) \<Rightarrow> bytes \<Rightarrow> u64 \<Rightarrow> int + bytes" where
  "uncompressBytes zlib_uncompress compressed originalSize =
     (let (ret, out) = zlib_uncompress (unat originalSize) compressed;
          decompressed = take (unat originalSize) out @ replicate (unat originalSize - length out) 0
      in if ret = 0 then Inr decompressed else Inl ret)"

section \<open>Laws of the file operations\<close>

lemma content_appendBytes:
  "content fs p = Some c \<Longrightarrow> content (appendBytes p bytes fs) q = (if q = p then Some (c @ bytes) else content fs q)"
  by (simp add: appendBytes_def can_open_def)

lemma seekBytes_inside:
  "content fs p = Some (pre @ mid @ post) \<Longrightarrow> unat ptr = length pre \<Longrightarrow> unat totalBytes = length mid \<Longrightarrow> length mid < 2 ^ 63 \<Longrightarrow>
   seekBytes p ptr totalBytes fs = Some mid"
  by (simp add: seekBytes_def)

lemma file_size_content:
  "content fs (dir @ ''/'' @ name) = Some c \<Longrightarrow> length c < 2 ^ 64 \<Longrightarrow> unat (file_size dir name fs) = length c"
  by (simp add: file_size_def unat_of_nat_less)

end
