(* ===== verification/Oplog_Codec.thy ===== *)
theory Oplog_Codec
  imports Messages
begin

text \<open>
  The format of the operation log on disk (\<^verbatim>\<open>persistence/serializers\<close>): a record is the
  operator byte, the timestamp, the arguments with their lengths and four zero bytes. Two loop
  counters of the code are 8 bits wide; a loop that never ends is \<^term>\<open>None\<close>.
\<close>

section \<open>Serializer\<close>

text \<open>The byte loop counts in \<^verbatim>\<open>uint8_t\<close>.\<close>

partial_function (option) push_arg :: "SimpleString \<Rightarrow> u8 \<Rightarrow> bytes \<Rightarrow> bytes option" where
  "push_arg arg j out =
     (if unat j < unat (ss_size arg) then push_arg arg (j + 1) (out @ [arg ! unat j]) else Some out)"

definition writePadding :: "bytes \<Rightarrow> bytes" where
  "writePadding buffer = foldl (\<lambda>b i. b @ [0]) buffer [0..<4]"

fun push_args :: "SimpleString list \<Rightarrow> bytes \<Rightarrow> bytes option" where
  "push_args [] out = Some out"
| "push_args (a # as) out = do { out \<leftarrow> push_arg a 0 (appendToBuffer (ss_size a) out); push_args as out }"

definition serialize_op :: "OperationBody \<Rightarrow> bytes \<Rightarrow> bytes option" where
  "serialize_op op out = do {
     let out = out @ [with_flags (operatorNumber op) (op_flag1 op) (op_flag2 op)];
     let out = appendToBuffer (timestamp op) out;
     out \<leftarrow> (case args op of None \<Rightarrow> Some out | Some as \<Rightarrow> push_args as out);
     Some (writePadding out) }"

fun serialize_ops :: "OperationBody list \<Rightarrow> bytes \<Rightarrow> bytes option" where
  "serialize_ops [] out = Some out"
| "serialize_ops (op # ops) out = do { out \<leftarrow> serialize_op op out; serialize_ops ops out }"

definition serializeAll :: "OperationBody list \<Rightarrow> bytes option" where
  "serializeAll toSerialize = serialize_ops toSerialize []"

section \<open>Deserializer\<close>

text \<open>The distance to the next record is a \<^verbatim>\<open>uint8_t\<close>.\<close>

partial_function (option) deserialize_ops ::
  "(u32 \<Rightarrow> nat \<Rightarrow> u32) \<Rightarrow> bytes \<Rightarrow> nat \<Rightarrow> OperationBody list \<Rightarrow> OperationBody list option" where
  "deserialize_ops ub_shl bytes offset logs =
     (if offset < length bytes then do {
        operationDeserialized \<leftarrow> deserializeOperation ub_shl bytes offset False;
        len \<leftarrow> op_getTotalLength operationDeserialized False;
        let toIncrease = (ucast (len + 4) :: u8);
        deserialize_ops ub_shl bytes (offset + unat toIncrease) (logs @ [operationDeserialized]) }
      else Some logs)"

definition deserializeAll :: "(u32 \<Rightarrow> nat \<Rightarrow> u32) \<Rightarrow> bytes \<Rightarrow> OperationBody list option" where
  "deserializeAll ub_shl bytes = (if bytes = [] then Some [] else deserialize_ops ub_shl bytes 0 [])"

declare push_arg.simps [code] deserialize_ops.simps [code]

section \<open>What the serializer writes\<close>

lemma writePadding_eq: "writePadding out = out @ [0, 0, 0, 0]"
  by (simp add: writePadding_def foldl_snoc_map map_replicate_const eval_nat_numeral)

lemma push_arg_from:
  assumes "length a < 256" and "j \<le> length a"
  shows "push_arg a (word_of_nat j) out = Some (out @ drop j a)"
  using assms(2)
proof (induction arbitrary: out rule: inc_induct)
  case base
  have u: "unat (ss_size a) = length a" using assms(1) by (intro unat_ss_size) simp
  have "unat (word_of_nat (length a) :: u8) = length a" using assms(1) by (intro unat_of_nat_less) simp
  then show ?case by (subst push_arg.simps) (simp add: u)
next
  case (step j)
  have u: "unat (ss_size a) = length a" using assms(1) by (intro unat_ss_size) simp
  have j: "unat (word_of_nat j :: u8) = j" using assms(1) step.hyps by (intro unat_of_nat_less) simp
  have "push_arg a (word_of_nat j + 1) (out @ [a ! j]) = Some ((out @ [a ! j]) @ drop (Suc j) a)"
    using step.IH [of "out @ [a ! j]"] by (simp add: add.commute)
  then show ?case
    using step.hyps by (subst push_arg.simps) (simp add: u j Cons_nth_drop_Suc)
qed

lemma push_arg_short: "length a < 256 \<Longrightarrow> push_arg a 0 out = Some (out @ a)"
  using push_arg_from [of a 0 out] by simp

text \<open>An argument of 256 bytes or more is never finished.\<close>

lemma push_arg_long:
  assumes "256 \<le> length a" and "length a < 2 ^ 32"
  shows "push_arg a j out = None"
proof -
  have u: "unat (ss_size a) = length a" by (rule unat_ss_size [OF assms(2)])
  have "b \<noteq> a" if "push_arg b i acc = Some r" for b i acc r
  proof (rule push_arg.raw_induct [where P = "\<lambda>b i acc r. b \<noteq> a", OF _ that])
    fix push :: "SimpleString \<Rightarrow> u8 \<Rightarrow> bytes \<Rightarrow> bytes option" and b acc r and i :: u8
    assume IH: "\<And>b i acc r. push b i acc = Some r \<Longrightarrow> b \<noteq> a"
      and st: "(if unat i < unat (ss_size b) then push b (i + 1) (acc @ [b ! unat i]) else Some acc) = Some r"
    have "unat i < 2 ^ LENGTH(8)" by (rule unsigned_less)
    then show "b \<noteq> a" using IH st assms(1) u by (auto split: if_splits)
  qed
  then show ?thesis by (cases "push_arg a j out") auto
qed

definition record_bytes :: "OperationBody \<Rightarrow> SimpleString list \<Rightarrow> bytes" where
  "record_bytes op as = with_flags (operatorNumber op) (op_flag1 op) (op_flag2 op) # fromNumber (timestamp op) @
     concat (map arg_bytes as) @ [0, 0, 0, 0]"

lemma push_args_short:
  "\<forall>a \<in> set as. length a < 256 \<Longrightarrow> push_args as out = Some (out @ concat (map arg_bytes as))"
  by (induction as arbitrary: out) (simp_all add: appendToBuffer_eq push_arg_short arg_bytes_def)

lemma serialize_op_bytes:
  assumes "args op = Some as" and "\<forall>a \<in> set as. length a < 256"
  shows "serialize_op op out = Some (out @ record_bytes op as)"
  using assms
  by (simp add: serialize_op_def Let_def appendToBuffer_eq push_args_short writePadding_eq record_bytes_def)

section \<open>Reading a record\<close>

text \<open>The padding ends the arguments, whatever follows.\<close>

lemma deserialize_args_padded:
  assumes "\<forall>a \<in> set as. a \<noteq> [] \<and> length a < 2 ^ 32"
  shows "deserialize_args ub (pre @ concat (map arg_bytes as) @ 0 # 0 # 0 # 0 # rest) (length pre) acc = Some (acc @ as)"
  using assms
proof (induction as arbitrary: pre acc)
  case Nil
  have z: "fromNumber (0 :: u32) = [0, 0, 0, 0]" by code_simp
  have "parseFromBuffer ub (pre @ fromNumber (0 :: u32) @ rest) (length pre) = Some (0 :: u32)"
    by (rule parseFromBuffer_fromNumber) simp_all
  then show ?case by (subst deserialize_args.simps) (simp add: z)
next
  case (Cons a as)
  let ?rest = "concat (map arg_bytes as) @ 0 # 0 # 0 # 0 # rest"
  let ?buf = "pre @ fromNumber (ss_size a) @ a @ ?rest"
  have buf: "pre @ concat (map arg_bytes (a # as)) @ 0 # 0 # 0 # 0 # rest = ?buf" by (simp add: arg_bytes_def)
  have len: "parseFromBuffer ub ?buf (length pre) = Some (ss_size a)"
    by (rule parseFromBuffer_fromNumber) simp_all
  have size: "unat (ss_size a) = length a" using Cons.prems by (simp add: unat_ss_size)
  then have zero: "ss_size a \<noteq> 0" using Cons.prems by (metis length_0_conv list.set_intros(1) unat_0)
  have fill: "req_fill ?buf (length pre + 4) (length pre + 4 + length a) = Some a"
    using req_fill_at [of "pre @ fromNumber (ss_size a)" a ?rest] by (simp add: add.assoc)
  have rec: "deserialize_args ub ?buf (length pre + 4 + length a) (acc @ [a]) = Some ((acc @ [a]) @ as)"
    using Cons.IH [of "pre @ fromNumber (ss_size a) @ a" "acc @ [a]"] Cons.prems by (simp add: add.assoc)
  show ?case
    unfolding buf by (subst deserialize_args.simps) (simp add: len size zero fill rec Let_def)
qed

text \<open>What the log can hold: operators of six bits, non-empty arguments and timestamps below
  \<open>2 ^ 31\<close>.\<close>

definition storable :: "OperationBody \<Rightarrow> SimpleString list \<Rightarrow> bool" where
  "storable op as \<longleftrightarrow> args op = Some as \<and> unat (operatorNumber op) < 64 \<and> unat (timestamp op) < 2 ^ 31 \<and>
     (\<forall>a \<in> set as. a \<noteq> [] \<and> length a < 256)"

definition record_length :: "SimpleString list \<Rightarrow> nat" where
  "record_length as = 13 + (\<Sum>a \<leftarrow> as. 4 + length a)"

lemma length_record_bytes: "length (record_bytes op as) = record_length as"
proof -
  have "length (concat (map arg_bytes as)) = (\<Sum>a \<leftarrow> as. 4 + length a)"
    by (induction as) (simp_all add: arg_bytes_def)
  then show ?thesis by (simp add: record_bytes_def record_length_def)
qed

lemma deserialize_record:
  assumes st: "storable op as" and zero: "shl_keeps_zero ub"
  shows "deserializeOperation ub (pre @ record_bytes op as @ rest) (length pre) False = Some (op\<lparr>op_nodeId := 1\<rparr>)"
proof -
  let ?w = "with_flags (operatorNumber op) (op_flag1 op) (op_flag2 op)"
  let ?tail = "concat (map arg_bytes as) @ 0 # 0 # 0 # 0 # rest"
  let ?buf = "pre @ ?w # fromNumber (timestamp op) @ ?tail"
  have buf: "pre @ record_bytes op as @ rest = ?buf" by (simp add: record_bytes_def)
  have ts: "parseFromBuffer ub ?buf (length pre + 1) = Some (timestamp op)"
    using parseFromBuffer_small_u64 [where pre = "pre @ [?w]" and rest = ?tail and w = "timestamp op", OF _ zero refl] st
    by (simp add: storable_def)
  have as: "deserialize_args ub ?buf (length pre + 9) [] = Some as"
  proof -
    have "\<forall>a \<in> set as. a \<noteq> [] \<and> length a < 2 ^ 32" using st by (auto simp: storable_def)
    from deserialize_args_padded [OF this, of ub "pre @ ?w # fromNumber (timestamp op)" rest "[]"]
    show ?thesis by simp
  qed
  have ne: "length pre + 9 \<noteq> length ?buf - 1" by simp
  have op: "args op = Some as" "unat (operatorNumber op) < 64" using st by (simp_all add: storable_def)
  have "op\<lparr>op_nodeId := 1\<rparr> = \<lparr>args = Some as, timestamp = timestamp op, op_nodeId = 1, operatorNumber = operatorNumber op,
      op_flag1 = op_flag1 op, op_flag2 = op_flag2 op\<rparr>" using op(1) by simp
  then show ?thesis
    unfolding buf using ts as ne op(2)
    by (simp add: deserializeOperation_def getValueWithoutFlags_at getFlag_at Let_def add.commute)
qed

lemma record_total_length:
  assumes "args op = Some as" and "record_length as < 256"
  shows "\<exists>len. op_getTotalLength op False = Some len \<and> unat (ucast (len + 4) :: u8) = record_length as"
proof -
  have "foldl (\<lambda>total arg. total + 4 + ss_size arg) n as = n + word_of_nat (\<Sum>a \<leftarrow> as. 4 + length a)" for n :: u32
    by (induction as arbitrary: n) (simp_all add: ss_size_def algebra_simps)
  then have "op_getTotalLength op False = Some (word_of_nat (9 + (\<Sum>a \<leftarrow> as. 4 + length a)))"
    using assms(1) by (simp add: op_getTotalLength_def)
  moreover have "unat (ucast (word_of_nat (9 + (\<Sum>a \<leftarrow> as. 4 + length a)) + 4 :: u32) :: u8) = record_length as"
  proof -
    have "word_of_nat (9 + (\<Sum>a \<leftarrow> as. 4 + length a)) + 4 = (word_of_nat (record_length as) :: u32)"
      by (simp add: record_length_def algebra_simps)
    moreover have "unat (word_of_nat (record_length as) :: u32) = record_length as"
      using assms(2) by (intro unat_of_nat_less) simp
    ultimately show ?thesis using assms(2) by (simp add: unsigned_ucast_eq take_bit_nat_eq_self)
  qed
  ultimately show ?thesis by blast
qed

definition records :: "(OperationBody \<times> SimpleString list) list \<Rightarrow> bytes" where
  "records rs = concat (map (\<lambda>(op, as). record_bytes op as) rs)"

lemma serialize_ops_records:
  assumes "\<forall>(op, as) \<in> set rs. storable op as"
  shows "serialize_ops (map fst rs) out = Some (out @ records rs)"
  using assms
proof (induction rs arbitrary: out)
  case (Cons r rs)
  obtain op as where r: "r = (op, as)" by (cases r)
  have "serialize_op op out = Some (out @ record_bytes op as)"
    using Cons.prems by (intro serialize_op_bytes) (auto simp: storable_def r)
  then show ?case using Cons by (simp add: r records_def)
qed (simp add: records_def)

lemma deserialize_ops_records:
  assumes "\<forall>(op, as) \<in> set rs. storable op as \<and> record_length as < 256" and "shl_keeps_zero ub"
  shows "deserialize_ops ub (pre @ records rs) (length pre) acc =
    Some (acc @ map (\<lambda>(op, as). op\<lparr>op_nodeId := 1\<rparr>) rs)"
  using assms(1)
proof (induction rs arbitrary: pre acc)
  case Nil
  then show ?case by (subst deserialize_ops.simps) (simp add: records_def)
next
  case (Cons r rs)
  obtain op as where r: "r = (op, as)" by (cases r)
  have st: "storable op as" "record_length as < 256" using Cons.prems by (auto simp: r)
  have buf: "pre @ records (r # rs) = pre @ record_bytes op as @ records rs" by (simp add: r records_def)
  have "args (op\<lparr>op_nodeId := 1\<rparr>) = Some as" using st(1) by (simp add: storable_def)
  then obtain len where len: "op_getTotalLength (op\<lparr>op_nodeId := 1\<rparr>) False = Some len"
    "unat (ucast (len + 4) :: u8) = record_length as" using record_total_length st(2) by blast
  have rec: "deserialize_ops ub (pre @ record_bytes op as @ records rs) (length pre + record_length as) (acc @ [op\<lparr>op_nodeId := 1\<rparr>]) =
      Some ((acc @ [op\<lparr>op_nodeId := 1\<rparr>]) @ map (\<lambda>(op, as). op\<lparr>op_nodeId := 1\<rparr>) rs)"
    using Cons.IH [of "pre @ record_bytes op as" "acc @ [op\<lparr>op_nodeId := 1\<rparr>]"] Cons.prems
    by (simp add: length_record_bytes)
  have "0 < record_length as" by (simp add: record_length_def)
  then show ?case
    unfolding buf using deserialize_record [OF st(1) assms(2), of pre "records rs"] len rec
    by (subst deserialize_ops.simps) (simp add: length_record_bytes r Let_def)
qed

lemma deserializeAll_records:
  assumes "\<forall>(op, as) \<in> set rs. storable op as \<and> record_length as < 256" and "shl_keeps_zero ub"
  shows "deserializeAll ub (records rs) = Some (map (\<lambda>(op, as). op\<lparr>op_nodeId := 1\<rparr>) rs)"
proof (cases "records rs = []")
  case True
  then have "rs = []" by (cases rs) (auto simp: records_def record_bytes_def)
  then show ?thesis by (simp add: deserializeAll_def records_def)
next
  case False
  then show ?thesis using deserialize_ops_records [OF assms, of "[]" "[]"] by (simp add: deserializeAll_def)
qed

section \<open>Records that stop the log\<close>

lemma deserialize_ops_stuck:
  assumes "offset < length bytes" and "deserializeOperation ub bytes offset False = Some op"
    and "op_getTotalLength op False = Some len" and "ucast (len + 4) = (0 :: u8)"
  shows "deserialize_ops ub bytes offset acc = None"
proof -
  have "\<not> (u = ub \<and> b = bytes \<and> n = offset)" if "deserialize_ops u b n l = Some r" for u b n l r
  proof (rule deserialize_ops.raw_induct [where P = "\<lambda>u b n l r. \<not> (u = ub \<and> b = bytes \<and> n = offset)", OF _ that])
    fix f :: "(u32 \<Rightarrow> nat \<Rightarrow> u32) \<Rightarrow> bytes \<Rightarrow> nat \<Rightarrow> OperationBody list \<Rightarrow> OperationBody list option" and u b n l r
    assume IH: "\<And>u b n l r. f u b n l = Some r \<Longrightarrow> \<not> (u = ub \<and> b = bytes \<and> n = offset)"
      and st: "(if n < length b then do {
          op \<leftarrow> deserializeOperation u b n False;
          len \<leftarrow> op_getTotalLength op False;
          let toIncrease = (ucast (len + 4) :: u8);
          f u b (n + unat toIncrease) (l @ [op]) } else Some l) = Some r"
    show "\<not> (u = ub \<and> b = bytes \<and> n = offset)"
    proof
      assume e: "u = ub \<and> b = bytes \<and> n = offset"
      then have "f ub bytes offset (l @ [op]) = Some r" using st assms by simp
      then show False using IH by blast
    qed
  qed
  then show ?thesis by (cases "deserialize_ops ub bytes offset acc") (simp, blast)
qed

lemma push_args_long:
  assumes "a \<in> set as" and "256 \<le> length a" and "length a < 2 ^ 32"
  shows "push_args as out = None"
  using assms(1)
proof (induction as arbitrary: out)
  case (Cons b as)
  then show ?case
    using push_arg_long [OF assms(2,3)] by (cases "push_arg b 0 (appendToBuffer (ss_size b) out)") auto
qed simp

section \<open>Properties\<close>

text \<open>C14. Writing a list of operations to the log and reading it back gives the operations again, up to
  the node id, which the log does not store and the reader sets to 1: for operations of at most 255
  bytes, padding included, with non-empty arguments and timestamps below \<open>2 ^ 31\<close>.\<close>

theorem oplog_roundtrip:
  assumes "\<forall>op \<in> set ops. \<exists>as. storable op as \<and> record_length as < 256" and "shl_keeps_zero ub"
  shows "Option.bind (serializeAll ops) (deserializeAll ub) = Some (map (\<lambda>op. op\<lparr>op_nodeId := 1\<rparr>) ops)"
proof -
  let ?rs = "map (\<lambda>op. (op, the (args op))) ops"
  have r: "\<forall>(op, as) \<in> set ?rs. storable op as \<and> record_length as < 256"
    using assms(1) by (fastforce simp: storable_def)
  then have "serializeAll ops = Some (records ?rs)"
    using serialize_ops_records [of ?rs "[]"] by (fastforce simp: serializeAll_def comp_def)
  then show ?thesis using deserializeAll_records [OF r assms(2)] by (simp add: comp_def)
qed

theorem oplog_roundtrip_witness:
  "Option.bind (serializeAll [\<lparr>args = Some [[107], [118, 119]], timestamp = 5, op_nodeId = 7, operatorNumber = 1,
      op_flag1 = True, op_flag2 = False\<rparr>]) (deserializeAll (\<lambda>w n. 0)) =
   Some [\<lparr>args = Some [[107], [118, 119]], timestamp = 5, op_nodeId = 1, operatorNumber = 1, op_flag1 = True, op_flag2 = False\<rparr>]"
proof -
  let ?op = "\<lparr>args = Some [[107], [118, 119]], timestamp = 5, op_nodeId = 7, operatorNumber = 1, op_flag1 = True, op_flag2 = False\<rparr>"
  have "storable ?op [[107], [118, 119]]" "record_length [[107], [118, 119 :: u8]] < 256"
    by (simp_all add: storable_def record_length_def)
  then have "\<forall>op \<in> set [?op]. \<exists>as. storable op as \<and> record_length as < 256" by auto
  moreover have "shl_keeps_zero (\<lambda>w n. 0)" by (simp add: shl_keeps_zero_def)
  ultimately show ?thesis using oplog_roundtrip [of "[?op]" "\<lambda>w n. 0"] by simp
qed

text \<open>The log does not survive long operations. An argument of 256 bytes or more is never completely
  written: the 8-bit loop counter wraps around. An operation of exactly 256 bytes is written, but
  reading the log never gets past it: the 8-bit distance to the next record is zero.\<close>

theorem oplog_long_operations_hang:
  assumes "args op = Some as" and "shl_keeps_zero ub"
  shows "((\<exists>a \<in> set as. 256 \<le> length a \<and> length a < 2 ^ 32) \<longrightarrow> serializeAll [op] = None) \<and>
    (storable op as \<and> record_length as = 256 \<longrightarrow>
      (\<exists>bytes. serializeAll [op] = Some bytes \<and> deserializeAll ub bytes = None))"
proof (intro conjI impI)
  assume "\<exists>a \<in> set as. 256 \<le> length a \<and> length a < 2 ^ 32"
  then obtain a where "a \<in> set as" "256 \<le> length a" "length a < 2 ^ 32" by blast
  then show "serializeAll [op] = None"
    using assms(1) push_args_long by (simp add: serializeAll_def serialize_op_def)
next
  assume st: "storable op as \<and> record_length as = 256"
  have w: "serializeAll [op] = Some (records [(op, as)])"
    using serialize_ops_records [of "[(op, as)]" "[]"] st by (simp add: serializeAll_def)
  have b: "records [(op, as)] = [] @ record_bytes op as @ []" by (simp add: records_def)
  have d: "deserializeOperation ub (records [(op, as)]) 0 False = Some (op\<lparr>op_nodeId := 1\<rparr>)"
    unfolding b using deserialize_record [of op as ub "[]" "[]"] st assms(2) by simp
  have "foldl (\<lambda>total arg. total + 4 + ss_size arg) n as = n + word_of_nat (\<Sum>a \<leftarrow> as. 4 + length a)" for n :: u32
    by (induction as arbitrary: n) (simp_all add: ss_size_def algebra_simps)
  moreover have "(\<Sum>a \<leftarrow> as. 4 + length a) = 243" using st by (simp add: record_length_def)
  ultimately have l: "op_getTotalLength (op\<lparr>op_nodeId := 1\<rparr>) False = Some 252"
    using assms(1) by (simp add: op_getTotalLength_def)
  have "0 < length (records [(op, as)])" by (simp add: b length_record_bytes record_length_def)
  moreover have "ucast (252 + 4 :: u32) = (0 :: u8)" by simp
  ultimately have "deserialize_ops ub (records [(op, as)]) 0 [] = None" using deserialize_ops_stuck [OF _ d l] by blast
  then show "\<exists>bytes. serializeAll [op] = Some bytes \<and> deserializeAll ub bytes = None"
    using w \<open>0 < length (records [(op, as)])\<close> by (auto simp: deserializeAll_def)
qed

theorem oplog_long_operations_hang_witness:
  "serializeAll [\<lparr>args = Some [replicate 256 97], timestamp = 5, op_nodeId = 7, operatorNumber = 1,
      op_flag1 = False, op_flag2 = False\<rparr>] = None \<and>
   (\<exists>bytes. serializeAll [\<lparr>args = Some [replicate 100 97, replicate 135 98], timestamp = 5, op_nodeId = 7, operatorNumber = 1,
      op_flag1 = False, op_flag2 = False\<rparr>] = Some bytes \<and> deserializeAll (\<lambda>w n. 0) bytes = None)"
proof -
  have z: "shl_keeps_zero (\<lambda>w n. 0)" by (simp add: shl_keeps_zero_def)
  let ?a = "\<lparr>args = Some [replicate 256 97], timestamp = 5, op_nodeId = 7, operatorNumber = 1, op_flag1 = False, op_flag2 = False\<rparr>"
  let ?b = "\<lparr>args = Some [replicate 100 97, replicate 135 98], timestamp = 5, op_nodeId = 7, operatorNumber = 1, op_flag1 = False, op_flag2 = False\<rparr>"
  have "\<exists>a \<in> set [replicate 256 (97 :: u8)]. 256 \<le> length a \<and> length a < 2 ^ 32" by simp
  moreover have "storable ?b [replicate 100 97, replicate 135 98] \<and> record_length [replicate 100 (97 :: u8), replicate 135 98] = 256"
    by (simp add: storable_def record_length_def)
  ultimately show ?thesis
    using oplog_long_operations_hang [of ?a _ "\<lambda>w n. 0"] oplog_long_operations_hang [of ?b _ "\<lambda>w n. 0"] z by fastforce
qed

end
