(* ===== verification/Ordered_Map.thy ===== *)
theory Ordered_Map
  imports Memdb_Prelude
begin

text \<open>
  \<^verbatim>\<open>std::map\<close> as an association list ordered by the comparison of its keys: lookup, insertion,
  and their laws over any strict total order of the keys in use.
\<close>

section \<open>Ordered maps\<close>

fun om_get :: "('k \<Rightarrow> 'k \<Rightarrow> bool) \<Rightarrow> 'k \<Rightarrow> ('k \<times> 'v) list \<Rightarrow> 'v option" where
  "om_get lt k [] = None"
| "om_get lt k ((k', v) # m) = (if lt k k' then None else if lt k' k then om_get lt k m else Some v)"

fun om_put :: "('k \<Rightarrow> 'k \<Rightarrow> bool) \<Rightarrow> 'k \<Rightarrow> 'v \<Rightarrow> ('k \<times> 'v) list \<Rightarrow> ('k \<times> 'v) list" where
  "om_put lt k v [] = [(k, v)]"
| "om_put lt k v ((k', v') # m) =
     (if lt k k' then (k, v) # (k', v') # m else if lt k' k then (k', v') # om_put lt k v m else (k', v) # m)"

section \<open>Maps over an order\<close>

locale key_order =
  fixes lt :: "'k \<Rightarrow> 'k \<Rightarrow> bool" and keys :: "'k set"
  assumes lt_irrefl: "k \<in> keys \<Longrightarrow> \<not> lt k k"
    and lt_trans: "a \<in> keys \<Longrightarrow> b \<in> keys \<Longrightarrow> c \<in> keys \<Longrightarrow> lt a b \<Longrightarrow> lt b c \<Longrightarrow> lt a c"
    and lt_total: "a \<in> keys \<Longrightarrow> b \<in> keys \<Longrightarrow> a \<noteq> b \<Longrightarrow> lt a b \<or> lt b a"
begin

definition om_ok :: "('k \<times> 'v) list \<Rightarrow> bool" where
  "om_ok m \<longleftrightarrow> sorted_wrt (\<lambda>x y. lt (fst x) (fst y)) m \<and> fst ` set m \<subseteq> keys"

lemma lt_asym: "a \<in> keys \<Longrightarrow> b \<in> keys \<Longrightarrow> lt a b \<Longrightarrow> \<not> lt b a"
  using lt_irrefl lt_trans by blast

lemma om_ok_Nil: "om_ok []"
  by (simp add: om_ok_def)

lemma set_om_put: "fst ` set (om_put lt k v m) \<subseteq> insert k (fst ` set m)"
  by (induction m) (force split: if_splits)+

lemma om_put_ok:
  assumes "om_ok m" and "k \<in> keys"
  shows "om_ok (om_put lt k v m)"
  using assms(1)
proof (induction m)
  case Nil
  then show ?case using assms(2) by (simp add: om_ok_def)
next
  case (Cons e m)
  obtain k' v' where e: "e = (k', v')" by (cases e)
  have ok: "om_ok m" "k' \<in> keys" "\<forall>x \<in> set m. lt k' (fst x)" "fst ` set m \<subseteq> keys" using Cons.prems by (auto simp: om_ok_def e)
  have IH: "sorted_wrt (\<lambda>x y. lt (fst x) (fst y)) (om_put lt k v m)" "fst ` set (om_put lt k v m) \<subseteq> keys"
    using Cons.IH [OF ok(1)] by (simp_all add: om_ok_def)
  have "lt k' (fst x)" if "lt k' k" "x \<in> set (om_put lt k v m)" for x
  proof -
    have "fst x \<in> insert k (fst ` set m)" using that(2) set_om_put [of k v m] by auto
    then show ?thesis using that(1) ok(3) by auto
  qed
  moreover have "lt k (fst x)" if "lt k k'" "x \<in> set m" for x
    using lt_trans [OF assms(2) ok(2)] ok(3,4) that by blast
  ultimately show ?case using Cons.prems IH ok assms(2) by (auto simp: om_ok_def e)
qed

lemma om_get_put:
  assumes "om_ok m" and "k \<in> keys" and "q \<in> keys"
  shows "om_get lt q (om_put lt k v m) = (if q = k then Some v else om_get lt q m)"
  using assms(1)
proof (induction m)
  case Nil
  then show ?case using assms(2,3) lt_irrefl lt_total by auto
next
  case (Cons e m)
  obtain k' v' where e: "e = (k', v')" by (cases e)
  have ok: "om_ok m" "k' \<in> keys" "\<forall>x \<in> set m. lt k' (fst x)" "fst ` set m \<subseteq> keys" using Cons.prems by (auto simp: om_ok_def e)
  consider "lt k k'" | "lt k' k" | "k = k'" using lt_total [OF assms(2) ok(2)] by blast
  then show ?case
  proof cases
    case 1
    have "lt q k \<Longrightarrow> lt q k'" using 1 lt_trans [OF assms(3,2) ok(2)] by blast
    moreover have "q = k \<or> lt q k \<or> lt k q" using lt_total [OF assms(3,2)] by blast
    ultimately show ?thesis
      using 1 lt_irrefl [OF assms(2)] lt_asym [OF assms(2,3)] by (auto simp: e)
  next
    case 2
    then have "\<not> lt k k'" "k \<noteq> k'" using lt_asym [OF ok(2) assms(2)] lt_irrefl [OF assms(2)] by auto
    then show ?thesis using 2 Cons.IH [OF ok(1)] by (auto simp: e)
  next
    case 3
    have "q = k \<or> lt q k \<or> lt k q" using lt_total [OF assms(3,2)] by blast
    then show ?thesis using 3 lt_irrefl [OF assms(2)] lt_asym [OF assms(2,3)] by (auto simp: e)
  qed
qed

lemma om_get_iff:
  assumes "om_ok m" and "k \<in> keys"
  shows "om_get lt k m = Some v \<longleftrightarrow> (k, v) \<in> set m"
  using assms(1)
proof (induction m)
  case (Cons e m)
  obtain k' v' where e: "e = (k', v')" by (cases e)
  have ok: "om_ok m" "k' \<in> keys" "\<forall>x \<in> set m. lt k' (fst x)" "fst ` set m \<subseteq> keys" using Cons.prems by (auto simp: om_ok_def e)
  consider "lt k k'" | "lt k' k" | "k = k'" using lt_total [OF assms(2) ok(2)] by blast
  then show ?case
  proof cases
    case 1
    then have "(k, v) \<notin> set m" "k \<noteq> k'"
      using ok lt_trans [OF assms(2) ok(2) assms(2)] lt_irrefl [OF assms(2)] by force+
    then show ?thesis using 1 by (simp add: e)
  next
    case 2
    then have "k \<noteq> k'" "\<not> lt k k'" using lt_asym [OF ok(2) assms(2)] lt_irrefl [OF assms(2)] by auto
    then show ?thesis using 2 Cons.IH [OF ok(1)] by (simp add: e)
  next
    case 3
    then have "(k, w) \<notin> set m" for w using ok(3) lt_irrefl [OF assms(2)] by force
    then show ?thesis using 3 lt_irrefl [OF assms(2)] by (auto simp: e)
  qed
qed simp

lemma om_ok_distinct: "om_ok m \<Longrightarrow> distinct (map fst m)"
  by (induction m) (force simp: om_ok_def dest: lt_irrefl)+

lemma om_put_length: "om_get lt k m = None \<Longrightarrow> length (om_put lt k v m) = Suc (length m)"
  by (induction m) (auto split: if_splits)

end

text \<open>Node identifiers and other machine words as keys.\<close>

interpretation word_order: key_order "(<) :: 'a::len word \<Rightarrow> 'a word \<Rightarrow> bool" UNIV
  by unfold_locales auto

end
