(* ===== verification/Compaction.thy ===== *)
theory Compaction
  imports Oplog_Codec Ordered_Map "HOL-Library.Multiset"
begin

text \<open>
  Compaction of the operation log (\<^verbatim>\<open>persistence/compaction\<close>): the single-threaded pass,
  the tree of compactions of the multi-threaded one and the choice between them.
\<close>

section \<open>One thread\<close>

type_synonym key_less = "SimpleString \<Rightarrow> SimpleString \<Rightarrow> bool"

definition op_key :: "OperationBody \<Rightarrow> SimpleString option" where
  "op_key op = (case args op of Some (k # as) \<Rightarrow> Some k | _ \<Rightarrow> None)"

text \<open>The loop runs from the last operation to the first. The recorded timestamp of a key is that of
  the first operation met; it is not updated when a greater one replaces the operation.\<close>

fun compact_loop ::
  "key_less \<Rightarrow> OperationBody list \<Rightarrow> (SimpleString \<times> OperationBody) list \<Rightarrow> (SimpleString \<times> u64) list \<Rightarrow>
     ((SimpleString \<times> OperationBody) list \<times> (SimpleString \<times> u64) list) option" where
  "compact_loop lt [] compactedToReturn timestampsByKeys = Some (compactedToReturn, timestampsByKeys)"
| "compact_loop lt (op # ops) compactedToReturn timestampsByKeys = do {
     k \<leftarrow> op_key op;
     (case om_get lt k timestampsByKeys of
        Some t \<Rightarrow>
          compact_loop lt ops (if t < timestamp op then om_put lt k op compactedToReturn else compactedToReturn)
            timestampsByKeys
      | None \<Rightarrow>
          compact_loop lt ops (om_put lt k op compactedToReturn) (om_put lt k (timestamp op) timestampsByKeys)) }"

text \<open>The code writes through its two constant references: both are returned.\<close>

definition compact ::
  "key_less \<Rightarrow> OperationBody list \<Rightarrow> OperationBody list \<Rightarrow> (SimpleString \<times> u64) list \<Rightarrow>
     (OperationBody list \<times> (SimpleString \<times> u64) list) option" where
  "compact lt uncompacted compacted timestampsByKeys = do {
     (compactedToReturn, timestampsByKeys) \<leftarrow> compact_loop lt (rev uncompacted) [] timestampsByKeys;
     Some (collectValuesInto compactedToReturn compacted, timestampsByKeys) }"

section \<open>Many threads\<close>

datatype CompactionBlock =
    FirstPhase "OperationBody list"
  | Inner "CompactionBlock option" "CompactionBlock option"

fun block_get :: "key_less \<Rightarrow> CompactionBlock \<Rightarrow> OperationBody list option" where
  "block_get lt (FirstPhase operations) = Some operations"
| "block_get lt (Inner (Some l) (Some r)) = do {
     leftToCompact \<leftarrow> block_get lt l;
     rightToCompact \<leftarrow> block_get lt r;
     (compacted, timestampsByKeys) \<leftarrow> compact lt rightToCompact [] [];
     (compacted, timestampsByKeys) \<leftarrow> compact lt leftToCompact compacted timestampsByKeys;
     Some compacted }"
| "block_get lt (Inner _ _) = None"

definition leaf :: "OperationBody list \<Rightarrow> nat \<Rightarrow> nat \<Rightarrow> CompactionBlock" where
  "leaf uncompacted numberBlock totalBlocks =
     (let logsPerBlock = length uncompacted div totalBlocks;
          begin_ptr = logsPerBlock * numberBlock;
          end_ptr = (if numberBlock + 1 \<noteq> totalBlocks then logsPerBlock * (numberBlock + 1) else length uncompacted)
      in FirstPhase (take (end_ptr - begin_ptr) (drop begin_ptr uncompacted)))"

fun flog2 :: "nat \<Rightarrow> nat" where
  "flog2 n = (if n < 2 then 0 else Suc (flog2 (n div 2)))"

declare flog2.simps [simp del]

text \<open>\<open>numberThreads\<close> is what \<^verbatim>\<open>hardware_concurrency\<close> returns, 0 when it cannot be computed. The logarithm of 0 and
  a power of two outside \<^verbatim>\<open>int\<close> have no value in the types they are converted to.\<close>

definition createBlocksByPhaseMap :: "nat \<Rightarrow> OperationBody list \<Rightarrow> CompactionBlock list list option" where
  "createBlocksByPhaseMap numberThreads uncompacted =
     (if numberThreads = 0 \<or> numberThreads \<ge> 2 ^ 30 then None
      else let height = flog2 numberThreads + 2
        in Some (map (\<lambda>actualPhase. map (\<lambda>j.
             if actualPhase = 0 then Inner None None
             else if actualPhase + 1 = height then leaf uncompacted j (2 ^ actualPhase)
             else Inner None None) [0..<2 ^ actualPhase]) [0..<height]))"

fun fill_children :: "CompactionBlock list \<Rightarrow> nat \<Rightarrow> CompactionBlock list \<Rightarrow> CompactionBlock list option" where
  "fill_children blocksInNextPhase i [] = Some []"
| "fill_children blocksInNextPhase i (b # bs) =
     (if i * 2 + 1 < length blocksInNextPhase then do {
        bs \<leftarrow> fill_children blocksInNextPhase (i + 1) bs;
        Some (Inner (Some (blocksInNextPhase ! (i * 2))) (Some (blocksInNextPhase ! (i * 2 + 1))) # bs) }
      else None)"

text \<open>The blocks are linked by pointers, so the order of the phases does not matter: the last phase,
  which has no children, comes first here.\<close>

fun fillTreeChilds :: "CompactionBlock list list \<Rightarrow> CompactionBlock list option" where
  "fillTreeChilds [] = None"
| "fillTreeChilds [blocksInLastPhase] = Some blocksInLastPhase"
| "fillTreeChilds (blocksInThisPhase # phases) = do {
     blocksInNextPhase \<leftarrow> fillTreeChilds phases;
     fill_children blocksInNextPhase 0 blocksInThisPhase }"

definition createCompactionTree :: "nat \<Rightarrow> OperationBody list \<Rightarrow> CompactionBlock option" where
  "createCompactionTree numberThreads uncompacted = do {
     blocksByPhase \<leftarrow> createBlocksByPhaseMap numberThreads uncompacted;
     blocks \<leftarrow> fillTreeChilds blocksByPhase;
     if 0 < length blocks then Some (blocks ! 0) else None }"

definition multiThreaded_compact :: "key_less \<Rightarrow> nat \<Rightarrow> OperationBody list \<Rightarrow> OperationBody list option" where
  "multiThreaded_compact lt numberThreads uncompacted = do {
     t \<leftarrow> createCompactionTree numberThreads uncompacted;
     block_get lt t }"

text \<open>The threshold is the floating-point literal \<^verbatim>\<open>10.000\<close>, that is ten.\<close>

definition oplog_compact :: "key_less \<Rightarrow> nat \<Rightarrow> OperationBody list \<Rightarrow> OperationBody list option" where
  "oplog_compact lt numberThreads uncompacted =
     (if length uncompacted > 10 then multiThreaded_compact lt numberThreads uncompacted
      else map_option fst (compact lt uncompacted [] []))"

section \<open>What compaction keeps\<close>

text \<open>The last operation of a key, and logs whose timestamps do not go back for any key.\<close>

definition latest :: "OperationBody list \<Rightarrow> SimpleString \<Rightarrow> OperationBody option" where
  "latest ops k = find (\<lambda>op. op_key op = Some k) (rev ops)"

definition in_order :: "OperationBody list \<Rightarrow> bool" where
  "in_order ops \<longleftrightarrow> (\<forall>k. sorted (map timestamp (filter (\<lambda>op. op_key op = Some k) ops)))"

definition keyed :: "SimpleString set \<Rightarrow> OperationBody list \<Rightarrow> bool" where
  "keyed K ops \<longleftrightarrow> (\<forall>op \<in> set ops. \<exists>k \<in> K. op_key op = Some k)"

text \<open>A list that holds, for each key, exactly the operation \<open>f\<close> gives.\<close>

definition represents :: "OperationBody list \<Rightarrow> (SimpleString \<rightharpoonup> OperationBody) \<Rightarrow> bool" where
  "represents out f \<longleftrightarrow> distinct (map op_key out) \<and>
     (\<forall>op. op \<in> set out \<longleftrightarrow> (\<exists>k. op_key op = Some k \<and> f k = Some op))"

lemma represents_unique: "represents out f \<Longrightarrow> represents out' f \<Longrightarrow> mset out = mset out'"
proof -
  assume "represents out f" and "represents out' f"
  then have "distinct out" "distinct out'" "set out = set out'" by (auto simp: represents_def distinct_map)
  then show ?thesis using set_eq_iff_mset_eq_distinct by blast
qed

lemma find_Some_iff: "find P xs = Some x \<Longrightarrow> x \<in> set xs \<and> P x"
  by (induction xs) (auto split: if_splits)

lemma latest_key: "latest ops k = Some op \<Longrightarrow> op_key op = Some k \<and> op \<in> set ops"
  unfolding latest_def by (drule find_Some_iff) simp

lemma find_append: "find P (xs @ ys) = (case find P xs of Some x \<Rightarrow> Some x | None \<Rightarrow> find P ys)"
  by (induction xs) auto

lemma latest_append: "latest (xs @ ys) k = (case latest ys k of Some op \<Rightarrow> Some op | None \<Rightarrow> latest xs k)"
  by (simp add: latest_def find_append split: option.split)

lemma latest_None: "latest ops k = None \<longleftrightarrow> (\<forall>op \<in> set ops. op_key op \<noteq> Some k)"
  by (auto simp: latest_def find_None_iff)

lemma represents_latest: "represents out f \<Longrightarrow> (\<And>k op. f k = Some op \<Longrightarrow> op_key op = Some k) \<Longrightarrow> latest out = f"
proof
  fix k assume r: "represents out f" and key: "\<And>k op. f k = Some op \<Longrightarrow> op_key op = Some k"
  show "latest out k = f k"
  proof (cases "f k")
    case None
    then have "\<forall>op \<in> set out. op_key op \<noteq> Some k" using r by (auto simp: represents_def)
    then show ?thesis using None by (simp add: latest_None)
  next
    case (Some op)
    then have "op \<in> set out" using r key by (auto simp: represents_def)
    then have "latest out k \<noteq> None" using key [OF Some] by (auto simp: latest_None)
    then obtain op' where op': "latest out k = Some op'" by auto
    then have "op_key op' = Some k" "op' \<in> set out" using latest_key by auto
    then show ?thesis using r Some op' by (auto simp: represents_def)
  qed
qed

lemma represents_subset:
  assumes "represents out (latest ops)"
  shows "set out \<subseteq> set ops" and "length out \<le> length ops"
proof -
  show s: "set out \<subseteq> set ops" using assms latest_key by (auto simp: represents_def)
  have "distinct out" using assms by (auto simp: represents_def distinct_map)
  then have "length out = card (set out)" by (simp add: distinct_card)
  also have "\<dots> \<le> card (set ops)" using s by (simp add: card_mono)
  finally show "length out \<le> length ops" using card_length [of ops] by simp
qed

lemma represents_nonempty:
  assumes "represents out (latest ops)" and "ops \<noteq> []" and "keyed K ops"
  shows "out \<noteq> []"
proof -
  have "hd ops \<in> set ops" using assms(2) by simp
  then obtain k where k: "op_key (hd ops) = Some k" using assms(3) unfolding keyed_def by blast
  then have "latest ops k \<noteq> None" using assms(2) by (auto simp: latest_None intro: bexI [of _ "hd ops"])
  then show ?thesis using assms(1) latest_key by (fastforce simp: represents_def)
qed

lemma in_order_rev_Cons:
  assumes "in_order (rev (op # ops))"
  shows "in_order (rev ops)" and "op' \<in> set ops \<Longrightarrow> op_key op' = op_key op \<Longrightarrow> op_key op = Some k \<Longrightarrow> timestamp op' \<le> timestamp op"
proof -
  show "in_order (rev ops)"
    unfolding in_order_def
  proof
    fix k
    have "sorted (map timestamp (filter (\<lambda>op. op_key op = Some k) (rev ops @ [op])))"
      using assms by (simp add: in_order_def)
    then show "sorted (map timestamp (filter (\<lambda>op. op_key op = Some k) (rev ops)))" by (simp add: sorted_append)
  qed
  assume a: "op' \<in> set ops" "op_key op' = op_key op" "op_key op = Some k"
  have "sorted (map timestamp (filter (\<lambda>op. op_key op = Some k) (rev ops @ [op])))"
    using assms by (simp add: in_order_def)
  then show "timestamp op' \<le> timestamp op" using a by (auto simp: sorted_append)
qed

text \<open>The operations under a block, and blocks with both children down to the first phase.\<close>

fun block_ops :: "CompactionBlock \<Rightarrow> OperationBody list" where
  "block_ops (FirstPhase operations) = operations"
| "block_ops (Inner (Some l) (Some r)) = block_ops l @ block_ops r"
| "block_ops (Inner _ _) = []"

fun tree_ok :: "CompactionBlock \<Rightarrow> bool" where
  "tree_ok (FirstPhase operations) = True"
| "tree_ok (Inner (Some l) (Some r)) = (tree_ok l \<and> tree_ok r)"
| "tree_ok (Inner _ _) = False"

definition faithful :: "OperationBody list \<Rightarrow> OperationBody list \<Rightarrow> bool" where
  "faithful out ops \<longleftrightarrow> in_order out \<and> set out \<subseteq> set ops \<and> latest out = latest ops"

lemma faithful_ops:
  "faithful out ops \<Longrightarrow> keyed K ops \<Longrightarrow> keyed K out"
  "faithful out ops \<Longrightarrow> keyed K ops \<Longrightarrow> in_order out"
  "faithful out ops \<Longrightarrow> keyed K ops \<Longrightarrow> latest out = latest ops"
  by (auto simp: faithful_def keyed_def)

lemma in_order_append: "in_order (xs @ ys) \<Longrightarrow> in_order xs \<and> in_order ys"
  by (auto simp: in_order_def sorted_append)

lemma in_order_across:
  "in_order (xs @ ys) \<Longrightarrow> x \<in> set xs \<Longrightarrow> y \<in> set ys \<Longrightarrow> op_key x = Some k \<Longrightarrow> op_key y = Some k \<Longrightarrow>
   timestamp x \<le> timestamp y"
  by (force simp: in_order_def sorted_append)

lemma distinct_in_order: "distinct (map op_key out) \<Longrightarrow> in_order out"
  unfolding in_order_def
proof
  fix k assume d: "distinct (map op_key out)"
  have "length (filter (\<lambda>op. op_key op = Some k) out) \<le> 1"
  proof (rule ccontr)
    assume "\<not> ?thesis"
    then obtain a b r where ab: "filter (\<lambda>op. op_key op = Some k) out = a # b # r"
      by (cases "filter (\<lambda>op. op_key op = Some k) out"; cases "tl (filter (\<lambda>op. op_key op = Some k) out)") auto
    have "distinct (map op_key (filter (\<lambda>op. op_key op = Some k) out))"
      by (rule distinct_map_filter [OF d])
    moreover have "a \<in> set (a # b # r)" "b \<in> set (a # b # r)" by auto
    then have "op_key a = Some k" "op_key b = Some k" unfolding ab [symmetric] by auto
    ultimately show False by (simp add: ab)
  qed
  then show "sorted (map timestamp (filter (\<lambda>op. op_key op = Some k) out))"
    by (intro sorted01) simp
qed

lemma represents_faithful: "represents out (latest ops) \<Longrightarrow> faithful out ops"
  using represents_latest [of out "latest ops"] latest_key distinct_in_order
  by (auto simp: faithful_def represents_def)

section \<open>The compaction tree\<close>

lemma leaves_take:
  "n < T \<Longrightarrow> concat (map (\<lambda>j. block_ops (leaf log j T)) [0..<n]) = take (length log div T * n) log"
proof (induction n)
  case (Suc n)
  then have "block_ops (leaf log n T) = take (length log div T) (drop (length log div T * n) log)"
    by (simp add: leaf_def Let_def algebra_simps)
  then show ?case using Suc by (simp add: take_add [symmetric] algebra_simps)
qed simp

lemma leaves_concat: "0 < T \<Longrightarrow> concat (map (\<lambda>j. block_ops (leaf log j T)) [0..<T]) = log"
proof -
  assume "0 < T"
  then obtain n where T: "T = Suc n" by (cases T) auto
  have "block_ops (leaf log n T) = drop (length log div T * n) log" by (simp add: leaf_def Let_def T)
  then show ?thesis using leaves_take [of n T log] by (simp add: T)
qed

lemma fill_children_spec:
  "length nexts = 2 * (i + length bs) \<Longrightarrow> list_all tree_ok nexts \<Longrightarrow>
   \<exists>r. fill_children nexts i bs = Some r \<and> length r = length bs \<and> list_all tree_ok r \<and>
     concat (map block_ops r) = concat (map block_ops (drop (2 * i) nexts)) \<and>
     (\<forall>b \<in> set r. \<exists>l r. b = Inner l r)"
proof (induction bs arbitrary: i)
  case (Cons b bs)
  obtain r where r: "fill_children nexts (i + 1) bs = Some r" "length r = length bs" "list_all tree_ok r"
    "concat (map block_ops r) = concat (map block_ops (drop (2 * (i + 1)) nexts))"
    "\<forall>b \<in> set r. \<exists>l r. b = Inner l r"
    using Cons.IH [of "i + 1"] Cons.prems by auto
  have len: "2 * i < length nexts" "Suc (2 * i) < length nexts" using Cons.prems by auto
  have "drop (2 * i) nexts = nexts ! (2 * i) # nexts ! Suc (2 * i) # drop (2 * (i + 1)) nexts"
    using Cons_nth_drop_Suc [OF len(1)] Cons_nth_drop_Suc [OF len(2)] by simp
  moreover have "tree_ok (nexts ! (2 * i))" "tree_ok (nexts ! Suc (2 * i))"
    using Cons.prems(2) len by (auto simp: list_all_length)
  ultimately show ?case using r len by (simp add: mult.commute [of i 2])
qed simp

definition phase_blocks :: "nat \<Rightarrow> OperationBody list \<Rightarrow> nat \<Rightarrow> CompactionBlock list" where
  "phase_blocks height log actualPhase = map (\<lambda>j.
     if actualPhase = 0 then Inner None None
     else if actualPhase + 1 = height then leaf log j (2 ^ actualPhase) else Inner None None) [0..<2 ^ actualPhase]"

lemma tree_ok_leaf [simp]: "tree_ok (leaf log j T)"
  by (simp add: leaf_def Let_def)

lemma phases_filled:
  "d < height \<Longrightarrow> 2 \<le> height \<Longrightarrow>
   \<exists>bs. fillTreeChilds (map (phase_blocks height log) [height - 1 - d..<height]) = Some bs \<and>
     length bs = 2 ^ (height - 1 - d) \<and> list_all tree_ok bs \<and> concat (map block_ops bs) = log \<and>
     (0 < d \<longrightarrow> (\<forall>b \<in> set bs. \<exists>l r. b = Inner l r))"
proof (induction d)
  case 0
  then have u: "[height - Suc 0..<height] = [height - Suc 0]" by (cases height) auto
  have "phase_blocks height log (height - 1) = map (\<lambda>j. leaf log j (2 ^ (height - 1))) [0..<2 ^ (height - 1)]"
    using 0 by (simp add: phase_blocks_def)
  then show ?case using leaves_concat [of "2 ^ (height - 1)" log] by (simp add: u list_all_iff comp_def)
next
  case (Suc d)
  define p where "p = height - 1 - Suc d"
  have p: "height - 1 - d = Suc p" "Suc p < height" using Suc.prems by (auto simp: p_def)
  obtain bs where bs: "fillTreeChilds (map (phase_blocks height log) [Suc p..<height]) = Some bs"
    "length bs = 2 ^ Suc p" "list_all tree_ok bs" "concat (map block_ops bs) = log"
    using Suc unfolding p by auto
  have u: "[p..<height] = p # Suc p # [Suc (Suc p)..<height]" using p by (simp add: upt_rec)
  have u': "[Suc p..<height] = Suc p # [Suc (Suc p)..<height]" using p by (simp add: upt_rec)
  have "length bs = 2 * (0 + length (phase_blocks height log p))" using bs(2) by (simp add: phase_blocks_def)
  from fill_children_spec [OF this bs(3)]
  obtain r where r: "fill_children bs 0 (phase_blocks height log p) = Some r" "length r = 2 ^ p" "list_all tree_ok r"
    "concat (map block_ops r) = log" "\<forall>b \<in> set r. \<exists>l r. b = Inner l r"
    using bs(4) by (auto simp: phase_blocks_def)
  have "fillTreeChilds (map (phase_blocks height log) [p..<height]) = Some r" using bs(1) r(1) by (simp add: u u')
  then show ?case unfolding p_def [symmetric] using r by blast
qed

definition some_threads :: "nat \<Rightarrow> bool" where
  "some_threads n \<longleftrightarrow> 0 < n \<and> n < 2 ^ 30"

lemma compaction_tree:
  assumes "some_threads numberThreads"
  shows "\<exists>l r. createCompactionTree numberThreads log = Some (Inner l r) \<and> tree_ok (Inner l r) \<and> block_ops (Inner l r) = log"
proof -
  define height where "height = flog2 numberThreads + 2"
  have b: "createBlocksByPhaseMap numberThreads log = Some (map (phase_blocks height log) [height - 1 - (height - 1)..<height])"
    using assms by (simp add: createBlocksByPhaseMap_def Let_def height_def phase_blocks_def some_threads_def)
  obtain bs where bs: "fillTreeChilds (map (phase_blocks height log) [height - 1 - (height - 1)..<height]) = Some bs" "length bs = 1"
    "list_all tree_ok bs" "concat (map block_ops bs) = log" "\<forall>b \<in> set bs. \<exists>l r. b = Inner l r"
    using phases_filled [of "height - 1" height log] by (auto simp: height_def)
  then obtain x where "bs = [x]" by (auto simp: length_Suc_conv)
  then show ?thesis using bs by (auto simp: createCompactionTree_def b)
qed

section \<open>Compaction over an order of keys\<close>

locale compaction = key_order lt keys for lt :: key_less and keys
begin

definition loop_ts :: "(SimpleString \<times> u64) list \<Rightarrow> OperationBody list \<Rightarrow> SimpleString \<Rightarrow> u64 option" where
  "loop_ts ts ops k = (case om_get lt k ts of Some t \<Rightarrow> Some t
     | None \<Rightarrow> map_option timestamp (find (\<lambda>op. op_key op = Some k) ops))"

definition loop_op ::
  "(SimpleString \<times> OperationBody) list \<Rightarrow> (SimpleString \<times> u64) list \<Rightarrow> OperationBody list \<Rightarrow> SimpleString \<Rightarrow>
     OperationBody option" where
  "loop_op m ts ops k = (case om_get lt k ts of Some t \<Rightarrow> om_get lt k m
     | None \<Rightarrow> (case find (\<lambda>op. op_key op = Some k) ops of Some op \<Rightarrow> Some op | None \<Rightarrow> om_get lt k m))"

definition not_newer :: "(SimpleString \<times> u64) list \<Rightarrow> OperationBody list \<Rightarrow> bool" where
  "not_newer ts ops \<longleftrightarrow>
     (\<forall>op \<in> set ops. \<forall>k t. op_key op = Some k \<longrightarrow> om_get lt k ts = Some t \<longrightarrow> timestamp op \<le> t)"

lemma loop_new:
  assumes "om_ok m" "om_ok ts" "k \<in> keys" "q \<in> keys" "op_key op = Some k" "om_get lt k ts = None"
  shows "loop_ts (om_put lt k (timestamp op) ts) ops q = loop_ts ts (op # ops) q"
    and "loop_op (om_put lt k op m) (om_put lt k (timestamp op) ts) ops q = loop_op m ts (op # ops) q"
  using assms om_get_put [OF assms(1,3,4), of op] om_get_put [OF assms(2,3,4), of "timestamp op"]
  by (cases "q = k"; auto simp: loop_ts_def loop_op_def split: option.split)+

lemma loop_skip:
  assumes "op_key op = Some k" "om_get lt k ts = Some t"
  shows "loop_ts ts (op # ops) = loop_ts ts ops" and "loop_op m ts (op # ops) = loop_op m ts ops"
  using assms by (auto simp: loop_ts_def loop_op_def fun_eq_iff split: option.split)

lemma compact_loop_spec:
  assumes "om_ok m" and "om_ok ts" and "keyed keys ops" and "in_order (rev ops)" and "not_newer ts ops"
  shows "\<exists>m' ts'. compact_loop lt ops m ts = Some (m', ts') \<and> om_ok m' \<and> om_ok ts' \<and>
    (\<forall>k \<in> keys. om_get lt k ts' = loop_ts ts ops k \<and> om_get lt k m' = loop_op m ts ops k)"
  using assms
proof (induction ops arbitrary: m ts)
  case Nil
  then show ?case by (auto simp: loop_ts_def loop_op_def split: option.split)
next
  case (Cons op ops)
  obtain k where k: "op_key op = Some k" "k \<in> keys" using Cons.prems(3) by (auto simp: keyed_def)
  have rest: "keyed keys ops" using Cons.prems(3) by (auto simp: keyed_def)
  note ord = in_order_rev_Cons [OF Cons.prems(4)]
  show ?case
  proof (cases "om_get lt k ts")
    case None
    let ?m = "om_put lt k op m" and ?ts = "om_put lt k (timestamp op) ts"
    have ok: "om_ok ?m" "om_ok ?ts" by (rule om_put_ok [OF _ k(2)], rule Cons.prems)+
    have "timestamp op' \<le> t" if o: "op' \<in> set ops" "op_key op' = Some q" "om_get lt q ?ts = Some t" for op' q t
    proof (cases "q = k")
      case True
      then show ?thesis using o om_get_put [OF Cons.prems(2) k(2) k(2)] ord(2) k(1) by auto
    next
      case False
      have "q \<in> keys" using rest o by (auto simp: keyed_def)
      then show ?thesis using o False om_get_put [OF Cons.prems(2) k(2)] Cons.prems(5) by (auto simp: not_newer_def)
    qed
    then have "not_newer ?ts ops" by (auto simp: not_newer_def)
    then show ?thesis
      using Cons.IH [OF ok rest ord(1)] loop_new [OF Cons.prems(1,2) k(2) _ k(1) None] None k(1) by auto
  next
    case (Some t)
    then have "\<not> t < timestamp op" using Cons.prems(5) k(1) by (auto simp: not_less not_newer_def)
    then have skip: "compact_loop lt (op # ops) m ts = compact_loop lt ops m ts" using Some k(1) by simp
    have later: "not_newer ts ops" using Cons.prems(5) by (simp add: not_newer_def)
    show ?thesis
      unfolding skip loop_skip [OF k(1) Some] by (rule Cons.IH [OF Cons.prems(1,2) rest ord(1) later])
  qed
qed

lemma compact_spec:
  assumes "om_ok ts" and "keyed keys ops" and "in_order ops"
    and "not_newer ts ops"
  shows "\<exists>out ts'. compact lt ops compacted ts = Some (compacted @ out, ts') \<and> om_ok ts' \<and>
    represents out (\<lambda>k. if om_get lt k ts = None then latest ops k else None) \<and>
    (\<forall>k \<in> keys. om_get lt k ts' = (case om_get lt k ts of Some t \<Rightarrow> Some t
        | None \<Rightarrow> map_option timestamp (latest ops k)))"
proof -
  have "keyed keys (rev ops)" "in_order (rev (rev ops))" "not_newer ts (rev ops)"
    using assms by (auto simp: keyed_def not_newer_def)
  from compact_loop_spec [OF om_ok_Nil assms(1) this]
  obtain m ts' where r: "compact_loop lt (rev ops) [] ts = Some (m, ts')" "om_ok m" "om_ok ts'"
    and loop: "\<And>k. k \<in> keys \<Longrightarrow> om_get lt k ts' = loop_ts ts (rev ops) k \<and> om_get lt k m = loop_op [] ts (rev ops) k"
    by blast
  have spec: "om_get lt k ts' = (case om_get lt k ts of Some t \<Rightarrow> Some t | None \<Rightarrow> map_option timestamp (latest ops k))"
    "om_get lt k m = (case om_get lt k ts of Some t \<Rightarrow> None | None \<Rightarrow> latest ops k)" if "k \<in> keys" for k
    using loop [OF that] by (auto simp: latest_def loop_ts_def loop_op_def split: option.split)
  have inkeys: "k \<in> keys" if "latest ops k = Some op" for k op
    using latest_key [OF that] assms(2) by (auto simp: keyed_def)
  have m: "(k, op) \<in> set m \<longleftrightarrow> om_get lt k ts = None \<and> latest ops k = Some op" for k op
  proof (cases "k \<in> keys")
    case True
    then show ?thesis using om_get_iff [OF r(2) True] spec [OF True] by (auto split: option.splits)
  next
    case False
    then show ?thesis using r(2) inkeys by (force simp: om_ok_def)
  qed
  have key: "op_key (snd e) = Some (fst e)" if "e \<in> set m" for e
    using that m [of "fst e" "snd e"] latest_key by auto
  have "distinct (map op_key (map snd m))"
    using om_ok_distinct [OF r(2)] key by (auto simp: distinct_map inj_on_def)
  moreover have "op \<in> set (map snd m) \<longleftrightarrow> (\<exists>k. op_key op = Some k \<and> om_get lt k ts = None \<and> latest ops k = Some op)" for op
    using m key by force
  ultimately have "represents (map snd m) (\<lambda>k. if om_get lt k ts = None then latest ops k else None)"
    unfolding represents_def by auto
  then show ?thesis using r spec(1) by (auto simp: compact_def)
qed

lemma compact_alone:
  assumes "keyed keys ops" and "in_order ops"
  shows "\<exists>out ts'. compact lt ops [] [] = Some (out, ts') \<and> om_ok ts' \<and> represents out (latest ops) \<and>
    (\<forall>k \<in> keys. om_get lt k ts' = map_option timestamp (latest ops k))"
  using compact_spec [OF om_ok_Nil assms, unfolded not_newer_def, of "[]"] by simp

lemma represents_merge:
  assumes "represents out (latest right)" and "represents out' (\<lambda>k. if latest right k = None then latest left k else None)"
  shows "represents (out @ out') (latest (left @ right))"
proof -
  have "op_key x \<noteq> op_key y" if "x \<in> set out" "y \<in> set out'" for x y
    using assms that by (auto simp: represents_def split: if_splits)
  then have "distinct (map op_key (out @ out'))" using assms by (force simp: represents_def)
  moreover have "op \<in> set (out @ out') \<longleftrightarrow> (\<exists>k. op_key op = Some k \<and> latest (left @ right) k = Some op)" for op
  proof (cases "op_key op")
    case None
    then show ?thesis using assms by (simp add: represents_def)
  next
    case (Some k)
    then show ?thesis using assms by (cases "latest right k") (simp_all add: represents_def latest_append)
  qed
  ultimately show ?thesis unfolding represents_def by blast
qed

lemma block_get_spec:
  "tree_ok b \<Longrightarrow> keyed keys (block_ops b) \<Longrightarrow> in_order (block_ops b) \<Longrightarrow>
   \<exists>out. block_get lt b = Some out \<and> faithful out (block_ops b) \<and>
     (\<forall>l r. b = Inner l r \<longrightarrow> represents out (latest (block_ops b)))"
proof (induction b rule: block_ops.induct)
  case (1 ops)
  then show ?case by (simp add: faithful_def)
next
  case (2 l r)
  have kl: "keyed keys (block_ops l)" "keyed keys (block_ops r)" using "2.prems" by (auto simp: keyed_def)
  have "in_order (block_ops l @ block_ops r)" using "2.prems"(3) by simp
  then have ol: "in_order (block_ops l)" "in_order (block_ops r)" by (blast dest: in_order_append)+
  obtain lo where l: "block_get lt l = Some lo" "faithful lo (block_ops l)"
    using "2.IH"(1) [OF _ kl(1) ol(1)] "2.prems"(1) tree_ok.simps(2) by blast
  obtain ro where r: "block_get lt r = Some ro" "faithful ro (block_ops r)"
    using "2.IH"(2) [OF _ kl(2) ol(2)] "2.prems"(1) tree_ok.simps(2) by blast
  note fl = faithful_ops [OF l(2) kl(1)] and fr = faithful_ops [OF r(2) kl(2)]
  obtain out ts where c1: "compact lt ro [] [] = Some (out, ts)" "om_ok ts" "represents out (latest (block_ops r))"
    "\<forall>k \<in> keys. om_get lt k ts = map_option timestamp (latest (block_ops r) k)"
    using compact_alone [OF fr(1,2)] fr(3) by auto
  have none: "om_get lt k ts = None \<longleftrightarrow> latest (block_ops r) k = None" if "k \<in> keys" for k
    using c1(4) that by auto
  have "not_newer ts lo"
    unfolding not_newer_def
  proof (intro ballI allI impI)
    fix op k t assume o: "op \<in> set lo" "op_key op = Some k" "om_get lt k ts = Some t"
    then have "k \<in> keys" using fl(1) by (auto simp: keyed_def)
    then obtain op' where op': "latest (block_ops r) k = Some op'" "timestamp op' = t" using o(3) c1(4) by auto
    have "op \<in> set (block_ops l)" using o(1) l(2) by (auto simp: faithful_def)
    then show "timestamp op \<le> t"
      using in_order_across [of "block_ops l" "block_ops r" op op' k] "2.prems"(3) latest_key [OF op'(1)] o(2) op'(2) by auto
  qed
  then obtain out' ts' where c2: "compact lt lo out ts = Some (out @ out', ts')"
    "represents out' (\<lambda>k. if om_get lt k ts = None then latest (block_ops l) k else None)"
    using compact_spec [OF c1(2) fl(1,2), of out] unfolding fl(3) by blast
  have "(\<lambda>k. if om_get lt k ts = None then latest (block_ops l) k else None) =
        (\<lambda>k. if latest (block_ops r) k = None then latest (block_ops l) k else None)"
  proof
    fix k
    have "k \<in> keys" if "latest (block_ops l) k = Some op" for op
      using latest_key [OF that] kl(1) by (auto simp: keyed_def)
    then show "(if om_get lt k ts = None then latest (block_ops l) k else None) =
        (if latest (block_ops r) k = None then latest (block_ops l) k else None)"
      using none by (cases "latest (block_ops l) k") auto
  qed
  then have "represents (out @ out') (latest (block_ops l @ block_ops r))"
    using represents_merge [OF c1(3)] c2(2) by simp
  then show ?case using l r c1(1) c2(1) represents_faithful by auto
qed auto

lemma multiThreaded_spec:
  assumes "keyed keys log" and "in_order log" and "some_threads numberThreads"
  shows "\<exists>out. multiThreaded_compact lt numberThreads log = Some out \<and> represents out (latest log)"
proof -
  obtain l r where t: "createCompactionTree numberThreads log = Some (Inner l r)"
    "tree_ok (Inner l r)" "block_ops (Inner l r) = log"
    using compaction_tree [OF assms(3)] by blast
  then show ?thesis using block_get_spec [OF t(2)] assms(1,2) by (auto simp: multiThreaded_compact_def)
qed

lemma oplog_compact_spec:
  assumes "keyed keys log" and "in_order log" and "some_threads numberThreads"
  shows "\<exists>out. oplog_compact lt numberThreads log = Some out \<and> represents out (latest log)"
proof (cases "length log > 10")
  case True
  then show ?thesis using multiThreaded_spec [OF assms] by (simp add: oplog_compact_def)
next
  case False
  then show ?thesis using compact_alone [OF assms(1,2)] by (auto simp: oplog_compact_def)
qed

end

section \<open>Keys that carry their terminator\<close>

text \<open>The buffer of a key ends where the key ends, and \<^verbatim>\<open>strcmp\<close> reads on until it meets a zero byte. Keys whose last
  byte is their only zero byte keep it inside: on these it is the lexicographic order, whatever lies behind
  the buffers.\<close>

definition terminated_keys :: "SimpleString set" where
  "terminated_keys = {k. k \<noteq> [] \<and> last k = 0 \<and> 0 \<notin> set (butlast k)}"

lemma strcmp_irrefl: "\<not> strcmp_less (a @ 0 # r) (a @ 0 # r')"
  by (induction a) auto

lemma strcmp_total:
  "0 \<notin> set a \<Longrightarrow> 0 \<notin> set b \<Longrightarrow> a \<noteq> b \<Longrightarrow>
   strcmp_less (a @ 0 # r) (b @ 0 # r') \<or> strcmp_less (b @ 0 # r') (a @ 0 # r)"
proof (induction a arbitrary: b)
  case Nil
  then show ?case by (cases b) (auto simp: word_gt_0)
next
  case (Cons x a)
  then show ?case by (cases b) (auto simp: word_gt_0)
qed

lemma strcmp_trans:
  "0 \<notin> set a \<Longrightarrow> 0 \<notin> set b \<Longrightarrow> 0 \<notin> set c \<Longrightarrow> strcmp_less (a @ 0 # r) (b @ 0 # r') \<Longrightarrow>
   strcmp_less (b @ 0 # r') (c @ 0 # r'') \<Longrightarrow> strcmp_less (a @ 0 # r) (c @ 0 # r'')"
proof (induction a arbitrary: b c)
  case Nil
  then show ?case by (cases b; cases c) (auto simp: word_gt_0)
next
  case (Cons x a)
  then show ?case
    by (cases b; cases c) (auto simp: word_gt_0 split: if_splits dest: less_trans)
qed

lemma terminated_keysE:
  assumes "k \<in> terminated_keys"
  obtains w where "k = w @ [0]" and "0 \<notin> set w"
proof (rule that [of "butlast k"])
  show "k = butlast k @ [0]" using assms append_butlast_last_id [of k] by (simp add: terminated_keys_def)
  show "0 \<notin> set (butlast k)" using assms by (simp add: terminated_keys_def)
qed

lemma strcmp_inside:
  "0 \<notin> set a \<Longrightarrow> 0 \<notin> set b \<Longrightarrow> strcmp_less (a @ 0 # r) (b @ 0 # r') = strcmp_less (a @ [0]) (b @ [0])"
proof (induction a arbitrary: b)
  case Nil
  then show ?case by (cases b) auto
next
  case (Cons x a)
  then show ?case by (cases b) auto
qed

lemma ss_less_inside:
  "a \<in> terminated_keys \<Longrightarrow> b \<in> terminated_keys \<Longrightarrow> ss_less after a b = ss_less (\<lambda>k. []) a b"
  using strcmp_inside [of _ _ "after a" "after b"] by (elim terminated_keysE) (simp add: ss_less_def)

interpretation log_compaction: compaction "ss_less after" terminated_keys for after
proof unfold_locales
  fix a b c :: SimpleString assume "a \<in> terminated_keys"
  then obtain wa where a: "a = wa @ [0]" "0 \<notin> set wa" by (rule terminated_keysE)
  show "\<not> ss_less after a a" by (simp add: ss_less_def a strcmp_irrefl)
  assume "b \<in> terminated_keys"
  then obtain wb where b: "b = wb @ [0]" "0 \<notin> set wb" by (rule terminated_keysE)
  show "ss_less after a b \<or> ss_less after b a" if "a \<noteq> b"
    using strcmp_total [OF a(2) b(2)] that by (simp add: ss_less_def a(1) b(1))
  assume "c \<in> terminated_keys"
  then obtain wc where c: "c = wc @ [0]" "0 \<notin> set wc" by (rule terminated_keysE)
  show "ss_less after a c" if "ss_less after a b" "ss_less after b c"
    using that strcmp_trans [OF a(2) b(2) c(2)] by (simp add: ss_less_def a(1) b(1) c(1))
qed

section \<open>A log for the witnesses\<close>

definition sample_op :: "u8 \<Rightarrow> u64 \<Rightarrow> OperationBody" where
  "sample_op k t = \<lparr>args = Some [[k], [1]], timestamp = t, op_nodeId = 1, operatorNumber = 1, op_flag1 = False, op_flag2 = False\<rparr>"

lemma sample_op_simps [simp]: "op_key (sample_op k t) = Some [k]" "timestamp (sample_op k t) = t"
  by (simp_all add: sample_op_def op_key_def)

definition terminated_op :: "u8 \<Rightarrow> u64 \<Rightarrow> OperationBody" where
  "terminated_op k t = (sample_op k t)\<lparr>args := Some [[k, 0], [1]]\<rparr>"

definition terminated_log :: "OperationBody list" where
  "terminated_log = [terminated_op 97 1, terminated_op 98 4, terminated_op 97 3]"

lemma terminated_op_simps [simp]: "op_key (terminated_op k t) = Some [k, 0]" "timestamp (terminated_op k t) = t"
  by (simp_all add: terminated_op_def sample_op_def op_key_def)

lemma terminated_log_ok: "keyed terminated_keys terminated_log" "in_order terminated_log"
  by (auto simp: keyed_def terminated_keys_def in_order_def terminated_log_def)

section \<open>Properties\<close>

text \<open>C10. Compaction loses no write: for a log whose keys carry their terminator and in which the timestamps of each key do
  not decrease, the compacted log holds exactly one operation per key of the log, its last one, whichever of the two
  compactors runs, for any number of threads from one up and whatever lies in memory behind the keys.\<close>

theorem compaction_keeps_last_writes:
  assumes "keyed terminated_keys log" and "in_order log" and "some_threads numberThreads"
  shows "\<exists>out. oplog_compact (ss_less after) numberThreads log = Some out \<and> represents out (latest log)"
  by (rule log_compaction.oplog_compact_spec [OF assms])

theorem compaction_keeps_last_writes_witness:
  "\<exists>out. oplog_compact (ss_less (\<lambda>k. [7, 0])) 4 terminated_log = Some out \<and> represents out (latest terminated_log)"
  by (rule compaction_keeps_last_writes [OF terminated_log_ok]) (simp add: some_threads_def)

text \<open>C15. The multi-threaded compaction is equivalent to the single-threaded one: on such a log, with one thread or more, both
  return the same operations, possibly in another order.\<close>

theorem multithreaded_compaction_equivalent:
  assumes "keyed terminated_keys log" and "in_order log" and "some_threads numberThreads"
  shows "\<exists>out out' ts. multiThreaded_compact (ss_less after) numberThreads log = Some out \<and>
    compact (ss_less after) log [] [] = Some (out', ts) \<and> mset out = mset out'"
proof -
  obtain out where "multiThreaded_compact (ss_less after) numberThreads log = Some out" "represents out (latest log)"
    using log_compaction.multiThreaded_spec [OF assms] by blast
  moreover obtain out' ts where "compact (ss_less after) log [] [] = Some (out', ts)" "represents out' (latest log)"
    using log_compaction.compact_alone [OF assms(1,2)] by blast
  ultimately show ?thesis using represents_unique by blast
qed

theorem multithreaded_compaction_equivalent_witness:
  "\<exists>out out' ts. multiThreaded_compact (ss_less (\<lambda>k. [7, 0])) 4 terminated_log = Some out \<and>
     compact (ss_less (\<lambda>k. [7, 0])) terminated_log [] [] = Some (out', ts) \<and> mset out = mset out'"
  by (rule multithreaded_compaction_equivalent [OF terminated_log_ok]) (simp add: some_threads_def)

text \<open>The recorded timestamp of a key is the one of the last operation in the log and is never raised:
  of three operations of a key whose last is older than the other two, the first is kept, even when
  the second is the newest.\<close>

theorem compaction_keeps_stale_write:
  assumes "op_key a = Some k" and "op_key b = Some k" and "op_key c = Some k" and "\<not> lt k k"
    and "timestamp c < timestamp a" and "timestamp a < timestamp b"
  shows "\<exists>ts. compact lt [a, b, c] [] [] = Some ([a], ts)"
  using assms less_trans [OF assms(5,6)] by (simp add: compact_def)

theorem compaction_keeps_stale_write_witness:
  "\<exists>ts. compact (ss_less (\<lambda>k. [0])) [sample_op 97 5, sample_op 97 9, sample_op 97 3] [] [] = Some ([sample_op 97 5], ts)"
  by (rule compaction_keeps_stale_write [where k = "[97]"]) (simp_all add: ss_less_def)

end
