(* ===== verification/Segments.thy ===== *)
theory Segments
  imports Files Compaction
begin

text \<open>
  The segments of the operation log on disk (\<^verbatim>\<open>persistence/segments\<close>): the descriptors and
  their codec, the reader, the writer, the repair of a corrupted segment and the search by
  timestamp. CRC, zlib and the number of hardware threads are parameters.
\<close>

section \<open>Descriptors\<close>

record OplogIndexSegmentDescriptor =
  desc_min :: u64
  desc_max :: u64
  desc_ptr :: u64
  desc_crc :: u32
  desc_size :: u32
  desc_uncompressedSize :: u32
  desc_flags :: u32

definition desc_hasFlag :: "OplogIndexSegmentDescriptor \<Rightarrow> u32 \<Rightarrow> bool" where
  "desc_hasFlag d flag \<longleftrightarrow> (desc_flags d AND flag) = flag"

definition descriptor_size :: nat where
  "descriptor_size = 40"

definition serialize_descriptor :: "OplogIndexSegmentDescriptor \<Rightarrow> bytes" where
  "serialize_descriptor descriptor =
     (let bytes = [];
          bytes = appendToBuffer (desc_min descriptor) bytes;
          bytes = appendToBuffer (desc_max descriptor) bytes;
          bytes = appendToBuffer (desc_ptr descriptor) bytes;
          bytes = appendToBuffer (desc_crc descriptor) bytes;
          bytes = appendToBuffer (desc_size descriptor) bytes;
          bytes = appendToBuffer (desc_uncompressedSize descriptor) bytes;
          bytes = appendToBuffer (desc_flags descriptor) bytes
      in bytes)"

definition deserialize_descriptor :: "bytes \<Rightarrow> OplogIndexSegmentDescriptor option" where
  "deserialize_descriptor p = do {
     mn \<leftarrow> parse p;
     mx \<leftarrow> parse (drop 8 p);
     pt \<leftarrow> parse (drop 16 p);
     c \<leftarrow> parse (drop 24 p);
     s \<leftarrow> parse (drop 28 p);
     us \<leftarrow> parse (drop 32 p);
     fl \<leftarrow> parse (drop 36 p);
     Some \<lparr>desc_min = mn, desc_max = mx, desc_ptr = pt, desc_crc = c, desc_size = s,
           desc_uncompressedSize = us, desc_flags = fl\<rparr> }"

definition deserialize_descriptors :: "bytes \<Rightarrow> OplogIndexSegmentDescriptor list option" where
  "deserialize_descriptors bytes =
     those (map (\<lambda>i. deserialize_descriptor (drop (i * descriptor_size) bytes)) [0..<length bytes div descriptor_size])"

section \<open>The segment files\<close>

definition INDEX_FILE_NAME :: string where
  "INDEX_FILE_NAME = ''oplog-index''"

definition DATA_FILE_NAME :: string where
  "DATA_FILE_NAME = ''oplog-data''"

record OplogIndexSegment =
  memdDbBasePath :: string
  seg_partitionPath :: string
  writeLock :: bool

definition fullPathIndex :: "OplogIndexSegment \<Rightarrow> string" where
  "fullPathIndex seg = seg_partitionPath seg @ ''/'' @ INDEX_FILE_NAME"

definition fullPathData :: "OplogIndexSegment \<Rightarrow> string" where
  "fullPathData seg = seg_partitionPath seg @ ''/'' @ DATA_FILE_NAME"

text \<open>\<^verbatim>\<open>initializeFiles\<close> of the three classes that keep files in the directory of a partition.\<close>

definition ensure_dir :: "string \<Rightarrow> FileSystem \<Rightarrow> FileSystem" where
  "ensure_dir path fs = (if \<not> fs_exists path fs then createDirectory path fs else fs)"

definition ensure_file :: "string \<Rightarrow> string \<Rightarrow> FileSystem \<Rightarrow> (io_error + FileSystem) option" where
  "ensure_file dir name fs =
     (if \<not> fs_exists (dir @ ''/'' @ name) fs then createFile dir name fs else Some (Inr fs))"

definition segment_initializeFiles :: "OplogIndexSegment \<Rightarrow> FileSystem \<Rightarrow> (io_error + FileSystem) option" where
  "segment_initializeFiles seg fs =
     (let fs = ensure_dir (memdDbBasePath seg) fs;
          fs = ensure_dir (seg_partitionPath seg) fs
      in do {
        r \<leftarrow> ensure_file (seg_partitionPath seg) INDEX_FILE_NAME fs;
        (case r of Inl e \<Rightarrow> Some (Inl e) | Inr fs \<Rightarrow> ensure_file (seg_partitionPath seg) DATA_FILE_NAME fs) })"

definition partition_path :: "string \<Rightarrow> u32 \<Rightarrow> string" where
  "partition_path base oplogId = base @ ''/'' @ to_string (unat oplogId)"

definition new_OplogIndexSegment ::
  "string \<Rightarrow> u32 \<Rightarrow> FileSystem \<Rightarrow> (io_error + OplogIndexSegment \<times> FileSystem) option" where
  "new_OplogIndexSegment dataPath oplogId fs =
     (let seg = \<lparr>memdDbBasePath = dataPath, seg_partitionPath = partition_path dataPath oplogId, writeLock = False\<rparr>
      in do {
        r \<leftarrow> segment_initializeFiles seg fs;
        Some (case r of Inl e \<Rightarrow> Inl e | Inr fs \<Rightarrow> Inr (seg, fs)) })"

section \<open>Reader\<close>

definition readIndexAt :: "OplogIndexSegment \<Rightarrow> FileSystem \<Rightarrow> u64 \<Rightarrow> OplogIndexSegmentDescriptor option" where
  "readIndexAt seg fs ptr = do {
     bytes \<leftarrow> seekBytes (fullPathIndex seg) ptr (of_nat descriptor_size) fs;
     deserialize_descriptor bytes }"

definition readAllIndexBetween ::
  "OplogIndexSegment \<Rightarrow> FileSystem \<Rightarrow> u64 \<Rightarrow> u64 \<Rightarrow> OplogIndexSegmentDescriptor list option" where
  "readAllIndexBetween seg fs fromPtr toPtr =
     (if fromPtr = toPtr then do {
        bytes \<leftarrow> seekBytes (fullPathIndex seg) fromPtr (of_nat descriptor_size) fs;
        deserialize_descriptors bytes }
      else if toPtr < fromPtr \<or> toPtr - fromPtr < of_nat descriptor_size then Some []
      else do {
        let toPtr = toPtr + of_nat descriptor_size;
        let totalToRead = toPtr - fromPtr;
        bytes \<leftarrow> seekBytes (fullPathIndex seg) fromPtr totalToRead fs;
        deserialize_descriptors bytes })"

definition readAllIndexFrom :: "OplogIndexSegment \<Rightarrow> FileSystem \<Rightarrow> u64 \<Rightarrow> OplogIndexSegmentDescriptor list option" where
  "readAllIndexFrom seg fs ptr = do {
     let totalToRead = file_size (seg_partitionPath seg) INDEX_FILE_NAME fs - ptr;
     bytes \<leftarrow> seekBytes (fullPathIndex seg) ptr totalToRead fs;
     deserialize_descriptors bytes }"

definition readAllIndex :: "OplogIndexSegment \<Rightarrow> FileSystem \<Rightarrow> OplogIndexSegmentDescriptor list option" where
  "readAllIndex seg fs = deserialize_descriptors (readBytes (fullPathIndex seg) fs)"

text \<open>The outer option is the failure of the read itself, the inner one the result of the CRC test.\<close>

definition readBytesDataByDescriptor ::
  "(bytes \<Rightarrow> u32) \<Rightarrow> OplogIndexSegment \<Rightarrow> FileSystem \<Rightarrow> OplogIndexSegmentDescriptor \<Rightarrow> bytes option option" where
  "readBytesDataByDescriptor crc seg fs descriptor = do {
     bytes \<leftarrow> seekBytes (fullPathData seg) (desc_ptr descriptor) (ucast (desc_size descriptor)) fs;
     Some (if crc bytes = desc_crc descriptor then Some bytes else None) }"

section \<open>Writer\<close>

text \<open>What the writer needs from outside: CRC, zlib, the machine's shift, the memory behind a key and
  the number of threads.\<close>

record environment =
  env_crc :: "bytes \<Rightarrow> u32"
  env_compress :: "bytes \<Rightarrow> int \<times> bytes"
  env_uncompress :: "nat \<Rightarrow> bytes \<Rightarrow> int \<times> bytes"
  env_shl :: "u32 \<Rightarrow> nat \<Rightarrow> u32"
  env_after :: "SimpleString \<Rightarrow> bytes"
  env_threads :: nat

text \<open>The result is the new state and the exception that was thrown, if any; \<^term>\<open>None\<close> is a call
  that does not return. \<^verbatim>\<open>std::sort\<close> leaves the order of equal timestamps open; the sort here is a stable one, and
  what is proved of the result is a permutation sorted by timestamp, which any choice gives.\<close>

definition segment_write ::
  "environment \<Rightarrow> bytes \<Rightarrow> OplogIndexSegment \<times> FileSystem \<Rightarrow>
     (OplogIndexSegment \<times> FileSystem \<times> io_error option) option" where
  "segment_write env toWrite = (\<lambda>(seg, fs). do {
     operations \<leftarrow> deserializeAll (env_shl env) toWrite;
     compacted \<leftarrow> oplog_compact (ss_less (env_after env)) (env_threads env) operations;
     let compacted = sort_key timestamp compacted;
     compactedSerialized \<leftarrow> serializeAll compacted;
     (case compressBytes (env_compress env) compactedSerialized of
        Inl ret \<Rightarrow> Some (seg, fs, Some (CompressionFailed ret))
      | Inr compressed \<Rightarrow>
          if writeLock seg then None
          else let seg = seg\<lparr>writeLock := True\<rparr> in
            if compacted = [] then Some (seg, fs, Some OutOfRange)
            else let descriptor =
                   \<lparr>desc_min = timestamp (hd compacted), desc_max = timestamp (last compacted),
                    desc_ptr = file_size (seg_partitionPath seg) DATA_FILE_NAME fs,
                    desc_crc = env_crc env compressed, desc_size = word_of_nat (length compressed),
                    desc_uncompressedSize = word_of_nat (length compactedSerialized), desc_flags = 0\<rparr>;
                  descriptorSerialized = serialize_descriptor descriptor;
                  fs = appendBytes (fullPathData seg) compressed fs;
                  fs = appendBytes (fullPathIndex seg) descriptorSerialized fs
              in Some (seg\<lparr>writeLock := False\<rparr>, fs, None)) })"

definition segment_updateCorrupted ::
  "environment \<Rightarrow> u32 \<Rightarrow> u64 \<Rightarrow> OplogIndexSegmentDescriptor \<Rightarrow> bytes \<Rightarrow> OplogIndexSegment \<times> FileSystem \<Rightarrow>
     (OplogIndexSegment \<times> FileSystem \<times> io_error option) option" where
  "segment_updateCorrupted env uncompressedSize indexSegmentDescriptorPtr corruptedDescriptor uncorruptedBytes = (\<lambda>(seg, fs).
     if writeLock seg then None
     else let seg = seg\<lparr>writeLock := True\<rparr>;
            corruptedDescriptor = corruptedDescriptor\<lparr>desc_uncompressedSize := uncompressedSize,
              desc_size := word_of_nat (length uncorruptedBytes), desc_crc := env_crc env uncorruptedBytes,
              desc_ptr := file_size (seg_partitionPath seg) DATA_FILE_NAME fs\<rparr>;
            descriptorSerialized = serialize_descriptor corruptedDescriptor;
            fs = appendBytes (fullPathData seg) uncorruptedBytes fs
        in (case writeBytesAt (fullPathIndex seg) indexSegmentDescriptorPtr descriptorSerialized fs of
              Inl e \<Rightarrow> Some (seg, fs, Some e)
            | Inr fs \<Rightarrow> Some (seg\<lparr>writeLock := False\<rparr>, fs, None)))"

section \<open>OplogIndexSegment\<close>

definition save ::
  "environment \<Rightarrow> bytes \<Rightarrow> OplogIndexSegment \<times> FileSystem \<Rightarrow>
     (OplogIndexSegment \<times> FileSystem \<times> io_error option) option" where
  "save env toSave = segment_write env toSave"

record OplogSegmentBinarySearchResult =
  found :: bool
  found_ptr :: u64

definition out_of :: "u64 \<Rightarrow> OplogIndexSegmentDescriptor \<Rightarrow> bool" where
  "out_of ts actualDesc \<longleftrightarrow>
     (desc_min actualDesc < ts \<and> desc_max actualDesc < ts) \<or>
     (ts < desc_min actualDesc \<and> ts < desc_max actualDesc)"

text \<open>One round of the loop: the new bounds and the new position.\<close>

definition search_next :: "u64 \<Rightarrow> u64 \<Rightarrow> u64 \<Rightarrow> u64 \<Rightarrow> OplogIndexSegmentDescriptor \<Rightarrow> u64 \<times> u64 \<times> u64" where
  "search_next ts low high actual actualDesc =
     (let isHigher = desc_min actualDesc < ts \<and> desc_max actualDesc < ts;
          low = (if isHigher then actual else low);
          high = (if isHigher then high else actual);
          nDescriptors = (high - low) div of_nat descriptor_size;
          nDescriptorHalf = low div of_nat descriptor_size +
              (if nDescriptors = 1 then 0
               else if nDescriptors mod 2 = 0 then nDescriptors div 2 else nDescriptors div 2 + 1)
      in (low, high, nDescriptorHalf * of_nat descriptor_size))"

partial_function (option) search_loop ::
  "(u64 \<Rightarrow> OplogIndexSegmentDescriptor option) \<Rightarrow> u64 \<Rightarrow> u64 \<Rightarrow> u64 \<Rightarrow> u64 \<Rightarrow> OplogIndexSegmentDescriptor \<Rightarrow> u64 option" where
  "search_loop readAt ts low high actual actualDesc =
     (if high \<noteq> low \<and> out_of ts actualDesc
      then let (low, high, actual) = search_next ts low high actual actualDesc in
        do {
          actualDesc \<leftarrow> readAt actual;
          search_loop readAt ts low high actual actualDesc }
      else Some actual)"

declare search_loop.simps [code]

text \<open>When nothing is found the pointer is not set.\<close>

definition binarySearchByTimestamp ::
  "OplogIndexSegment \<Rightarrow> FileSystem \<Rightarrow> u64 \<Rightarrow> OplogSegmentBinarySearchResult option" where
  "binarySearchByTimestamp seg fs ts =
     (let indexFileSize = file_size (seg_partitionPath seg) INDEX_FILE_NAME fs
      in if indexFileSize = 0 \<or> ts = 0 then Some \<lparr>found = False, found_ptr = 0\<rparr>
         else do {
           let nDescriptors = indexFileSize div of_nat descriptor_size;
           let nDescriptorHalf = (if nDescriptors mod 2 = 0 then nDescriptors div 2 else nDescriptors div 2 + 1);
           let actual = nDescriptorHalf * of_nat descriptor_size - of_nat descriptor_size;
           actualDesc \<leftarrow> readIndexAt seg fs actual;
           ptr \<leftarrow> search_loop (readIndexAt seg fs) ts 0 indexFileSize actual actualDesc;
           Some \<lparr>found = True, found_ptr = ptr\<rparr> })"

record OplogSegmentAfterTimestampsSearchResult =
  after_descriptors :: "OplogIndexSegmentDescriptor list"
  after_descriptorInitPtr :: u64

definition getByAfterTimestamp ::
  "OplogIndexSegment \<Rightarrow> FileSystem \<Rightarrow> u64 \<Rightarrow> OplogSegmentAfterTimestampsSearchResult option" where
  "getByAfterTimestamp seg fs ts = do {
     searchResult \<leftarrow> binarySearchByTimestamp seg fs ts;
     let ptrToRead = (if found searchResult then found_ptr searchResult else 0);
     descriptors \<leftarrow> readAllIndexFrom seg fs ptrToRead;
     Some \<lparr>after_descriptors = descriptors, after_descriptorInitPtr = ptrToRead\<rparr> }"

record OplogSegmentBetweenTimestampsSearchResult =
  resultsInDescriptorsAndIntermediate :: bool
  resultsOnlyInIntermediate :: bool
  resultsOnlyInSegments :: bool
  between_descriptorInitPtr :: u64
  between_descriptors :: "OplogIndexSegmentDescriptor list"

text \<open>An end found without its beginning is an exception, the left of the sum.\<close>

definition segment_getBetweenTimestamps ::
  "OplogIndexSegment \<Rightarrow> FileSystem \<Rightarrow> u64 \<Rightarrow> u64 \<Rightarrow> (io_error + OplogSegmentBetweenTimestampsSearchResult) option" where
  "segment_getBetweenTimestamps seg fs fromTimestamp toTimestamp = do {
     fromResult \<leftarrow> binarySearchByTimestamp seg fs fromTimestamp;
     toResult \<leftarrow> binarySearchByTimestamp seg fs toTimestamp;
     if \<not> found fromResult \<and> \<not> found toResult
     then Some (Inr \<lparr>resultsInDescriptorsAndIntermediate = False, resultsOnlyInIntermediate = True,
       resultsOnlyInSegments = False, between_descriptorInitPtr = 0, between_descriptors = []\<rparr>)
     else if found fromResult \<and> \<not> found toResult then do {
       descriptors \<leftarrow> readAllIndexFrom seg fs (found_ptr fromResult);
       Some (Inr \<lparr>resultsInDescriptorsAndIntermediate = True, resultsOnlyInIntermediate = False,
         resultsOnlyInSegments = False, between_descriptorInitPtr = found_ptr fromResult, between_descriptors = descriptors\<rparr>) }
     else if found toResult \<and> found fromResult then do {
       descriptors \<leftarrow> readAllIndexBetween seg fs (found_ptr fromResult) (found_ptr toResult);
       Some (Inr \<lparr>resultsInDescriptorsAndIntermediate = False, resultsOnlyInIntermediate = False,
         resultsOnlyInSegments = True, between_descriptorInitPtr = found_ptr fromResult, between_descriptors = descriptors\<rparr>) }
     else Some (Inl OutOfRange) }"

definition segment_getAll :: "OplogIndexSegment \<Rightarrow> FileSystem \<Rightarrow> OplogIndexSegmentDescriptor list option" where
  "segment_getAll seg fs = readAllIndex seg fs"

definition updateCorruptedSegment ::
  "environment \<Rightarrow> bytes \<Rightarrow> u32 \<Rightarrow> u64 \<Rightarrow> OplogIndexSegment \<times> FileSystem \<Rightarrow>
     (OplogIndexSegment \<times> FileSystem \<times> io_error option) option" where
  "updateCorruptedSegment env uncorruptedBytes uncompressedSize indexSegmentDescriptorPtr = (\<lambda>(seg, fs). do {
     corruptedDescriptor \<leftarrow> readIndexAt seg fs indexSegmentDescriptorPtr;
     segment_updateCorrupted env uncompressedSize indexSegmentDescriptorPtr corruptedDescriptor uncorruptedBytes (seg, fs) })"

definition getDataByDescriptorBytes ::
  "environment \<Rightarrow> OplogIndexSegment \<Rightarrow> FileSystem \<Rightarrow> OplogIndexSegmentDescriptor \<Rightarrow> bytes option option" where
  "getDataByDescriptorBytes env seg fs descriptor = readBytesDataByDescriptor (env_crc env) seg fs descriptor"

definition segment_clearAll :: "OplogIndexSegment \<Rightarrow> FileSystem \<Rightarrow> FileSystem" where
  "segment_clearAll seg fs = fs_clear (fullPathData seg) (fs_clear (fullPathIndex seg) fs)"

section \<open>The codec of descriptors\<close>

lemma serialize_descriptor_eq:
  "serialize_descriptor d = fromNumber (desc_min d) @ fromNumber (desc_max d) @ fromNumber (desc_ptr d) @
     fromNumber (desc_crc d) @ fromNumber (desc_size d) @ fromNumber (desc_uncompressedSize d) @ fromNumber (desc_flags d)"
  by (simp add: serialize_descriptor_def appendToBuffer_eq)

lemma length_serialize_descriptor [simp]: "length (serialize_descriptor d) = 40"
  by (simp add: serialize_descriptor_eq)

lemma deserialize_serialize_descriptor [simp]: "deserialize_descriptor (serialize_descriptor d @ rest) = Some d"
  by (simp add: serialize_descriptor_eq deserialize_descriptor_def codec_simps)

definition index_bytes :: "OplogIndexSegmentDescriptor list \<Rightarrow> bytes" where
  "index_bytes ds = concat (map serialize_descriptor ds)"

lemma length_index_bytes [simp]: "length (index_bytes ds) = 40 * length ds"
  by (induction ds) (simp_all add: index_bytes_def)

lemma index_bytes_append [simp]: "index_bytes (ds @ es) = index_bytes ds @ index_bytes es"
  by (simp add: index_bytes_def)

lemma drop_index_bytes: "drop (40 * i) (index_bytes ds) = index_bytes (drop i ds)"
proof (induction i arbitrary: ds)
  case (Suc i)
  have "drop (40 * i + 40) (index_bytes ds) = drop (40 * i) (drop 40 (index_bytes ds))" by (simp add: add.commute)
  moreover have "drop 40 (index_bytes ds) = index_bytes (drop 1 ds)"
    by (cases ds) (simp_all add: index_bytes_def)
  ultimately show ?case using Suc [of "drop 1 ds"] by (simp add: add.commute)
qed simp

lemma index_bytes_at:
  assumes "i < length ds"
  shows "drop (40 * i) (index_bytes ds) = serialize_descriptor (ds ! i) @ index_bytes (drop (Suc i) ds)"
  using Cons_nth_drop_Suc [OF assms, symmetric] by (simp add: drop_index_bytes) (simp add: index_bytes_def)

lemma those_map_Some: "(\<And>x. x \<in> set xs \<Longrightarrow> f x = Some (g x)) \<Longrightarrow> those (map f xs) = Some (map g xs)"
  by (induction xs) auto

lemma deserialize_index_bytes: "deserialize_descriptors (index_bytes ds) = Some ds"
proof -
  have "those (map (\<lambda>i. deserialize_descriptor (drop (i * descriptor_size) (index_bytes ds))) [0..<length ds]) =
        Some (map (\<lambda>i. ds ! i) [0..<length ds])"
    by (rule those_map_Some) (simp add: descriptor_size_def mult.commute [of _ 40] index_bytes_at)
  then show ?thesis by (simp add: deserialize_descriptors_def descriptor_size_def map_nth)
qed

section \<open>Reading the files\<close>

definition index_file :: "OplogIndexSegment \<Rightarrow> FileSystem \<Rightarrow> OplogIndexSegmentDescriptor list \<Rightarrow> bool" where
  "index_file seg fs ds \<longleftrightarrow> content fs (fullPathIndex seg) = Some (index_bytes ds) \<and> 40 * length ds < 2 ^ 63"

definition desc_pos :: "nat \<Rightarrow> u64" where
  "desc_pos i = word_of_nat (40 * i)"

lemma unat_desc_pos: "40 * i < 2 ^ 63 \<Longrightarrow> unat (desc_pos i) = 40 * i"
  unfolding desc_pos_def by (rule unat_of_nat_less) simp

lemma desc_pos_diff: "l \<le> h \<Longrightarrow> desc_pos h - desc_pos l = desc_pos (h - l)"
  by (simp add: desc_pos_def of_nat_diff right_diff_distrib)

lemma desc_pos_mult: "word_of_nat i * 40 = desc_pos i"
  by (simp add: desc_pos_def mult.commute)

lemma desc_pos_div: "40 * i < 2 ^ 63 \<Longrightarrow> desc_pos i div 40 = word_of_nat i"
proof (rule word_unat_eq_iff [THEN iffD2])
  assume i: "40 * i < 2 ^ 63"
  then have "unat (word_of_nat i :: u64) = i" by (intro unat_of_nat_less) simp
  then show "unat (desc_pos i div 40) = unat (word_of_nat i :: u64)" using i by (simp add: unat_div unat_desc_pos)
qed

lemma desc_pos_inj: "40 * i < 2 ^ 63 \<Longrightarrow> 40 * j < 2 ^ 63 \<Longrightarrow> desc_pos i = desc_pos j \<longleftrightarrow> i = j"
  by (metis mult_cancel1 unat_desc_pos zero_neq_numeral)

lemma index_size:
  "index_file seg fs ds \<Longrightarrow> file_size (seg_partitionPath seg) INDEX_FILE_NAME fs = desc_pos (length ds)"
  by (simp add: index_file_def fullPathIndex_def file_size_def desc_pos_def)

lemma readIndexAt_inside:
  assumes "index_file seg fs ds" and "i < length ds"
  shows "readIndexAt seg fs (desc_pos i) = Some (ds ! i)"
proof -
  have n: "40 * length ds < 2 ^ 63" and c: "content fs (fullPathIndex seg) = Some (index_bytes ds)"
    using assms(1) by (auto simp: index_file_def)
  have "index_bytes ds = take (40 * i) (index_bytes ds) @ serialize_descriptor (ds ! i) @ index_bytes (drop (Suc i) ds)"
    using index_bytes_at [OF assms(2)] by (metis append_take_drop_id)
  then have "seekBytes (fullPathIndex seg) (desc_pos i) 40 fs = Some (serialize_descriptor (ds ! i))"
    using c n assms(2) seekBytes_inside [of fs "fullPathIndex seg" "take (40 * i) (index_bytes ds)" "serialize_descriptor (ds ! i)"
        "index_bytes (drop (Suc i) ds)" "desc_pos i" 40]
    by (simp add: unat_desc_pos)
  then show ?thesis
    using deserialize_serialize_descriptor [of "ds ! i" "[]"] by (simp add: readIndexAt_def descriptor_size_def)
qed

lemma readAllIndexFrom_inside:
  assumes "index_file seg fs ds" and "i \<le> length ds"
  shows "readAllIndexFrom seg fs (desc_pos i) = Some (drop i ds)"
proof -
  have n: "40 * length ds < 2 ^ 63" and c: "content fs (fullPathIndex seg) = Some (index_bytes ds)"
    using assms(1) by (auto simp: index_file_def)
  have "index_bytes ds = take (40 * i) (index_bytes ds) @ index_bytes (drop i ds)"
    by (metis append_take_drop_id drop_index_bytes)
  then have "seekBytes (fullPathIndex seg) (desc_pos i) (desc_pos (length ds - i)) fs = Some (index_bytes (drop i ds))"
    using c n assms(2) seekBytes_inside [of fs "fullPathIndex seg" "take (40 * i) (index_bytes ds)" "index_bytes (drop i ds)"
        "[]" "desc_pos i" "desc_pos (length ds - i)"]
    by (simp add: unat_desc_pos)
  then show ?thesis
    by (simp add: readAllIndexFrom_def index_size [OF assms(1)] desc_pos_diff [OF assms(2)] deserialize_index_bytes)
qed

section \<open>The search by timestamp\<close>

text \<open>Positions as numbers of descriptors.\<close>

definition middle :: "nat \<Rightarrow> nat \<Rightarrow> nat" where
  "middle l h = l + (if h - l = 1 then 0 else (h - l + 1) div 2)"

lemma search_next_desc:
  assumes "l \<le> a" and "a \<le> h" and "40 * h < 2 ^ 63"
  shows "search_next ts (desc_pos l) (desc_pos h) (desc_pos a) d =
    (if desc_min d < ts \<and> desc_max d < ts then (desc_pos a, desc_pos h, desc_pos (middle a h))
     else (desc_pos l, desc_pos a, desc_pos (middle l a)))"
proof -
  have half: "(desc_pos l' div of_nat descriptor_size +
      (if (desc_pos h' - desc_pos l') div of_nat descriptor_size = 1 then 0
       else if (desc_pos h' - desc_pos l') div of_nat descriptor_size mod 2 = 0
       then (desc_pos h' - desc_pos l') div of_nat descriptor_size div 2
       else (desc_pos h' - desc_pos l') div of_nat descriptor_size div 2 + 1)) * of_nat descriptor_size =
      desc_pos (middle l' h')" if "l' \<le> h'" "40 * h' < 2 ^ 63" for l' h'
  proof -
    define n where "n = h' - l'"
    have n: "40 * n < 2 ^ 63" "40 * l' < 2 ^ 63" using that by (auto simp: n_def)
    then have u: "unat (word_of_nat n :: u64) = n" "unat (word_of_nat (n div 2) :: u64) = n div 2"
      by (intro unat_of_nat_less, simp)+
    have one: "(word_of_nat n :: u64) = 1 \<longleftrightarrow> n = 1" using u by (metis of_nat_1 unat_1)
    have "unat ((word_of_nat n :: u64) mod 2) = n mod 2" by (simp add: unat_mod u)
    then have even: "(word_of_nat n :: u64) mod 2 = 0 \<longleftrightarrow> n mod 2 = 0" by (metis unat_eq_zero)
    have two: "(word_of_nat n :: u64) div 2 = word_of_nat (n div 2)" by (simp add: word_unat_eq_iff unat_div u)
    have s: "(of_nat descriptor_size :: u64) = 40" by (simp add: descriptor_size_def)
    have "n mod 2 = 0 \<Longrightarrow> (n + 1) div 2 = n div 2" "n mod 2 \<noteq> 0 \<Longrightarrow> (n + 1) div 2 = n div 2 + 1" by presburger+
    then have "word_of_nat l' + (if n = 1 then 0 else if n mod 2 = 0 then word_of_nat (n div 2) else word_of_nat (n div 2) + 1) =
        (word_of_nat (middle l' h') :: u64)"
      unfolding middle_def n_def [symmetric] by simp
    then show ?thesis
      unfolding s desc_pos_diff [OF that(1)] n_def [symmetric] desc_pos_div [OF n(1)] desc_pos_div [OF n(2)] one even two
      by (simp add: desc_pos_mult)
  qed
  have b: "40 * a < 2 ^ 63" using assms by auto
  show ?thesis
    by (cases "desc_min d < ts \<and> desc_max d < ts")
      (simp_all only: search_next_def Let_def if_True if_False simp_thms half [OF assms(2,3)] half [OF assms(1) b])
qed

text \<open>Segments with disjoint ranges of timestamps, in the order of the index.\<close>

definition ordered_index :: "OplogIndexSegmentDescriptor list \<Rightarrow> bool" where
  "ordered_index ds \<longleftrightarrow> (\<forall>d \<in> set ds. desc_min d \<le> desc_max d) \<and> sorted_wrt (\<lambda>d e. desc_max d < desc_min e) ds"

lemma ordered_index_outside:
  assumes "ordered_index ds" and "k < length ds" and "desc_min (ds ! k) \<le> ts" and "ts \<le> desc_max (ds ! k)" and "i < length ds"
  shows "i < k \<Longrightarrow> desc_min (ds ! i) < ts \<and> desc_max (ds ! i) < ts"
    and "k < i \<Longrightarrow> ts < desc_min (ds ! i) \<and> ts < desc_max (ds ! i)"
    and "out_of ts (ds ! i) \<longleftrightarrow> i \<noteq> k"
proof -
  have w: "desc_min (ds ! i) \<le> desc_max (ds ! i)" using assms(1,5) by (simp add: ordered_index_def)
  have s: "\<And>i j. i < j \<Longrightarrow> j < length ds \<Longrightarrow> desc_max (ds ! i) < desc_min (ds ! j)"
    using assms(1) by (simp add: ordered_index_def sorted_wrt_iff_nth_less)
  show lo: "i < k \<Longrightarrow> desc_min (ds ! i) < ts \<and> desc_max (ds ! i) < ts"
    using s [of i k] w assms by (meson le_less_trans less_le_trans)
  show hi: "k < i \<Longrightarrow> ts < desc_min (ds ! i) \<and> ts < desc_max (ds ! i)"
    using s [of k i] w assms by (meson le_less_trans less_le_trans)
  show "out_of ts (ds ! i) \<longleftrightarrow> i \<noteq> k"
    using lo hi assms(3,4) unfolding out_of_def by (metis leD linorder_neqE_nat)
qed

lemma search_loop_round:
  assumes "ordered_index ds" and "40 * length ds < 2 ^ 63" and rd: "\<And>i. i < length ds \<Longrightarrow> readAt (desc_pos i) = Some (ds ! i)"
    and "desc_min (ds ! k) \<le> ts" and "ts \<le> desc_max (ds ! k)"
    and "l \<le> k" and "k < h" and "h \<le> length ds" and "l \<le> a" and "a < h" and "a \<noteq> k"
  shows "\<exists>l' h' a'. search_loop readAt ts (desc_pos l) (desc_pos h) (desc_pos a) (ds ! a) =
      search_loop readAt ts (desc_pos l') (desc_pos h') (desc_pos a') (ds ! a') \<and>
    l' \<le> k \<and> k < h' \<and> h' \<le> h \<and> l \<le> l' \<and> l' \<le> a' \<and> a' < h' \<and> (l' < a' \<or> a' = k) \<and> (l < a \<longrightarrow> h' - l' < h - l)"
proof -
  note out = ordered_index_outside [OF assms(1) _ assms(4,5)]
  define l' h' where "l' = (if a < k then a else l)" and "h' = (if a < k then h else a)"
  have b: "40 * h < 2 ^ 63" "k < length ds" "a < length ds" using assms by auto
  have ne: "desc_pos h \<noteq> desc_pos l" using assms by (subst desc_pos_inj) auto
  have hi: "desc_min (ds ! a) < ts \<and> desc_max (ds ! a) < ts \<longleftrightarrow> a < k"
    using out(1,2) [OF b(2,3)] assms(11) by (metis linorder_neqE_nat not_less_iff_gr_or_eq)
  have nx: "search_next ts (desc_pos l) (desc_pos h) (desc_pos a) (ds ! a) = (desc_pos l', desc_pos h', desc_pos (middle l' h'))"
    using search_next_desc [of l a h ts "ds ! a"] assms b hi by (simp add: l'_def h'_def)
  have m: "l' \<le> middle l' h'" "middle l' h' < h'" "l' < middle l' h' \<or> middle l' h' = k"
    using assms(6,7,9,10,11) by (auto simp: middle_def l'_def h'_def split: if_splits)
  have "readAt (desc_pos (middle l' h')) = Some (ds ! middle l' h')"
    using m(2) assms(8,10) by (intro rd) (auto simp: h'_def split: if_splits)
  then have "search_loop readAt ts (desc_pos l) (desc_pos h) (desc_pos a) (ds ! a) =
      search_loop readAt ts (desc_pos l') (desc_pos h') (desc_pos (middle l' h')) (ds ! middle l' h')"
    using ne out(3) [OF b(2,3)] assms(11) nx by (simp add: search_loop.simps [of readAt ts "desc_pos l"])
  moreover have "l' \<le> k \<and> k < h' \<and> h' \<le> h \<and> l \<le> l' \<and> (l < a \<longrightarrow> h' - l' < h - l)"
    using assms by (auto simp: l'_def h'_def)
  ultimately show ?thesis using m by blast
qed

lemma search_loop_finds:
  assumes "ordered_index ds" and "40 * length ds < 2 ^ 63" and "\<And>i. i < length ds \<Longrightarrow> readAt (desc_pos i) = Some (ds ! i)"
    and "desc_min (ds ! k) \<le> ts" and "ts \<le> desc_max (ds ! k)"
    and "l \<le> k" and "k < h" and "h \<le> length ds" and "l \<le> a" and "a < h" and "l < a \<or> a = k"
  shows "search_loop readAt ts (desc_pos l) (desc_pos h) (desc_pos a) (ds ! a) = Some (desc_pos k)"
  using assms(6-)
proof (induction "h - l" arbitrary: l h a rule: less_induct)
  case less
  show ?case
  proof (cases "a = k")
    case True
    then show ?thesis
      using ordered_index_outside(3) [OF assms(1) _ assms(4,5), of k] less.prems by (simp add: search_loop.simps)
  next
    case False
    obtain l' h' a' where n: "search_loop readAt ts (desc_pos l) (desc_pos h) (desc_pos a) (ds ! a) =
        search_loop readAt ts (desc_pos l') (desc_pos h') (desc_pos a') (ds ! a')"
      "l' \<le> k" "k < h'" "h' \<le> h" "l' \<le> a'" "a' < h'" "l' < a' \<or> a' = k" "l < a \<longrightarrow> h' - l' < h - l"
      using search_loop_round [OF assms(1-5) less.prems(1-5) False] by blast
    then show ?thesis using less.hyps [of h' l' a'] less.prems(3,6) False by simp
  qed
qed

lemma search_loop_above:
  assumes "40 * length ds < 2 ^ 63" and rd: "\<And>i. i < length ds \<Longrightarrow> readAt (desc_pos i) = Some (ds ! i)"
    and above: "\<And>i. i < length ds \<Longrightarrow> desc_min (ds ! i) < ts \<and> desc_max (ds ! i) < ts" and "l \<le> a" and "a < length ds"
  shows "search_loop readAt ts (desc_pos l) (desc_pos (length ds)) (desc_pos a) (ds ! a) = None"
proof -
  let ?P = "\<lambda>rd t low high act d. rd = readAt \<and> t = ts \<and> high = desc_pos (length ds) \<and>
    (\<exists>l a. l \<le> a \<and> a < length ds \<and> low = desc_pos l \<and> act = desc_pos a \<and> d = ds ! a)"
  have "\<not> ?P rd t low high act d" if "search_loop rd t low high act d = Some r" for rd t low high act d r
  proof (rule search_loop.raw_induct [where P = "\<lambda>rd t low high act d r. \<not> ?P rd t low high act d", OF _ that])
    fix f :: "(u64 \<Rightarrow> OplogIndexSegmentDescriptor option) \<Rightarrow> u64 \<Rightarrow> u64 \<Rightarrow> u64 \<Rightarrow> u64 \<Rightarrow> OplogIndexSegmentDescriptor \<Rightarrow> u64 option"
      and rd t low high act d r
    assume IH: "\<And>rd t low high act d r. f rd t low high act d = Some r \<Longrightarrow> \<not> ?P rd t low high act d"
      and st: "(if high \<noteq> low \<and> out_of t d then let (low, high, actual) = search_next t low high act d in
          do { actualDesc \<leftarrow> rd actual; f rd t low high actual actualDesc } else Some act) = Some r"
    show "\<not> ?P rd t low high act d"
    proof
      assume P: "?P rd t low high act d"
      then obtain l a where la: "l \<le> a" "a < length ds" "low = desc_pos l" "act = desc_pos a" "d = ds ! a" by auto
      have ne: "desc_pos (length ds) \<noteq> desc_pos l" using assms(1) la by (subst desc_pos_inj) auto
      have nx: "search_next ts (desc_pos l) (desc_pos (length ds)) (desc_pos a) (ds ! a) =
          (desc_pos a, desc_pos (length ds), desc_pos (middle a (length ds)))"
        using search_next_desc [of l a "length ds" ts "ds ! a"] above [OF la(2)] assms(1) la by simp
      have m: "a \<le> middle a (length ds)" "middle a (length ds) < length ds" using la(2) by (auto simp: middle_def)
      have "out_of ts (ds ! a)" using above [OF la(2)] by (simp add: out_of_def)
      then have "f readAt ts (desc_pos a) (desc_pos (length ds)) (desc_pos (middle a (length ds))) (ds ! middle a (length ds)) = Some r"
        using st P la ne nx assms(2) [OF m(2)] by simp
      then show False using IH m by blast
    qed
  qed
  then show ?thesis
    using assms(4,5) by (cases "search_loop readAt ts (desc_pos l) (desc_pos (length ds)) (desc_pos a) (ds ! a)") (simp, blast)
qed

text \<open>The first position of the search, in descriptors.\<close>

lemma search_start:
  assumes "index_file seg fs ds" and "ds \<noteq> []" and "ts \<noteq> 0"
  shows "binarySearchByTimestamp seg fs ts = do {
    ptr \<leftarrow> search_loop (readIndexAt seg fs) ts (desc_pos 0) (desc_pos (length ds)) (desc_pos ((length ds + 1) div 2 - 1))
      (ds ! ((length ds + 1) div 2 - 1));
    Some \<lparr>found = True, found_ptr = ptr\<rparr> }"
proof -
  have n: "40 * length ds < 2 ^ 63" and pos: "0 < length ds" using assms(1,2) by (auto simp: index_file_def)
  then have ne: "desc_pos (length ds) \<noteq> 0" using desc_pos_inj [of "length ds" 0] by (auto simp: desc_pos_def [of 0])
  define a where "a = (length ds + 1) div 2 - 1"
  have a: "a < length ds" "(length ds + 1) div 2 = Suc a" unfolding a_def using pos by linarith+
  have u: "unat (word_of_nat (length ds) :: u64) = length ds" "unat (word_of_nat (length ds div 2) :: u64) = length ds div 2"
    using n by (intro unat_of_nat_less, simp)+
  have half: "(word_of_nat (length ds) :: u64) div 2 = word_of_nat (length ds div 2)"
    by (simp add: word_unat_eq_iff unat_div u)
  have "unat ((word_of_nat (length ds) :: u64) mod 2) = length ds mod 2" by (simp add: unat_mod u)
  then have even: "(word_of_nat (length ds) :: u64) mod 2 = 0 \<longleftrightarrow> length ds mod 2 = 0" by (metis unat_eq_zero)
  have "length ds mod 2 = 0 \<Longrightarrow> length ds div 2 = Suc a" "length ds mod 2 \<noteq> 0 \<Longrightarrow> length ds div 2 + 1 = Suc a"
    using a(2) by presburger+
  then have "(if (word_of_nat (length ds) :: u64) mod 2 = 0 then (word_of_nat (length ds) :: u64) div 2
      else word_of_nat (length ds) div 2 + 1) = word_of_nat (Suc a)"
    unfolding half even by (metis of_nat_Suc Suc_eq_plus1 add.commute)
  moreover have "desc_pos (Suc a) - 40 = desc_pos a" by (simp add: desc_pos_def)
  ultimately show ?thesis
    unfolding a_def [symmetric]
    using readIndexAt_inside [OF assms(1) a(1)] assms(3) ne desc_pos_div [OF n]
    by (simp add: binarySearchByTimestamp_def index_size [OF assms(1)] Let_def descriptor_size_def desc_pos_mult desc_pos_def [of 0]
        del: of_nat_Suc)
qed

section \<open>Saving a segment\<close>

text \<open>Operations the log can hold, and the documented contract of zlib: compressing succeeds, within
  \<^verbatim>\<open>compressBound\<close>, and decompressing into a buffer of the original size gives the input back.\<close>

definition loggable :: "OperationBody \<Rightarrow> bool" where
  "loggable op \<longleftrightarrow> (\<exists>as. storable op as \<and> record_length as < 256)"

definition compressBound :: "nat \<Rightarrow> nat" where
  "compressBound n = n + n div 2 ^ 12 + n div 2 ^ 14 + n div 2 ^ 25 + 13"

definition zlib_ok :: "environment \<Rightarrow> bool" where
  "zlib_ok env \<longleftrightarrow> (\<forall>b. fst (env_compress env b) = 0 \<and> length (snd (env_compress env b)) \<le> compressBound (length b) \<and>
     env_uncompress env (length b) (snd (env_compress env b)) = (0, b))"

abbreviation reset_node :: "OperationBody \<Rightarrow> OperationBody" where
  "reset_node op \<equiv> op\<lparr>op_nodeId := 1\<rparr>"

lemma length_records_le: "\<forall>(op, as) \<in> set rs. record_length as < 256 \<Longrightarrow> length (records rs) \<le> 256 * length rs"
  by (induction rs) (auto simp: records_def length_record_bytes)

lemma loggable_roundtrip:
  assumes "\<forall>op \<in> set ops. loggable op" and "shl_keeps_zero ub"
  shows "\<exists>bytes. serializeAll ops = Some bytes \<and> deserializeAll ub bytes = Some (map reset_node ops) \<and>
    length bytes \<le> 256 * length ops"
proof -
  let ?rs = "map (\<lambda>op. (op, the (args op))) ops"
  have r: "\<forall>(op, as) \<in> set ?rs. storable op as \<and> record_length as < 256"
    using assms(1) by (fastforce simp: storable_def loggable_def)
  then have "serializeAll ops = Some (records ?rs)"
    using serialize_ops_records [of ?rs "[]"] by (fastforce simp: serializeAll_def comp_def)
  moreover have "length (records ?rs) \<le> 256 * length ?rs" using r by (intro length_records_le) auto
  ultimately show ?thesis using deserializeAll_records [OF r assms(2)] by (simp add: comp_def)
qed

lemma reset_node_key [simp]: "op_key (reset_node op) = op_key op"
  by (simp add: op_key_def)

lemma reset_node_log:
  "loggable (reset_node op) = loggable op" "keyed K (map reset_node ops) = keyed K ops" "in_order (map reset_node ops) = in_order ops"
  by (simp_all add: loggable_def storable_def keyed_def in_order_def filter_map comp_def)

lemma represents_permute: "mset xs = mset ys \<Longrightarrow> represents xs f = represents ys f"
  unfolding represents_def by (metis distinct_count_atmost_1 mset_eq_setD mset_map)

lemma paths_differ [simp]: "fullPathIndex seg \<noteq> fullPathData seg" "fullPathData seg \<noteq> fullPathIndex seg"
  by (simp_all add: fullPathIndex_def fullPathData_def INDEX_FILE_NAME_def DATA_FILE_NAME_def)

lemma paths_lock [simp]:
  "fullPathIndex (seg\<lparr>writeLock := b\<rparr>) = fullPathIndex seg" "fullPathData (seg\<lparr>writeLock := b\<rparr>) = fullPathData seg"
  by (simp_all add: fullPathIndex_def fullPathData_def)

lemma readAllIndex_index_file: "index_file seg fs ds \<Longrightarrow> readAllIndex seg fs = Some ds"
  by (simp add: index_file_def readAllIndex_def readBytes_def deserialize_index_bytes)

lemma data_read_inside:
  assumes "content fs (fullPathData seg) = Some (pre @ z @ post)" and "unat (desc_ptr d) = length pre" and "unat (desc_size d) = length z"
  shows "getDataByDescriptorBytes env seg fs d = Some (if env_crc env z = desc_crc d then Some z else None)"
proof -
  have "unat (desc_size d) < 2 ^ LENGTH(32)" by (rule unsigned_less)
  then have "unat (ucast (desc_size d) :: u64) = length z" "length z < 2 ^ 63"
    using assms(3) by (simp_all add: unsigned_ucast_eq take_bit_nat_eq_self)
  then have "seekBytes (fullPathData seg) (desc_ptr d) (ucast (desc_size d)) fs = Some z"
    by (intro seekBytes_inside [OF assms(1,2)])
  then show ?thesis by (simp add: getDataByDescriptorBytes_def readBytesDataByDescriptor_def)
qed

lemma data_read_append:
  assumes "content fs (fullPathData seg) = Some dat" and "content fs' (fullPathData seg) = Some (dat @ z)"
    and "unat (desc_ptr d) + unat (desc_size d) \<le> length dat"
  shows "getDataByDescriptorBytes env seg fs' d = getDataByDescriptorBytes env seg fs d"
proof -
  let ?pre = "take (unat (desc_ptr d)) dat" and ?mid = "take (unat (desc_size d)) (drop (unat (desc_ptr d)) dat)"
  have "dat = ?pre @ ?mid @ drop (unat (desc_ptr d) + unat (desc_size d)) dat"
    by (metis append_take_drop_id drop_drop add.commute)
  then have "content fs (fullPathData seg) = Some (?pre @ ?mid @ drop (unat (desc_ptr d) + unat (desc_size d)) dat)"
    and "content fs' (fullPathData seg) = Some (?pre @ ?mid @ drop (unat (desc_ptr d) + unat (desc_size d)) dat @ z)"
    using assms(1,2) by (metis, metis append_assoc)
  then show ?thesis using data_read_inside [of fs seg ?pre ?mid] data_read_inside [of fs' seg ?pre ?mid] assms(3) by simp
qed

text \<open>What one call of the writer does once its input is decoded, compacted and compressed.\<close>

lemma segment_write_appends:
  assumes "deserializeAll (env_shl env) toSave = Some ops"
    and "oplog_compact (ss_less (env_after env)) (env_threads env) ops = Some out" and "out \<noteq> []"
    and "serializeAll (sort_key timestamp out) = Some bytes" and "compressBytes (env_compress env) bytes = Inr z"
    and "\<not> writeLock seg" and "index_file seg fs ds" and "content fs (fullPathData seg) = Some dat"
    and "length dat < 2 ^ 63" and "length z < 2 ^ 32" and "length ds < 2 ^ 50"
  shows "\<exists>fs' d. save env toSave (seg, fs) = Some (seg, fs', None) \<and> index_file seg fs' (ds @ [d]) \<and>
    content fs' (fullPathData seg) = Some (dat @ z) \<and> desc_min d = timestamp (hd (sort_key timestamp out)) \<and>
    desc_max d = timestamp (last (sort_key timestamp out)) \<and> desc_uncompressedSize d = word_of_nat (length bytes) \<and>
    getDataByDescriptorBytes env seg fs' d = Some (Some z)"
proof -
  define d where "d = \<lparr>desc_min = timestamp (hd (sort_key timestamp out)), desc_max = timestamp (last (sort_key timestamp out)),
    desc_ptr = word_of_nat (length dat), desc_crc = env_crc env z, desc_size = word_of_nat (length z),
    desc_uncompressedSize = word_of_nat (length bytes), desc_flags = 0\<rparr>"
  define fs' where "fs' = appendBytes (fullPathIndex seg) (serialize_descriptor d) (appendBytes (fullPathData seg) z fs)"
  have size: "file_size (seg_partitionPath seg) DATA_FILE_NAME fs = word_of_nat (length dat)"
    using assms(8) by (simp add: file_size_def fullPathData_def)
  have ne: "sort_key timestamp out \<noteq> []" using assms(3) by (metis mset_sort mset.simps(1) mset_zero_iff)
  have c: "content fs (fullPathIndex seg) = Some (index_bytes ds)" using assms(7) by (simp add: index_file_def)
  have mid: "content (appendBytes (fullPathData seg) z fs) (fullPathIndex seg) = Some (index_bytes ds)"
    using content_appendBytes [OF assms(8)] c by simp
  have "save env toSave (seg, fs) = Some (seg, fs', None)"
    using assms(1-6) size ne by (simp add: save_def segment_write_def Let_def fs'_def d_def)
  moreover have "index_file seg fs' (ds @ [d])"
    using content_appendBytes [OF mid] assms(11) by (simp add: index_file_def fs'_def) (simp add: index_bytes_def)
  moreover have data: "content fs' (fullPathData seg) = Some (dat @ z)"
    using content_appendBytes [OF mid] content_appendBytes [OF assms(8)] by (simp add: fs'_def)
  moreover have "getDataByDescriptorBytes env seg fs' d = Some (Some z)"
    using data_read_inside [of fs' seg dat z "[]" d env] data assms(9,10) by (simp add: d_def unat_of_nat_less)
  ultimately show ?thesis by (auto simp: d_def)
qed

lemma compressed_size:
  assumes "zlib_ok env" and "length b \<le> 2 ^ 28"
  shows "length (snd (env_compress env b)) < 2 ^ 32"
proof -
  have "length (snd (env_compress env b)) \<le> compressBound (length b)" using assms(1) by (simp add: zlib_ok_def)
  moreover have "compressBound (length b) < 2 ^ 32"
    using assms(2) div_le_dividend [of "length b" "2 ^ 12"] div_le_dividend [of "length b" "2 ^ 14"] div_le_dividend [of "length b" "2 ^ 25"]
    unfolding compressBound_def by (simp del: div_le_dividend)
  ultimately show ?thesis by simp
qed

lemma uncompress_compressed:
  assumes "zlib_ok env" and "length b < 2 ^ 32"
  shows "uncompressBytes (env_uncompress env) (snd (env_compress env b)) (ucast (word_of_nat (length b) :: u32)) = Inr b"
proof -
  have u: "unat (word_of_nat (length b) :: u32) = length b" using assms(2) by (intro unat_of_nat_less) simp
  then have "unat (ucast (word_of_nat (length b) :: u32) :: u64) = length b"
    using assms(2) by (simp add: unsigned_ucast_eq take_bit_nat_eq_self)
  then show ?thesis using assms(1) by (simp add: uncompressBytes_def zlib_ok_def)
qed

lemma sort_key_bounds:
  assumes "x \<in> set xs"
  shows "f (hd (sort_key f xs)) \<le> f x" and "f x \<le> f (last (sort_key f xs))"
proof -
  have x: "x \<in> set (sort_key f xs)" and s: "sorted (map f (sort_key f xs))" using assms by simp_all
  then show "f (hd (sort_key f xs)) \<le> f x" by (cases "sort_key f xs") auto
  obtain ys z where yz: "sort_key f xs = ys @ [z]" using x by (cases "sort_key f xs" rule: rev_cases) auto
  then show "f x \<le> f (last (sort_key f xs))" using x s by (auto simp: sorted_append)
qed

section \<open>A partition for the witnesses\<close>

definition sample_desc :: "u64 \<Rightarrow> u64 \<Rightarrow> OplogIndexSegmentDescriptor" where
  "sample_desc mn mx = \<lparr>desc_min = mn, desc_max = mx, desc_ptr = 0, desc_crc = 0, desc_size = 2, desc_uncompressedSize = 2, desc_flags = 0\<rparr>"

definition sample_seg :: OplogIndexSegment where
  "sample_seg = \<lparr>memdDbBasePath = ''m'', seg_partitionPath = ''m/0'', writeLock = False\<rparr>"

definition sample_fs :: "OplogIndexSegmentDescriptor list \<Rightarrow> FileSystem" where
  "sample_fs ds = \<lparr>fs_files = [(''m/0/oplog-index'', index_bytes ds), (''m/0/oplog-data'', [1, 2, 3])], fs_dirs = [''m/0'', ''m'']\<rparr>"

definition sample_env :: environment where
  "sample_env = \<lparr>env_crc = (\<lambda>b. 0), env_compress = (\<lambda>b. (0, b)), env_uncompress = (\<lambda>n b. (0, b)),
     env_shl = (\<lambda>w n. 0), env_after = (\<lambda>k. [0]), env_threads = 4\<rparr>"

lemma sample_segment:
  "length ds < 2 ^ 50 \<Longrightarrow> index_file sample_seg (sample_fs ds) ds"
  "content (sample_fs ds) (fullPathData sample_seg) = Some [1, 2, 3]"
  "\<not> writeLock sample_seg" "zlib_ok sample_env" "shl_keeps_zero (env_shl sample_env)" "env_after sample_env = (\<lambda>k. [0])"
  by (simp_all add: index_file_def content_def sample_fs_def sample_seg_def fullPathIndex_def fullPathData_def INDEX_FILE_NAME_def
      DATA_FILE_NAME_def zlib_ok_def sample_env_def compressBound_def shl_keeps_zero_def)

section \<open>Properties\<close>

text \<open>C12. Durability of a segment. The operations of a log have records of less than 256 bytes, keys that carry their
  terminator and, for each key, timestamps that do not decrease. Saving them, serialised, appends one descriptor to the
  index and leaves the data of the earlier segments readable. Reading the new segment back, checking
  its CRC, decompressing and deserialising it gives, ordered by timestamp, exactly the last operation
  of every key, and the range of the descriptor covers their timestamps.\<close>

theorem saved_segment_is_durable:
  assumes "ops \<noteq> []" and "\<forall>op \<in> set ops. loggable op" and "keyed terminated_keys ops" and "in_order ops"
    and "some_threads (env_threads env)" and "length ops \<le> 2 ^ 20" and "shl_keeps_zero (env_shl env)" and "zlib_ok env"
    and "\<not> writeLock seg" and "index_file seg fs ds" and "content fs (fullPathData seg) = Some dat"
    and "length dat < 2 ^ 63" and "length ds < 2 ^ 50"
  shows "\<exists>toSave fs' d z bytes out. serializeAll ops = Some toSave \<and> save env toSave (seg, fs) = Some (seg, fs', None) \<and>
    segment_getAll seg fs' = Some (ds @ [d]) \<and>
    (\<forall>e \<in> set ds. unat (desc_ptr e) + unat (desc_size e) \<le> length dat \<longrightarrow>
       getDataByDescriptorBytes env seg fs' e = getDataByDescriptorBytes env seg fs e) \<and>
    getDataByDescriptorBytes env seg fs' d = Some (Some z) \<and>
    uncompressBytes (env_uncompress env) z (ucast (desc_uncompressedSize d)) = Inr bytes \<and>
    deserializeAll (env_shl env) bytes = Some out \<and> sorted (map timestamp out) \<and>
    represents out (latest (map reset_node ops)) \<and>
    (\<forall>op \<in> set out. desc_min d \<le> timestamp op \<and> timestamp op \<le> desc_max d)"
proof -
  obtain toSave where toSave: "serializeAll ops = Some toSave" "deserializeAll (env_shl env) toSave = Some (map reset_node ops)"
    using loggable_roundtrip [OF assms(2,7)] by blast
  have log: "keyed terminated_keys (map reset_node ops)" "in_order (map reset_node ops)"
    using assms(3,4) by (simp_all add: reset_node_log)
  obtain kept where kept: "oplog_compact (ss_less (env_after env)) (env_threads env) (map reset_node ops) = Some kept"
    "represents kept (latest (map reset_node ops))"
    using log_compaction.oplog_compact_spec [OF log assms(5)] by blast
  define out where "out = sort_key timestamp kept"
  have rep: "represents out (latest (map reset_node ops))"
    using kept(2) represents_permute [of out kept "latest (map reset_node ops)"] by (simp add: out_def)
  have sub: "set kept \<subseteq> set (map reset_node ops)" "length kept \<le> length ops"
    using represents_subset [OF kept(2)] by auto
  have "kept \<noteq> []" using represents_nonempty [OF kept(2)] assms(1) log(1) by simp
  have reset: "map reset_node out = out" using sub(1) by (intro map_idI) (auto simp: out_def)
  have "\<forall>op \<in> set out. loggable op"
    using sub(1) assms(2) reset_node_log(1) by (auto simp: out_def simp del: reset_node_log(1))
  then obtain bytes where bytes: "serializeAll out = Some bytes" "deserializeAll (env_shl env) bytes = Some out"
    "length bytes \<le> 256 * length out"
    using loggable_roundtrip [OF _ assms(7), of out] reset by auto
  have len: "length bytes \<le> 2 ^ 28" using bytes(3) sub(2) assms(6) by (simp add: out_def)
  define z where "z = snd (env_compress env bytes)"
  have z: "compressBytes (env_compress env) bytes = Inr z"
    using assms(8) by (cases "env_compress env bytes") (simp add: zlib_ok_def compressBytes_def z_def, metis fst_conv)
  obtain fs' d where w: "save env toSave (seg, fs) = Some (seg, fs', None)" "index_file seg fs' (ds @ [d])"
    "content fs' (fullPathData seg) = Some (dat @ z)" "desc_min d = timestamp (hd out)" "desc_max d = timestamp (last out)"
    "desc_uncompressedSize d = word_of_nat (length bytes)" "getDataByDescriptorBytes env seg fs' d = Some (Some z)"
    using segment_write_appends [OF toSave(2) kept(1) \<open>kept \<noteq> []\<close> _ z assms(9,10,11,12) _ assms(13)] bytes(1)
      compressed_size [OF assms(8) len] unfolding out_def z_def by blast
  show ?thesis
  proof (intro exI conjI)
    show "segment_getAll seg fs' = Some (ds @ [d])"
      using readAllIndex_index_file [OF w(2)] by (simp add: segment_getAll_def)
    show "\<forall>e \<in> set ds. unat (desc_ptr e) + unat (desc_size e) \<le> length dat \<longrightarrow>
       getDataByDescriptorBytes env seg fs' e = getDataByDescriptorBytes env seg fs e"
      using data_read_append [OF assms(11) w(3)] by blast
    show "uncompressBytes (env_uncompress env) z (ucast (desc_uncompressedSize d)) = Inr bytes"
      using uncompress_compressed [OF assms(8), of bytes] len w(6) by (simp add: z_def)
    show "sorted (map timestamp out)" by (simp add: out_def)
    show "\<forall>op \<in> set out. desc_min d \<le> timestamp op \<and> timestamp op \<le> desc_max d"
      using sort_key_bounds [of _ kept timestamp] by (auto simp: w(4,5) out_def)
  qed (rule toSave w(1) w(7) bytes(2) rep)+
qed

theorem saved_segment_is_durable_witness:
  "\<exists>toSave fs' d z bytes out. serializeAll terminated_log = Some toSave \<and>
    save sample_env toSave (sample_seg, sample_fs [sample_desc 1 5]) = Some (sample_seg, fs', None) \<and>
    segment_getAll sample_seg fs' = Some ([sample_desc 1 5] @ [d]) \<and>
    (\<forall>e \<in> set [sample_desc 1 5]. unat (desc_ptr e) + unat (desc_size e) \<le> length [1 :: u8, 2, 3] \<longrightarrow>
       getDataByDescriptorBytes sample_env sample_seg fs' e = getDataByDescriptorBytes sample_env sample_seg (sample_fs [sample_desc 1 5]) e) \<and>
    getDataByDescriptorBytes sample_env sample_seg fs' d = Some (Some z) \<and>
    uncompressBytes (env_uncompress sample_env) z (ucast (desc_uncompressedSize d)) = Inr bytes \<and>
    deserializeAll (env_shl sample_env) bytes = Some out \<and> sorted (map timestamp out) \<and>
    represents out (latest (map reset_node terminated_log)) \<and>
    (\<forall>op \<in> set out. desc_min d \<le> timestamp op \<and> timestamp op \<le> desc_max d)"
proof (rule saved_segment_is_durable)
  have "loggable (terminated_op k t)" if "unat t < 2 ^ 31" for k t
    unfolding loggable_def
    by (rule exI [of _ "[[k, 0], [1]]"]) (use that in \<open>simp add: storable_def terminated_op_def sample_op_def record_length_def\<close>)
  then show "\<forall>op \<in> set terminated_log. loggable op" by (simp add: terminated_log_def)
  show "terminated_log \<noteq> []" "length terminated_log \<le> 2 ^ 20" by (simp_all add: terminated_log_def)
  show "some_threads (env_threads sample_env)" by (simp add: some_threads_def sample_env_def)
qed (rule terminated_log_ok sample_segment | simp)+

text \<open>C16. The search by timestamp ends and is right where it should be: when the ranges of the segments are
  disjoint and ordered and the timestamp lies in the range of one of them, the descriptors from that
  segment on are returned together with its position in the index file.\<close>

theorem timestamp_search_finds_segment:
  assumes "index_file seg fs ds" and "ordered_index ds" and "ts \<noteq> 0" and "k < length ds"
    and "desc_min (ds ! k) \<le> ts" and "ts \<le> desc_max (ds ! k)"
  shows "getByAfterTimestamp seg fs ts =
    Some \<lparr>after_descriptors = drop k ds, after_descriptorInitPtr = word_of_nat (40 * k)\<rparr>"
proof -
  let ?a = "(length ds + 1) div 2 - 1"
  have n: "40 * length ds < 2 ^ 63" using assms(1) by (simp add: index_file_def)
  have ne: "ds \<noteq> []" "?a < length ds" using assms(4) by (auto simp: less_diff_conv)
  have "search_loop (readIndexAt seg fs) ts (desc_pos 0) (desc_pos (length ds)) (desc_pos ?a) (ds ! ?a) = Some (desc_pos k)"
  proof (cases "?a = k")
    case True
    then show ?thesis
      using search_loop_finds [OF assms(2) n readIndexAt_inside [OF assms(1)] assms(5,6), of 0 "length ds" ?a] assms(4) by simp
  next
    case False
    note round = search_loop_round [OF assms(2) n readIndexAt_inside [OF assms(1)] assms(5,6), of 0 "length ds" ?a]
    obtain l' h' a' where r: "search_loop (readIndexAt seg fs) ts (desc_pos 0) (desc_pos (length ds)) (desc_pos ?a) (ds ! ?a) =
        search_loop (readIndexAt seg fs) ts (desc_pos l') (desc_pos h') (desc_pos a') (ds ! a')"
      "l' \<le> k" "k < h'" "h' \<le> length ds" "l' \<le> a'" "a' < h'" "l' < a' \<or> a' = k"
      using round assms(4) ne(2) False by auto
    show ?thesis
      unfolding r(1) by (rule search_loop_finds [OF assms(2) n readIndexAt_inside [OF assms(1)] assms(5,6) r(2-7)])
  qed
  then show ?thesis
    using search_start [OF assms(1) ne(1) assms(3)] readAllIndexFrom_inside [OF assms(1), of k] assms(4)
    by (simp add: getByAfterTimestamp_def desc_pos_def)
qed

theorem timestamp_search_finds_segment_witness:
  "getByAfterTimestamp sample_seg (sample_fs [sample_desc 1 5, sample_desc 7 9, sample_desc 10 20]) 8 =
    Some \<lparr>after_descriptors = drop 1 [sample_desc 1 5, sample_desc 7 9, sample_desc 10 20], after_descriptorInitPtr = word_of_nat (40 * 1)\<rparr>"
  by (rule timestamp_search_finds_segment)
    (simp_all add: sample_segment ordered_index_def sample_desc_def)

text \<open>The search by timestamp does not end for a timestamp newer than every segment: a node that asks for
  the operations after a recent timestamp, which are still in the intermediate log, waits forever.\<close>

theorem timestamp_search_diverges:
  assumes "index_file seg fs ds" and "ds \<noteq> []" and "\<forall>d \<in> set ds. desc_min d < ts \<and> desc_max d < ts"
  shows "binarySearchByTimestamp seg fs ts = None \<and> getByAfterTimestamp seg fs ts = None"
proof -
  let ?a = "(length ds + 1) div 2 - 1"
  have n: "40 * length ds < 2 ^ 63" using assms(1) by (simp add: index_file_def)
  have a: "?a < length ds" using assms(2) by (auto simp: less_diff_conv neq_Nil_conv)
  have "ts \<noteq> 0" using assms(2,3) by (cases ds) auto
  have "search_loop (readIndexAt seg fs) ts (desc_pos 0) (desc_pos (length ds)) (desc_pos ?a) (ds ! ?a) = None"
    by (rule search_loop_above [OF n readIndexAt_inside [OF assms(1)] _ _ a]) (use assms(3) in auto)
  then have "binarySearchByTimestamp seg fs ts = None" using search_start [OF assms(1,2) \<open>ts \<noteq> 0\<close>] by simp
  then show ?thesis by (simp add: getByAfterTimestamp_def)
qed

theorem timestamp_search_diverges_witness:
  "binarySearchByTimestamp sample_seg (sample_fs [sample_desc 1 5]) 6 = None \<and>
   getByAfterTimestamp sample_seg (sample_fs [sample_desc 1 5]) 6 = None"
  using timestamp_search_diverges [of sample_seg "sample_fs [sample_desc 1 5]" "[sample_desc 1 5]" 6] sample_segment(1) [of "[sample_desc 1 5]"]
  by (simp add: sample_desc_def)

text \<open>Repairing a segment destroys the index: the index file is truncated before the repaired descriptor
  is written, so the descriptors before it become zeros and those after it are gone.\<close>

theorem repair_destroys_index:
  assumes "index_file seg fs ds" and "i < length ds" and "\<not> writeLock seg" and "content fs (fullPathData seg) = Some dat"
  shows "\<exists>fs' d. updateCorruptedSegment env uncorrupted uncompressedSize (word_of_nat (40 * i)) (seg, fs) = Some (seg, fs', None) \<and>
    readBytes (fullPathIndex seg) fs' = replicate (40 * i) 0 @ serialize_descriptor d"
proof -
  have n: "40 * i < 2 ^ 63" using assms(1,2) by (simp add: index_file_def)
  have r: "readIndexAt seg fs (word_of_nat (40 * i)) = Some (ds ! i)"
    using readIndexAt_inside [OF assms(1,2)] by (simp add: desc_pos_def)
  have c: "content fs (fullPathIndex seg) = Some (index_bytes ds)" using assms(1) by (simp add: index_file_def)
  have u: "unat (word_of_nat (40 * i) :: u64) = 40 * i" using n by (intro unat_of_nat_less) simp
  have o: "can_open (appendBytes (fullPathData seg) uncorrupted fs) (fullPathIndex seg)"
    using content_appendBytes [OF assms(4)] c by (simp add: can_open_def)
  have ser: "serialize_descriptor d \<noteq> []" for d by (metis length_serialize_descriptor list.size(3) zero_neq_numeral)
  show ?thesis
    using r assms(3) o u ser by (simp add: updateCorruptedSegment_def segment_updateCorrupted_def writeBytesAt_def Let_def readBytes_def) blast
qed

theorem repair_destroys_index_witness:
  "\<exists>fs' d. updateCorruptedSegment sample_env [7] 1 (word_of_nat (40 * 1)) (sample_seg, sample_fs [sample_desc 1 5, sample_desc 7 9, sample_desc 10 20]) =
      Some (sample_seg, fs', None) \<and>
    readBytes (fullPathIndex sample_seg) fs' = replicate (40 * 1) 0 @ serialize_descriptor d"
  by (rule repair_destroys_index [OF sample_segment(1) _ sample_segment(3,2)]) simp_all

end
