(* ===== verification/Oplog.thy ===== *)
theory Oplog
  imports Segments
begin

text \<open>
  The operation log (\<^verbatim>\<open>persistence\<close>): the intermediate log, the iterator over its parts, the log of
  one partition, the logs of all partitions, the buffer in front of a log, the buffer of requests on
  disk and the invalidation of operations. A call gives the new state and the exception it throws,
  if any; \<^term>\<open>None\<close> is a call that does not return.
\<close>

section \<open>IntermediateOplog\<close>

record IntermediateOplog =
  im_basePath :: string
  im_partitionPath :: string
  bytesWritten :: u64

definition INTERMEDIATE_FILE_NAME :: string where
  "INTERMEDIATE_FILE_NAME = ''oplog-intermediate''"

definition im_fullPath :: "IntermediateOplog \<Rightarrow> string" where
  "im_fullPath im = im_partitionPath im @ ''/'' @ INTERMEDIATE_FILE_NAME"

definition im_initializeFiles :: "IntermediateOplog \<Rightarrow> FileSystem \<Rightarrow> (io_error + FileSystem) option" where
  "im_initializeFiles im fs =
     (let fs = ensure_dir (im_basePath im) fs;
          fs = ensure_dir (im_partitionPath im) fs
      in ensure_file (im_partitionPath im) INTERMEDIATE_FILE_NAME fs)"

definition new_IntermediateOplog ::
  "string \<Rightarrow> u32 \<Rightarrow> FileSystem \<Rightarrow> (io_error + IntermediateOplog \<times> FileSystem) option" where
  "new_IntermediateOplog dataPath oplogId fs =
     (let im = \<lparr>im_basePath = dataPath, im_partitionPath = partition_path dataPath oplogId, bytesWritten = 0\<rparr>
      in do {
        r \<leftarrow> im_initializeFiles im fs;
        Some (case r of Inl e \<Rightarrow> Inl e
              | Inr fs \<Rightarrow> Inr (im\<lparr>bytesWritten := file_size (im_partitionPath im) INTERMEDIATE_FILE_NAME fs\<rparr>, fs)) })"

definition im_getAllBytes :: "IntermediateOplog \<Rightarrow> FileSystem \<Rightarrow> bytes" where
  "im_getAllBytes im fs = readBytes (im_fullPath im) fs"

definition im_clearAll :: "IntermediateOplog \<Rightarrow> FileSystem \<Rightarrow> FileSystem" where
  "im_clearAll im fs = fs_clear (im_fullPath im) fs"

text \<open>\<open>segmentSizeMb\<close> is the configured size of a segment; the callback is the one the log of a partition
  sets, \<^verbatim>\<open>OplogIndexSegment::save\<close>. An exception of the callback leaves the file in place.\<close>

definition im_addAll ::
  "environment \<Rightarrow> u64 \<Rightarrow> OperationBody list \<Rightarrow> IntermediateOplog \<times> OplogIndexSegment \<times> FileSystem \<Rightarrow>
     (IntermediateOplog \<times> OplogIndexSegment \<times> FileSystem \<times> io_error option) option" where
  "im_addAll env segmentSizeMb operations = (\<lambda>(im, seg, fs). do {
     serialized \<leftarrow> serializeAll operations;
     let fs = appendBytes (im_fullPath im) serialized fs;
     let im = im\<lparr>bytesWritten := bytesWritten im + word_of_nat (length serialized)\<rparr>;
     if segmentSizeMb * 1024 * 1024 < bytesWritten im then do {
       let im = im\<lparr>bytesWritten := 0\<rparr>;
       (seg, fs, thrown) \<leftarrow> save env (readBytes (im_fullPath im) fs) (seg, fs);
       Some (case thrown of Some e \<Rightarrow> (im, seg, fs, Some e)
             | None \<Rightarrow> (im, seg, fs_clear (im_fullPath im) fs, None)) }
     else Some (im, seg, fs, None) })"

definition im_add ::
  "environment \<Rightarrow> u64 \<Rightarrow> OperationBody \<Rightarrow> IntermediateOplog \<times> OplogIndexSegment \<times> FileSystem \<Rightarrow>
     (IntermediateOplog \<times> OplogIndexSegment \<times> FileSystem \<times> io_error option) option" where
  "im_add env segmentSizeMb op = im_addAll env segmentSizeMb [op]"

section \<open>OplogIterator\<close>

record OplogIterator =
  it_descriptors :: "OplogIndexSegmentDescriptor list"
  segmentOplogDescriptorInitDiskPtr :: u64
  it_intermediate :: bytes
  it_compressed :: bool
  it_oplogId :: u32
  lastTimestampOfLastNext :: u32
  actualIndexDescriptor :: u32
  intermediateIterated :: bool

text \<open>\<^verbatim>\<open>lastTimestampOfLastNext\<close> is not initialised: \<open>garbage\<close> is what the memory holds.\<close>

definition new_OplogIterator ::
  "u32 \<Rightarrow> OplogIndexSegmentDescriptor list \<Rightarrow> u64 \<Rightarrow> bytes \<Rightarrow> bool \<Rightarrow> bool \<Rightarrow> u32 \<Rightarrow> OplogIterator" where
  "new_OplogIterator garbage descriptors initDiskPtr intermediate iterateOnlyDescriptors compressed oplogId =
     \<lparr>it_descriptors = descriptors, segmentOplogDescriptorInitDiskPtr = initDiskPtr, it_intermediate = intermediate,
      it_compressed = compressed, it_oplogId = oplogId, lastTimestampOfLastNext = garbage, actualIndexDescriptor = 0,
      intermediateIterated = iterateOnlyDescriptors\<rparr>"

definition it_hasNext :: "OplogIterator \<Rightarrow> bool" where
  "it_hasNext it \<longleftrightarrow>
     (intermediateIterated it \<and> unat (actualIndexDescriptor it) < length (it_descriptors it)) \<or>
     (\<not> intermediateIterated it \<and> length (it_intermediate it) > 0)"

text \<open>An element is the bytes of a part, or an error result when the part is corrupted; the fetcher of the
  iterator is the one every log passes, a read of the segment at the time of the call.\<close>

definition it_next ::
  "environment \<Rightarrow> OplogIndexSegment \<Rightarrow> FileSystem \<Rightarrow> OplogIterator \<Rightarrow> (OplogIterator \<times> (io_error + bytes option)) option" where
  "it_next env seg fs it =
     (if \<not> intermediateIterated it
      then let it = it\<lparr>intermediateIterated := True\<rparr> in
        Some (it, if it_compressed it
                  then (case compressBytes (env_compress env) (it_intermediate it) of
                          Inl ret \<Rightarrow> Inl (CompressionFailed ret) | Inr bytes \<Rightarrow> Inr (Some bytes))
                  else Inr (Some (it_intermediate it)))
      else if unat (actualIndexDescriptor it) < length (it_descriptors it)
      then do {
        let actualDescriptor = it_descriptors it ! unat (actualIndexDescriptor it);
        let it = it\<lparr>actualIndexDescriptor := actualIndexDescriptor it + 1,
                    lastTimestampOfLastNext := ucast (desc_max actualDescriptor)\<rparr>;
        fetched \<leftarrow> getDataByDescriptorBytes env seg fs actualDescriptor;
        Some (it, (case fetched of
                     Some bytes \<Rightarrow>
                       if \<not> it_compressed it
                       then (case uncompressBytes (env_uncompress env) bytes (ucast (desc_uncompressedSize actualDescriptor)) of
                               Inl ret \<Rightarrow> Inl (CompressionFailed ret) | Inr out \<Rightarrow> Inr (Some out))
                       else Inr (Some bytes)
                   | None \<Rightarrow> Inr None)) }
      else Some (it, Inl OutOfRange))"

definition it_totalSize :: "OplogIterator \<Rightarrow> u64" where
  "it_totalSize it = word_of_nat (length (it_descriptors it)) + (if it_intermediate it = [] then 0 else 1)"

definition getLastSegmentOplogDescriptorDiskPtr :: "OplogIterator \<Rightarrow> u64" where
  "getLastSegmentOplogDescriptorDiskPtr it =
     (if actualIndexDescriptor it > 0
      then segmentOplogDescriptorInitDiskPtr it + (ucast (actualIndexDescriptor it - 1)) * of_nat descriptor_size
      else segmentOplogDescriptorInitDiskPtr it)"

definition at_descriptor :: "OplogIterator \<Rightarrow> u32 \<Rightarrow> OplogIndexSegmentDescriptor option" where
  "at_descriptor it i = (if unat i < length (it_descriptors it) then Some (it_descriptors it ! unat i) else None)"

definition getNextUncompressedSize :: "OplogIterator \<Rightarrow> u32 option" where
  "getNextUncompressedSize it =
     (if intermediateIterated it then map_option desc_uncompressedSize (at_descriptor it (actualIndexDescriptor it))
      else Some (word_of_nat (length (it_intermediate it))))"

definition getLastUncompressedSize :: "OplogIterator \<Rightarrow> u32 option" where
  "getLastUncompressedSize it =
     (if actualIndexDescriptor it = 0 then Some (word_of_nat (length (it_intermediate it)))
      else map_option desc_uncompressedSize (at_descriptor it (actualIndexDescriptor it - 1)))"

definition getLastDescriptor :: "OplogIterator \<Rightarrow> OplogIndexSegmentDescriptor option" where
  "getLastDescriptor it = at_descriptor it (actualIndexDescriptor it - 1)"

definition isCompressingRequired :: "OplogIterator \<Rightarrow> bool" where
  "isCompressingRequired it = it_compressed it"

definition getLastTimestampOfLastNext :: "OplogIterator \<Rightarrow> u32" where
  "getLastTimestampOfLastNext it = lastTimestampOfLastNext it"

definition it_getOplogId :: "OplogIterator \<Rightarrow> u32" where
  "it_getOplogId it = it_oplogId it"

section \<open>OperationLogBuffer\<close>

text \<open>The queue of the buffer is a third-party one that keeps no order: what a call of
  \<^verbatim>\<open>dequeue_or_sleep_for\<close> returns is the argument of \<open>flusher_round\<close>, taken from the queued
  operations.\<close>

record OperationLogBuffer =
  buf_queue :: "OperationBody list"
  stopFlushingFlag :: bool
  flusherExited :: bool

definition new_OperationLogBuffer :: OperationLogBuffer where
  "new_OperationLogBuffer = \<lparr>buf_queue = [], stopFlushingFlag = False, flusherExited = False\<rparr>"

definition buffer_add :: "OperationBody \<Rightarrow> OperationLogBuffer \<Rightarrow> OperationLogBuffer" where
  "buffer_add op b = b\<lparr>buf_queue := buf_queue b @ [op]\<rparr>"

definition buffer_addAll :: "OperationBody list \<Rightarrow> OperationLogBuffer \<Rightarrow> OperationLogBuffer" where
  "buffer_addAll operations b = foldl (\<lambda>b it. buffer_add it b) b operations"

section \<open>SingleOperationLog\<close>

record OperationLogOptions =
  operationLogId :: u32
  opt_compressed :: bool

record SingleOperationLog =
  memdbBasePath :: string
  log_partitionPath :: string
  operationLogBuffer :: OperationLogBuffer
  oplogIndexSegment :: OplogIndexSegment
  intermediateOplog :: IntermediateOplog

definition log_initializeFiles :: "string \<Rightarrow> string \<Rightarrow> FileSystem \<Rightarrow> FileSystem" where
  "log_initializeFiles base path fs = ensure_dir path (ensure_dir base fs)"

definition log_initialize :: "string \<Rightarrow> u32 \<Rightarrow> FileSystem \<Rightarrow> (io_error + SingleOperationLog \<times> FileSystem) option" where
  "log_initialize dataPath oplogId fs = do {
     r \<leftarrow> new_OplogIndexSegment dataPath oplogId fs;
     (case r of Inl e \<Rightarrow> Some (Inl e)
      | Inr (seg, fs) \<Rightarrow> do {
          r \<leftarrow> new_IntermediateOplog dataPath oplogId fs;
          (case r of Inl e \<Rightarrow> Some (Inl e)
           | Inr (im, fs) \<Rightarrow>
               let path = partition_path dataPath oplogId in
               Some (Inr (\<lparr>memdbBasePath = dataPath, log_partitionPath = path, operationLogBuffer = new_OperationLogBuffer,
                           oplogIndexSegment = seg, intermediateOplog = im\<rparr>, log_initializeFiles dataPath path fs))) }) }"

text \<open>One round of the flusher's loop on what the queue returned, and the end of the loop.\<close>

definition flusher_round ::
  "environment \<Rightarrow> u64 \<Rightarrow> OperationBody list \<Rightarrow> SingleOperationLog \<times> FileSystem \<Rightarrow>
     (SingleOperationLog \<times> FileSystem \<times> io_error option) option" where
  "flusher_round env segmentSizeMb operations = (\<lambda>(log, fs).
     if stopFlushingFlag (operationLogBuffer log)
     then Some (log\<lparr>operationLogBuffer := (operationLogBuffer log)\<lparr>flusherExited := True\<rparr>\<rparr>, fs, None)
     else do {
       let log = log\<lparr>operationLogBuffer := (operationLogBuffer log)\<lparr>buf_queue := fold remove1 operations (buf_queue (operationLogBuffer log))\<rparr>\<rparr>;
       (im, seg, fs, thrown) \<leftarrow> im_addAll env segmentSizeMb operations (intermediateOplog log, oplogIndexSegment log, fs);
       Some (log\<lparr>intermediateOplog := im, oplogIndexSegment := seg\<rparr>, fs, thrown) })"

text \<open>\<^verbatim>\<open>stopFlushing\<close> sets the flag and waits until the flusher has left its loop.\<close>

definition stopFlushing :: "OperationLogBuffer \<Rightarrow> OperationLogBuffer" where
  "stopFlushing b = b\<lparr>stopFlushingFlag := True, flusherExited := True\<rparr>"

definition log_clear :: "SingleOperationLog \<times> FileSystem \<Rightarrow> SingleOperationLog \<times> FileSystem" where
  "log_clear = (\<lambda>(log, fs).
     let log = log\<lparr>operationLogBuffer := stopFlushing (operationLogBuffer log)\<rparr>;
         fs = segment_clearAll (oplogIndexSegment log) fs;
         fs = im_clearAll (intermediateOplog log) fs
     in (log, fs))"

definition log_add :: "OperationBody \<Rightarrow> SingleOperationLog \<Rightarrow> SingleOperationLog" where
  "log_add op log = log\<lparr>operationLogBuffer := buffer_add op (operationLogBuffer log)\<rparr>"

definition log_addAll :: "OperationBody list \<Rightarrow> SingleOperationLog \<Rightarrow> SingleOperationLog" where
  "log_addAll operations log = log\<lparr>operationLogBuffer := buffer_addAll operations (operationLogBuffer log)\<rparr>"

definition log_getAfterTimestamp ::
  "u32 \<Rightarrow> u64 \<Rightarrow> OperationLogOptions \<Rightarrow> SingleOperationLog \<Rightarrow> FileSystem \<Rightarrow> OplogIterator option" where
  "log_getAfterTimestamp garbage after options log fs = do {
     desc \<leftarrow> getByAfterTimestamp (oplogIndexSegment log) fs after;
     let intermediate = im_getAllBytes (intermediateOplog log) fs;
     Some (new_OplogIterator garbage (after_descriptors desc) (after_descriptorInitPtr desc) intermediate False
             (opt_compressed options) (operationLogId options)) }"

definition log_getBetweenTimestamps ::
  "u32 \<Rightarrow> u64 \<Rightarrow> u64 \<Rightarrow> OperationLogOptions \<Rightarrow> SingleOperationLog \<Rightarrow> FileSystem \<Rightarrow> (io_error + OplogIterator) option" where
  "log_getBetweenTimestamps garbage fromTimestamp toTimestamp options log fs = do {
     r \<leftarrow> segment_getBetweenTimestamps (oplogIndexSegment log) fs fromTimestamp toTimestamp;
     Some (case r of Inl e \<Rightarrow> Inl e
      | Inr segmentsResult \<Rightarrow>
          if resultsOnlyInIntermediate segmentsResult
          then Inr (new_OplogIterator garbage [] 0 (im_getAllBytes (intermediateOplog log) fs) False
                      (opt_compressed options) (operationLogId options))
          else if resultsInDescriptorsAndIntermediate segmentsResult
          then Inr (new_OplogIterator garbage (between_descriptors segmentsResult) (between_descriptorInitPtr segmentsResult)
                      (im_getAllBytes (intermediateOplog log) fs) False (opt_compressed options) (operationLogId options))
          else if resultsOnlyInSegments segmentsResult
          then Inr (new_OplogIterator garbage (between_descriptors segmentsResult) (between_descriptorInitPtr segmentsResult)
                      [] True (opt_compressed options) (operationLogId options))
          else Inl OutOfRange) }"

definition log_getAll :: "u32 \<Rightarrow> OperationLogOptions \<Rightarrow> SingleOperationLog \<Rightarrow> FileSystem \<Rightarrow> OplogIterator option" where
  "log_getAll garbage options log fs = do {
     desc \<leftarrow> segment_getAll (oplogIndexSegment log) fs;
     let intermediate = im_getAllBytes (intermediateOplog log) fs;
     Some (new_OplogIterator garbage desc 0 intermediate False (opt_compressed options) (operationLogId options)) }"

definition log_updateCorrupted ::
  "environment \<Rightarrow> bytes \<Rightarrow> u32 \<Rightarrow> u64 \<Rightarrow> SingleOperationLog \<times> FileSystem \<Rightarrow>
     (SingleOperationLog \<times> FileSystem \<times> io_error option) option" where
  "log_updateCorrupted env uncorrupted uncompressedSize ptr = (\<lambda>(log, fs). do {
     (seg, fs, thrown) \<leftarrow> updateCorruptedSegment env uncorrupted uncompressedSize ptr (oplogIndexSegment log, fs);
     Some (log\<lparr>oplogIndexSegment := seg\<rparr>, fs, thrown) })"

definition log_getNumberOplogFiles :: u32 where
  "log_getNumberOplogFiles = 1"

definition log_hasOplogFile :: "u32 \<Rightarrow> bool" where
  "log_hasOplogFile oplogId = True"

section \<open>MultipleOperationLog\<close>

type_synonym MultipleOperationLog = "SingleOperationLog list"

text \<open>An index outside the vector of logs is undefined behaviour, \<^term>\<open>None\<close>.\<close>

definition logs_add :: "u32 \<Rightarrow> OperationBody \<Rightarrow> MultipleOperationLog \<Rightarrow> MultipleOperationLog option" where
  "logs_add oplogId op logs =
     (if unat oplogId < length logs then Some (logs[unat oplogId := log_add op (logs ! unat oplogId)]) else None)"

fun logs_addAll :: "u32 \<Rightarrow> OperationBody list \<Rightarrow> MultipleOperationLog \<Rightarrow> MultipleOperationLog option" where
  "logs_addAll oplogId [] logs = Some logs"
| "logs_addAll oplogId (op # operations) logs = do {
     logs \<leftarrow> logs_add oplogId op logs;
     logs_addAll oplogId operations logs }"

text \<open>The left of the sum is the exception of \<^verbatim>\<open>at\<close>.\<close>

definition logs_hasOplogFile :: "u32 \<Rightarrow> MultipleOperationLog \<Rightarrow> io_error + bool" where
  "logs_hasOplogFile oplogId logs =
     (if length logs < unat oplogId
      then (if unat oplogId < length logs then Inr (log_hasOplogFile oplogId) else Inl OutOfRange)
      else Inr False)"

definition logs_clear :: "u32 \<Rightarrow> MultipleOperationLog \<times> FileSystem \<Rightarrow> MultipleOperationLog \<times> FileSystem" where
  "logs_clear oplogId = (\<lambda>(logs, fs).
     if length logs \<le> unat oplogId then (logs, fs)
     else let (log, fs) = log_clear (logs ! unat oplogId, fs) in (logs[unat oplogId := log], fs))"

definition logs_updateCorrupted ::
  "environment \<Rightarrow> bytes \<Rightarrow> u32 \<Rightarrow> u64 \<Rightarrow> u32 \<Rightarrow> MultipleOperationLog \<times> FileSystem \<Rightarrow>
     (MultipleOperationLog \<times> FileSystem \<times> io_error option) option" where
  "logs_updateCorrupted env uncorrupted uncompressedSize ptr oplogId = (\<lambda>(logs, fs).
     if length logs \<le> unat oplogId then Some (logs, fs, None)
     else do {
       (log, fs, thrown) \<leftarrow> log_updateCorrupted env uncorrupted uncompressedSize ptr (logs ! unat oplogId, fs);
       Some (logs[unat oplogId := log], fs, thrown) })"

text \<open>A log that does not exist gives the empty iterator, the inner \<^term>\<open>None\<close>.\<close>

definition logs_getBetweenTimestamps ::
  "u32 \<Rightarrow> u64 \<Rightarrow> u64 \<Rightarrow> OperationLogOptions \<Rightarrow> MultipleOperationLog \<Rightarrow> FileSystem \<Rightarrow> (io_error + OplogIterator option) option" where
  "logs_getBetweenTimestamps garbage fromTimestamp toTimestamp options logs fs =
     (if length logs \<le> unat (operationLogId options) then Some (Inr None)
      else do {
        r \<leftarrow> log_getBetweenTimestamps garbage fromTimestamp toTimestamp options (logs ! unat (operationLogId options)) fs;
        Some (case r of Inl e \<Rightarrow> Inl e | Inr it \<Rightarrow> Inr (Some it)) })"

definition logs_getAfterTimestamp ::
  "u32 \<Rightarrow> u64 \<Rightarrow> OperationLogOptions \<Rightarrow> MultipleOperationLog \<Rightarrow> FileSystem \<Rightarrow> OplogIterator option option" where
  "logs_getAfterTimestamp garbage ts options logs fs =
     (if length logs \<le> unat (operationLogId options) then Some None
      else map_option Some (log_getAfterTimestamp garbage ts options (logs ! unat (operationLogId options)) fs))"

definition logs_getAll ::
  "u32 \<Rightarrow> OperationLogOptions \<Rightarrow> MultipleOperationLog \<Rightarrow> FileSystem \<Rightarrow> OplogIterator option option" where
  "logs_getAll garbage options logs fs =
     (if length logs \<le> unat (operationLogId options) then Some None
      else map_option Some (log_getAll garbage options (logs ! unat (operationLogId options)) fs))"

definition logs_getNumberOplogFiles :: "MultipleOperationLog \<Rightarrow> u32" where
  "logs_getNumberOplogFiles logs = word_of_nat (length logs)"

fun initialize_oplogs_from :: "string \<Rightarrow> nat \<Rightarrow> nat \<Rightarrow> FileSystem \<Rightarrow> (io_error + MultipleOperationLog \<times> FileSystem) option" where
  "initialize_oplogs_from dataPath i 0 fs = Some (Inr ([], fs))"
| "initialize_oplogs_from dataPath i (Suc n) fs = do {
     r \<leftarrow> log_initialize dataPath (word_of_nat i) fs;
     (case r of Inl e \<Rightarrow> Some (Inl e)
      | Inr (log, fs) \<Rightarrow> do {
          r \<leftarrow> initialize_oplogs_from dataPath (i + 1) n fs;
          Some (case r of Inl e \<Rightarrow> Inl e | Inr (logs, fs) \<Rightarrow> Inr (log # logs, fs)) }) }"

definition initializeOplogs :: "string \<Rightarrow> nat \<Rightarrow> FileSystem \<Rightarrow> (io_error + MultipleOperationLog \<times> FileSystem) option" where
  "initializeOplogs dataPath numberOplogs fs = initialize_oplogs_from dataPath 0 numberOplogs fs"

section \<open>BackedDiskRequestBuffer\<close>

record BackedDiskRequestBuffer =
  filePath :: string
  fileName :: string

definition bd_fullPath :: "BackedDiskRequestBuffer \<Rightarrow> string" where
  "bd_fullPath b = filePath b @ ''/'' @ fileName b"

definition new_BackedDiskRequestBuffer ::
  "string \<Rightarrow> string \<Rightarrow> FileSystem \<Rightarrow> (io_error + BackedDiskRequestBuffer \<times> FileSystem) option" where
  "new_BackedDiskRequestBuffer path name fs = do {
     r \<leftarrow> ensure_file path name fs;
     Some (case r of Inl e \<Rightarrow> Inl e | Inr fs \<Rightarrow> Inr (\<lparr>filePath = path, fileName = name\<rparr>, fs)) }"

definition bd_add :: "Request \<Rightarrow> BackedDiskRequestBuffer \<Rightarrow> FileSystem \<Rightarrow> FileSystem option" where
  "bd_add request b fs = do {
     serialized \<leftarrow> serialize_request request;
     let serialized = appendBeginningToBuffer (word_of_nat (length serialized) :: memDbDataLength_t) serialized;
     Some (appendBytes (bd_fullPath b) serialized fs) }"

definition bd_clear :: "BackedDiskRequestBuffer \<Rightarrow> FileSystem \<Rightarrow> FileSystem" where
  "bd_clear b fs = fs_clear (bd_fullPath b) fs"

definition bd_hasNext :: "BackedDiskRequestBuffer \<Rightarrow> FileSystem \<Rightarrow> bool" where
  "bd_hasNext b fs \<longleftrightarrow> file_size (filePath b) (fileName b) fs > 4"

text \<open>The length is read from the last four bytes of the file, and the request from the path of the
  directory.\<close>

definition bd_next :: "environment \<Rightarrow> BackedDiskRequestBuffer \<Rightarrow> FileSystem \<Rightarrow> (io_error + Request \<times> FileSystem) option" where
  "bd_next env b fs = do {
     let filePtr = file_size (filePath b) (fileName b) fs - 4;
     requestLengthBuffer \<leftarrow> seekBytes (bd_fullPath b) filePtr 4 fs;
     requestLength \<leftarrow> (parseFromBuffer (env_shl env) requestLengthBuffer 0 :: u32 option);
     requestBuffer \<leftarrow> seekBytes (filePath b) filePtr (ucast requestLength) fs;
     request \<leftarrow> deserialize_request (env_shl env) requestBuffer;
     Some (case deleteTopBytes (bd_fullPath b) (word_of_nat (length requestBuffer) + 4) fs of
             Inl e \<Rightarrow> Inl e | Inr fs \<Rightarrow> Inr (request, fs)) }"

section \<open>OperationLogUtils and OperationLogInvalidator\<close>

text \<open>The set keeps no order: the keys are listed in the order of their first appearance.\<close>

fun unique_keys_from :: "OperationBody list \<Rightarrow> SimpleString list \<Rightarrow> SimpleString list option" where
  "unique_keys_from [] keysAlreadySeen = Some keysAlreadySeen"
| "unique_keys_from (operationLog # operationLogs) keysAlreadySeen = do {
     k \<leftarrow> getArg operationLog 0;
     unique_keys_from operationLogs (if k \<in> set keysAlreadySeen then keysAlreadySeen else keysAlreadySeen @ [k]) }"

definition getUniqueKeys :: "OperationBody list \<Rightarrow> SimpleString list option" where
  "getUniqueKeys operationLogs = unique_keys_from operationLogs []"

text \<open>The list of arguments with the key is built but never stored in the operation.\<close>

definition createDeleteKeyOperation :: "SimpleString \<Rightarrow> OperationBody" where
  "createDeleteKeyOperation k =
     \<lparr>args = None, timestamp = 0, op_nodeId = 0, operatorNumber = 0x03, op_flag1 = False, op_flag2 = False\<rparr>"

definition getInvalidationOperations :: "OperationBody list \<Rightarrow> OperationBody list option" where
  "getInvalidationOperations toInvalidate = map_option (map createDeleteKeyOperation) (getUniqueKeys toInvalidate)"

section \<open>Iterating a log\<close>

text \<open>At most \<open>n\<close> calls of \<^verbatim>\<open>next\<close>, each after a \<^verbatim>\<open>hasNext\<close> that said yes, and what each call gave. An entry \<open>Inl e\<close> is a call
  that threw, and the entries behind it are those of calls made all the same; a client that does not catch the
  exception sees the list up to it.\<close>

fun drain_log ::
  "nat \<Rightarrow> environment \<Rightarrow> OplogIndexSegment \<Rightarrow> FileSystem \<Rightarrow> OplogIterator \<Rightarrow>
     ((io_error + bytes option) list \<times> OplogIterator) option" where
  "drain_log 0 env seg fs it = Some ([], it)"
| "drain_log (Suc n) env seg fs it =
     (if it_hasNext it then do {
        (it, x) \<leftarrow> it_next env seg fs it;
        (xs, it) \<leftarrow> drain_log n env seg fs it;
        Some (x # xs, it) }
      else Some ([], it))"

text \<open>What an uncompressed iteration gives for a segment.\<close>

definition segment_part ::
  "environment \<Rightarrow> OplogIndexSegment \<Rightarrow> FileSystem \<Rightarrow> OplogIndexSegmentDescriptor \<Rightarrow> (io_error + bytes option) option" where
  "segment_part env seg fs d = do {
     fetched \<leftarrow> getDataByDescriptorBytes env seg fs d;
     Some (case fetched of
             Some bytes \<Rightarrow> (case uncompressBytes (env_uncompress env) bytes (ucast (desc_uncompressedSize d)) of
                              Inl ret \<Rightarrow> Inl (CompressionFailed ret) | Inr out \<Rightarrow> Inr (Some out))
           | None \<Rightarrow> Inr None) }"

lemma seekBytes_short: "unat n < 2 ^ 63 \<Longrightarrow> seekBytes p ptr n fs \<noteq> None"
  by (simp add: seekBytes_def Let_def)

lemma segment_part_Some: "\<exists>x. segment_part env seg fs d = Some x"
proof -
  have "unat (desc_size d) < 2 ^ LENGTH(32)" by (rule unsigned_less)
  then have "unat (ucast (desc_size d) :: u64) < 2 ^ 63" by (simp add: unsigned_ucast_eq take_bit_nat_eq_self)
  then obtain y where "seekBytes (fullPathData seg) (desc_ptr d) (ucast (desc_size d)) fs = Some y"
    using seekBytes_short by blast
  then show ?thesis
    by (simp add: segment_part_def getDataByDescriptorBytes_def readBytesDataByDescriptor_def)
qed

lemma drain_segments:
  assumes "intermediateIterated it" and "\<not> it_compressed it" and "length (it_descriptors it) < 2 ^ 32"
    and "unat (actualIndexDescriptor it) + n = length (it_descriptors it)"
  shows "\<exists>it'. drain_log (Suc n) env seg fs it =
      Some (map (\<lambda>d. the (segment_part env seg fs d)) (drop (unat (actualIndexDescriptor it)) (it_descriptors it)), it') \<and>
    \<not> it_hasNext it'"
  using assms
proof (induction n arbitrary: it)
  case 0
  then show ?case by (simp add: it_hasNext_def)
next
  case (Suc n)
  let ?i = "unat (actualIndexDescriptor it)"
  let ?d = "it_descriptors it ! ?i"
  have i: "?i < length (it_descriptors it)" using Suc.prems(4) by simp
  define it1 where "it1 = it\<lparr>actualIndexDescriptor := actualIndexDescriptor it + 1, lastTimestampOfLastNext := ucast (desc_max ?d)\<rparr>"
  have u: "unat (actualIndexDescriptor it + 1) = ?i + 1"
    using Suc.prems(3) i by (intro unat_plus_one_if_less [of _ 1]) simp_all
  obtain x where x: "segment_part env seg fs ?d = Some x" using segment_part_Some by blast
  have "it_hasNext it" using Suc.prems(1) i by (simp add: it_hasNext_def)
  moreover have "it_next env seg fs it = Some (it1, x)"
    using Suc.prems(1,2) i x unfolding segment_part_def it_next_def it1_def Let_def
    by (cases "getDataByDescriptorBytes env seg fs ?d") (auto split: option.split)
  moreover obtain it' where "drain_log (Suc n) env seg fs it1 =
      Some (map (\<lambda>d. the (segment_part env seg fs d)) (drop (?i + 1) (it_descriptors it)), it')" "\<not> it_hasNext it'"
    using Suc.IH [of it1] Suc.prems u by (auto simp: it1_def)
  moreover have "drop ?i (it_descriptors it) = ?d # drop (?i + 1) (it_descriptors it)"
    using Cons_nth_drop_Suc [OF i] by simp
  ultimately show ?case using x by (simp del: drain_log.simps add: drain_log.simps(2) [of "Suc n"])
qed

lemma content_fs_clear: "content (fs_clear p fs) p = None"
  by (simp add: fs_clear_def content_def delete_conv')

lemma serialize_ops_append:
  "serialize_ops (xs @ ys) out = Option.bind (serialize_ops xs out) (serialize_ops ys)"
  by (induction xs arbitrary: out) (auto split: bind_splits)

lemma whole_log_drains:
  assumes "index_file (oplogIndexSegment log) fs ds" and "im_getAllBytes (intermediateOplog log) fs = b" and "b \<noteq> []"
    and "length ds < 2 ^ 32" and "\<not> opt_compressed options"
  shows "\<exists>it it'. log_getAll garbage options log fs = Some it \<and>
    drain_log (length ds + 2) env (oplogIndexSegment log) fs it =
      Some (Inr (Some b) # map (\<lambda>d. the (segment_part env (oplogIndexSegment log) fs d)) ds, it') \<and> \<not> it_hasNext it'"
proof -
  define it where "it = new_OplogIterator garbage ds 0 b False False (operationLogId options)"
  define it1 where "it1 = it\<lparr>intermediateIterated := True\<rparr>"
  have all: "log_getAll garbage options log fs = Some it"
    using readAllIndex_index_file [OF assms(1)] assms(2,5) by (simp add: log_getAll_def segment_getAll_def it_def)
  have "it_hasNext it" "it_next env (oplogIndexSegment log) fs it = Some (it1, Inr (Some b))"
    using assms(3) by (simp_all add: it_def it1_def it_hasNext_def it_next_def new_OplogIterator_def)
  moreover obtain it' where "drain_log (Suc (length ds)) env (oplogIndexSegment log) fs it1 =
      Some (map (\<lambda>d. the (segment_part env (oplogIndexSegment log) fs d)) ds, it')" "\<not> it_hasNext it'"
    using drain_segments [of it1 "length ds" env "oplogIndexSegment log" fs] assms(4)
    by (auto simp: it1_def it_def new_OplogIterator_def)
  ultimately show ?thesis using all by (auto simp del: drain_log.simps simp add: drain_log.simps(2) [of "Suc (length ds)"])
qed

section \<open>A log for the witnesses\<close>

definition sample_im :: IntermediateOplog where
  "sample_im = \<lparr>im_basePath = ''m'', im_partitionPath = ''m/0'', bytesWritten = 0\<rparr>"

definition sample_log :: SingleOperationLog where
  "sample_log = \<lparr>memdbBasePath = ''m'', log_partitionPath = ''m/0'', operationLogBuffer = new_OperationLogBuffer,
     oplogIndexSegment = sample_seg, intermediateOplog = sample_im\<rparr>"

definition sample_options :: OperationLogOptions where
  "sample_options = \<lparr>operationLogId = 0, opt_compressed = False\<rparr>"

definition sample_log_fs :: "OplogIndexSegmentDescriptor list \<Rightarrow> bytes \<Rightarrow> FileSystem" where
  "sample_log_fs ds b = set_content ''m/0/oplog-intermediate'' b (sample_fs ds)"

lemma sample_log_files:
  "length ds < 2 ^ 50 \<Longrightarrow> index_file sample_seg (sample_log_fs ds b) ds"
  "content (sample_log_fs ds b) (im_fullPath sample_im) = Some b"
  using sample_segment(1) [of ds]
  by (simp_all add: index_file_def sample_log_fs_def sample_seg_def fullPathIndex_def INDEX_FILE_NAME_def im_fullPath_def
      sample_im_def INTERMEDIATE_FILE_NAME_def)

lemma sample_loggable: "unat t < 2 ^ 31 \<Longrightarrow> loggable (sample_op k t)"
  unfolding loggable_def
  by (rule exI [of _ "[[k], [1]]"]) (simp add: storable_def sample_op_def record_length_def)

section \<open>Properties\<close>

text \<open>C20. Iterating a log with a non-empty intermediate file ends after one round per segment and one for the
  intermediate file: it yields the intermediate bytes first and then, for every segment in the order of
  the index, its decompressed bytes or the error result of a corrupted one.\<close>

theorem oplog_iteration_complete:
  assumes "index_file (oplogIndexSegment log) fs ds" and "im_getAllBytes (intermediateOplog log) fs = b" and "b \<noteq> []"
    and "length ds < 2 ^ 32" and "\<not> opt_compressed options"
  shows "\<exists>it it'. log_getAll garbage options log fs = Some it \<and>
    drain_log (length ds + 2) env (oplogIndexSegment log) fs it =
      Some (Inr (Some b) # map (\<lambda>d. the (segment_part env (oplogIndexSegment log) fs d)) ds, it') \<and> \<not> it_hasNext it'"
  using assms by (rule whole_log_drains)

theorem oplog_iteration_complete_witness:
  "\<exists>it it'. log_getAll 0 sample_options sample_log (sample_log_fs [sample_desc 1 5] [9]) = Some it \<and>
    drain_log (length [sample_desc 1 5] + 2) sample_env (oplogIndexSegment sample_log) (sample_log_fs [sample_desc 1 5] [9]) it =
      Some (Inr (Some [9]) # map (\<lambda>d. the (segment_part sample_env (oplogIndexSegment sample_log) (sample_log_fs [sample_desc 1 5] [9]) d)) [sample_desc 1 5], it') \<and>
    \<not> it_hasNext it'"
  by (rule oplog_iteration_complete)
    (simp_all add: sample_log_files sample_log_def sample_options_def im_getAllBytes_def readBytes_def)

text \<open>Right after the intermediate file was turned into a segment, iterating the whole log yields nothing,
  although the log has at least one segment: an empty intermediate file ends the iteration before the
  segments.\<close>

theorem flushed_log_reads_empty:
  assumes "im_addAll env segmentSizeMb ops (im, seg, fs) = Some (im', seg', fs', None)"
    and "serializeAll ops = Some bytes" and "segmentSizeMb * 1024 * 1024 < bytesWritten im + word_of_nat (length bytes)"
    and "log_getAll garbage options (log\<lparr>intermediateOplog := im', oplogIndexSegment := seg'\<rparr>) fs' = Some it"
  shows "\<not> it_hasNext it"
proof -
  obtain seg1 fs1 thrown where w: "save env (readBytes (im_fullPath im) (appendBytes (im_fullPath im) bytes fs))
      (seg, appendBytes (im_fullPath im) bytes fs) = Some (seg1, fs1, thrown)"
    using assms(1-3) by (cases "save env (readBytes (im_fullPath im) (appendBytes (im_fullPath im) bytes fs))
      (seg, appendBytes (im_fullPath im) bytes fs)") (auto simp: im_addAll_def im_fullPath_def)
  then have "im' = im\<lparr>bytesWritten := 0\<rparr> \<and> fs' = fs_clear (im_fullPath im) fs1"
    using assms(1-3) by (cases thrown) (auto simp: im_addAll_def im_fullPath_def)
  then have "readBytes (im_fullPath im') fs' = []" by (simp add: readBytes_def content_fs_clear im_fullPath_def)
  then show ?thesis
    using assms(4) by (cases "segment_getAll seg' fs'") (auto simp: log_getAll_def im_getAllBytes_def new_OplogIterator_def it_hasNext_def)
qed

theorem flushed_log_reads_empty_witness:
  "\<exists>im' seg' fs' it. im_addAll sample_env 0 [sample_op 97 1] (sample_im, sample_seg, sample_log_fs [] []) = Some (im', seg', fs', None) \<and>
     length (the (segment_getAll seg' fs')) = 1 \<and>
     log_getAll 0 sample_options (sample_log\<lparr>intermediateOplog := im', oplogIndexSegment := seg'\<rparr>) fs' = Some it \<and> \<not> it_hasNext it"
proof -
  have "case im_addAll sample_env 0 [sample_op 97 1] (sample_im, sample_seg, sample_log_fs [] []) of
      Some (im', seg', fs', None) \<Rightarrow> length (the (segment_getAll seg' fs')) = 1 \<and>
        log_getAll 0 sample_options (sample_log\<lparr>intermediateOplog := im', oplogIndexSegment := seg'\<rparr>) fs' \<noteq> None
    | _ \<Rightarrow> False" by code_simp
  then obtain im' seg' fs' it where r: "im_addAll sample_env 0 [sample_op 97 1] (sample_im, sample_seg, sample_log_fs [] []) = Some (im', seg', fs', None)"
    "length (the (segment_getAll seg' fs')) = 1"
    "log_getAll 0 sample_options (sample_log\<lparr>intermediateOplog := im', oplogIndexSegment := seg'\<rparr>) fs' = Some it"
    by (auto split: option.splits)
  have "case serializeAll [sample_op 97 1] of Some bytes \<Rightarrow> (0 :: u64) * 1024 * 1024 < bytesWritten sample_im + word_of_nat (length bytes) | None \<Rightarrow> False"
    by code_simp
  then obtain bytes where b: "serializeAll [sample_op 97 1] = Some bytes" "(0 :: u64) * 1024 * 1024 < bytesWritten sample_im + word_of_nat (length bytes)"
    by (auto split: option.splits)
  show ?thesis using r flushed_log_reads_empty [OF r(1) b r(3)] by blast
qed

text \<open>C23. Operations added to the intermediate file are recovered while the bytes written stay at or below the size of a segment
  and every record has less than 256 bytes: reading the file back gives the operations that were there followed by the
  new ones, all of them with node id 1, which is not part of a record.\<close>

theorem intermediate_log_recovers:
  assumes "\<forall>op \<in> set (old @ ops). loggable op" and "shl_keeps_zero (env_shl env)"
    and "serializeAll old = Some before" and "serializeAll ops = Some bytes" and "content fs (im_fullPath im) = Some before"
    and "\<not> segmentSizeMb * 1024 * 1024 < bytesWritten im + word_of_nat (length bytes)"
  shows "\<exists>im' fs'. im_addAll env segmentSizeMb ops (im, seg, fs) = Some (im', seg, fs', None) \<and>
    deserializeAll (env_shl env) (im_getAllBytes im' fs') = Some (map reset_node (old @ ops))"
proof -
  obtain whole where w: "serializeAll (old @ ops) = Some whole" "deserializeAll (env_shl env) whole = Some (map reset_node (old @ ops))"
    using loggable_roundtrip [OF assms(1,2)] by blast
  have "storable op (the (args op))" if "op \<in> set (old @ ops)" for op
  proof -
    obtain as where "storable op as" using assms(1) \<open>op \<in> set (old @ ops)\<close> unfolding loggable_def by blast
    then show ?thesis by (simp add: storable_def)
  qed
  then have r: "\<forall>(op, as) \<in> set (map (\<lambda>op. (op, the (args op))) xs). storable op as" if "set xs \<subseteq> set (old @ ops)" for xs
    using that by auto
  have "whole = before @ bytes"
    using w(1) assms(3,4) serialize_ops_records [OF r [of old], of "[]"] serialize_ops_records [OF r [of ops], of "[]"]
      serialize_ops_records [OF r [of "old @ ops"], of "[]"]
    by (simp add: serializeAll_def comp_def records_def)
  then have "im_getAllBytes (im\<lparr>bytesWritten := bytesWritten im + word_of_nat (length bytes)\<rparr>) (appendBytes (im_fullPath im) bytes fs) = whole"
    using content_appendBytes [OF assms(5)] by (simp add: im_getAllBytes_def readBytes_def im_fullPath_def)
  then show ?thesis using assms(4,6) w(2) by (simp add: im_addAll_def Let_def)
qed

theorem intermediate_log_recovers_witness:
  "\<exists>before im' fs'. serializeAll [sample_op 97 1] = Some before \<and>
    im_addAll sample_env 1 [sample_op 98 2] (sample_im, sample_seg, sample_log_fs [] before) = Some (im', sample_seg, fs', None) \<and>
    deserializeAll (env_shl sample_env) (im_getAllBytes im' fs') = Some (map reset_node ([sample_op 97 1] @ [sample_op 98 2]))"
proof -
  have l: "\<forall>op \<in> set ([sample_op 97 1] @ [sample_op 98 2]). loggable op" by (simp add: sample_loggable)
  have "serializeAll [sample_op 97 1] \<noteq> None" by code_simp
  then obtain before where old: "serializeAll [sample_op 97 1] = Some before" by auto
  have "case serializeAll [sample_op 98 2] of Some bytes \<Rightarrow> \<not> (1 :: u64) * 1024 * 1024 < bytesWritten sample_im + word_of_nat (length bytes) | None \<Rightarrow> False"
    by code_simp
  then obtain bytes where b: "serializeAll [sample_op 98 2] = Some bytes"
    "\<not> (1 :: u64) * 1024 * 1024 < bytesWritten sample_im + word_of_nat (length bytes)"
    by (auto split: option.splits)
  show ?thesis
    using intermediate_log_recovers [OF l sample_segment(5) old b(1) sample_log_files(2) b(2)] old by blast
qed

end
