(* ===== verification/Ring.thy ===== *)
theory Ring
  imports Ordered_Map Byte_Codec
begin

text \<open>
  The ring of nodes of the cluster (\<^verbatim>\<open>cluster/partitions/RingEntries\<close>) and the partitions
  derived from it (\<^verbatim>\<open>cluster/partitions/Partitions\<close>). The ring is a doubly linked list on an
  explicit heap of nodes. A pointer field is \<^term>\<open>None\<close> until it is assigned: the constructor of a
  node leaves both of its pointers indeterminate. An operation is \<^term>\<open>None\<close> when \<^verbatim>\<open>at\<close> throws
  or when a null or indeterminate pointer is used.
\<close>

section \<open>RingEntries\<close>

record RingEntry =
  re_nodeId :: memdbNodeId_t
  ringPosition :: u32

type_synonym ring_ptr = "nat option"

record RingEntryNode =
  rn_entry :: RingEntry
  rn_next :: "ring_ptr option"
  rn_back :: "ring_ptr option"

record RingEntries =
  ring_heap :: "nat \<rightharpoonup> RingEntryNode"
  ring_fresh :: nat
  ring_head :: ring_ptr
  indexByNodeId :: "(memdbNodeId_t \<times> nat) list"

definition new_RingEntries :: RingEntries where
  "new_RingEntries = \<lparr>ring_heap = Map.empty, ring_fresh = 0, ring_head = None, indexByNodeId = []\<rparr>"

definition new_RingEntryNode :: "RingEntry \<Rightarrow> RingEntryNode" where
  "new_RingEntryNode e = \<lparr>rn_entry = e, rn_next = None, rn_back = None\<rparr>"

definition ring_at_id :: "RingEntries \<Rightarrow> memdbNodeId_t \<Rightarrow> nat option" where
  "ring_at_id R nodeId = om_get (<) nodeId (indexByNodeId R)"

definition alloc_node :: "RingEntry \<Rightarrow> RingEntries \<Rightarrow> nat \<times> RingEntries" where
  "alloc_node e R =
     (ring_fresh R, R\<lparr>ring_heap := (ring_heap R)(ring_fresh R \<mapsto> new_RingEntryNode e), ring_fresh := ring_fresh R + 1\<rparr>)"

definition set_next :: "nat \<Rightarrow> ring_ptr option \<Rightarrow> RingEntries \<Rightarrow> RingEntries option" where
  "set_next a p R = do {
     n \<leftarrow> ring_heap R a;
     Some (R\<lparr>ring_heap := (ring_heap R)(a \<mapsto> n\<lparr>rn_next := p\<rparr>)\<rparr>) }"

definition set_back :: "nat \<Rightarrow> ring_ptr option \<Rightarrow> RingEntries \<Rightarrow> RingEntries option" where
  "set_back a p R = do {
     n \<leftarrow> ring_heap R a;
     Some (R\<lparr>ring_heap := (ring_heap R)(a \<mapsto> n\<lparr>rn_back := p\<rparr>)\<rparr>) }"

text \<open>A pointer that is dereferenced must be assigned and not null.\<close>

definition target :: "ring_ptr option \<Rightarrow> nat option" where
  "target p = (case p of Some q \<Rightarrow> q | None \<Rightarrow> None)"

text \<open>The search for the gap of a new entry; the first argument counts the rounds that remain.\<close>

fun find_gap :: "nat \<Rightarrow> RingEntries \<Rightarrow> u32 \<Rightarrow> nat \<Rightarrow> ring_ptr option \<Rightarrow> (nat \<times> nat) option option" where
  "find_gap 0 R position actual nextToActual = Some None"
| "find_gap (Suc rounds) R position actual nextToActual = do {
     an \<leftarrow> ring_heap R actual;
     a \<leftarrow> target nextToActual;
     nn \<leftarrow> ring_heap R a;
     if ringPosition (rn_entry an) < position \<and> position < ringPosition (rn_entry nn)
     then Some (Some (actual, a))
     else find_gap rounds R position a (rn_next nn) }"

definition ring_add :: "RingEntry \<Rightarrow> RingEntries \<Rightarrow> RingEntries option" where
  "ring_add ringEntryToAdd R =
     (if ring_at_id R (re_nodeId ringEntryToAdd) \<noteq> None then Some R
      else let size = length (indexByNodeId R);
               (a, R) = alloc_node ringEntryToAdd R;
               R = R\<lparr>indexByNodeId := om_put (<) (re_nodeId ringEntryToAdd) a (indexByNodeId R)\<rparr>
        in if size = 0 then Some (R\<lparr>ring_head := Some a\<rparr>)
           else if size = 1 then do {
             h \<leftarrow> ring_head R;
             hn \<leftarrow> ring_heap R h;
             let R = (if ringPosition ringEntryToAdd < ringPosition (rn_entry hn) then R\<lparr>ring_head := Some a\<rparr> else R);
             R \<leftarrow> set_next h (Some (Some a)) R;
             R \<leftarrow> set_back h (Some (Some a)) R;
             R \<leftarrow> set_next a (Some (Some h)) R;
             set_back a (Some (Some h)) R }
           else do {
             h \<leftarrow> ring_head R;
             hn \<leftarrow> ring_heap R h;
             gap \<leftarrow> find_gap (size + 1) R (ringPosition ringEntryToAdd) h (rn_next hn);
             (case gap of
                Some (actual, nextToActual) \<Rightarrow> do {
                  R \<leftarrow> set_next actual (Some (Some a)) R;
                  R \<leftarrow> set_back a (Some (Some actual)) R;
                  R \<leftarrow> set_back nextToActual (Some (Some a)) R;
                  set_next a (Some (Some nextToActual)) R }
              | None \<Rightarrow> do {
                  oldBackToHead \<leftarrow> target (rn_back hn);
                  R \<leftarrow> set_back h (Some (Some a)) R;
                  R \<leftarrow> set_next oldBackToHead (Some (Some a)) R;
                  R \<leftarrow> set_next a (Some (Some h)) R;
                  set_back a (Some (Some oldBackToHead)) R }) })"

fun entries_of_index :: "RingEntries \<Rightarrow> (memdbNodeId_t \<times> nat) list \<Rightarrow> RingEntry list option" where
  "entries_of_index R [] = Some []"
| "entries_of_index R ((k, a) # idx) = do {
     n \<leftarrow> ring_heap R a;
     rest \<leftarrow> entries_of_index R idx;
     Some (rn_entry n # rest) }"

definition ring_getAll :: "RingEntries \<Rightarrow> RingEntry list option" where
  "ring_getAll R = entries_of_index R (indexByNodeId R)"

text \<open>The head of the ring is not changed, also when it is the deleted node.\<close>

definition ring_deleteByNodeId :: "memdbNodeId_t \<Rightarrow> RingEntries \<Rightarrow> RingEntries option" where
  "ring_deleteByNodeId nodeId R = do {
     a \<leftarrow> ring_at_id R nodeId;
     n \<leftarrow> ring_heap R a;
     b \<leftarrow> target (rn_back n);
     R \<leftarrow> set_next b (rn_next n) R;
     n \<leftarrow> ring_heap R a;
     x \<leftarrow> target (rn_next n);
     R \<leftarrow> set_back x (rn_back n) R;
     Some (R\<lparr>indexByNodeId := filter (\<lambda>(k, a). k \<noteq> nodeId) (indexByNodeId R)\<rparr>) }"

fun clockwise_from :: "RingEntries \<Rightarrow> nat \<Rightarrow> bool \<Rightarrow> nat \<Rightarrow> nat \<Rightarrow> RingEntry list option" where
  "clockwise_from R started first 0 initial = Some []"
| "clockwise_from R started first (Suc n) initial = do {
     c \<leftarrow> ring_heap R initial;
     nx \<leftarrow> rn_next c;
     if \<not> first \<and> nx = Some started then Some []
     else (case nx of
             None \<Rightarrow> Some []
           | Some a \<Rightarrow> do {
               m \<leftarrow> ring_heap R a;
               rest \<leftarrow> clockwise_from R started False n a;
               Some (rn_entry m # rest) }) }"

definition ring_getNeighborsClockwise :: "memdbNodeId_t \<Rightarrow> u32 \<Rightarrow> RingEntries \<Rightarrow> RingEntry list option" where
  "ring_getNeighborsClockwise nodeId numberNeighbors R = do {
     a \<leftarrow> ring_at_id R nodeId;
     clockwise_from R a True (unat numberNeighbors) a }"

text \<open>The walk goes back, but the null test is on the pointer to the next node.\<close>

fun counter_clockwise_from :: "RingEntries \<Rightarrow> nat \<Rightarrow> bool \<Rightarrow> nat \<Rightarrow> nat \<Rightarrow> RingEntry list option" where
  "counter_clockwise_from R started first 0 initial = Some []"
| "counter_clockwise_from R started first (Suc n) initial = do {
     c \<leftarrow> ring_heap R initial;
     bk \<leftarrow> (if first then Some None else rn_back c);
     if \<not> first \<and> bk = Some started then Some []
     else do {
       nx \<leftarrow> rn_next c;
       (case nx of
          None \<Rightarrow> Some []
        | Some x \<Rightarrow> do {
            a \<leftarrow> target (rn_back c);
            m \<leftarrow> ring_heap R a;
            rest \<leftarrow> counter_clockwise_from R started False n a;
            Some (rn_entry m # rest) }) } }"

definition ring_getNeighborsCounterClockwise :: "memdbNodeId_t \<Rightarrow> u32 \<Rightarrow> RingEntries \<Rightarrow> RingEntry list option" where
  "ring_getNeighborsCounterClockwise nodeId numberNeighbors R = do {
     a \<leftarrow> ring_at_id R nodeId;
     counter_clockwise_from R a True (unat numberNeighbors) a }"

text \<open>The inner option is the \<^verbatim>\<open>std::optional\<close> of the code.\<close>

definition entry_behind :: "RingEntries \<Rightarrow> ring_ptr option \<Rightarrow> RingEntry option option" where
  "entry_behind R p = do {
     q \<leftarrow> p;
     (case q of None \<Rightarrow> Some None | Some a \<Rightarrow> do { n \<leftarrow> ring_heap R a; Some (Some (rn_entry n)) }) }"

definition ring_getNeighborCounterClockwise :: "memdbNodeId_t \<Rightarrow> RingEntries \<Rightarrow> RingEntry option option" where
  "ring_getNeighborCounterClockwise nodeId R =
     (case ring_at_id R nodeId of
        Some a \<Rightarrow> do { n \<leftarrow> ring_heap R a; entry_behind R (rn_back n) }
      | None \<Rightarrow> Some None)"

definition ring_getNeighborClockwise :: "memdbNodeId_t \<Rightarrow> RingEntries \<Rightarrow> RingEntry option option" where
  "ring_getNeighborClockwise nodeId R =
     (case ring_at_id R nodeId of
        Some a \<Rightarrow> do { n \<leftarrow> ring_heap R a; entry_behind R (rn_next n) }
      | None \<Rightarrow> Some None)"

fun belongs_loop :: "nat \<Rightarrow> RingEntries \<Rightarrow> u32 \<Rightarrow> nat \<Rightarrow> RingEntry option" where
  "belongs_loop 0 R position actual = do {
     h \<leftarrow> ring_head R;
     hn \<leftarrow> ring_heap R h;
     Some (rn_entry hn) }"
| "belongs_loop (Suc rounds) R position actual = do {
     an \<leftarrow> ring_heap R actual;
     nx \<leftarrow> rn_next an;
     (case nx of
        None \<Rightarrow> Some (rn_entry an)
      | Some a \<Rightarrow> do {
          nn \<leftarrow> ring_heap R a;
          if ringPosition (rn_entry an) \<le> position \<and> position < ringPosition (rn_entry nn) then Some (rn_entry an)
          else if Some a = ring_head R then Some (rn_entry an)
          else belongs_loop rounds R position a }) }"

definition getRingEntryBelongsToPosition :: "u32 \<Rightarrow> RingEntries \<Rightarrow> RingEntry option" where
  "getRingEntryBelongsToPosition position R = do {
     h \<leftarrow> ring_head R;
     belongs_loop (length (indexByNodeId R) + 1) R position h }"

fun distance_loop :: "nat \<Rightarrow> RingEntries \<Rightarrow> memdbNodeId_t \<Rightarrow> memdbNodeId_t \<Rightarrow> int \<Rightarrow> nat \<Rightarrow> nat \<Rightarrow> int option" where
  "distance_loop 0 R nodeA nodeB iterations pA pB = do {
     bn \<leftarrow> ring_heap R pB;
     Some (if re_nodeId (rn_entry bn) = nodeA then iterations * -1 else iterations) }"
| "distance_loop (Suc rounds) R nodeA nodeB iterations pA pB = do {
     an \<leftarrow> ring_heap R pA;
     if re_nodeId (rn_entry an) = nodeB then Some iterations
     else do {
       bn \<leftarrow> ring_heap R pB;
       if re_nodeId (rn_entry bn) = nodeA then Some (- iterations)
       else do {
         a \<leftarrow> target (rn_next an);
         b \<leftarrow> target (rn_next bn);
         distance_loop rounds R nodeA nodeB (iterations + 1) a b } } }"

definition ring_getDistance :: "memdbNodeId_t \<Rightarrow> memdbNodeId_t \<Rightarrow> RingEntries \<Rightarrow> int option" where
  "ring_getDistance nodeA nodeB R = do {
     pA \<leftarrow> ring_at_id R nodeA;
     pB \<leftarrow> ring_at_id R nodeB;
     distance_loop (length (indexByNodeId R) + 1) R nodeA nodeB 0 pA pB }"

definition ring_getDistanceCounterClockwise :: "memdbNodeId_t \<Rightarrow> memdbNodeId_t \<Rightarrow> RingEntries \<Rightarrow> u32 option" where
  "ring_getDistanceCounterClockwise nodeA nodeB R = do {
     distance \<leftarrow> ring_getDistance nodeA nodeB R;
     Some (if distance > 0 then word_of_int (int (length (indexByNodeId R)) - distance) else word_of_int \<bar>distance\<bar>) }"

definition ring_getDistanceClockwise :: "memdbNodeId_t \<Rightarrow> memdbNodeId_t \<Rightarrow> RingEntries \<Rightarrow> u32 option" where
  "ring_getDistanceClockwise nodeA nodeB R = do {
     distance \<leftarrow> ring_getDistance nodeA nodeB R;
     Some (if distance < 0 then word_of_int (int (length (indexByNodeId R)) - \<bar>distance\<bar>) else word_of_int distance) }"

definition ring_getByNodeId :: "memdbNodeId_t \<Rightarrow> RingEntries \<Rightarrow> RingEntry option" where
  "ring_getByNodeId nodeId R = do {
     a \<leftarrow> ring_at_id R nodeId;
     n \<leftarrow> ring_heap R a;
     Some (rn_entry n) }"

text \<open>The loop over the sorted entries; \<open>n\<close> is their number. \<^verbatim>\<open>insert\<close> keeps the first node of an
  identifier.\<close>

fun from_loop :: "nat \<Rightarrow> nat \<Rightarrow> nat \<Rightarrow> RingEntry list \<Rightarrow> RingEntries \<Rightarrow> RingEntries option" where
  "from_loop n i prev [] R = Some R"
| "from_loop n i prev (e # es) R = do {
     let (a, R) = alloc_node e R;
     R \<leftarrow> (if i = 0 then Some (R\<lparr>ring_head := Some a\<rparr>)
           else if i = n - 1 then do {
             R \<leftarrow> set_back a (Some (Some prev)) R;
             R \<leftarrow> set_next prev (Some (Some a)) R;
             h \<leftarrow> ring_head R;
             R \<leftarrow> set_back h (Some (Some a)) R;
             set_next a (Some (Some h)) R }
           else do {
             R \<leftarrow> set_back a (Some (Some prev)) R;
             set_next prev (Some (Some a)) R });
     let R = (if om_get (<) (re_nodeId e) (indexByNodeId R) = None
              then R\<lparr>indexByNodeId := om_put (<) (re_nodeId e) a (indexByNodeId R)\<rparr> else R);
     from_loop n (i + 1) a es R }"

text \<open>\<^verbatim>\<open>std::sort\<close> leaves the order of entries with equal positions open; the sort here is a stable one.\<close>

definition fromEntries :: "RingEntry list \<Rightarrow> RingEntries option" where
  "fromEntries entries = from_loop (length entries) 0 0 (sort_key ringPosition entries) new_RingEntries"

section \<open>Partitions\<close>

text \<open>The configuration contributes the identifier of this node and whether partitions are used; the digest
  is the parameter \<open>md5\<close>.\<close>

record Partitions =
  ringEntries :: RingEntries
  selfEntry :: RingEntry
  nodesPerPartition :: u32
  maxSize :: u32
  conf_usePartitions :: bool

definition new_Partitions ::
  "RingEntry list \<Rightarrow> u32 \<Rightarrow> u32 \<Rightarrow> memdbNodeId_t \<Rightarrow> bool \<Rightarrow> Partitions option" where
  "new_Partitions allRingEntries perPartition maximum nodeId usePartitions = do {
     R \<leftarrow> fromEntries allRingEntries;
     self \<leftarrow> ring_getByNodeId nodeId R;
     Some \<lparr>ringEntries = R, selfEntry = self, nodesPerPartition = perPartition, maxSize = maximum,
           conf_usePartitions = usePartitions\<rparr> }"

definition partitions_getAll :: "Partitions \<Rightarrow> RingEntry list option" where
  "partitions_getAll P = ring_getAll (ringEntries P)"

definition getDistanceClockwise :: "memdbNodeId_t \<Rightarrow> Partitions \<Rightarrow> u32 option" where
  "getDistanceClockwise nodeB P = ring_getDistanceClockwise (re_nodeId (selfEntry P)) nodeB (ringEntries P)"

definition getDistanceCounterClockwise :: "memdbNodeId_t \<Rightarrow> Partitions \<Rightarrow> u32 option" where
  "getDistanceCounterClockwise nodeB P = ring_getDistanceCounterClockwise (re_nodeId (selfEntry P)) nodeB (ringEntries P)"

definition isClockwiseNeighbor :: "memdbNodeId_t \<Rightarrow> Partitions \<Rightarrow> bool option" where
  "isClockwiseNeighbor nodeB P = do {
     d \<leftarrow> ring_getDistanceClockwise (re_nodeId (selfEntry P)) nodeB (ringEntries P);
     Some (d < nodesPerPartition P) }"

definition getOplogIdOfOtherNodeBySelfOplogId :: "memdbNodeId_t \<Rightarrow> u32 \<Rightarrow> Partitions \<Rightarrow> u32 option" where
  "getOplogIdOfOtherNodeBySelfOplogId otherNodeId selfOplogId P =
     (if \<not> conf_usePartitions P then Some 0
      else do {
        clockwise \<leftarrow> isClockwiseNeighbor otherNodeId P;
        if clockwise then do {
          d \<leftarrow> getDistanceClockwise otherNodeId P;
          let oplogId = selfOplogId + d;
          Some (if nodesPerPartition P \<le> oplogId then 0 else oplogId) }
        else do {
          d \<leftarrow> getDistanceCounterClockwise otherNodeId P;
          let otherOplogId = sint (selfOplogId) - sint d;
          Some (if otherOplogId \<le> 0 then nodesPerPartition P - 1 else word_of_int otherOplogId) } })"

definition ss_toString :: "SimpleString \<Rightarrow> string" where
  "ss_toString s = map (\<lambda>b. char_of (unat b)) s"

text \<open>The remainder is zero where the size of the ring is zero: division by zero is undefined, \<^term>\<open>None\<close>.\<close>

definition getRingPositionByKey :: "(string \<Rightarrow> bytes) \<Rightarrow> SimpleString \<Rightarrow> Partitions \<Rightarrow> u32 option" where
  "getRingPositionByKey md5 k P =
     (if maxSize P = 0 then None else Some (ucast (calculateMD5 md5 (ss_toString k) mod ucast (maxSize P))))"

definition getNeighborsClockwise :: "int \<Rightarrow> Partitions \<Rightarrow> RingEntry list option" where
  "getNeighborsClockwise numberNeighbors P =
     ring_getNeighborsClockwise (re_nodeId (selfEntry P))
       (if numberNeighbors = -1 then nodesPerPartition P - 1 else word_of_int numberNeighbors) (ringEntries P)"

definition getNeighborsClockwiseByNodeId :: "memdbNodeId_t \<Rightarrow> Partitions \<Rightarrow> RingEntry list option" where
  "getNeighborsClockwiseByNodeId nodeId P = ring_getNeighborsClockwise nodeId (nodesPerPartition P - 1) (ringEntries P)"

definition getNeighborsCounterClockwiseByNodeId :: "memdbNodeId_t \<Rightarrow> Partitions \<Rightarrow> RingEntry list option" where
  "getNeighborsCounterClockwiseByNodeId nodeId P =
     ring_getNeighborsCounterClockwise nodeId (nodesPerPartition P - 1) (ringEntries P)"

definition getNeighbors :: "Partitions \<Rightarrow> RingEntry list option" where
  "getNeighbors P = do {
     neighboursCounterClockwise \<leftarrow> getNeighborsCounterClockwiseByNodeId (re_nodeId (selfEntry P)) P;
     neighboursClockWise \<leftarrow> getNeighborsClockwise (-1) P;
     Some (utils_concat neighboursCounterClockwise neighboursClockWise) }"

definition getNeighborCounterClockwiseByNodeId :: "memdbNodeId_t \<Rightarrow> Partitions \<Rightarrow> RingEntry option option" where
  "getNeighborCounterClockwiseByNodeId nodeId P = ring_getNeighborCounterClockwise nodeId (ringEntries P)"

definition getNeighborClockwiseByNodeId :: "memdbNodeId_t \<Rightarrow> Partitions \<Rightarrow> RingEntry option option" where
  "getNeighborClockwiseByNodeId nodeId P = ring_getNeighborClockwise nodeId (ringEntries P)"

definition getRingPositionByNodeId :: "memdbNodeId_t \<Rightarrow> Partitions \<Rightarrow> u32 option" where
  "getRingPositionByNodeId nodeId P = map_option ringPosition (ring_getByNodeId nodeId (ringEntries P))"

definition getDistance :: "memdbNodeId_t \<Rightarrow> Partitions \<Rightarrow> int option" where
  "getDistance nodeB P = ring_getDistance (re_nodeId (selfEntry P)) nodeB (ringEntries P)"

definition getDistanceOfKey :: "(string \<Rightarrow> bytes) \<Rightarrow> SimpleString \<Rightarrow> Partitions \<Rightarrow> u32 option" where
  "getDistanceOfKey md5 k P = do {
     position \<leftarrow> getRingPositionByKey md5 k P;
     e \<leftarrow> getRingEntryBelongsToPosition position (ringEntries P);
     d \<leftarrow> ring_getDistance (re_nodeId (selfEntry P)) (re_nodeId e) (ringEntries P);
     Some (word_of_int \<bar>d\<bar>) }"

definition canHoldKey :: "(string \<Rightarrow> bytes) \<Rightarrow> SimpleString \<Rightarrow> Partitions \<Rightarrow> bool option" where
  "canHoldKey md5 k P = do {
     d \<leftarrow> getDistanceOfKey md5 k P;
     Some (d < nodesPerPartition P) }"

definition isNeighbor :: "memdbNodeId_t \<Rightarrow> Partitions \<Rightarrow> bool option" where
  "isNeighbor otherNode P = do {
     d \<leftarrow> ring_getDistance (re_nodeId (selfEntry P)) otherNode (ringEntries P);
     Some ((word_of_int \<bar>d\<bar> :: u32) < nodesPerPartition P) }"

definition partitions_deleteByNodeId :: "memdbNodeId_t \<Rightarrow> Partitions \<Rightarrow> Partitions option" where
  "partitions_deleteByNodeId nodeId P = do {
     R \<leftarrow> ring_deleteByNodeId nodeId (ringEntries P);
     Some (P\<lparr>ringEntries := R\<rparr>) }"

definition partitions_add :: "RingEntry \<Rightarrow> Partitions \<Rightarrow> Partitions option" where
  "partitions_add ringEntry P = do {
     R \<leftarrow> ring_add ringEntry (ringEntries P);
     Some (P\<lparr>ringEntries := R\<rparr>) }"

definition addByNode :: "(string \<Rightarrow> bytes) \<Rightarrow> memdbNodeId_t \<Rightarrow> Partitions \<Rightarrow> (RingEntry \<times> Partitions) option" where
  "addByNode md5 nodeId P =
     (if maxSize P = 0 then None
      else do {
        let ringEntry = \<lparr>re_nodeId = nodeId, ringPosition = ucast (calculateMD5 md5 (to_string (unat nodeId)) mod ucast (maxSize P))\<rparr>;
        R \<leftarrow> ring_add ringEntry (ringEntries P);
        Some (ringEntry, P\<lparr>ringEntries := R\<rparr>) })"

definition getNodesPerPartition :: "Partitions \<Rightarrow> u32" where
  "getNodesPerPartition P = nodesPerPartition P"

definition partitions_getByNodeId :: "memdbNodeId_t \<Rightarrow> Partitions \<Rightarrow> RingEntry option" where
  "partitions_getByNodeId nodeId P = ring_getByNodeId nodeId (ringEntries P)"

definition getSelfEntry :: "Partitions \<Rightarrow> RingEntry" where
  "getSelfEntry P = selfEntry P"

definition getMaxSize :: "Partitions \<Rightarrow> u32" where
  "getMaxSize P = maxSize P"

section \<open>Well-formed rings\<close>

text \<open>A ring of at least two entries: the nodes at the addresses \<open>as\<close> hold the entries \<open>es\<close> and are
  linked in a circle, the head is the first of them and the index finds each by its identifier.\<close>

definition ring_shape :: "RingEntries \<Rightarrow> nat list \<Rightarrow> RingEntry list \<Rightarrow> bool" where
  "ring_shape R as es \<longleftrightarrow> 2 \<le> length es \<and> length as = length es \<and> distinct as \<and> distinct (map re_nodeId es) \<and>
     length (indexByNodeId R) = length es \<and> ring_head R = Some (as ! 0) \<and>
     (\<forall>i < length es. ring_at_id R (re_nodeId (es ! i)) = Some (as ! i) \<and>
        ring_heap R (as ! i) = Some \<lparr>rn_entry = es ! i, rn_next = Some (Some (as ! ((i + 1) mod length es))),
          rn_back = Some (Some (as ! ((i + length es - 1) mod length es)))\<rparr>)"

lemma ring_shapeD:
  assumes "ring_shape R as es"
  shows "2 \<le> length es" "length as = length es" "distinct as" "distinct (map re_nodeId es)"
    "length (indexByNodeId R) = length es" "ring_head R = Some (as ! 0)"
    "i < length es \<Longrightarrow> ring_at_id R (re_nodeId (es ! i)) = Some (as ! i)"
    "i < length es \<Longrightarrow> ring_heap R (as ! i) = Some \<lparr>rn_entry = es ! i, rn_next = Some (Some (as ! ((i + 1) mod length es))),
          rn_back = Some (Some (as ! ((i + length es - 1) mod length es)))\<rparr>"
  using assms by (auto simp: ring_shape_def)

lemma ring_same_id:
  assumes "ring_shape R as es" and "i < length es" and "j < length es"
  shows "re_nodeId (es ! i) = re_nodeId (es ! j) \<longleftrightarrow> i = j"
  using nth_eq_iff_index_eq [OF ring_shapeD(4) [OF assms(1)], of i j] assms(2,3) by simp

lemma mod_shift_inj:
  assumes "(a + x) mod n = (a + y) mod n" and "x < n" and "y < n"
  shows "x = (y :: nat)"
proof -
  have "x = y" if "(a + x) mod n = (a + y) mod n" "x < n" "y < n" "x \<le> y" for x y :: nat
  proof -
    have "n dvd (a + y) - (a + x)" using that by (subst mod_eq_dvd_iff_nat [symmetric]) auto
    then have "n dvd y - x" by simp
    then show ?thesis using that by (metis diff_is_0_eq le_antisym less_imp_diff_less nat_dvd_not_less neq0_conv)
  qed
  then show ?thesis using assms by (metis nat_le_linear)
qed

subsection \<open>Distances\<close>

lemma distance_loop_shape:
  assumes R: "ring_shape R as es" and i: "i < length es" and j: "j < length es"
    and d: "(i + d) mod length es = j" "d < length es" and e: "(j + e) mod length es = i" "e < length es"
    and t: "t \<le> d" "t \<le> e" and r: "d - t < r \<or> e - t < r"
  shows "distance_loop r R (re_nodeId (es ! i)) (re_nodeId (es ! j)) (int t) (as ! ((i + t) mod length es)) (as ! ((j + t) mod length es)) =
    Some (if d \<le> e then int d else - int e)"
  using t r
proof (induction r arbitrary: t)
  case (Suc r)
  let ?n = "length es"
  let ?a = "(i + t) mod ?n" and ?b = "(j + t) mod ?n"
  have n: "0 < ?n" using i by linarith
  have b: "?a < ?n" "?b < ?n" using n by simp_all
  have hit: "?a = j \<longleftrightarrow> t = d" "?b = i \<longleftrightarrow> t = e"
    using Suc.prems(1,2) d e mod_shift_inj [of i t ?n d] mod_shift_inj [of j t ?n e] by auto
  have nx: "(?a + 1) mod ?n = (i + (t + 1)) mod ?n" "(?b + 1) mod ?n = (j + (t + 1)) mod ?n"
    by (simp_all add: mod_simps)
  show ?case
  proof (cases "t = d \<or> t = e")
    case True
    then show ?thesis
      using hit Suc.prems ring_shapeD(8) [OF R b(1)] ring_shapeD(8) [OF R b(2)] ring_same_id [OF R b(1) j] ring_same_id [OF R b(2) i]
      by auto
  next
    case False
    then have "t + 1 \<le> d" "t + 1 \<le> e" "d - (t + 1) < r \<or> e - (t + 1) < r" using Suc.prems by auto
    from Suc.IH [OF this] show ?thesis
      using False hit ring_shapeD(8) [OF R b(1)] ring_shapeD(8) [OF R b(2)] ring_same_id [OF R b(1) j] ring_same_id [OF R b(2) i] nx
      by (simp add: target_def add.commute [of 1])
  qed
qed simp

text \<open>Clockwise and counter-clockwise distance of two positions.\<close>

definition steps :: "nat \<Rightarrow> nat \<Rightarrow> nat \<Rightarrow> nat" where
  "steps n i j = (j + n - i) mod n"

lemma steps_spec:
  assumes "i < n" and "j < n"
  shows "(i + steps n i j) mod n = j" and "steps n i j < n" and "i \<noteq> j \<Longrightarrow> steps n i j + steps n j i = n" and "steps n i i = 0"
proof -
  have eq: "steps n i j = (if i \<le> j then j - i else j + n - i)" if "i < n" "j < n" for i j
  proof (cases "i \<le> j")
    case True
    then obtain x where "j = i + x" using le_Suc_ex by blast
    then show ?thesis using that by (simp add: steps_def)
  next
    case False
    then have "j + n - i < n" using that by simp
    then show ?thesis using False by (simp add: steps_def)
  qed
  show "(i + steps n i j) mod n = j" "steps n i j < n" "i \<noteq> j \<Longrightarrow> steps n i j + steps n j i = n" "steps n i i = 0"
    using assms by (auto simp: eq)
qed

lemma ring_getDistance_shape:
  assumes R: "ring_shape R as es" and i: "i < length es" and j: "j < length es"
  shows "ring_getDistance (re_nodeId (es ! i)) (re_nodeId (es ! j)) R =
    Some (if steps (length es) i j \<le> steps (length es) j i then int (steps (length es) i j) else - int (steps (length es) j i))"
  using distance_loop_shape [OF R i j steps_spec(1,2) [OF i j] steps_spec(1,2) [OF j i], of 0 "length es + 1"]
    steps_spec(2) [OF i j] ring_shapeD(5) [OF R] ring_shapeD(7) [OF R i] ring_shapeD(7) [OF R j] i j
  by (simp add: ring_getDistance_def less_Suc_eq)

lemma ring_distances_shape:
  assumes R: "ring_shape R as es" and i: "i < length es" and j: "j < length es"
  shows "ring_getDistanceClockwise (re_nodeId (es ! i)) (re_nodeId (es ! j)) R = Some (word_of_nat (steps (length es) i j))"
    and "ring_getDistanceCounterClockwise (re_nodeId (es ! i)) (re_nodeId (es ! j)) R = Some (word_of_nat (steps (length es) j i))"
proof -
  let ?n = "length es" and ?d = "steps (length es) i j" and ?e = "steps (length es) j i"
  have sum: "i \<noteq> j \<Longrightarrow> int ?n = int ?d + int ?e" using steps_spec(3) [OF i j] by (metis of_nat_add)
  have same: "i = j \<Longrightarrow> ?d = 0 \<and> ?e = 0" using steps_spec(4) [OF i i] by simp
  have pos: "i \<noteq> j \<Longrightarrow> ?d \<noteq> 0" "i \<noteq> j \<Longrightarrow> ?e \<noteq> 0"
    using steps_spec(1) [OF i j] steps_spec(1) [OF j i] i j by (metis add.right_neutral mod_less)+
  show "ring_getDistanceClockwise (re_nodeId (es ! i)) (re_nodeId (es ! j)) R = Some (word_of_nat ?d)"
    using ring_getDistance_shape [OF assms] ring_shapeD(5) [OF R] sum same pos
    by (cases "i = j") (auto simp: ring_getDistanceClockwise_def)
  show "ring_getDistanceCounterClockwise (re_nodeId (es ! i)) (re_nodeId (es ! j)) R = Some (word_of_nat ?e)"
    using ring_getDistance_shape [OF assms] ring_shapeD(5) [OF R] sum same pos
    by (cases "i = j") (auto simp: ring_getDistanceCounterClockwise_def)
qed

subsection \<open>Neighbours\<close>

lemma clockwise_from_shape:
  assumes R: "ring_shape R as es" and i: "i < length es" and "t < length es" and "first \<longleftrightarrow> t = 0"
  shows "clockwise_from R (as ! i) first k (as ! ((i + t) mod length es)) =
    Some (map (\<lambda>s. es ! ((i + s) mod length es)) [t + 1..<min (t + k) (length es - 1) + 1])"
  using assms(3,4)
proof (induction k arbitrary: t first)
  case 0
  then show ?case by simp
next
  case (Suc k)
  let ?n = "length es"
  have n: "2 \<le> ?n" and d: "distinct as" "length as = ?n" using ring_shapeD(1-3) [OF R] by auto
  have a: "(i + t) mod ?n < ?n" "(i + (t + 1)) mod ?n < ?n" using n by (intro mod_less_divisor, linarith)+
  have nx: "((i + t) mod ?n + 1) mod ?n = (i + (t + 1)) mod ?n" by (simp add: mod_simps)
  have again: "as ! ((i + (t + 1)) mod ?n) = as ! i \<longleftrightarrow> t + 1 = ?n"
  proof -
    have "as ! ((i + (t + 1)) mod ?n) = as ! i \<longleftrightarrow> (i + (t + 1)) mod ?n = i"
      using d a i by (simp add: nth_eq_iff_index_eq)
    also have "\<dots> \<longleftrightarrow> t + 1 = ?n"
    proof
      assume "(i + (t + 1)) mod ?n = i"
      then have e: "(i + (t + 1)) mod ?n = (i + 0) mod ?n" using i by simp
      show "t + 1 = ?n"
      proof (rule ccontr)
        assume "t + 1 \<noteq> ?n"
        then have lt: "t + 1 < ?n" using Suc.prems(1) by simp
        have pos: "0 < ?n" using n by linarith
        show False using mod_shift_inj [OF e lt pos] by simp
      qed
    qed (use i in simp)
    finally show ?thesis .
  qed
  note h = ring_shapeD(8) [OF R a(1)] ring_shapeD(8) [OF R a(2)]
  show ?case
  proof (cases "t + 1 = ?n")
    case True
    then have "\<not> first" using Suc.prems(2) n by auto
    then show ?thesis using True h nx again by simp
  next
    case False
    then have t: "t + 1 < ?n" using Suc.prems(1) by simp
    have "[t + 1..<min (t + Suc k) (?n - 1) + 1] = (t + 1) # [t + 2..<min (t + 1 + k) (?n - 1) + 1]"
      using t by (subst upt_conv_Cons) auto
    then show ?thesis using Suc.IH [of "t + 1" False] t h nx again False by simp
  qed
qed

lemma neighbors_clockwise_shape:
  assumes R: "ring_shape R as es" and i: "i < length es"
  shows "ring_getNeighborsClockwise (re_nodeId (es ! i)) k R =
    Some (map (\<lambda>s. es ! ((i + s) mod length es)) [1..<min (unat k) (length es - 1) + 1])"
  using clockwise_from_shape [OF R i, of 0 True "unat k"] ring_shapeD(7) [OF R i] i list.size(3)
  by (cases "es = []") (simp_all add: ring_getNeighborsClockwise_def)

subsection \<open>Owners of positions\<close>

text \<open>The owner of a position: the entry with the greatest position not above it, or the entry with the
  greatest position of all when there is none.\<close>

definition owns :: "RingEntry list \<Rightarrow> u32 \<Rightarrow> RingEntry \<Rightarrow> bool" where
  "owns es p e \<longleftrightarrow> e \<in> set es \<and>
     (if \<exists>x \<in> set es. ringPosition x \<le> p
      then ringPosition e \<le> p \<and> (\<forall>x \<in> set es. ringPosition x \<le> p \<longrightarrow> ringPosition x \<le> ringPosition e)
      else \<forall>x \<in> set es. ringPosition x \<le> ringPosition e)"

definition increasing :: "RingEntry list \<Rightarrow> bool" where
  "increasing es \<longleftrightarrow> sorted_wrt (\<lambda>x y. ringPosition x < ringPosition y) es"

lemma increasing_nth: "increasing es \<Longrightarrow> i < j \<Longrightarrow> j < length es \<Longrightarrow> ringPosition (es ! i) < ringPosition (es ! j)"
  by (simp add: increasing_def sorted_wrt_iff_nth_less)

lemma increasing_le: "increasing es \<Longrightarrow> i \<le> j \<Longrightarrow> j < length es \<Longrightarrow> ringPosition (es ! i) \<le> ringPosition (es ! j)"
  using increasing_nth [of es i j] by (cases "i = j") auto

lemma owns_inner:
  assumes "increasing es" and "Suc t < length es" and "ringPosition (es ! t) \<le> p" and "p < ringPosition (es ! Suc t)"
  shows "owns es p (es ! t)"
proof -
  have "ringPosition (es ! i) \<le> ringPosition (es ! t)" if "i < length es" "ringPosition (es ! i) \<le> p" for i
  proof (rule ccontr)
    assume "\<not> ?thesis"
    then have "t < i" using increasing_le [OF assms(1), of i t] assms(2) by (meson Suc_lessD not_less)
    then have "ringPosition (es ! Suc t) \<le> ringPosition (es ! i)" using increasing_le [OF assms(1), of "Suc t" i] that(1) by simp
    then show False using that(2) assms(4) by (meson le_less_trans not_less)
  qed
  then have all: "\<forall>x \<in> set es. ringPosition x \<le> p \<longrightarrow> ringPosition x \<le> ringPosition (es ! t)"
    by (auto simp: in_set_conv_nth)
  have "es ! t \<in> set es" using assms(2) by simp
  then show ?thesis using all assms(3) unfolding owns_def by auto
qed

lemma owns_last:
  assumes "increasing es" and "es \<noteq> []"
    and "\<And>t. Suc t < length es \<Longrightarrow> \<not> (ringPosition (es ! t) \<le> p \<and> p < ringPosition (es ! Suc t))"
  shows "owns es p (es ! (length es - 1))"
proof -
  have up: "ringPosition (es ! i) \<le> p" if "j \<le> i" "i < length es" "ringPosition (es ! j) \<le> p" for i j
    using that(1,2)
  proof (induction i)
    case (Suc i)
    then show ?case using that(3) assms(3) [of i] by (cases "j = Suc i") (auto simp: not_less)
  qed (use that(3) in simp)
  have l: "length es - 1 < length es" using assms(2) by simp
  have m: "\<forall>x \<in> set es. ringPosition x \<le> ringPosition (es ! (length es - 1))"
    using increasing_le [OF assms(1) _ l] by (auto simp: in_set_conv_nth)
  show ?thesis
  proof (cases "\<exists>x \<in> set es. ringPosition x \<le> p")
    case True
    then obtain j where "j < length es" "ringPosition (es ! j) \<le> p" by (auto simp: in_set_conv_nth)
    then have "ringPosition (es ! (length es - 1)) \<le> p" using up [of j "length es - 1"] l by simp
    then show ?thesis using True m l unfolding owns_def by simp
  next
    case False
    then show ?thesis using m l unfolding owns_def by simp
  qed
qed

lemma belongs_loop_shape:
  assumes R: "ring_shape R as es" and inc: "increasing es" and "t < length es" and "length es - t \<le> r"
    and "\<And>s. s < t \<Longrightarrow> \<not> (ringPosition (es ! s) \<le> p \<and> p < ringPosition (es ! Suc s))"
  shows "\<exists>e. belongs_loop r R p (as ! t) = Some e \<and> owns es p e"
  using assms(3-)
proof (induction r arbitrary: t)
  case (Suc r)
  let ?n = "length es"
  have n: "2 \<le> ?n" and d: "distinct as" "length as = ?n" and hd: "ring_head R = Some (as ! 0)"
    using ring_shapeD(1-3,6) [OF R] by auto
  show ?case
  proof (cases "Suc t = ?n")
    case True
    have "ringPosition (es ! 0) < ringPosition (es ! t)"
      using True n by (intro increasing_nth [OF inc]) auto
    then have z: "\<not> (ringPosition (es ! t) \<le> p \<and> p < ringPosition (es ! 0))" by (meson le_less_trans less_asym)
    have "owns es p (es ! (?n - 1))"
      by (rule owns_last [OF inc]) (use True Suc.prems(3) n in auto)
    moreover have "belongs_loop (Suc r) R p (as ! t) = Some (es ! t)"
    proof -
      have pos: "0 < ?n" using True by linarith
      have "(t + 1) mod ?n = 0" using True by simp
      then show ?thesis
        using ring_shapeD(8) [OF R Suc.prems(1)] ring_shapeD(8) [OF R pos] hd z by simp
    qed
    ultimately show ?thesis using True by (metis diff_Suc_1)
  next
    case False
    then have t: "Suc t < ?n" using Suc.prems(1) by simp
    have "0 < length as" using n d(2) by linarith
    then have ne: "as ! Suc t \<noteq> as ! 0" using d(2) t nth_eq_iff_index_eq [OF d(1), of "Suc t" 0] by simp
    note h = ring_shapeD(8) [OF R Suc.prems(1)] ring_shapeD(8) [OF R t]
    show ?thesis
    proof (cases "ringPosition (es ! t) \<le> p \<and> p < ringPosition (es ! Suc t)")
      case True
      moreover have "(t + 1) mod ?n = Suc t" using t by simp
      ultimately show ?thesis using h owns_inner [OF inc t] by simp
    next
      case gap: False
      have "\<exists>e. belongs_loop r R p (as ! Suc t) = Some e \<and> owns es p e"
        using Suc.prems(2) gap Suc.prems(3) by (intro Suc.IH [OF t]) (auto simp: less_Suc_eq)
      moreover have "(t + 1) mod ?n = Suc t" using t by simp
      ultimately show ?thesis using h gap ne hd by auto
    qed
  qed
qed simp

lemma belongs_shape:
  assumes "ring_shape R as es" and "increasing es"
  shows "\<exists>e. getRingEntryBelongsToPosition p R = Some e \<and> owns es p e"
proof -
  have "0 < length es" using ring_shapeD(1) [OF assms(1)] by linarith
  then show ?thesis
    using belongs_loop_shape [OF assms, of 0 "length es + 1" p] ring_shapeD(5,6) [OF assms(1)]
    by (simp del: belongs_loop.simps add: getRingEntryBelongsToPosition_def)
qed

subsection \<open>Building a ring\<close>

definition node_index :: "RingEntry list \<Rightarrow> nat \<Rightarrow> (memdbNodeId_t \<times> nat) list \<Rightarrow> bool" where
  "node_index es i idx \<longleftrightarrow> word_order.om_ok idx \<and> length idx = i \<and>
     (\<forall>k. om_get (<) k idx = map_of (map (\<lambda>j. (re_nodeId (es ! j), j)) [0..<i]) k)"

lemma node_index_put:
  assumes "node_index es i idx" and "distinct (map re_nodeId es)" and "i < length es"
  shows "om_get (<) (re_nodeId (es ! i)) idx = None" and "node_index es (Suc i) (om_put (<) (re_nodeId (es ! i)) i idx)"
proof -
  have "re_nodeId (es ! i) \<noteq> re_nodeId (es ! j)" if "j < i" for j
    using nth_eq_iff_index_eq [OF assms(2), of i j] assms(3) that by simp
  then have none: "map_of (map (\<lambda>j. (re_nodeId (es ! j), j)) [0..<i]) (re_nodeId (es ! i)) = None"
    by (force simp: map_of_eq_None_iff)
  then show new: "om_get (<) (re_nodeId (es ! i)) idx = None" using assms(1) by (simp add: node_index_def)
  have ok: "word_order.om_ok idx" using assms(1) by (simp add: node_index_def)
  show "node_index es (Suc i) (om_put (<) (re_nodeId (es ! i)) i idx)"
    using assms(1) new none word_order.om_put_ok [OF ok] word_order.om_get_put [OF ok] word_order.om_put_length [OF new]
    by (auto simp: node_index_def map_add_def split: option.split)
qed

lemma node_index_get:
  assumes "node_index es i idx" and "distinct (map re_nodeId es)" and "i \<le> length es" and "j < i"
  shows "om_get (<) (re_nodeId (es ! j)) idx = Some j"
proof -
  have "distinct (map fst (map (\<lambda>j. (re_nodeId (es ! j), j)) [0..<i]))"
    using assms(2,3) nth_eq_iff_index_eq [OF assms(2)] by (auto simp: distinct_map inj_on_def comp_def)
  then have "map_of (map (\<lambda>j. (re_nodeId (es ! j), j)) [0..<i]) (re_nodeId (es ! j)) = Some j"
    using assms(4) by (intro map_of_is_SomeI) auto
  then show ?thesis using assms(1) by (simp add: node_index_def)
qed

text \<open>The first \<open>i\<close> nodes, linked as a chain that is still open at both ends.\<close>

definition open_chain :: "RingEntry list \<Rightarrow> nat \<Rightarrow> RingEntries \<Rightarrow> bool" where
  "open_chain es i R \<longleftrightarrow> ring_fresh R = i \<and> ring_head R = Some 0 \<and> node_index es i (indexByNodeId R) \<and>
     (\<forall>j < i. ring_heap R j = Some \<lparr>rn_entry = es ! j, rn_next = (if Suc j < i then Some (Some (Suc j)) else None),
        rn_back = (if j = 0 then None else Some (Some (j - 1)))\<rparr>)"

lemma open_chain_step:
  assumes c: "open_chain es i R" and "0 < i" and "Suc i < length es" and d: "distinct (map re_nodeId es)"
  shows "\<exists>R'. from_loop (length es) i (i - 1) (drop i es) R = from_loop (length es) (Suc i) i (drop (Suc i) es) R' \<and>
    open_chain es (Suc i) R'"
proof -
  have i: "i < length es" using assms(3) by simp
  have drop: "drop i es = es ! i # drop (Suc i) es" using Cons_nth_drop_Suc [OF i] by simp
  have idx: "node_index es i (indexByNodeId R)" using c by (simp add: open_chain_def)
  obtain H idx' where R: "R = \<lparr>ring_heap = H, ring_fresh = i, ring_head = Some 0, indexByNodeId = idx'\<rparr>"
    using c by (cases R) (simp add: open_chain_def)
  have H: "H j = Some \<lparr>rn_entry = es ! j, rn_next = (if Suc j < i then Some (Some (Suc j)) else None),
        rn_back = (if j = 0 then None else Some (Some (j - 1)))\<rparr>" if "j < i" for j
    using c that by (simp add: open_chain_def R)
  have lt: "i - 1 < i" "i - 1 \<noteq> i" using assms(2) by auto
  define R' where "R' = \<lparr>ring_heap = H(i \<mapsto> \<lparr>rn_entry = es ! i, rn_next = None, rn_back = Some (Some (i - 1))\<rparr>,
      i - 1 \<mapsto> \<lparr>rn_entry = es ! (i - 1), rn_next = Some (Some i), rn_back = (if i - 1 = 0 then None else Some (Some (i - 1 - 1)))\<rparr>),
      ring_fresh = Suc i, ring_head = Some 0, indexByNodeId = om_put (<) (re_nodeId (es ! i)) i idx'\<rparr>"
  have "from_loop (length es) i (i - 1) (drop i es) R = from_loop (length es) (Suc i) i (drop (Suc i) es) R'"
    using assms(2,3) node_index_put(1) [OF idx d i] H [OF lt(1)] lt
    by (simp add: drop R alloc_node_def new_RingEntryNode_def set_back_def set_next_def R'_def)
  moreover have "open_chain es (Suc i) R'"
    using assms(2) node_index_put(2) [OF idx d i] H by (cases "i = 1") (auto simp: open_chain_def R'_def R less_Suc_eq)
  ultimately show ?thesis by blast
qed

lemma open_chain_close:
  assumes c: "open_chain es i R" and "0 < i" and "Suc i = length es" and d: "distinct (map re_nodeId es)"
  shows "\<exists>R'. from_loop (length es) i (i - 1) (drop i es) R = Some R' \<and> ring_shape R' [0..<length es] es"
proof -
  have i: "i < length es" using assms(3) by simp
  have drop: "drop i es = [es ! i]" using Cons_nth_drop_Suc [OF i] assms(3) by simp
  have idx: "node_index es i (indexByNodeId R)" using c by (simp add: open_chain_def)
  obtain H idx' where R: "R = \<lparr>ring_heap = H, ring_fresh = i, ring_head = Some 0, indexByNodeId = idx'\<rparr>"
    using c by (cases R) (simp add: open_chain_def)
  have H: "H j = Some \<lparr>rn_entry = es ! j, rn_next = (if Suc j < i then Some (Some (Suc j)) else None),
        rn_back = (if j = 0 then None else Some (Some (j - 1)))\<rparr>" if "j < i" for j
    using c that by (simp add: open_chain_def R)
  have lt: "i - 1 < i" "i - 1 \<noteq> i" "i = length es - 1" "i \<noteq> 0" using assms(2,3) by auto
  define H1 where "H1 = H(i \<mapsto> \<lparr>rn_entry = es ! i, rn_next = None, rn_back = Some (Some (i - 1))\<rparr>,
      i - 1 \<mapsto> \<lparr>rn_entry = es ! (i - 1), rn_next = Some (Some i), rn_back = (if i - 1 = 0 then None else Some (Some (i - 1 - 1)))\<rparr>)"
  have H1: "H1 0 = Some \<lparr>rn_entry = es ! 0, rn_next = Some (Some 1), rn_back = None\<rparr>"
    "H1 i = Some \<lparr>rn_entry = es ! i, rn_next = None, rn_back = Some (Some (i - 1))\<rparr>"
    using H [of 0] assms(2) by (auto simp: H1_def)
  define R' where "R' = \<lparr>ring_heap = H1(0 \<mapsto> \<lparr>rn_entry = es ! 0, rn_next = Some (Some 1), rn_back = Some (Some i)\<rparr>,
      i \<mapsto> \<lparr>rn_entry = es ! i, rn_next = Some (Some 0), rn_back = Some (Some (i - 1))\<rparr>),
      ring_fresh = Suc i, ring_head = Some 0, indexByNodeId = om_put (<) (re_nodeId (es ! i)) i idx'\<rparr>"
  have "from_loop (length es) i (i - 1) (drop i es) R = Some R'"
    unfolding drop using node_index_put(1) [OF idx d i] H [OF lt(1)] H [of 0] lt(1,2,4)
    by (cases "i = 1") (auto simp: R alloc_node_def new_RingEntryNode_def set_back_def set_next_def R'_def H1_def
      fun_eq_iff assms(3) [symmetric])
  moreover have "ring_shape R' [0..<length es] es"
  proof -
    have h: "ring_heap R' j = Some \<lparr>rn_entry = es ! j, rn_next = Some (Some ((j + 1) mod length es)),
        rn_back = Some (Some ((j + length es - 1) mod length es))\<rparr>" if "j < length es" for j
    proof -
      consider "j = 0" | "j = i" | "0 < j" "j < i" using \<open>j < length es\<close> assms(3) by linarith
      then show ?thesis
      proof cases
        case 1
        then show ?thesis using assms(2) by (simp add: R'_def assms(3) [symmetric])
      next
        case 2
        have "i + length es - 1 = (i - 1) + length es" using assms(2) by simp
        then have "(i + length es - 1) mod length es = i - 1" using i by (simp del: add_diff_assoc2)
        then show ?thesis using 2 assms(2) by (simp add: R'_def assms(3) [symmetric])
      next
        case 3
        then have m: "(j + length es - 1) mod length es = j - 1" "(j + 1) mod length es = Suc j"
          using assms(3) by (auto simp: mod_if)
        have "H1 j = Some \<lparr>rn_entry = es ! j, rn_next = Some (Some (Suc j)), rn_back = Some (Some (j - 1))\<rparr>"
          using 3 H [of j] by (auto simp: H1_def)
        then show ?thesis using 3 m by (simp add: R'_def)
      qed
    qed
    have "node_index es (Suc i) (indexByNodeId R')" using node_index_put(2) [OF idx d i] by (simp add: R'_def R)
    then have "ring_at_id R' (re_nodeId (es ! j)) = Some j" if "j < length es" for j
      using node_index_get [OF _ d, of "Suc i" "indexByNodeId R'" j] that assms(3) by (simp add: ring_at_id_def)
    moreover have "length (indexByNodeId R') = length es"
      using node_index_put(2) [OF idx d i] assms(3) by (simp add: R'_def R node_index_def)
    moreover have "ring_head R' = Some 0" by (simp add: R'_def)
    moreover have pos: "0 < length es" using assms(3) by linarith
    moreover have "[0..<length es] ! k = k" if "k < length es" for k using that by simp
    ultimately show ?thesis using h d assms(2,3) unfolding ring_shape_def by auto
  qed
  ultimately show ?thesis by blast
qed

lemma from_loop_shape:
  "open_chain es i R \<Longrightarrow> 0 < i \<Longrightarrow> i < length es \<Longrightarrow> distinct (map re_nodeId es) \<Longrightarrow>
   \<exists>R'. from_loop (length es) i (i - 1) (drop i es) R = Some R' \<and> ring_shape R' [0..<length es] es"
proof (induction "length es - i" arbitrary: i R)
  case (Suc k)
  show ?case
  proof (cases "Suc i = length es")
    case True
    then show ?thesis using open_chain_close Suc.prems by blast
  next
    case False
    then obtain R' where R': "from_loop (length es) i (i - 1) (drop i es) R = from_loop (length es) (Suc i) i (drop (Suc i) es) R'"
      "open_chain es (Suc i) R'"
      using open_chain_step [OF Suc.prems(1,2) _ Suc.prems(4)] Suc.prems(3) by (metis Suc_lessI)
    then show ?thesis using Suc.hyps(1) [of "Suc i" R'] Suc.hyps(2) Suc.prems(3,4) False by auto
  qed
qed simp

lemma fromEntries_shape:
  assumes "distinct (map re_nodeId es)" and "2 \<le> length es"
  shows "\<exists>R. fromEntries es = Some R \<and> ring_shape R [0..<length es] (sort_key ringPosition es)"
proof -
  let ?es = "sort_key ringPosition es"
  have d: "distinct (map re_nodeId ?es)" using assms(1) by (simp add: distinct_map)
  obtain e es' where e: "?es = e # es'" using assms(2) by (cases ?es) (metis length_0_conv length_sort not_numeral_le_zero, blast)
  define R1 where "R1 = \<lparr>ring_heap = [0 \<mapsto> new_RingEntryNode e], ring_fresh = 1, ring_head = Some 0, indexByNodeId = [(re_nodeId e, 0)]\<rparr>"
  have "from_loop (length ?es) 0 0 ?es new_RingEntries = from_loop (length ?es) 1 (1 - 1) (drop 1 ?es) R1"
    by (simp add: e alloc_node_def new_RingEntries_def R1_def)
  moreover have "open_chain ?es 1 R1"
    by (auto simp: open_chain_def R1_def e new_RingEntryNode_def node_index_def word_order.om_ok_def)
  moreover have "1 < length ?es" using assms(2) by simp
  ultimately show ?thesis using from_loop_shape [of ?es 1 R1] d by (simp add: fromEntries_def)
qed

section \<open>Properties of the ring\<close>

lemma owns_unique:
  assumes "inj_on ringPosition (set es)" and e: "owns es p e" and x: "owns es p x"
  shows "x = e"
proof -
  have m: "e \<in> set es" "x \<in> set es" using e x by (simp_all add: owns_def)
  have "ringPosition x = ringPosition e"
  proof (cases "\<exists>y \<in> set es. ringPosition y \<le> p")
    case True
    then have "ringPosition e \<le> p" "ringPosition x \<le> p"
      "\<forall>y \<in> set es. ringPosition y \<le> p \<longrightarrow> ringPosition y \<le> ringPosition e"
      "\<forall>y \<in> set es. ringPosition y \<le> p \<longrightarrow> ringPosition y \<le> ringPosition x"
      using e x by (simp_all add: owns_def)
    then show ?thesis using m by (blast intro: order.antisym)
  next
    case False
    then have "\<forall>y \<in> set es. ringPosition y \<le> ringPosition e" "\<forall>y \<in> set es. ringPosition y \<le> ringPosition x"
      using e x unfolding owns_def if_not_P [OF False] by blast+
    then show ?thesis using m by (blast intro: order.antisym)
  qed
  then show ?thesis using assms(1) m by (blast dest: inj_onD)
qed

lemma owns_sort [simp]: "owns (sort_key f es) p e = owns es p e"
  by (simp add: owns_def)

lemma increasing_sort:
  assumes "distinct (map ringPosition es)"
  shows "increasing (sort_key ringPosition es)"
proof -
  let ?es = "sort_key ringPosition es"
  have "distinct (map ringPosition ?es)" using assms by (simp add: distinct_map)
  moreover have "sorted (map ringPosition ?es)" by simp
  ultimately have "sorted_wrt (<) (map ringPosition ?es)" by (simp only: strict_sorted_iff)
  then show ?thesis by (simp add: increasing_def sorted_wrt_map)
qed

lemma ring_owner_exists:
  assumes "distinct (map re_nodeId es)" and "distinct (map ringPosition es)" and "2 \<le> length es"
  shows "\<exists>R e. fromEntries es = Some R \<and> getRingEntryBelongsToPosition p R = Some e \<and> (\<forall>x. owns es p x \<longleftrightarrow> x = e)"
proof -
  obtain R where R: "fromEntries es = Some R" "ring_shape R [0..<length es] (sort_key ringPosition es)"
    using fromEntries_shape [OF assms(1,3)] by blast
  then obtain e where e: "getRingEntryBelongsToPosition p R = Some e" "owns es p e"
    using belongs_shape [OF R(2) increasing_sort [OF assms(2)], of p] by auto
  then have "\<forall>x. owns es p x \<longleftrightarrow> x = e"
    using owns_unique [of es p e] assms(2) by (metis distinct_map)
  then show ?thesis using R(1) e(1) by blast
qed




definition two_entries :: "RingEntry list" where
  "two_entries = [\<lparr>re_nodeId = 1, ringPosition = 20\<rparr>, \<lparr>re_nodeId = 2, ringPosition = 10\<rparr>]"


text \<open>A ring that grows and a ring built at once disagree on the owner of keys. Adding an entry with
  the smallest position links it behind the head without making it the head, so that the walk from the
  head ends at the new entry: the new entry owns the positions above the greatest position, while in the
  ring that a joining node builds from the same entries they belong to the entry with the greatest
  position.\<close>

theorem grown_ring_disagrees:
  assumes "c < a" and "a < b" and "b \<le> p"
  shows "(do { R \<leftarrow> fromEntries [\<lparr>re_nodeId = 1, ringPosition = a\<rparr>, \<lparr>re_nodeId = 2, ringPosition = b\<rparr>];
      R \<leftarrow> ring_add \<lparr>re_nodeId = 3, ringPosition = c\<rparr> R;
      getRingEntryBelongsToPosition p R }) = Some \<lparr>re_nodeId = 3, ringPosition = c\<rparr> \<and>
    (do { R \<leftarrow> fromEntries [\<lparr>re_nodeId = 1, ringPosition = a\<rparr>, \<lparr>re_nodeId = 2, ringPosition = b\<rparr>,
        \<lparr>re_nodeId = 3, ringPosition = c\<rparr>];
      getRingEntryBelongsToPosition p R }) = Some \<lparr>re_nodeId = 2, ringPosition = b\<rparr>"
proof -
  let ?A = "\<lparr>re_nodeId = 1, ringPosition = a\<rparr>" and ?B = "\<lparr>re_nodeId = 2, ringPosition = b\<rparr>"
    and ?C = "\<lparr>re_nodeId = 3, ringPosition = c\<rparr>"
  define R where "R = \<lparr>ring_heap = [0 \<mapsto> \<lparr>rn_entry = ?A, rn_next = Some (Some (Suc 0)), rn_back = Some (Some (Suc 0))\<rparr>,
      Suc 0 \<mapsto> \<lparr>rn_entry = ?B, rn_next = Some (Some 0), rn_back = Some (Some 0)\<rparr>],
    ring_fresh = Suc (Suc 0), ring_head = Some 0, indexByNodeId = [(1, 0), (2, Suc 0)]\<rparr>"
  define R' where "R' = \<lparr>ring_heap = [0 \<mapsto> \<lparr>rn_entry = ?A, rn_next = Some (Some (Suc 0)), rn_back = Some (Some (Suc (Suc 0)))\<rparr>,
      Suc 0 \<mapsto> \<lparr>rn_entry = ?B, rn_next = Some (Some (Suc (Suc 0))), rn_back = Some (Some 0)\<rparr>,
      Suc (Suc 0) \<mapsto> \<lparr>rn_entry = ?C, rn_next = Some (Some 0), rn_back = Some (Some (Suc 0))\<rparr>],
    ring_fresh = Suc (Suc (Suc 0)), ring_head = Some 0, indexByNodeId = [(1, 0), (2, Suc 0), (3, Suc (Suc 0))]\<rparr>"
  have o: "\<not> p < b" "\<not> b < a" "\<not> b < c" "\<not> a < c" "c < b" "a \<le> b" "c \<le> b" "c \<le> a" "\<not> b \<le> a" "\<not> p < a" "\<not> p < c" using assms by auto
  have f: "fromEntries [?A, ?B] = Some R"
    using o by (simp add: fromEntries_def alloc_node_def new_RingEntryNode_def new_RingEntries_def set_back_def set_next_def
      R_def fun_eq_iff)
  have add: "ring_add ?C R = Some R'"
    using o assms by (simp add: R_def R'_def ring_add_def ring_at_id_def alloc_node_def new_RingEntryNode_def set_back_def
      set_next_def target_def fun_eq_iff)
  have b: "getRingEntryBelongsToPosition p R' = Some ?C"
    using o assms by (simp add: R'_def getRingEntryBelongsToPosition_def)
  have d: "distinct (map re_nodeId [?A, ?B, ?C])" "distinct (map ringPosition [?A, ?B, ?C])" using assms(1,2) by auto
  obtain R2 e where R2: "fromEntries [?A, ?B, ?C] = Some R2" "getRingEntryBelongsToPosition p R2 = Some e"
    "owns [?A, ?B, ?C] p ?B = (?B = e)"
    using ring_owner_exists [OF d, of p] by auto
  moreover have "owns [?A, ?B, ?C] p ?B" using o assms by (auto simp: owns_def)
  ultimately have "e = ?B" by simp
  then show ?thesis using R2(2) by (simp only: f add b R2(1) bind.bind_lunit)
qed

theorem grown_ring_disagrees_witness:
  "(do { R \<leftarrow> fromEntries [\<lparr>re_nodeId = 1, ringPosition = 20\<rparr>, \<lparr>re_nodeId = 2, ringPosition = 30\<rparr>];
      R \<leftarrow> ring_add \<lparr>re_nodeId = 3, ringPosition = 10\<rparr> R;
      getRingEntryBelongsToPosition 40 R }) = Some \<lparr>re_nodeId = 3, ringPosition = 10\<rparr> \<and>
    (do { R \<leftarrow> fromEntries [\<lparr>re_nodeId = 1, ringPosition = 20\<rparr>, \<lparr>re_nodeId = 2, ringPosition = 30\<rparr>,
        \<lparr>re_nodeId = 3, ringPosition = 10\<rparr>];
      getRingEntryBelongsToPosition 40 R }) = Some \<lparr>re_nodeId = 2, ringPosition = 30\<rparr>"
  by (rule grown_ring_disagrees) simp_all

end
