(* ===== verification/Config.thy ===== *)
theory Config
  imports Files
begin

text \<open>
  The configuration (\<^verbatim>\<open>config/\<close>): keys, default values, values given as program arguments,
  environment variables and the typed readers. The environment is the function \<^term>\<open>config_env\<close>. A
  reader is \<^term>\<open>None\<close> when it throws.
\<close>

section \<open>Keys and defaults\<close>

definition AUTH_NODE_KEY :: string where "AUTH_NODE_KEY = ''AUTH_NODE_KEY''"
definition AUTH_API_USER_KEY :: string where "AUTH_API_USER_KEY = ''AUTH_API_USER_KEY''"
definition DATA_PATH :: string where "DATA_PATH = ''DATA_PATH''"
definition SERVER_PORT :: string where "SERVER_PORT = ''SERVER_PORT''"
definition SERVER_THREADS :: string where "SERVER_THREADS = ''SERVER_THREADS''"
definition NUMBER_BUCKETS :: string where "NUMBER_BUCKETS = ''NUMBER_BUCKETS''"
definition SHOW_DEBUG_LOG :: string where "SHOW_DEBUG_LOG = ''SHOW_DEBUG_LOG''"
definition PERSISTENCE_SEGMENT_SIZE_MB :: string where "PERSISTENCE_SEGMENT_SIZE_MB = ''PERSISTENCE_SEGMENT_SIZE_MB''"
definition USE_REPLICATION :: string where "USE_REPLICATION = ''USE_REPLICATION''"
definition NODE_ID :: string where "NODE_ID = ''NODE_ID''"
definition USE_PARTITIONS :: string where "USE_PARTITIONS = ''USE_PARTITIONS''"
definition NODE_REQUEST_TIMEOUT_MS :: string where "NODE_REQUEST_TIMEOUT_MS = ''NODE_REQUEST_TIMEOUT_MS''"
definition NODE_REQUEST_N_RETRIES :: string where "NODE_REQUEST_N_RETRIES = ''NODE_REQUEST_N_RETRIES''"
definition ADDRESS :: string where "ADDRESS = ''ADDRESS''"
definition SEED_NODES :: string where "SEED_NODES = ''SEED_NODES''"
definition NODES_PER_PARTITION :: string where "NODES_PER_PARTITION = ''NODES_PER_PARTITION''"
definition MAX_PARTITION_SIZE :: string where "MAX_PARTITION_SIZE = ''MAX_PARTITION_SIZE''"

lemmas config_keys = AUTH_NODE_KEY_def AUTH_API_USER_KEY_def DATA_PATH_def SERVER_PORT_def SERVER_THREADS_def
  NUMBER_BUCKETS_def SHOW_DEBUG_LOG_def PERSISTENCE_SEGMENT_SIZE_MB_def USE_REPLICATION_def NODE_ID_def
  USE_PARTITIONS_def NODE_REQUEST_TIMEOUT_MS_def NODE_REQUEST_N_RETRIES_def ADDRESS_def SEED_NODES_def
  NODES_PER_PARTITION_def MAX_PARTITION_SIZE_def

definition DefaultConfig :: "(string \<times> string) list" where
  "DefaultConfig =
     [(AUTH_API_USER_KEY, ''123''), (AUTH_NODE_KEY, ''456''), (SERVER_THREADS, ''63''), (SERVER_PORT, ''10000''),
      (NUMBER_BUCKETS, ''64''), (PERSISTENCE_SEGMENT_SIZE_MB, ''100''), (USE_REPLICATION, ''false''), (NODE_ID, ''1''),
      (SHOW_DEBUG_LOG, ''false''), (USE_PARTITIONS, ''false''), (NODE_REQUEST_TIMEOUT_MS, ''5000''),
      (NODE_REQUEST_N_RETRIES, ''10''), (SEED_NODES, ''''), (ADDRESS, ''localhost''), (NODES_PER_PARTITION, ''1''),
      (MAX_PARTITION_SIZE, ''64''), (DATA_PATH, ''/etc/memdb'')]"

section \<open>Configuration\<close>

record Configuration =
  config_values :: "string \<rightharpoonup> string"
  config_env :: "string \<rightharpoonup> string"

definition getDefault :: "Configuration \<Rightarrow> string \<Rightarrow> string option" where
  "getDefault c k = config_values c k"

definition getOrDefault :: "Configuration \<Rightarrow> string \<Rightarrow> string option" where
  "getOrDefault c k = (case config_env c k of Some v \<Rightarrow> Some v | None \<Rightarrow> getDefault c k)"

definition config_get :: "Configuration \<Rightarrow> string \<Rightarrow> string option" where
  "config_get c k = getOrDefault c k"

definition getVector :: "Configuration \<Rightarrow> string \<Rightarrow> string list option" where
  "getVector c k = map_option (\<lambda>v. split v (CHR '','')) (config_get c k)"

definition getBoolean :: "Configuration \<Rightarrow> string \<Rightarrow> bool option" where
  "getBoolean c k = map_option (\<lambda>v. v = ''true'') (getOrDefault c k)"

text \<open>\<^verbatim>\<open>std::stoul\<close>: white space, an optional sign and decimal digits; the rest is ignored. It throws
  without a digit and for a value that does not fit.\<close>

definition is_space :: "char \<Rightarrow> bool" where
  "is_space c \<longleftrightarrow> of_char c \<in> {32 :: int, 9, 10, 11, 12, 13}"

definition is_digit :: "char \<Rightarrow> bool" where
  "is_digit c \<longleftrightarrow> 48 \<le> (of_char c :: int) \<and> (of_char c :: int) \<le> 57"

definition digits_value :: "string \<Rightarrow> int" where
  "digits_value ds = foldl (\<lambda>n d. 10 * n + (of_char d - 48)) 0 ds"

definition stoul :: "string \<Rightarrow> u64 option" where
  "stoul s =
     (let s = dropWhile is_space s;
          negative = (s \<noteq> [] \<and> hd s = CHR ''-'');
          s = (if s \<noteq> [] \<and> hd s \<in> {CHR ''-'', CHR ''+''} then tl s else s);
          ds = takeWhile is_digit s;
          n = digits_value ds
      in if ds = [] \<or> 2 ^ 64 \<le> n then None
         else Some (if negative then - word_of_int n else word_of_int n))"

definition getNumber :: "Configuration \<Rightarrow> string \<Rightarrow> 'a::len word option" where
  "getNumber c k = do {
     v \<leftarrow> getOrDefault c k;
     n \<leftarrow> stoul v;
     Some (ucast n) }"

section \<open>Loading\<close>

text \<open>The arguments after the name of the program; a null argument is skipped. An argument without a value
  reads past the end of the vector of its parts.\<close>

fun argsToConfigMap_from :: "string option list \<Rightarrow> (string \<rightharpoonup> string) \<Rightarrow> (string \<rightharpoonup> string) option" where
  "argsToConfigMap_from [] toReturn = Some toReturn"
| "argsToConfigMap_from (None # as) toReturn = argsToConfigMap_from as toReturn"
| "argsToConfigMap_from (Some arg # as) toReturn =
     (case split arg (CHR ''='') of
        keyArg # valueArg # _ \<Rightarrow> argsToConfigMap_from as (toReturn(keyArg \<mapsto> valueArg))
      | _ \<Rightarrow> None)"

definition argsToConfigMap :: "string option list \<Rightarrow> (string \<rightharpoonup> string) option" where
  "argsToConfigMap args = argsToConfigMap_from (tl args) Map.empty"

definition load :: "(string \<rightharpoonup> string) \<Rightarrow> string option list \<Rightarrow> Configuration option" where
  "load env args = do {
     fromArgs \<leftarrow> argsToConfigMap args;
     Some \<lparr>config_values = unionMaps (map_of DefaultConfig) fromArgs, config_env = env\<rparr> }"

lemma load_precedence:
  assumes "load env args = Some c" and "argsToConfigMap args = Some given"
  shows "getOrDefault c k = (case env k of Some v \<Rightarrow> Some v | None \<Rightarrow>
    (case given k of Some v \<Rightarrow> Some v | None \<Rightarrow> map_of DefaultConfig k))"
  using assms by (auto simp: load_def getOrDefault_def getDefault_def unionMaps_def map_add_def split: option.splits)

section \<open>The values the components read\<close>

text \<open>The configuration does not change after the start, so that the components of the model share the values
  of the keys.\<close>

record settings =
  conf_authNodeKey :: string
  conf_authUserKey :: string
  conf_dataPath :: string
  conf_port :: string
  conf_buckets :: u32
  conf_segmentSizeMb :: u64
  conf_replication :: bool
  conf_nodeId :: memdbNodeId_t
  conf_partitions :: bool
  conf_nRetries :: u32
  conf_address :: string
  conf_seedNodes :: "string list"
  conf_nodesPerPartition :: u32
  conf_maxPartitionSize :: u32

definition read_settings :: "Configuration \<Rightarrow> settings option" where
  "read_settings c = do {
     authNode \<leftarrow> config_get c AUTH_NODE_KEY;
     authUser \<leftarrow> config_get c AUTH_API_USER_KEY;
     path \<leftarrow> config_get c DATA_PATH;
     port \<leftarrow> config_get c SERVER_PORT;
     nBuckets \<leftarrow> getNumber c NUMBER_BUCKETS;
     segmentSize \<leftarrow> getNumber c PERSISTENCE_SEGMENT_SIZE_MB;
     replication \<leftarrow> getBoolean c USE_REPLICATION;
     node \<leftarrow> getNumber c NODE_ID;
     partitions \<leftarrow> getBoolean c USE_PARTITIONS;
     retries \<leftarrow> getNumber c NODE_REQUEST_N_RETRIES;
     addr \<leftarrow> config_get c ADDRESS;
     seeds \<leftarrow> getVector c SEED_NODES;
     perPartition \<leftarrow> getNumber c NODES_PER_PARTITION;
     maxPartition \<leftarrow> getNumber c MAX_PARTITION_SIZE;
     Some \<lparr>conf_authNodeKey = authNode, conf_authUserKey = authUser, conf_dataPath = path, conf_port = port,
           conf_buckets = nBuckets, conf_segmentSizeMb = segmentSize, conf_replication = replication,
           conf_nodeId = node, conf_partitions = partitions, conf_nRetries = retries, conf_address = addr,
           conf_seedNodes = seeds, conf_nodesPerPartition = perPartition, conf_maxPartitionSize = maxPartition\<rparr> }"

lemma default_settings:
  "Option.bind (load Map.empty [Some ''memdb'', Some ''NODE_ID=7'']) read_settings =
   Some \<lparr>conf_authNodeKey = ''456'', conf_authUserKey = ''123'', conf_dataPath = ''/etc/memdb'', conf_port = ''10000'',
     conf_buckets = 64, conf_segmentSizeMb = 100, conf_replication = False, conf_nodeId = 7, conf_partitions = False,
     conf_nRetries = 10, conf_address = ''localhost'', conf_seedNodes = [], conf_nodesPerPartition = 1,
     conf_maxPartitionSize = 64\<rparr>"
  by code_simp

end
