(* ===== verification/Cluster_Nodes.thy ===== *)
theory Cluster_Nodes
  imports Ring Oplog Config
begin

text \<open>
  The other nodes of the cluster as a node sees them (\<^verbatim>\<open>cluster/othernodes\<close>), the hints kept for
  nodes that did not answer (\<^verbatim>\<open>cluster/hints\<close>) and the quorum over the answers to a broadcast
  (\<^verbatim>\<open>MultipleResponses\<close>). The network is a parameter: it gives the result of every
  \<^verbatim>\<open>Node::sendRequest\<close>, the number of the attempt being its first argument. An error result keeps
  an uninitialised response; what the code reads of it is the argument of \<open>SendError\<close>. An
  operation is \<^term>\<open>None\<close> when it throws, is undefined or does not return.
\<close>

section \<open>Nodes and requests\<close>

record Node =
  node_id :: memdbNodeId_t
  node_address :: string

datatype send_result = SendOk Response | SendError Response

type_synonym network = "nat \<Rightarrow> Node \<Rightarrow> Request \<Rightarrow> send_result"

fun result_value :: "send_result \<Rightarrow> Response" where
  "result_value (SendOk r) = r"
| "result_value (SendError unset) = unset"

fun has_error :: "send_result \<Rightarrow> bool" where
  "has_error (SendOk r) = False"
| "has_error (SendError unset) = True"

record SendRequestOptions =
  sro_partitionId :: nat
  sro_canBeStoredInHint :: bool

section \<open>NodesInPartition\<close>

text \<open>\<^verbatim>\<open>std::set\<close> of node identifiers, in ascending order.\<close>

type_synonym NodesInPartition = "memdbNodeId_t list"

definition nip_getAll :: "NodesInPartition \<Rightarrow> memdbNodeId_t list" where
  "nip_getAll ns = ns"

definition nip_add :: "memdbNodeId_t \<Rightarrow> NodesInPartition \<Rightarrow> NodesInPartition" where
  "nip_add n ns = (if n \<in> set ns then ns else insort n ns)"

definition nip_remove :: "memdbNodeId_t \<Rightarrow> NodesInPartition \<Rightarrow> NodesInPartition" where
  "nip_remove n ns = filter (\<lambda>x. x \<noteq> n) ns"

definition nip_size :: "NodesInPartition \<Rightarrow> nat" where
  "nip_size ns = length ns"

section \<open>HintsService\<close>

record HintsService =
  hintsByNodeId :: "(memdbNodeId_t \<times> BackedDiskRequestBuffer) list"
  onGoingIterators :: "memdbNodeId_t set"
  pendingHints :: "memdbNodeId_t set"
  hintsNodesCheckedAtLeastOnce :: "memdbNodeId_t set"

definition new_HintsService :: HintsService where
  "new_HintsService = \<lparr>hintsByNodeId = [], onGoingIterators = {}, pendingHints = {}, hintsNodesCheckedAtLeastOnce = {}\<rparr>"

definition hints_add ::
  "settings \<Rightarrow> memdbNodeId_t \<Rightarrow> Request \<Rightarrow> HintsService \<times> FileSystem \<Rightarrow> (io_error + HintsService \<times> FileSystem) option" where
  "hints_add conf nid request = (\<lambda>(H, fs).
     (case om_get (<) nid (hintsByNodeId H) of
        Some b \<Rightarrow> do {
          fs \<leftarrow> bd_add request b fs;
          Some (Inr (H, fs)) }
      | None \<Rightarrow> do {
          r \<leftarrow> new_BackedDiskRequestBuffer (conf_dataPath conf @ ''/hints'') (to_string (unat nid)) fs;
          (case r of
             Inl e \<Rightarrow> Some (Inl e)
           | Inr (b, fs) \<Rightarrow> do {
               let H = H\<lparr>hintsByNodeId := om_put (<) nid b (hintsByNodeId H), pendingHints := insert nid (pendingHints H)\<rparr>;
               fs \<leftarrow> bd_add request b fs;
               Some (Inr (H, fs)) }) }))"

definition maybeHasPendingHints :: "memdbNodeId_t \<Rightarrow> HintsService \<Rightarrow> bool" where
  "maybeHasPendingHints nid H \<longleftrightarrow>
     om_get (<) nid (hintsByNodeId H) \<noteq> None \<or>
     nid \<notin> hintsNodesCheckedAtLeastOnce H \<or> nid \<in> pendingHints H"

text \<open>\<^verbatim>\<open>NullIterator\<close> or a \<^verbatim>\<open>HintIterator\<close> over the buffer of a node.\<close>

datatype hint_iterator = NullIterator | HintIterator memdbNodeId_t BackedDiskRequestBuffer

definition hints_iterator :: "memdbNodeId_t \<Rightarrow> HintsService \<Rightarrow> hint_iterator \<times> HintsService" where
  "hints_iterator nid H =
     (case om_get (<) nid (hintsByNodeId H) of
        Some b \<Rightarrow>
          if nid \<notin> onGoingIterators H
          then (HintIterator nid b, H\<lparr>onGoingIterators := insert nid (onGoingIterators H)\<rparr>)
          else (NullIterator, H)
      | None \<Rightarrow> (NullIterator, H))"

fun hint_hasNext :: "hint_iterator \<Rightarrow> HintsService \<times> FileSystem \<Rightarrow> bool \<times> HintsService" where
  "hint_hasNext NullIterator (H, fs) = (False, H)"
| "hint_hasNext (HintIterator nid b) (H, fs) =
     (if bd_hasNext b fs then (True, H)
      else (False, H\<lparr>onGoingIterators := onGoingIterators H - {nid}, pendingHints := insert nid (pendingHints H)\<rparr>))"

fun hint_next :: "environment \<Rightarrow> hint_iterator \<Rightarrow> FileSystem \<Rightarrow> (io_error + Request \<times> FileSystem) option" where
  "hint_next env NullIterator fs = None"
| "hint_next env (HintIterator nid b) fs = bd_next env b fs"

definition hints_clear :: "memdbNodeId_t \<Rightarrow> HintsService \<Rightarrow> FileSystem \<Rightarrow> FileSystem" where
  "hints_clear nid H fs =
     (case om_get (<) nid (hintsByNodeId H) of Some b \<Rightarrow> bd_clear b fs | None \<Rightarrow> fs)"

section \<open>MultipleResponses\<close>

text \<open>The latch counts the successful answers. A wait returns whether the count reached the bound when the wait
  ended.\<close>

record MultipleResponses =
  responses :: "(memdbNodeId_t \<times> Response) list"
  successfulResponsesLatch :: int
  nTotalRequest :: int

definition new_MultipleResponses :: "int \<Rightarrow> MultipleResponses" where
  "new_MultipleResponses n = \<lparr>responses = [], successfulResponsesLatch = 0, nTotalRequest = n\<rparr>"

definition awaitMinOrEq :: "int \<Rightarrow> int \<Rightarrow> bool" where
  "awaitMinOrEq minValue latch \<longleftrightarrow> minValue \<le> latch"

definition latch_increase :: "int \<Rightarrow> int" where
  "latch_increase latch = latch + 1"

definition getResponses :: "MultipleResponses \<Rightarrow> (memdbNodeId_t \<times> Response) list" where
  "getResponses M = responses M"

definition waitForSuccessfulQuorum :: "MultipleResponses \<Rightarrow> bool" where
  "waitForSuccessfulQuorum M =
     (let nTotalNodes = nTotalRequest M + 1;
          minQuorum = nTotalNodes div 2 + 1
      in awaitMinOrEq (minQuorum - 1) (successfulResponsesLatch M))"

definition allResponsesSuccessful :: "MultipleResponses \<Rightarrow> bool" where
  "allResponsesSuccessful M = list_ex (\<lambda>(nid, r). \<not> isSuccessful r) (responses M)"

definition addResponse :: "memdbNodeId_t \<Rightarrow> Response \<Rightarrow> MultipleResponses \<Rightarrow> MultipleResponses" where
  "addResponse nid r M =
     (let M = (if om_get (<) nid (responses M) = None then M\<lparr>responses := om_put (<) nid r (responses M)\<rparr> else M)
      in if isSuccessful r then M\<lparr>successfulResponsesLatch := latch_increase (successfulResponsesLatch M)\<rparr> else M)"

section \<open>ClusterNodes\<close>

record ClusterNodes =
  allNodesById :: "(memdbNodeId_t \<times> Node) list"
  nodesInPartitions :: "NodesInPartition list"

definition new_ClusterNodes :: ClusterNodes where
  "new_ClusterNodes = \<lparr>allNodesById = [], nodesInPartitions = []\<rparr>"

definition erase_node :: "memdbNodeId_t \<Rightarrow> ClusterNodes \<Rightarrow> ClusterNodes" where
  "erase_node nid C = C\<lparr>allNodesById := filter (\<lambda>(k, n). k \<noteq> nid) (allNodesById C)\<rparr>"

text \<open>\<^verbatim>\<open>nodesInPartitions[partitionId]\<close> is not checked; past the end it is undefined.\<close>

definition nodes_in :: "nat \<Rightarrow> ClusterNodes \<Rightarrow> NodesInPartition option" where
  "nodes_in p C = (if p < length (nodesInPartitions C) then Some (nodesInPartitions C ! p) else None)"

definition change_partition :: "nat \<Rightarrow> (NodesInPartition \<Rightarrow> NodesInPartition) \<Rightarrow> ClusterNodes \<Rightarrow> ClusterNodes option" where
  "change_partition p f C = do {
     ns \<leftarrow> nodes_in p C;
     Some (C\<lparr>nodesInPartitions := (nodesInPartitions C)[p := f ns]\<rparr>) }"

definition addNode :: "Node \<Rightarrow> ClusterNodes \<Rightarrow> ClusterNodes" where
  "addNode node C = C\<lparr>allNodesById := om_put (<) (node_id node) node (allNodesById C)\<rparr>"

fun addNodesInPartition :: "Node list \<Rightarrow> nat \<Rightarrow> ClusterNodes \<Rightarrow> ClusterNodes option" where
  "addNodesInPartition [] partitionId C = Some C"
| "addNodesInPartition (node # others) partitionId C = do {
     let C = (if om_get (<) (node_id node) (allNodesById C) \<noteq> None then erase_node (node_id node) C else C);
     let C = addNode node C;
     C \<leftarrow> change_partition partitionId (nip_add (node_id node)) C;
     addNodesInPartition others partitionId C }"

definition getAllNodes :: "ClusterNodes \<Rightarrow> Node list" where
  "getAllNodes C = map snd (allNodesById C)"

fun addNodes :: "Node list \<Rightarrow> ClusterNodes \<Rightarrow> ClusterNodes" where
  "addNodes [] C = C"
| "addNodes (n # ns) C = addNodes ns (addNode n C)"

definition nodes_getSize :: "ClusterNodes \<Rightarrow> nat" where
  "nodes_getSize C = length (allNodesById C)"

definition setNumberPartitions :: "u32 \<Rightarrow> ClusterNodes \<Rightarrow> ClusterNodes" where
  "setNumberPartitions n C = C\<lparr>nodesInPartitions := nodesInPartitions C @ replicate (unat n) []\<rparr>"

definition removeNodeFromPartition :: "memdbNodeId_t \<Rightarrow> nat \<Rightarrow> ClusterNodes \<Rightarrow> ClusterNodes option" where
  "removeNodeFromPartition nid partitionId C = change_partition partitionId (nip_remove nid) C"

definition getNodesInPartitions :: "ClusterNodes \<Rightarrow> NodesInPartition list" where
  "getNodesInPartitions C = nodesInPartitions C"

definition isEmtpy :: "nat \<Rightarrow> ClusterNodes \<Rightarrow> bool" where
  "isEmtpy partitionId C \<longleftrightarrow>
     length (nodesInPartitions C) \<le> partitionId \<or> nip_size (nodesInPartitions C ! partitionId) = 0"

definition addNodeInPartition :: "Node \<Rightarrow> nat \<Rightarrow> ClusterNodes \<Rightarrow> ClusterNodes option" where
  "addNodeInPartition node partitionId C = do {
     C \<leftarrow> change_partition partitionId (nip_add (node_id node)) C;
     Some (addNode node C) }"

definition existsByNodeId :: "memdbNodeId_t \<Rightarrow> ClusterNodes \<Rightarrow> bool" where
  "existsByNodeId nid C \<longleftrightarrow> om_get (<) nid (allNodesById C) \<noteq> None"

definition self_node :: "settings \<Rightarrow> Node" where
  "self_node conf = \<lparr>node_id = conf_nodeId conf, node_address = conf_address conf @ '':'' @ conf_port conf\<rparr>"

definition getByNodeId :: "settings \<Rightarrow> memdbNodeId_t \<Rightarrow> ClusterNodes \<Rightarrow> Node option" where
  "getByNodeId conf nid C =
     (if nid = conf_nodeId conf then Some (self_node conf) else om_get (<) nid (allNodesById C))"

definition deleteNodeById :: "memdbNodeId_t \<Rightarrow> ClusterNodes \<Rightarrow> ClusterNodes" where
  "deleteNodeById nid C =
     (let C = erase_node nid C in C\<lparr>nodesInPartitions := map (nip_remove nid) (nodesInPartitions C)\<rparr>)"

text \<open>The authentication key as the bytes of the string.\<close>

definition string_bytes :: "string \<Rightarrow> bytes" where
  "string_bytes s = map (\<lambda>c. word_of_nat (of_char c)) s"

definition prepareRequest :: "settings \<Rightarrow> OperationBody \<Rightarrow> Request" where
  "prepareRequest conf op =
     \<lparr>authentication = \<lparr>authKey = string_bytes (conf_authNodeKey conf), auth_flag1 = True, auth_flag2 = False\<rparr>,
      operation = op\<lparr>op_nodeId := conf_nodeId conf\<rparr>, requestNumber = 0\<rparr>"

fun nodes_by_id :: "memdbNodeId_t list \<Rightarrow> ClusterNodes \<Rightarrow> Node list option" where
  "nodes_by_id [] C = Some []"
| "nodes_by_id (i # is) C = do {
     n \<leftarrow> om_get (<) i (allNodesById C);
     ns \<leftarrow> nodes_by_id is C;
     Some (n # ns) }"

definition forEachNodeInPartition :: "nat \<Rightarrow> ClusterNodes \<Rightarrow> Node list option" where
  "forEachNodeInPartition partitionId C = do {
     ns \<leftarrow> nodes_in partitionId C;
     nodes_by_id (nip_getAll ns) C }"

section \<open>Sending\<close>

text \<open>\<^verbatim>\<open>retryUntilSuccessAndGet\<close> on a node.\<close>

partial_function (option) send_until :: "network \<Rightarrow> nat \<Rightarrow> Node \<Rightarrow> Request \<Rightarrow> (Response \<times> nat) option" where
  "send_until net n node request =
     (case net n node request of
        SendOk r \<Rightarrow> Some (r, Suc n)
      | SendError unset \<Rightarrow> send_until net (Suc n) node request)"

definition cn_sendRequest :: "network \<Rightarrow> nat \<Rightarrow> memdbNodeId_t \<Rightarrow> Request \<Rightarrow> ClusterNodes \<Rightarrow> (Response \<times> nat) option" where
  "cn_sendRequest net n nid request C = do {
     node \<leftarrow> om_get (<) nid (allNodesById C);
     send_until net n node request }"

partial_function (option) handoff_loop ::
  "environment \<Rightarrow> network \<Rightarrow> nat \<Rightarrow> memdbNodeId_t \<Rightarrow> hint_iterator \<Rightarrow> ClusterNodes \<Rightarrow> HintsService \<times> FileSystem \<Rightarrow>
   (io_error + HintsService \<times> FileSystem) option" where
  "handoff_loop env net n nid it C s =
     (case hint_hasNext it s of (again, H) \<Rightarrow>
        if again then do {
          r \<leftarrow> hint_next env it (snd s);
          (case r of
             Inl e \<Rightarrow> Some (Inl e)
           | Inr (request, fs) \<Rightarrow> do {
               sent \<leftarrow> cn_sendRequest net n nid request C;
               handoff_loop env net (snd sent) nid it C (H, fs) }) }
        else Some (Inr (H, snd s)))"

definition sendHintedHandoff ::
  "environment \<Rightarrow> network \<Rightarrow> memdbNodeId_t \<Rightarrow> ClusterNodes \<Rightarrow> HintsService \<times> FileSystem \<Rightarrow>
   (io_error + HintsService \<times> FileSystem) option" where
  "sendHintedHandoff env net nid C = (\<lambda>(H, fs).
     (case hints_iterator nid H of (it, H) \<Rightarrow> handoff_loop env net 0 nid it C (H, fs)))"

text \<open>The random numbers are a parameter; the position in their sequence and the set of the identifiers that were
  already selected are returned.\<close>

partial_function (option) random_loop ::
  "(nat \<Rightarrow> nat) \<Rightarrow> NodesInPartition \<Rightarrow> ClusterNodes \<Rightarrow> NodesInPartition \<Rightarrow> nat \<Rightarrow>
   (Node option \<times> NodesInPartition \<times> nat) option" where
  "random_loop rands ids C checked i =
     (if nip_size checked = nip_size ids then Some (None, checked, i)
      else if nip_size ids = 0 then None
      else let offset = (word_of_nat (rands i mod nip_size ids) :: memdbNodeId_t)
        in if offset \<in> set checked then random_loop rands ids C checked (Suc i)
           else do {
             randomNode \<leftarrow> om_get (<) (ids ! unat offset) (allNodesById C);
             Some (Some randomNode, nip_add (node_id randomNode) checked, Suc i) })"

definition getRandomNode ::
  "(nat \<Rightarrow> nat) \<Rightarrow> nat \<Rightarrow> ClusterNodes \<Rightarrow> NodesInPartition \<Rightarrow> nat \<Rightarrow> (Node option \<times> NodesInPartition \<times> nat) option" where
  "getRandomNode rands partitionId C checked i = do {
     ids \<leftarrow> nodes_in partitionId C;
     random_loop rands ids C checked i }"

partial_function (option) any_loop ::
  "(nat \<Rightarrow> nat) \<Rightarrow> network \<Rightarrow> bool \<Rightarrow> nat \<Rightarrow> (Node \<Rightarrow> Request option) \<Rightarrow> ClusterNodes \<Rightarrow> NodesInPartition \<Rightarrow> nat \<Rightarrow> nat \<Rightarrow>
   send_result option option" where
  "any_loop rands net requiresSuccessful partitionId requestCreator C checked i n = do {
     selected \<leftarrow> getRandomNode rands partitionId C checked i;
     (case selected of
        (None, checked, i) \<Rightarrow> Some None
      | (Some node, checked, i) \<Rightarrow> do {
          request \<leftarrow> requestCreator node;
          let r = net n node request;
          let checked = nip_add (node_id node) checked;
          if isSuccessful (result_value r) \<and> (\<not> requiresSuccessful \<or> isSuccessful (result_value r))
          then Some (Some r)
          else any_loop rands net requiresSuccessful partitionId requestCreator C checked i (Suc n) }) }"

text \<open>\<^term>\<open>Some None\<close> is the error result of a partition whose nodes were all selected.\<close>

definition sendRequestToAnyNode ::
  "(nat \<Rightarrow> nat) \<Rightarrow> network \<Rightarrow> bool \<Rightarrow> SendRequestOptions \<Rightarrow> (Node \<Rightarrow> Request option) \<Rightarrow> ClusterNodes \<Rightarrow> send_result option option" where
  "sendRequestToAnyNode rands net requiresSuccessful options requestCreator C =
     any_loop rands net requiresSuccessful (sro_partitionId options) requestCreator C [] 0 0"

text \<open>One attempt per round; selecting no node throws, which the retry counts as a failed attempt.\<close>

fun random_attempts ::
  "nat \<Rightarrow> (nat \<Rightarrow> nat) \<Rightarrow> network \<Rightarrow> nat \<Rightarrow> Request \<Rightarrow> settings \<Rightarrow> ClusterNodes \<Rightarrow> NodesInPartition \<Rightarrow> nat \<Rightarrow> nat \<Rightarrow>
   Response option option" where
  "random_attempts 0 rands net partitionId request conf C checked i n = Some None"
| "random_attempts (Suc attempts) rands net partitionId request conf C checked i n = do {
     selected \<leftarrow> getRandomNode rands partitionId C checked i;
     (case selected of
        (None, checked, i) \<Rightarrow> random_attempts attempts rands net partitionId request conf C checked i n
      | (Some node, checked, i) \<Rightarrow>
          (case net n node (prepareRequest conf (operation request)) of
             SendOk r \<Rightarrow> Some (Some r)
           | SendError unset \<Rightarrow> random_attempts attempts rands net partitionId request conf C checked i (Suc n))) }"

definition sendRequestToRandomNode ::
  "(nat \<Rightarrow> nat) \<Rightarrow> network \<Rightarrow> Request \<Rightarrow> SendRequestOptions \<Rightarrow> settings \<Rightarrow> ClusterNodes \<Rightarrow> Response option option" where
  "sendRequestToRandomNode rands net request options conf C =
     random_attempts (unat (conf_nRetries conf)) rands net (sro_partitionId options) request conf C [] 0 0"

section \<open>Broadcasts\<close>

text \<open>Every node of a broadcast is a task of the thread pool. The tasks run in the order of the nodes here; the
  network gives the result of every attempt of a task.\<close>

definition send_with_retries :: "network \<Rightarrow> settings \<Rightarrow> Node \<Rightarrow> OperationBody \<Rightarrow> Response option" where
  "send_with_retries net conf node op =
     retryNTimesAndGet (uint (conf_nRetries conf))
       (\<lambda>k. case net k node (prepareRequest conf op) of SendOk r \<Rightarrow> AttemptOk r | SendError unset \<Rightarrow> AttemptError)"

fun each_node :: "(Node \<Rightarrow> 's \<Rightarrow> (io_error + 's) option) \<Rightarrow> Node list \<Rightarrow> 's \<Rightarrow> (io_error + 's) option" where
  "each_node task [] s = Some (Inr s)"
| "each_node task (n # ns) s = do {
     r \<leftarrow> task n s;
     (case r of Inl e \<Rightarrow> Some (Inl e) | Inr s \<Rightarrow> each_node task ns s) }"

definition hint_if_allowed ::
  "settings \<Rightarrow> SendRequestOptions \<Rightarrow> Node \<Rightarrow> OperationBody \<Rightarrow> HintsService \<times> FileSystem \<Rightarrow>
   (io_error + HintsService \<times> FileSystem) option" where
  "hint_if_allowed conf options node op s =
     (if sro_canBeStoredInHint options then hints_add conf (node_id node) (prepareRequest conf op) s else Some (Inr s))"

definition broadcast_task ::
  "network \<Rightarrow> settings \<Rightarrow> SendRequestOptions \<Rightarrow> OperationBody \<Rightarrow> Node \<Rightarrow> HintsService \<times> FileSystem \<Rightarrow>
   (io_error + HintsService \<times> FileSystem) option" where
  "broadcast_task net conf options op node s =
     (case send_with_retries net conf node op of
        Some r \<Rightarrow> Some (Inr s)
      | None \<Rightarrow> hint_if_allowed conf options node op s)"

definition cn_broadcast ::
  "network \<Rightarrow> settings \<Rightarrow> OperationBody \<Rightarrow> SendRequestOptions \<Rightarrow> ClusterNodes \<Rightarrow> HintsService \<times> FileSystem \<Rightarrow>
   (io_error + HintsService \<times> FileSystem) option" where
  "cn_broadcast net conf op options C s = do {
     nodes \<leftarrow> forEachNodeInPartition (sro_partitionId options) C;
     each_node (broadcast_task net conf options op) nodes s }"

definition broadcastAll ::
  "network \<Rightarrow> settings \<Rightarrow> OperationBody \<Rightarrow> SendRequestOptions \<Rightarrow> ClusterNodes \<Rightarrow> HintsService \<times> FileSystem \<Rightarrow>
   (io_error + HintsService \<times> FileSystem) option" where
  "broadcastAll net conf op options C s = each_node (broadcast_task net conf options op) (getAllNodes C) s"

definition wait_task ::
  "network \<Rightarrow> settings \<Rightarrow> SendRequestOptions \<Rightarrow> OperationBody \<Rightarrow> Node \<Rightarrow> MultipleResponses \<times> HintsService \<times> FileSystem \<Rightarrow>
   (io_error + MultipleResponses \<times> HintsService \<times> FileSystem) option" where
  "wait_task net conf options op node = (\<lambda>(M, s).
     (let r = net 0 node (prepareRequest conf op);
          M = (if isSuccessful (result_value r) then addResponse (node_id node) (result_value r) M else M)
      in do {
        h \<leftarrow> (if has_error r then hint_if_allowed conf options node op s else Some (Inr s));
        Some (case h of Inl e \<Rightarrow> Inl e | Inr s \<Rightarrow> Inr (M, s)) }))"

definition cn_broadcastAndWait ::
  "network \<Rightarrow> settings \<Rightarrow> OperationBody \<Rightarrow> SendRequestOptions \<Rightarrow> ClusterNodes \<Rightarrow> HintsService \<times> FileSystem \<Rightarrow>
   (io_error + MultipleResponses \<times> HintsService \<times> FileSystem) option" where
  "cn_broadcastAndWait net conf op options C s = do {
     ns \<leftarrow> nodes_in (sro_partitionId options) C;
     nodes \<leftarrow> forEachNodeInPartition (sro_partitionId options) C;
     each_node (wait_task net conf options op) nodes (new_MultipleResponses (int (nip_size ns)), s) }"

definition foreach_task ::
  "network \<Rightarrow> settings \<Rightarrow> SendRequestOptions \<Rightarrow> (memdbNodeId_t \<Rightarrow> OperationBody option) \<Rightarrow> (Node \<Rightarrow> Response) \<Rightarrow> Node \<Rightarrow>
   MultipleResponses \<times> HintsService \<times> FileSystem \<Rightarrow> (io_error + MultipleResponses \<times> HintsService \<times> FileSystem) option" where
  "foreach_task net conf options requestCreator unset node = (\<lambda>(M, s). do {
     op \<leftarrow> requestCreator (node_id node);
     let result = send_with_retries net conf node op;
     h \<leftarrow> (if result = None then hint_if_allowed conf options node op s else Some (Inr s));
     (case h of
        Inl e \<Rightarrow> Some (Inl e)
      | Inr s \<Rightarrow>
          let r = (case result of Some r \<Rightarrow> r | None \<Rightarrow> unset node);
              M = (if isSuccessful r then addResponse (node_id node) r M else M)
          in Some (Inr (M, s))) })"

definition broadcastForEachAndWait ::
  "network \<Rightarrow> settings \<Rightarrow> SendRequestOptions \<Rightarrow> (memdbNodeId_t \<Rightarrow> OperationBody option) \<Rightarrow> (Node \<Rightarrow> Response) \<Rightarrow> ClusterNodes \<Rightarrow>
   HintsService \<times> FileSystem \<Rightarrow> (io_error + MultipleResponses \<times> HintsService \<times> FileSystem) option" where
  "broadcastForEachAndWait net conf options requestCreator unset C s = do {
     ns \<leftarrow> nodes_in (sro_partitionId options) C;
     nodes \<leftarrow> forEachNodeInPartition (sro_partitionId options) C;
     each_node (foreach_task net conf options requestCreator unset) nodes (new_MultipleResponses (int (nip_size ns)), s) }"

section \<open>The quorum of a broadcast\<close>

definition answered :: "network \<Rightarrow> settings \<Rightarrow> OperationBody \<Rightarrow> Node \<Rightarrow> bool" where
  "answered net conf op node \<longleftrightarrow> isSuccessful (result_value (net 0 node (prepareRequest conf op)))"

lemma addResponse_counts [simp]:
  "successfulResponsesLatch (addResponse nid r M) = successfulResponsesLatch M + (if isSuccessful r then 1 else 0)"
  "nTotalRequest (addResponse nid r M) = nTotalRequest M"
  by (simp_all add: addResponse_def latch_increase_def Let_def)

lemma wait_task_result:
  "wait_task net conf options op n (M, s) = Some (Inr (M', s')) \<Longrightarrow>
   M' = (if answered net conf op n then addResponse (node_id n) (result_value (net 0 n (prepareRequest conf op))) M else M)"
  by (auto simp: wait_task_def answered_def Let_def split: Option.bind_split_asm sum.split_asm if_split_asm)

lemma each_wait_task_counts:
  "each_node (wait_task net conf options op) nodes (M, s) = Some (Inr (M', s')) \<Longrightarrow>
   successfulResponsesLatch M' = successfulResponsesLatch M + int (length (filter (answered net conf op) nodes)) \<and>
   nTotalRequest M' = nTotalRequest M"
proof (induction nodes arbitrary: M s)
  case (Cons n ns)
  obtain M1 s1 where "wait_task net conf options op n (M, s) = Some (Inr (M1, s1))"
    and s1: "each_node (wait_task net conf options op) ns (M1, s1) = Some (Inr (M', s'))"
    using Cons.prems by (auto split: Option.bind_split_asm sum.split_asm)
  then show ?case using Cons.IH [OF s1] wait_task_result [of net conf options op n M s M1 s1] by (auto simp: answered_def)
qed simp

lemma forEach_length:
  "nodes_by_id ids C = Some nodes \<Longrightarrow> length nodes = length ids"
  by (induction ids arbitrary: nodes) (auto simp: bind_eq_Some_conv)

text \<open>C25. The quorum of a broadcast is a majority of the partition with the sender included: when every task of
  \<open>broadcastAndWait\<close> has ended, \<open>waitForSuccessfulQuorum\<close> holds exactly if the nodes that answered
  successfully and the sender are more than half of all nodes.\<close>

theorem broadcast_quorum_is_majority:
  assumes "cn_broadcastAndWait net conf op options C s = Some (Inr (M, s'))"
    and "forEachNodeInPartition (sro_partitionId options) C = Some nodes"
  shows "waitForSuccessfulQuorum M \<longleftrightarrow> length nodes + 1 < 2 * (length (filter (answered net conf op) nodes) + 1)"
proof -
  obtain ns where ns: "nodes_in (sro_partitionId options) C = Some ns" "nodes_by_id ns C = Some nodes"
    using assms(2) by (auto simp: forEachNodeInPartition_def nip_getAll_def bind_eq_Some_conv)
  have "each_node (wait_task net conf options op) nodes (new_MultipleResponses (int (nip_size ns)), s) = Some (Inr (M, s'))"
    using assms ns by (simp add: cn_broadcastAndWait_def)
  then have "successfulResponsesLatch M = int (length (filter (answered net conf op) nodes))" "nTotalRequest M = int (length nodes)"
    using each_wait_task_counts [of net conf options op nodes] forEach_length [OF ns(2)]
    by (simp_all add: new_MultipleResponses_def nip_size_def)
  then show ?thesis by (simp add: waitForSuccessfulQuorum_def awaitMinOrEq_def) linarith
qed

definition two_nodes :: ClusterNodes where
  "two_nodes = \<lparr>allNodesById = [(1, \<lparr>node_id = 1, node_address = ''a:1''\<rparr>), (7, \<lparr>node_id = 7, node_address = ''b:1''\<rparr>)],
     nodesInPartitions = [[1, 7]]\<rparr>"

definition sample_settings :: settings where
  "sample_settings = \<lparr>conf_authNodeKey = ''456'', conf_authUserKey = ''123'', conf_dataPath = ''/etc/memdb'', conf_port = ''10000'',
     conf_buckets = 64, conf_segmentSizeMb = 100, conf_replication = True, conf_nodeId = 3, conf_partitions = False,
     conf_nRetries = 10, conf_address = ''localhost'', conf_seedNodes = [], conf_nodesPerPartition = 1,
     conf_maxPartitionSize = 64\<rparr>"

definition sample_send_options :: SendRequestOptions where
  "sample_send_options = \<lparr>sro_partitionId = 0, sro_canBeStoredInHint = False\<rparr>"

definition only_node_1_fails :: network where
  "only_node_1_fails n node request =
     (if node_id node = 1 then SendError (error 0) else SendOk (success (LamportClock 0 0)))"

theorem broadcast_quorum_is_majority_witness:
  "\<exists>M. cn_broadcastAndWait only_node_1_fails sample_settings (createDeleteKeyOperation []) sample_send_options two_nodes
     (new_HintsService, sample_fs []) = Some (Inr (M, new_HintsService, sample_fs [])) \<and> waitForSuccessfulQuorum M"
proof -
  let ?M = "addResponse 7 (success (LamportClock 0 0)) (new_MultipleResponses 2)"
  have b: "cn_broadcastAndWait only_node_1_fails sample_settings (createDeleteKeyOperation []) sample_send_options two_nodes
     (new_HintsService, sample_fs []) = Some (Inr (?M, new_HintsService, sample_fs []))"
    by (simp add: cn_broadcastAndWait_def two_nodes_def sample_send_options_def nodes_in_def forEachNodeInPartition_def nip_getAll_def
      nip_size_def wait_task_def only_node_1_fails_def error_def success_def hint_if_allowed_def)
  have n: "forEachNodeInPartition (sro_partitionId sample_send_options) two_nodes =
      Some [\<lparr>node_id = 1, node_address = ''a:1''\<rparr>, \<lparr>node_id = 7, node_address = ''b:1''\<rparr>]"
    by (simp add: two_nodes_def sample_send_options_def nodes_in_def forEachNodeInPartition_def nip_getAll_def)
  show ?thesis
    using b broadcast_quorum_is_majority [OF b n] by (simp add: answered_def only_node_1_fails_def error_def success_def)
qed

section \<open>Selecting a random node\<close>

lemma random_loop_repeats:
  assumes "random_loop rands [1, b] C [1] i = Some y"
    and "om_get (<) 1 (allNodesById C) = Some node" and "node_id node = 1"
  shows "\<exists>i'. y = (Some node, [1], i')"
proof -
  have "ids = [1, b] \<and> D = C \<and> checked = [1] \<longrightarrow> (\<exists>i'. y = (Some node, [1], i'))"
    if "random_loop rands ids D checked i = Some y" for ids D checked i
  proof (rule random_loop.raw_induct [where P = "\<lambda>rands ids D checked i y. ids = [1, b] \<and> D = C \<and> checked = [1] \<longrightarrow>
      (\<exists>i'. y = (Some node, [1], i'))", OF _ that])
    fix f and rands ids D checked i y
    assume IH: "\<And>rands ids D checked i y. f rands ids D checked i = Some y \<Longrightarrow> ids = [1, b] \<and> D = C \<and> checked = [1] \<longrightarrow>
        (\<exists>i'. y = (Some node, [1], i'))"
      and run: "(if nip_size checked = nip_size ids then Some (None, checked, i)
      else if nip_size ids = 0 then None
      else let offset = (word_of_nat (rands i mod nip_size ids) :: memdbNodeId_t)
        in if offset \<in> set checked then f rands ids D checked (Suc i)
           else do {
             randomNode \<leftarrow> om_get (<) (ids ! unat offset) (allNodesById D);
             Some (Some randomNode, nip_add (node_id randomNode) checked, Suc i) }) = Some y"
    have "rands i mod Suc (Suc 0) < Suc (Suc 0)" by simp
    then have "rands i mod Suc (Suc 0) = 0 \<or> rands i mod Suc (Suc 0) = 1" by linarith
    then show "ids = [1, b] \<and> D = C \<and> checked = [1] \<longrightarrow> (\<exists>i'. y = (Some node, [1], i'))"
      using run IH [of rands ids D checked "Suc i" y] assms(2,3) by (auto simp: nip_size_def nip_add_def Let_def)
  qed
  then show ?thesis using assms(1) by blast
qed

lemma any_loop_stuck:
  assumes "nodes_in p C = Some [1, b]" and "om_get (<) 1 (allNodesById C) = Some node" and "node_id node = 1"
    and "\<forall>n request. \<not> isSuccessful (result_value (net n node request))"
  shows "any_loop rands net requires p creator C [1] i n = None"
proof -
  have "\<not> (nt = net \<and> q = p \<and> D = C \<and> checked = [1])"
    if "any_loop rands nt requires q creator D checked i n = Some y" for nt q D checked i n y
  proof (rule any_loop.raw_induct [where P = "\<lambda>rands nt requires q creator D checked i n y.
      \<not> (nt = net \<and> q = p \<and> D = C \<and> checked = [1])", OF _ that])
    fix f and rands nt requires q and creator :: "Node \<Rightarrow> Request option" and D checked i n y
    assume IH: "\<And>rands nt requires q creator D checked i n y. f rands nt requires q creator D checked i n = Some y \<Longrightarrow>
        \<not> (nt = net \<and> q = p \<and> D = C \<and> checked = [1])"
      and run: "do {
        selected \<leftarrow> getRandomNode rands q D checked i;
        (case selected of
           (None, checked, i) \<Rightarrow> Some None
         | (Some node, checked, i) \<Rightarrow> do {
             request \<leftarrow> creator node;
             let r = nt n node request;
             let checked = nip_add (node_id node) checked;
             if isSuccessful (result_value r) \<and> (\<not> requires \<or> isSuccessful (result_value r))
             then Some (Some r)
             else f rands nt requires q creator D checked i (Suc n) }) } = Some y"
    show "\<not> (nt = net \<and> q = p \<and> D = C \<and> checked = [1])"
    proof
      assume eq: "nt = net \<and> q = p \<and> D = C \<and> checked = [1]"
      then obtain sel where sel: "getRandomNode rands p C [1] i = Some sel" using run by (cases "getRandomNode rands p C [1] i") auto
      then obtain i' where "sel = (Some node, [1], i')"
        using random_loop_repeats [OF _ assms(2,3), of rands b i sel] assms(1) by (auto simp: getRandomNode_def)
      then show False
        using run IH [of rands net requires p creator C "[1]" i' "Suc n" y] sel eq assms(3,4)
        by (auto simp: nip_add_def bind_eq_Some_conv Let_def)
    qed
  qed
  then show ?thesis by (metis option.exhaust)
qed

text \<open>A request to any node of a partition may never reach the node that would answer. \<open>getRandomNode\<close>
  compares a random offset with the identifiers that were already selected: in a partition with the nodes
  1 and \<open>b\<close>, once node 1 was selected, the offset of the other node is taken for selected and node 1 is
  selected again and again. If node 1 is selected first and never answers successfully, the call never
  returns, whatever the other node would answer.\<close>

theorem any_node_starves:
  assumes "nodes_in (sro_partitionId options) C = Some [1, b]"
    and "om_get (<) 1 (allNodesById C) = Some node" and "node_id node = 1"
    and "\<forall>n request. \<not> isSuccessful (result_value (net n node request))"
    and "even (rands 0)"
  shows "sendRequestToAnyNode rands net requiresSuccessful options requestCreator C = None"
proof -
  have "getRandomNode rands (sro_partitionId options) C [] 0 = Some (Some node, [1], 1)"
    using assms by (subst getRandomNode_def, subst random_loop.simps)
      (simp add: nip_size_def nip_add_def even_iff_mod_2_eq_zero numeral_2_eq_2)
  then show ?thesis
    using any_loop_stuck [OF assms(1-3), of net] assms(3,4) unfolding sendRequestToAnyNode_def
    by (subst any_loop.simps) (auto simp: nip_add_def bind_eq_None_conv Let_def)
qed

theorem any_node_starves_witness:
  "sendRequestToAnyNode (\<lambda>i. 0) only_node_1_fails True sample_send_options (\<lambda>node. Some sample_request) two_nodes = None \<and>
   result_value (only_node_1_fails 0 \<lparr>node_id = 7, node_address = ''b:1''\<rparr> sample_request) = success (LamportClock 0 0)"
  using any_node_starves [of sample_send_options two_nodes 7 "\<lparr>node_id = 1, node_address = ''a:1''\<rparr>" only_node_1_fails "\<lambda>i. 0"]
  by (simp add: two_nodes_def sample_send_options_def nodes_in_def only_node_1_fails_def error_def)

end
