(* ===== verification/Cluster.thy ===== *)
theory Cluster
  imports Cluster_Nodes
begin

text \<open>
  The cluster as one node sees it: the state of the node (\<^verbatim>\<open>cluster/NodeState\<close>), the configuration
  that nodes exchange and keep on disk (\<^verbatim>\<open>cluster/GetClusterConfigResponse\<close>), the operations of
  \<^verbatim>\<open>cluster/Cluster\<close>, the update of the nodes of each partition
  (\<^verbatim>\<open>cluster/partitions/PartitionNeighborsNodesSetter\<close>) and the set-up of a node
  (\<^verbatim>\<open>cluster/setup\<close>). The network, MD5 and the random numbers are parameters.
\<close>

section \<open>OperatorNumbers\<close>

definition OP_SET :: u8 where "OP_SET = 1"
definition OP_GET :: u8 where "OP_GET = 2"
definition OP_DEL :: u8 where "OP_DEL = 3"
definition OP_CONTAINS :: u8 where "OP_CONTAINS = 17"
definition OP_UPDATE_COUNTER :: u8 where "OP_UPDATE_COUNTER = 18"
definition OP_REPLICATE_COUNTER :: u8 where "OP_REPLICATE_COUNTER = 19"
definition OP_HEALTH_CHECK :: u8 where "OP_HEALTH_CHECK = 4"
definition OP_SYNC_OPLOG :: u8 where "OP_SYNC_OPLOG = 5"
definition OP_MOVE_OPLOG :: u8 where "OP_MOVE_OPLOG = 6"
definition OP_NEXT_SYNC_OPLOG_SEGMENT :: u8 where "OP_NEXT_SYNC_OPLOG_SEGMENT = 7"
definition OP_FIX_OPLOG_SEGMENT :: u8 where "OP_FIX_OPLOG_SEGMENT = 8"
definition OP_CAS :: u8 where "OP_CAS = 9"
definition OP_CAS_PREPARE :: u8 where "OP_CAS_PREPARE = 10"
definition OP_CAS_ACCEPT :: u8 where "OP_CAS_ACCEPT = 11"
definition OP_GET_CLUSTER_CONFIG :: u8 where "OP_GET_CLUSTER_CONFIG = 12"
definition OP_JOIN_CLUSTER_ANNOUNCE :: u8 where "OP_JOIN_CLUSTER_ANNOUNCE = 13"
definition OP_LEAVE_CLUSTER_ANNOUNCE :: u8 where "OP_LEAVE_CLUSTER_ANNOUNCE = 14"
definition OP_DO_LEAVE_CLUSTER :: u8 where "OP_DO_LEAVE_CLUSTER = 15"
definition OP_GET_NODE_DATA :: u8 where "OP_GET_NODE_DATA = 16"

lemmas operator_numbers = OP_SET_def OP_GET_def OP_DEL_def OP_CONTAINS_def OP_UPDATE_COUNTER_def OP_REPLICATE_COUNTER_def
  OP_HEALTH_CHECK_def OP_SYNC_OPLOG_def OP_MOVE_OPLOG_def OP_NEXT_SYNC_OPLOG_SEGMENT_def OP_FIX_OPLOG_SEGMENT_def
  OP_CAS_def OP_CAS_PREPARE_def OP_CAS_ACCEPT_def OP_GET_CLUSTER_CONFIG_def OP_JOIN_CLUSTER_ANNOUNCE_def
  OP_LEAVE_CLUSTER_ANNOUNCE_def OP_DO_LEAVE_CLUSTER_def OP_GET_NODE_DATA_def

section \<open>NodeState\<close>

datatype NodeState = RUNNING | SHUTDOWN | BOOTING

definition cantExecuteRequest :: "NodeState \<Rightarrow> bool" where
  "cantExecuteRequest s \<longleftrightarrow> s = RUNNING"

definition states_canAcceptRequest :: "NodeState \<Rightarrow> bool" where
  "states_canAcceptRequest s \<longleftrightarrow> s \<noteq> SHUTDOWN"

fun parseNodeStateToString :: "NodeState \<Rightarrow> string" where
  "parseNodeStateToString RUNNING = ''RUNNING''"
| "parseNodeStateToString SHUTDOWN = ''SHUTDOWN''"
| "parseNodeStateToString BOOTING = ''BOOTING''"

definition parseNodeStateFromString :: "string \<Rightarrow> NodeState option" where
  "parseNodeStateFromString s =
     (if s = ''RUNNING'' then Some RUNNING else if s = ''SHUTDOWN'' then Some SHUTDOWN
      else if s = ''BOOTING'' then Some BOOTING else None)"

lemma nodeState_roundtrip [simp]: "parseNodeStateFromString (parseNodeStateToString s) = Some s"
  by (cases s) (simp_all add: parseNodeStateFromString_def)

section \<open>GetClusterConfigResponse\<close>

record GetClusterConfigResponse =
  gc_nodesPerPartition :: u32
  gc_maxPartitionSize :: u32
  gc_nodes :: "Node list"
  gc_ringEntries :: "RingEntry list"

fun append_nodes :: "Node list \<Rightarrow> bytes \<Rightarrow> bytes option" where
  "append_nodes [] out = Some out"
| "append_nodes (n # ns) out = do {
     let out = appendToBuffer (node_id n) out;
     let out = appendToBuffer (word_of_nat (length (node_address n)) :: u32) out;
     out \<leftarrow> appendBytesToBuffer (string_bytes (node_address n)) (length (node_address n)) out;
     append_nodes ns out }"

fun append_entries :: "RingEntry list \<Rightarrow> bytes \<Rightarrow> bytes" where
  "append_entries [] out = out"
| "append_entries (e # es) out =
     append_entries es (appendToBuffer (ringPosition e) (appendToBuffer (re_nodeId e) out))"

definition serialize_config :: "GetClusterConfigResponse \<Rightarrow> bytes option" where
  "serialize_config r = do {
     let out = appendToBuffer (gc_nodesPerPartition r) [];
     let out = appendToBuffer (gc_maxPartitionSize r) out;
     let out = appendToBuffer (word_of_nat (length (gc_nodes r)) :: u32) out;
     out \<leftarrow> append_nodes (gc_nodes r) out;
     Some (append_entries (gc_ringEntries r) out) }"

definition getSerializedBytesSize :: "GetClusterConfigResponse \<Rightarrow> nat" where
  "getSerializedBytesSize r =
     4 + 4 + 4 + sum_list (map (\<lambda>n. 2 + 4 + length (node_address n)) (gc_nodes r)) +
     sum_list (map (\<lambda>e. 2 + 4) (gc_ringEntries r))"

text \<open>The number of nodes is read into an \<^verbatim>\<open>int\<close>; the loop over the nodes runs while the index is below it, the one over the
  ring entries takes it as unsigned. The offset is an \<^verbatim>\<open>int\<close> too, increased by sums of type \<^verbatim>\<open>size_t\<close>: from
  \<open>2 ^ 31\<close> on it is negative. Reading outside of the buffer is undefined.\<close>

definition offset_after :: "nat \<Rightarrow> nat \<Rightarrow> nat" where
  "offset_after offset n = (offset + n) mod 2 ^ 32"

fun nodes_from :: "(u32 \<Rightarrow> nat \<Rightarrow> u32) \<Rightarrow> nat \<Rightarrow> nat \<Rightarrow> bytes \<Rightarrow> (Node list \<times> nat) option" where
  "nodes_from ub_shl 0 offset bs = Some ([], offset)"
| "nodes_from ub_shl (Suc n) offset bs =
     (if offset \<ge> 2 ^ 31 then None
      else do {
        nid \<leftarrow> parseFromBuffer ub_shl bs offset;
        sizeAddress \<leftarrow> (parseFromBuffer ub_shl bs (offset + 2) :: u32 option);
        addr \<leftarrow> req_fill bs (offset + 2 + 4) (offset + 2 + 4 + unat sizeAddress);
        (ns, offset) \<leftarrow> nodes_from ub_shl n (offset_after offset (2 + 4 + unat sizeAddress)) bs;
        Some (\<lparr>node_id = nid, node_address = map (\<lambda>b. char_of (unat b)) addr\<rparr> # ns, offset) })"

fun ring_entries_from :: "(u32 \<Rightarrow> nat \<Rightarrow> u32) \<Rightarrow> nat \<Rightarrow> nat \<Rightarrow> bytes \<Rightarrow> RingEntry list option" where
  "ring_entries_from ub_shl 0 offset bs = Some []"
| "ring_entries_from ub_shl (Suc n) offset bs =
     (if offset \<ge> 2 ^ 31 then None
      else do {
        nid \<leftarrow> parseFromBuffer ub_shl bs offset;
        position \<leftarrow> parseFromBuffer ub_shl bs (offset + 2);
        es \<leftarrow> ring_entries_from ub_shl n (offset_after offset (2 + 4)) bs;
        Some (\<lparr>re_nodeId = nid, ringPosition = position\<rparr> # es) })"

definition deserialize_config :: "(u32 \<Rightarrow> nat \<Rightarrow> u32) \<Rightarrow> bool \<Rightarrow> bytes \<Rightarrow> GetClusterConfigResponse option" where
  "deserialize_config ub_shl usingPartitions bs = do {
     perPartition \<leftarrow> parseFromBuffer ub_shl bs 0;
     maxPartition \<leftarrow> parseFromBuffer ub_shl bs 4;
     nNodesInCluster \<leftarrow> (parseFromBuffer ub_shl bs 8 :: u32 option);
     (ns, offset) \<leftarrow> nodes_from ub_shl (nat (sint nNodesInCluster)) 12 bs;
     es \<leftarrow> (if usingPartitions then ring_entries_from ub_shl (unat nNodesInCluster) offset bs else Some []);
     Some \<lparr>gc_nodesPerPartition = perPartition, gc_maxPartitionSize = maxPartition, gc_nodes = ns, gc_ringEntries = es\<rparr> }"

section \<open>Cluster\<close>

text \<open>The pointer to the partitions is null before the set-up of the node.\<close>

record Cluster =
  selfState :: NodeState
  clusterNodes :: ClusterNodes
  hintsService :: HintsService
  cluster_partitions :: "Partitions option"

definition new_Cluster :: Cluster where
  "new_Cluster = \<lparr>selfState = BOOTING, clusterNodes = new_ClusterNodes, hintsService = new_HintsService, cluster_partitions = None\<rparr>"

definition setBooting :: "Cluster \<Rightarrow> Cluster" where
  "setBooting C = C\<lparr>selfState := BOOTING\<rparr>"

definition setRunning :: "Cluster \<Rightarrow> Cluster" where
  "setRunning C = C\<lparr>selfState := RUNNING\<rparr>"

definition fix_request :: "u8 \<Rightarrow> settings \<Rightarrow> u32 \<Rightarrow> u64 \<Rightarrow> u64 \<Rightarrow> Cluster \<Rightarrow> Node \<Rightarrow> Request option" where
  "fix_request op0 conf selfOplogId minTimestamp maxTimestamp C nodeToSend = do {
     P \<leftarrow> cluster_partitions C;
     otherNodeOplogId \<leftarrow> getOplogIdOfOtherNodeBySelfOplogId (node_id nodeToSend) selfOplogId P;
     Some (rb_build (rb_addDoubleArg maxTimestamp (rb_addDoubleArg minTimestamp (rb_addArg (fromNumber otherNodeOplogId)
       (rb_operatorNumber OP_FIX_OPLOG_SEGMENT (rb_selfNode (conf_nodeId conf)
         (rb_authKey (string_bytes (conf_authNodeKey conf)) (rb_builder op0)))))))) }"

definition fixOplogSegment ::
  "(nat \<Rightarrow> nat) \<Rightarrow> network \<Rightarrow> u8 \<Rightarrow> settings \<Rightarrow> u32 \<Rightarrow> u64 \<Rightarrow> u64 \<Rightarrow> Cluster \<Rightarrow> send_result option option" where
  "fixOplogSegment rands net op0 conf selfOplogId minTimestamp maxTimestamp C =
     sendRequestToAnyNode rands net True \<lparr>sro_partitionId = unat selfOplogId, sro_canBeStoredInHint = False\<rparr>
       (fix_request op0 conf selfOplogId minTimestamp maxTimestamp C) (clusterNodes C)"

definition getPartitionObject :: "Cluster \<Rightarrow> Partitions option" where
  "getPartitionObject C = cluster_partitions C"

definition broadcastAndWait ::
  "network \<Rightarrow> settings \<Rightarrow> OperationBody \<Rightarrow> SendRequestOptions \<Rightarrow> Cluster \<times> FileSystem \<Rightarrow>
   (io_error + MultipleResponses \<times> Cluster \<times> FileSystem) option" where
  "broadcastAndWait net conf op options = (\<lambda>(C, fs). do {
     r \<leftarrow> cn_broadcastAndWait net conf op options (clusterNodes C) (hintsService C, fs);
     Some (case r of Inl e \<Rightarrow> Inl e | Inr (M, H, fs) \<Rightarrow> Inr (M, C\<lparr>hintsService := H\<rparr>, fs)) })"

definition with_hints ::
  "Cluster \<Rightarrow> (io_error + HintsService \<times> FileSystem) option \<Rightarrow> (io_error + Cluster \<times> FileSystem) option" where
  "with_hints C r = do {
     r \<leftarrow> r;
     Some (case r of Inl e \<Rightarrow> Inl e | Inr (H, fs) \<Rightarrow> Inr (C\<lparr>hintsService := H\<rparr>, fs)) }"

definition checkHintedHandoff ::
  "environment \<Rightarrow> network \<Rightarrow> memdbNodeId_t \<Rightarrow> Cluster \<times> FileSystem \<Rightarrow> (io_error + Cluster \<times> FileSystem) option" where
  "checkHintedHandoff env net nid = (\<lambda>(C, fs).
     with_hints C (sendHintedHandoff env net nid (clusterNodes C) (hintsService C, fs)))"

definition broadcast ::
  "network \<Rightarrow> settings \<Rightarrow> OperationBody \<Rightarrow> SendRequestOptions \<Rightarrow> Cluster \<times> FileSystem \<Rightarrow> (io_error + Cluster \<times> FileSystem) option" where
  "broadcast net conf op options = (\<lambda>(C, fs).
     with_hints C (cn_broadcast net conf op options (clusterNodes C) (hintsService C, fs)))"

text \<open>\<open>op0\<close> stands for the indeterminate initial operator number of a request builder.\<close>

definition announceJoin ::
  "network \<Rightarrow> u8 \<Rightarrow> settings \<Rightarrow> Cluster \<times> FileSystem \<Rightarrow> (io_error + Cluster \<times> FileSystem) option" where
  "announceJoin net op0 conf = (\<lambda>(C, fs).
     let request = buildOperationBody (rb_args [string_bytes (conf_address conf @ '':'' @ conf_port conf)]
           (rb_operatorNumber OP_JOIN_CLUSTER_ANNOUNCE (rb_builder op0)))
     in with_hints C (broadcastAll net conf request \<lparr>sro_partitionId = 0, sro_canBeStoredInHint = True\<rparr>
          (clusterNodes C) (hintsService C, fs)))"

definition announceLeave ::
  "network \<Rightarrow> u8 \<Rightarrow> settings \<Rightarrow> Cluster \<times> FileSystem \<Rightarrow> (io_error + Cluster \<times> FileSystem) option" where
  "announceLeave net op0 conf = (\<lambda>(C, fs).
     let request = buildOperationBody (rb_operatorNumber OP_LEAVE_CLUSTER_ANNOUNCE (rb_builder op0))
     in with_hints C (broadcastAll net conf request \<lparr>sro_partitionId = 0, sro_canBeStoredInHint = True\<rparr>
          (clusterNodes C) (hintsService C, fs)))"

definition getNodeState :: "Cluster \<Rightarrow> NodeState" where
  "getNodeState C = selfState C"

definition getNodeId :: "settings \<Rightarrow> memdbNodeId_t" where
  "getNodeId conf = conf_nodeId conf"

definition getMaxPartitionSize :: "settings \<Rightarrow> Cluster \<Rightarrow> u32 option" where
  "getMaxPartitionSize conf C = (if conf_partitions conf then map_option getMaxSize (cluster_partitions C) else Some 1)"

definition cluster_getNodesPerPartition :: "settings \<Rightarrow> Cluster \<Rightarrow> u32 option" where
  "cluster_getNodesPerPartition conf C =
     (if conf_partitions conf then map_option getNodesPerPartition (cluster_partitions C) else Some 1)"

definition getPartitionIdByKey :: "(string \<Rightarrow> bytes) \<Rightarrow> settings \<Rightarrow> SimpleString \<Rightarrow> Cluster \<Rightarrow> u32 option" where
  "getPartitionIdByKey md5 conf k C =
     (if conf_partitions conf then Option.bind (cluster_partitions C) (getDistanceOfKey md5 k) else Some 0)"

definition getNTotalNodesInPartition :: "settings \<Rightarrow> Cluster \<Rightarrow> nat option" where
  "getNTotalNodesInPartition conf C =
     (if \<not> conf_replication conf then Some 1
      else if \<not> conf_partitions conf then Some (nodes_getSize (clusterNodes C) + 1)
      else map_option unat (cluster_getNodesPerPartition conf C))"

subsection \<open>The configuration of the cluster\<close>

definition getSeedNodes :: "settings \<Rightarrow> Node list" where
  "getSeedNodes conf = map (\<lambda>a. \<lparr>node_id = 0, node_address = a\<rparr>) (conf_seedNodes conf)"

definition clusterConfigPath :: "settings \<Rightarrow> string" where
  "clusterConfigPath conf = conf_dataPath conf @ ''/cluster-config''"

definition getCandidatesToSendGetClusterConfig ::
  "environment \<Rightarrow> settings \<Rightarrow> FileSystem \<Rightarrow> (io_error + Node list \<times> FileSystem) option" where
  "getCandidatesToSendGetClusterConfig env conf fs =
     (if \<not> fs_exists (clusterConfigPath conf) fs
      then do {
        r \<leftarrow> createFile (conf_dataPath conf) ''cluster-config'' fs;
        Some (case r of Inl e \<Rightarrow> Inl e | Inr fs \<Rightarrow> Inr (getSeedNodes conf, fs)) }
      else do {
        r \<leftarrow> deserialize_config (env_shl env) (conf_partitions conf) (readBytes (clusterConfigPath conf) fs);
        Some (Inr (gc_nodes r, fs)) })"

definition persistClusterConfig ::
  "settings \<Rightarrow> GetClusterConfigResponse \<Rightarrow> FileSystem \<Rightarrow> (io_error + FileSystem) option" where
  "persistClusterConfig conf r fs = do {
     serialized \<leftarrow> serialize_config r;
     Some (writeBytes (clusterConfigPath conf) serialized (fs_clear (clusterConfigPath conf) fs)) }"

definition config_request :: "u8 \<Rightarrow> settings \<Rightarrow> Request" where
  "config_request op0 conf = rb_build (rb_selfNode (conf_nodeId conf) (rb_operatorNumber OP_GET_CLUSTER_CONFIG
     (rb_authKey (string_bytes (conf_authNodeKey conf)) (rb_builder op0))))"

fun config_attempts ::
  "environment \<Rightarrow> network \<Rightarrow> u8 \<Rightarrow> settings \<Rightarrow> Node \<Rightarrow> nat list \<Rightarrow> FileSystem \<Rightarrow>
   (io_error + GetClusterConfigResponse option \<times> FileSystem) option" where
  "config_attempts env net op0 conf candidate [] fs = Some (Inr (None, fs))"
| "config_attempts env net op0 conf candidate (i # is) fs =
     (case net i candidate (config_request op0 conf) of
        SendOk response \<Rightarrow>
          if isSuccessful response
          then do {
            config \<leftarrow> deserialize_config (env_shl env) (conf_partitions conf) (responseValue response);
            r \<leftarrow> persistClusterConfig conf config fs;
            Some (case r of Inl e \<Rightarrow> Inl e | Inr fs \<Rightarrow> Inr (Some config, fs)) }
          else config_attempts env net op0 conf candidate is fs
      | SendError unset \<Rightarrow> config_attempts env net op0 conf candidate is fs)"

fun config_candidates ::
  "environment \<Rightarrow> network \<Rightarrow> u8 \<Rightarrow> settings \<Rightarrow> Node list \<Rightarrow> FileSystem \<Rightarrow>
   (io_error + GetClusterConfigResponse option \<times> FileSystem) option" where
  "config_candidates env net op0 conf [] fs = Some (Inr (None, fs))"
| "config_candidates env net op0 conf (candidate # candidates) fs =
     (if node_address candidate = conf_address conf @ '':'' @ conf_port conf
      then config_candidates env net op0 conf candidates fs
      else do {
        r \<leftarrow> config_attempts env net op0 conf candidate [0..<unat (conf_nRetries conf)] fs;
        (case r of
           Inl e \<Rightarrow> Some (Inl e)
         | Inr (Some config, fs) \<Rightarrow> Some (Inr (Some config, fs))
         | Inr (None, fs) \<Rightarrow> config_candidates env net op0 conf candidates fs) })"

definition getClusterConfig ::
  "environment \<Rightarrow> network \<Rightarrow> u8 \<Rightarrow> settings \<Rightarrow> FileSystem \<Rightarrow>
   (io_error + GetClusterConfigResponse option \<times> FileSystem) option" where
  "getClusterConfig env net op0 conf fs = do {
     r \<leftarrow> getCandidatesToSendGetClusterConfig env conf fs;
     (case r of
        Inl e \<Rightarrow> Some (Inl e)
      | Inr (candidates, fs) \<Rightarrow>
          if candidates = [] then Some (Inr (None, fs)) else config_candidates env net op0 conf candidates fs) }"

section \<open>PartitionNeighborsNodesSetter\<close>

definition updateNeighborsWithDeletedNode :: "memdbNodeId_t \<Rightarrow> Cluster \<Rightarrow> Cluster option" where
  "updateNeighborsWithDeletedNode nid C = do {
     P \<leftarrow> cluster_partitions C;
     P \<leftarrow> partitions_deleteByNodeId nid P;
     Some (C\<lparr>clusterNodes := deleteNodeById nid (clusterNodes C), cluster_partitions := Some P\<rparr>) }"

definition containsNodeId :: "RingEntry list \<Rightarrow> memdbNodeId_t \<Rightarrow> bool" where
  "containsNodeId es nid = list_ex (\<lambda>e. re_nodeId e = nid) es"

text \<open>Both ends of the partition are its last entry; a missing neighbour throws.\<close>

definition getOldNodeIdPartitionMember :: "RingEntry list \<Rightarrow> Partitions \<Rightarrow> memdbNodeId_t option" where
  "getOldNodeIdPartitionMember es P =
     (if es = [] then None
      else let tailPartitionNode = es ! (length es - 1);
               headPartitionNode = es ! (length es - 1)
        in do {
          d \<leftarrow> getDistance (re_nodeId headPartitionNode) P;
          neighbor \<leftarrow> (if 0 \<le> d then getNeighborClockwiseByNodeId (re_nodeId tailPartitionNode) P
                         else getNeighborCounterClockwiseByNodeId (re_nodeId headPartitionNode) P);
          map_option re_nodeId neighbor })"

fun new_node_partitions :: "nat list \<Rightarrow> Node \<Rightarrow> RingEntry \<Rightarrow> Partitions \<Rightarrow> ClusterNodes \<Rightarrow> ClusterNodes option" where
  "new_node_partitions [] newNode entry P N = Some N"
| "new_node_partitions (partitionId # ids) newNode entry P N = do {
     neighbors \<leftarrow> getNeighborsClockwiseByNodeId (re_nodeId entry) P;
     N \<leftarrow> (if containsNodeId neighbors (node_id newNode)
            then do {
              N \<leftarrow> addNodeInPartition newNode partitionId N;
              old \<leftarrow> getOldNodeIdPartitionMember neighbors P;
              removeNodeFromPartition old partitionId N }
            else Some N);
     previous \<leftarrow> getNeighborCounterClockwiseByNodeId (re_nodeId entry) P;
     (case previous of
        Some entry \<Rightarrow> new_node_partitions ids newNode entry P N
      | None \<Rightarrow> Some N) }"

definition updateNeighborsWithNewNode :: "settings \<Rightarrow> Node \<Rightarrow> Cluster \<Rightarrow> Cluster option" where
  "updateNeighborsWithNewNode conf newNode C = do {
     n \<leftarrow> cluster_getNodesPerPartition conf C;
     P \<leftarrow> cluster_partitions C;
     N \<leftarrow> new_node_partitions [0..<unat n] newNode (getSelfEntry P) P (clusterNodes C);
     Some (C\<lparr>clusterNodes := N\<rparr>) }"

definition getRingEntriesPartitionExceptSelf :: "settings \<Rightarrow> RingEntry \<Rightarrow> Partitions \<Rightarrow> RingEntry list option" where
  "getRingEntriesPartitionExceptSelf conf entry P = do {
     es \<leftarrow> getNeighborsClockwiseByNodeId (re_nodeId entry) P;
     e \<leftarrow> partitions_getByNodeId (re_nodeId entry) P;
     Some (filter (\<lambda>e. conf_nodeId conf \<noteq> re_nodeId e) (es @ [e])) }"

definition toNodesFromRingEntries :: "RingEntry list \<Rightarrow> Node list \<Rightarrow> Node list" where
  "toNodesFromRingEntries es ns =
     concat (map (\<lambda>e. case find (\<lambda>n. node_id n = re_nodeId e) ns of Some n \<Rightarrow> [n] | None \<Rightarrow> []) es)"

fun all_partitions :: "nat list \<Rightarrow> settings \<Rightarrow> Node list \<Rightarrow> RingEntry \<Rightarrow> Partitions \<Rightarrow> ClusterNodes \<Rightarrow> ClusterNodes option" where
  "all_partitions [] conf ns entry P N = Some N"
| "all_partitions (i # is) conf ns entry P N = do {
     es \<leftarrow> getRingEntriesPartitionExceptSelf conf entry P;
     N \<leftarrow> addNodesInPartition (toNodesFromRingEntries es ns) i N;
     previous \<leftarrow> getNeighborCounterClockwiseByNodeId (re_nodeId entry) P;
     (case previous of
        Some entry \<Rightarrow> all_partitions is conf ns entry P N
      | None \<Rightarrow> Some N) }"

definition updateNeighborsWithNodes :: "settings \<Rightarrow> GetClusterConfigResponse \<Rightarrow> Cluster \<Rightarrow> Cluster option" where
  "updateNeighborsWithNodes conf r C = do {
     P \<leftarrow> cluster_partitions C;
     N \<leftarrow> all_partitions [0..<unat (getNodesPerPartition P)] conf (gc_nodes r) (getSelfEntry P) P (clusterNodes C);
     Some (C\<lparr>clusterNodes := N\<rparr>) }"

section \<open>Set-up of a node\<close>

definition simple_Partitions :: "settings \<Rightarrow> Partitions" where
  "simple_Partitions conf = \<lparr>ringEntries = new_RingEntries, selfEntry = \<lparr>re_nodeId = 0, ringPosition = 0\<rparr>, nodesPerPartition = 0,
     maxSize = 0, conf_usePartitions = conf_partitions conf\<rparr>"

definition simple_setClusterConfig :: "settings \<Rightarrow> GetClusterConfigResponse \<Rightarrow> Cluster \<Rightarrow> Cluster option" where
  "simple_setClusterConfig conf config C = do {
     N \<leftarrow> addNodesInPartition (gc_nodes config) 0 (setNumberPartitions 1 (clusterNodes C));
     Some (C\<lparr>clusterNodes := N, cluster_partitions := Some (simple_Partitions conf)\<rparr>) }"

definition ring_position_of :: "(string \<Rightarrow> bytes) \<Rightarrow> memdbNodeId_t \<Rightarrow> u32 \<Rightarrow> u32 option" where
  "ring_position_of md5 nid maximum =
     (if maximum = 0 then None else Some (ucast (calculateMD5 md5 (to_string (unat nid)) mod ucast maximum)))"

definition getRingEntriesFromClusterConfig ::
  "(string \<Rightarrow> bytes) \<Rightarrow> settings \<Rightarrow> GetClusterConfigResponse \<Rightarrow> RingEntry list option" where
  "getRingEntriesFromClusterConfig md5 conf config =
     (if list_ex (\<lambda>e. conf_nodeId conf = re_nodeId e) (gc_ringEntries config) then Some (gc_ringEntries config)
      else do {
        position \<leftarrow> ring_position_of md5 (conf_nodeId conf) (gc_maxPartitionSize config);
        Some (gc_ringEntries config @ [\<lparr>re_nodeId = conf_nodeId conf, ringPosition = position\<rparr>]) })"

definition partitions_setClusterConfig ::
  "(string \<Rightarrow> bytes) \<Rightarrow> settings \<Rightarrow> GetClusterConfigResponse \<Rightarrow> Cluster \<Rightarrow> Cluster option" where
  "partitions_setClusterConfig md5 conf config C = do {
     es \<leftarrow> getRingEntriesFromClusterConfig md5 conf config;
     P \<leftarrow> new_Partitions es (gc_nodesPerPartition config) (gc_maxPartitionSize config) (conf_nodeId conf) (conf_partitions conf);
     let N = addNodes (gc_nodes config) (setNumberPartitions (gc_nodesPerPartition config) (clusterNodes C));
     updateNeighborsWithNodes conf config (C\<lparr>clusterNodes := N, cluster_partitions := Some P\<rparr>) }"

text \<open>Which of the two set-ups runs depends on whether partitions are used.\<close>

definition setClusterConfig :: "(string \<Rightarrow> bytes) \<Rightarrow> settings \<Rightarrow> GetClusterConfigResponse \<Rightarrow> Cluster \<Rightarrow> Cluster option" where
  "setClusterConfig md5 conf config C =
     (if conf_partitions conf then partitions_setClusterConfig md5 conf config C else simple_setClusterConfig conf config C)"

definition isSelfTheOnlySeedNode :: "settings \<Rightarrow> bool" where
  "isSelfTheOnlySeedNode conf \<longleftrightarrow>
     length (conf_seedNodes conf) = 1 \<and> hd (conf_seedNodes conf) = conf_address conf @ '':'' @ conf_port conf"

definition setConfigurationProvidedClusterConfig ::
  "(string \<Rightarrow> bytes) \<Rightarrow> settings \<Rightarrow> Cluster \<times> FileSystem \<Rightarrow> (io_error + Cluster \<times> FileSystem) option" where
  "setConfigurationProvidedClusterConfig md5 conf = (\<lambda>(C, fs). do {
     position \<leftarrow> ring_position_of md5 (conf_nodeId conf) (conf_maxPartitionSize conf);
     let config = \<lparr>gc_nodesPerPartition = conf_nodesPerPartition conf, gc_maxPartitionSize = conf_maxPartitionSize conf,
           gc_nodes = [], gc_ringEntries = [\<lparr>re_nodeId = conf_nodeId conf, ringPosition = position\<rparr>]\<rparr>;
     C \<leftarrow> setClusterConfig md5 conf config C;
     r \<leftarrow> persistClusterConfig conf config fs;
     Some (case r of Inl e \<Rightarrow> Inl e | Inr fs \<Rightarrow> Inr (C, fs)) })"

datatype setup_error = SetupIo io_error | NoSeedNode

definition initializeNodeInCluster ::
  "(string \<Rightarrow> bytes) \<Rightarrow> environment \<Rightarrow> network \<Rightarrow> u8 \<Rightarrow> settings \<Rightarrow> Cluster \<times> FileSystem \<Rightarrow>
   (setup_error + Cluster \<times> FileSystem) option" where
  "initializeNodeInCluster md5 env net op0 conf = (\<lambda>(C, fs). do {
     r \<leftarrow> getClusterConfig env net op0 conf fs;
     (case r of
        Inl e \<Rightarrow> Some (Inl (SetupIo e))
      | Inr (config, fs) \<Rightarrow>
          if config = None \<and> \<not> isSelfTheOnlySeedNode conf then Some (Inl NoSeedNode)
          else do {
            r \<leftarrow> (case config of
                    Some config \<Rightarrow> map_option (\<lambda>C. Inr (C, fs)) (setClusterConfig md5 conf config C)
                  | None \<Rightarrow> setConfigurationProvidedClusterConfig md5 conf (C, fs));
            (case r of
               Inl e \<Rightarrow> Some (Inl (SetupIo e))
             | Inr s \<Rightarrow> do {
                 r \<leftarrow> announceJoin net op0 conf s;
                 Some (case r of Inl e \<Rightarrow> Inl (SetupIo e) | Inr (C, fs) \<Rightarrow> Inr (setBooting C, fs)) }) }) })"

subsection \<open>The round trip\<close>

definition node_bytes :: "Node \<Rightarrow> bytes" where
  "node_bytes n = fromNumber (node_id n) @ fromNumber (word_of_nat (length (node_address n)) :: u32) @ string_bytes (node_address n)"

definition entry_bytes :: "RingEntry \<Rightarrow> bytes" where
  "entry_bytes e = fromNumber (re_nodeId e) @ fromNumber (ringPosition e)"

lemma length_string_bytes [simp]: "length (string_bytes s) = length s"
  by (simp add: string_bytes_def)

lemma append_nodes_bytes: "append_nodes ns out = Some (out @ concat (map node_bytes ns))"
proof (induction ns arbitrary: out)
  case (Cons n ns)
  have "appendBytesToBuffer (string_bytes (node_address n)) (length (node_address n)) o1 = Some (o1 @ string_bytes (node_address n))" for o1
    using appendBytesToBuffer_eq [of "string_bytes (node_address n)" o1] by simp
  then show ?case using Cons.IH by (simp add: node_bytes_def appendToBuffer_eq)
qed simp

lemma append_entries_bytes: "append_entries es out = out @ concat (map entry_bytes es)"
  by (induction es arbitrary: out) (simp_all add: entry_bytes_def appendToBuffer_eq)

lemma serialize_config_bytes:
  "serialize_config r = Some (fromNumber (gc_nodesPerPartition r) @ fromNumber (gc_maxPartitionSize r) @
     fromNumber (word_of_nat (length (gc_nodes r)) :: u32) @ concat (map node_bytes (gc_nodes r)) @
     concat (map entry_bytes (gc_ringEntries r)))"
  by (simp add: serialize_config_def append_nodes_bytes append_entries_bytes appendToBuffer_eq)

lemma serialized_size:
  "serialize_config r = Some bs \<Longrightarrow> length bs = getSerializedBytesSize r"
  by (auto simp: serialize_config_bytes getSerializedBytesSize_def length_concat node_bytes_def entry_bytes_def
    length_fromNumber sizeof_def o_def)

lemma address_roundtrip [simp]: "map (\<lambda>b. char_of (unat b)) (string_bytes s) = s"
proof (induction s)
  case (Cons c s)
  have "of_char c < (256 :: nat)" by (rule nat_of_char_less_256)
  then have "unat (word_of_nat (of_char c) :: u8) = of_char c" by (simp add: unat_of_nat)
  then show ?case using Cons by (simp add: string_bytes_def)
qed (simp add: string_bytes_def)

lemma offset_after_inside [simp]: "offset + n < 2 ^ 31 \<Longrightarrow> offset_after offset n = offset + n"
  by (simp add: offset_after_def)

lemma nodes_from_bytes:
  assumes "length pre + length (concat (map node_bytes ns)) < 2 ^ 31"
  shows "nodes_from ub (length ns) (length pre) (pre @ concat (map node_bytes ns) @ rest) =
    Some (ns, length pre + length (concat (map node_bytes ns)))"
  using assms
proof (induction ns arbitrary: pre)
  case (Cons n ns)
  let ?size = "word_of_nat (length (node_address n)) :: u32" and ?rest = "concat (map node_bytes ns) @ rest"
  let ?buf = "pre @ fromNumber (node_id n) @ fromNumber ?size @ string_bytes (node_address n) @ ?rest"
  have buf: "pre @ concat (map node_bytes (n # ns)) @ rest = ?buf" by (simp add: node_bytes_def)
  have total: "length (concat (map node_bytes (n # ns))) = 2 + 4 + length (node_address n) + length (concat (map node_bytes ns))"
    by (simp add: node_bytes_def length_fromNumber sizeof_def del: length_concat)
  have inside: "length pre + 2 + 4 + length (node_address n) < 2 ^ 31" "length pre < 2 ^ 31" using Cons.prems total by linarith+
  then have size: "unat ?size = length (node_address n)" by (simp add: unat_of_nat)
  have step: "offset_after (length pre) (2 + 4 + length (node_address n)) = length pre + 2 + 4 + length (node_address n)"
    using inside by (simp add: offset_after_def)
  have id: "parseFromBuffer ub ?buf (length pre) = Some (node_id n)"
    by (rule parseFromBuffer_fromNumber) simp_all
  have "parseFromBuffer ub ((pre @ fromNumber (node_id n)) @ fromNumber ?size @ string_bytes (node_address n) @ ?rest)
      (length pre + 2) = Some ?size"
    by (rule parseFromBuffer_fromNumber) (simp_all add: length_fromNumber sizeof_def)
  then have len: "parseFromBuffer ub ?buf (length pre + 2) = Some ?size" by simp
  have fill: "req_fill ?buf (length pre + 2 + 4) (length pre + 2 + 4 + length (node_address n)) = Some (string_bytes (node_address n))"
    using req_fill_at [of "pre @ fromNumber (node_id n) @ fromNumber ?size" "string_bytes (node_address n)" ?rest]
    by (simp add: length_fromNumber sizeof_def ac_simps)
  have rec: "nodes_from ub (length ns) (length pre + 2 + 4 + length (node_address n)) ?buf =
      Some (ns, length pre + 2 + 4 + length (node_address n) + length (concat (map node_bytes ns)))"
    using Cons.IH [of "pre @ fromNumber (node_id n) @ fromNumber ?size @ string_bytes (node_address n)"] Cons.prems total
    by (simp add: length_fromNumber sizeof_def ac_simps del: length_concat)
  show ?case
    unfolding buf total length_Cons nodes_from.simps id len size step fill rec bind.bind_lunit prod.case
    using inside(2) by (simp add: add.assoc del: length_concat)
qed simp

lemma ring_entries_from_bytes:
  assumes "length pre + length (concat (map entry_bytes es)) < 2 ^ 31"
  shows "ring_entries_from ub (length es) (length pre) (pre @ concat (map entry_bytes es)) = Some es"
  using assms
proof (induction es arbitrary: pre)
  case (Cons e es)
  let ?buf = "pre @ fromNumber (re_nodeId e) @ fromNumber (ringPosition e) @ concat (map entry_bytes es)"
  have buf: "pre @ concat (map entry_bytes (e # es)) = ?buf" by (simp add: entry_bytes_def)
  have id: "parseFromBuffer ub ?buf (length pre) = Some (re_nodeId e)"
    by (rule parseFromBuffer_fromNumber) simp_all
  have "parseFromBuffer ub ((pre @ fromNumber (re_nodeId e)) @ fromNumber (ringPosition e) @ concat (map entry_bytes es))
      (length pre + 2) = Some (ringPosition e)"
    by (rule parseFromBuffer_fromNumber) (simp_all add: length_fromNumber sizeof_def)
  then have position: "parseFromBuffer ub ?buf (length pre + 2) = Some (ringPosition e)" by simp
  have inside: "length pre < 2 ^ 31" "offset_after (length pre) (2 + 4) = length pre + 2 + 4"
    "length pre + 6 + length (concat (map entry_bytes es)) < 2 ^ 31"
    using Cons.prems by (simp_all add: entry_bytes_def [of e] length_fromNumber sizeof_def offset_after_def del: length_concat)
  have rec: "ring_entries_from ub (length es) (length pre + 2 + 4) ?buf = Some es"
    using Cons.IH [of "pre @ fromNumber (re_nodeId e) @ fromNumber (ringPosition e)"] inside(3)
    by (simp add: length_fromNumber sizeof_def ac_simps del: length_concat)
  show ?case unfolding buf length_Cons ring_entries_from.simps id position inside(2) rec bind.bind_lunit using inside(1) by simp
qed simp

text \<open>C26. The configuration of the cluster survives its exchange: a node that deserialises the bytes another node
  serialised obtains the same configuration, if there is one ring entry for every node when partitions are
  used and none otherwise, and the bytes are fewer than \<open>2 ^ 31\<close>. Their number is the size the serialiser reserves.\<close>

theorem cluster_config_roundtrip:
  assumes "getSerializedBytesSize r < 2 ^ 31"
    and "if usingPartitions then length (gc_ringEntries r) = length (gc_nodes r) else gc_ringEntries r = []"
  shows "\<exists>bs. serialize_config r = Some bs \<and> deserialize_config ub usingPartitions bs = Some r \<and> length bs = getSerializedBytesSize r"
proof -
  let ?n = "word_of_nat (length (gc_nodes r)) :: u32"
  let ?body = "concat (map node_bytes (gc_nodes r)) @ concat (map entry_bytes (gc_ringEntries r))"
  let ?h = "fromNumber (gc_nodesPerPartition r) @ fromNumber (gc_maxPartitionSize r) @ fromNumber ?n"
  let ?bs = "?h @ ?body"
  have bs: "serialize_config r = Some ?bs" by (simp add: serialize_config_bytes)
  have h: "length ?h = 12" by (simp add: length_fromNumber sizeof_def)
  have size: "12 + length (concat (map node_bytes (gc_nodes r))) + length (concat (map entry_bytes (gc_ringEntries r))) < 2 ^ 31"
    using assms(1) serialized_size [OF bs] h by (simp del: length_concat)
  have "length ns \<le> length (concat (map node_bytes ns))" for ns
    by (induction ns) (simp_all add: node_bytes_def length_fromNumber sizeof_def)
  from this [of "gc_nodes r"] have few: "length (gc_nodes r) < 2 ^ 31" using size by linarith
  then have un: "unat ?n = length (gc_nodes r)" by (simp add: unat_of_nat)
  then have "uint ?n = int (length (gc_nodes r))" by (simp only: uint_nat)
  moreover have "int (length (gc_nodes r)) < 2 ^ 31" using few by simp
  ultimately have n: "nat (sint ?n) = length (gc_nodes r)"
    by (simp add: sint_uint signed_take_bit_int_eq_self)
  have p1: "parseFromBuffer ub ?bs 0 = Some (gc_nodesPerPartition r)"
    using parseFromBuffer_fromNumber [where pre = "[]" and w = "gc_nodesPerPartition r"] by simp
  have p2: "parseFromBuffer ub ?bs 4 = Some (gc_maxPartitionSize r)"
    using parseFromBuffer_fromNumber [where pre = "fromNumber (gc_nodesPerPartition r)" and w = "gc_maxPartitionSize r"]
    by (simp add: length_fromNumber sizeof_def)
  have p3: "parseFromBuffer ub ?bs 8 = Some ?n"
    using parseFromBuffer_fromNumber [where pre = "fromNumber (gc_nodesPerPartition r) @ fromNumber (gc_maxPartitionSize r)" and w = ?n]
    by (simp add: length_fromNumber sizeof_def)
  have ns: "nodes_from ub (length (gc_nodes r)) 12 ?bs = Some (gc_nodes r, 12 + length (concat (map node_bytes (gc_nodes r))))"
    using nodes_from_bytes [of ?h "gc_nodes r" ub] h size by (simp del: length_concat)
  have es: "ring_entries_from ub (length (gc_nodes r)) (12 + length (concat (map node_bytes (gc_nodes r)))) ?bs = Some (gc_ringEntries r)"
    if usingPartitions
    using ring_entries_from_bytes [of "?h @ concat (map node_bytes (gc_nodes r))" "gc_ringEntries r" ub] assms(2) that h size
    by (simp del: length_concat)
  have "deserialize_config ub usingPartitions ?bs = Some r"
    unfolding deserialize_config_def p1 p2 p3 bind.bind_lunit n un ns using es assms(2) by (cases usingPartitions) simp_all
  then show ?thesis using bs serialized_size [OF bs] by blast
qed

definition sample_config :: GetClusterConfigResponse where
  "sample_config = \<lparr>gc_nodesPerPartition = 2, gc_maxPartitionSize = 64, gc_nodes = [\<lparr>node_id = 1, node_address = ''a:1''\<rparr>],
     gc_ringEntries = [\<lparr>re_nodeId = 1, ringPosition = 9\<rparr>]\<rparr>"

theorem cluster_config_roundtrip_witness:
  "\<exists>bs. serialize_config sample_config = Some bs \<and> deserialize_config (\<lambda>w k. 0) True bs = Some sample_config \<and>
     length bs = getSerializedBytesSize sample_config"
  by (rule cluster_config_roundtrip) (simp_all add: sample_config_def getSerializedBytesSize_def)

text \<open>The first seed persists a configuration with a ring entry for itself and no node. Its entry is written and never
  read back: the number of entries that are read is the number of nodes.\<close>

lemma first_seed_config_loses_entry:
  assumes "serialize_config \<lparr>gc_nodesPerPartition = p, gc_maxPartitionSize = m, gc_nodes = [], gc_ringEntries = [e]\<rparr> = Some bs"
  shows "deserialize_config ub usingPartitions bs =
    Some \<lparr>gc_nodesPerPartition = p, gc_maxPartitionSize = m, gc_nodes = [], gc_ringEntries = []\<rparr>"
proof -
  have bs: "bs = fromNumber p @ fromNumber m @ fromNumber (0 :: u32) @ entry_bytes e"
    using assms by (simp add: serialize_config_bytes)
  have "parseFromBuffer ub bs 0 = Some p"
    using parseFromBuffer_fromNumber [where pre = "[]" and w = p] by (simp add: bs)
  moreover have "parseFromBuffer ub bs 4 = Some m"
    using parseFromBuffer_fromNumber [where pre = "fromNumber p" and w = m] by (simp add: bs length_fromNumber sizeof_def)
  moreover have "parseFromBuffer ub bs 8 = Some (0 :: u32)"
    using parseFromBuffer_fromNumber [where pre = "fromNumber p @ fromNumber m" and w = "0 :: u32"]
    by (simp add: bs length_fromNumber sizeof_def)
  ultimately show ?thesis by (simp add: deserialize_config_def)
qed

end
