(* ===== verification/Operators.thy ===== *)
theory Operators
  imports Cluster Db_Map
begin

text \<open>
  The operators of the database for data and counters (\<^verbatim>\<open>operators/operations/user\<close> and the replication
  of counters), with the state of a node they work on, their descriptors and the options of an execution. The
  parameters outside the repository are the fields of \<open>world\<close>. An operation is \<^term>\<open>None\<close> when it throws,
  is undefined or does not return. Values that are computed only to be logged are left out.
\<close>

section \<open>The state of a node\<close>

record world =
  w_md5 :: "string \<Rightarrow> bytes"
  w_ub :: double_ub
  w_env :: environment
  w_net :: network
  w_rands :: "nat \<Rightarrow> nat"
  w_op0 :: u8
  w_garbage :: u32
  w_unset :: "Node \<Rightarrow> Response"

datatype AcceptatorPaxosState = ACCEPTATOR_PROMISED

datatype ProposerPaxosState = WAITING_FOR_PROMISE | WAITING_FOR_ACCEPT | COMITTED | FAILED

record AcceptatorPaxosRound =
  apr_state :: AcceptatorPaxosState
  promisedNextTimestamp :: LamportClock

record OnGoingPaxosRounds =
  paxosRoundsProposerByKeyHash :: "u32 \<rightharpoonup> ProposerPaxosState"
  paxosRoundsAcceptatorByKeyHash :: "u32 \<rightharpoonup> AcceptatorPaxosRound"

text \<open>A null \<open>iterator\<close> is the result of a cast that failed.\<close>

record OnGoingSyncOplog =
  sync_iterator :: "OplogIterator option"
  totalNFragments :: u64
  nFragmentsSent :: u64

record OnGoingSyncOplogsStore =
  onGoingSyncOplogsById :: "u64 \<rightharpoonup> OnGoingSyncOplog"
  nextSyncOplogIdCounter :: u32
  sync_selfNodeId :: memdbNodeId_t

text \<open>\<open>node_sent\<close> records the operations a node broadcast, in order; the code has no such state.\<close>

record node =
  node_conf :: settings
  node_cluster :: Cluster
  node_stores :: MemDbStores
  node_clock :: LamportClock
  node_logs :: MultipleOperationLog
  node_fs :: FileSystem
  node_paxos :: OnGoingPaxosRounds
  node_syncs :: OnGoingSyncOplogsStore
  node_delayed :: BackedDiskRequestBuffer
  node_sent :: "OperationBody list"

section \<open>Options and descriptors\<close>

record OperationOptions =
  oo_checkTimestamps :: bool
  oo_onlyExecute :: bool
  oo_dontBroadcastToCluster :: bool
  oo_dontSaveInOperationLog :: bool
  oo_updateClockStrategy :: UpdateClockStrategy
  oo_partitionId :: u32
  oo_requestNumber :: u64

definition fromClient :: "OperationOptions \<Rightarrow> bool" where
  "fromClient options \<longleftrightarrow> \<not> oo_checkTimestamps options"

datatype OperatorType = DB_STORE_READ | DB_STORE_WRITE | NODE_MAINTENANCE | DB_STORE_CONDITIONAL_WRITE

datatype OperatorProperty = BROADCAST | PERSISTENCE

datatype AuthenticationType = USER | NODE

record OperatorDescriptor =
  od_type :: OperatorType
  od_number :: u8
  od_name :: string
  od_authorizedToExecute :: "AuthenticationType list"
  od_properties :: "OperatorProperty list"

section \<open>Reading and writing the stores of a node\<close>

definition node_store :: "u32 \<Rightarrow> node \<Rightarrow> MemMap option" where
  "node_store p n = getByPartitionId p (node_stores n)"

definition set_store :: "u32 \<Rightarrow> MemMap \<Rightarrow> node \<Rightarrow> node" where
  "set_store p M n = n\<lparr>node_stores := (node_stores n)(p \<mapsto> M)\<rparr>"

definition entry_payload :: "double_ub \<Rightarrow> SimpleString \<Rightarrow> MemMap \<Rightarrow> MapEntry \<Rightarrow> payload option" where
  "entry_payload ub k M e = do {
     bucket \<leftarrow> getBucket M (calculateHash ub k);
     datas bucket (entry_data e) }"

definition set_entry_payload :: "double_ub \<Rightarrow> SimpleString \<Rightarrow> MapEntry \<Rightarrow> payload \<Rightarrow> MemMap \<Rightarrow> MemMap option" where
  "set_entry_payload ub k e p M = do {
     bucket \<leftarrow> getBucket M (calculateHash ub k);
     Some (setBucket (calculateHash ub k) (store_data (entry_data e) p bucket) M) }"

definition toData :: "double_ub \<Rightarrow> SimpleString \<Rightarrow> MemMap \<Rightarrow> MapEntry \<Rightarrow> DataAVLNode option" where
  "toData ub k M e = Option.bind (entry_payload ub k M e) as_data"

definition toCounter :: "double_ub \<Rightarrow> SimpleString \<Rightarrow> MemMap \<Rightarrow> MapEntry \<Rightarrow> Counter option" where
  "toCounter ub k M e = Option.bind (entry_payload ub k M e) as_counter"

text \<open>Without partitions the log of a node is a \<^verbatim>\<open>SingleOperationLog\<close>, which ignores the identifier.\<close>

definition node_log_add :: "u32 \<Rightarrow> OperationBody \<Rightarrow> node \<Rightarrow> node option" where
  "node_log_add p op n = do {
     logs \<leftarrow> logs_add (if conf_partitions (node_conf n) then p else 0) op (node_logs n);
     Some (n\<lparr>node_logs := logs\<rparr>) }"

definition new_ResponseBuilder :: ResponseBuilder where
  "new_ResponseBuilder = \<lparr>rb_timestamp = LamportClock 0 0, rb_errorCode = 0, rb_isSuccessful = False, rb_requestNumber = 0,
     rb_responseValue = []\<rparr>"

section \<open>GetOperator\<close>

definition get_getTimestampCounter :: "double_ub \<Rightarrow> SimpleString \<Rightarrow> MemMap \<Rightarrow> MapEntry option \<Rightarrow> LamportClock option" where
  "get_getTimestampCounter ub k M entry =
     (case entry of
        None \<Rightarrow> Some (LamportClock 0 0)
      | Some e \<Rightarrow>
          if entry_type e = COUNTER then map_option (\<lambda>c. LamportClock 0 (word_of_int (count c))) (toCounter ub k M e)
          else map_option data_timestamp (toData ub k M e))"

definition get_getValue :: "double_ub \<Rightarrow> SimpleString \<Rightarrow> MemMap \<Rightarrow> MapEntry option \<Rightarrow> SimpleString option" where
  "get_getValue ub k M entry =
     (case entry of
        None \<Rightarrow> Some []
      | Some e \<Rightarrow>
          if entry_type e = COUNTER then map_option (\<lambda>c. fromNumber (word_of_int (count c) :: u64)) (toCounter ub k M e)
          else map_option data_value (toData ub k M e))"

definition GetOperator_operate :: "world \<Rightarrow> OperationBody \<Rightarrow> OperationOptions \<Rightarrow> node \<Rightarrow> (Response \<times> node) option" where
  "GetOperator_operate W op options n = do {
     M \<leftarrow> node_store (oo_partitionId options) n;
     k \<leftarrow> getArg op 0;
     (result, M) \<leftarrow> map_get (w_ub W) k M;
     ts \<leftarrow> get_getTimestampCounter (w_ub W) k M result;
     v \<leftarrow> get_getValue (w_ub W) k M result;
     Some (resb_build (resb_value v (resb_timestamp ts (resb_isSuccessful (result \<noteq> None) UNKNOWN_KEY new_ResponseBuilder))),
       set_store (oo_partitionId options) M n) }"

definition GetOperator_desc :: OperatorDescriptor where
  "GetOperator_desc = \<lparr>od_type = DB_STORE_READ, od_number = OP_GET, od_name = ''GET'',
     od_authorizedToExecute = [USER], od_properties = []\<rparr>"

section \<open>SetOperator\<close>

definition write_getTimestamp :: "OperationBody \<Rightarrow> OperationOptions \<Rightarrow> node \<Rightarrow> LamportClock" where
  "write_getTimestamp op options n =
     (if fromClient options then LamportClock (conf_nodeId (node_conf n)) (timestamp op)
      else LamportClock (op_nodeId op) (timestamp op))"

definition edit_response :: "u64 option \<Rightarrow> u8 \<Rightarrow> Response" where
  "edit_response r code =
     resb_build (resb_timestampCounter (case r of Some ts \<Rightarrow> ts | None \<Rightarrow> 0)
       (resb_isSuccessful (r \<noteq> None) code new_ResponseBuilder))"

definition SetOperator_operate :: "world \<Rightarrow> OperationBody \<Rightarrow> OperationOptions \<Rightarrow> node \<Rightarrow> (Response \<times> node) option" where
  "SetOperator_operate W op options n = do {
     M \<leftarrow> node_store (oo_partitionId options) n;
     k \<leftarrow> getArg op 0;
     v \<leftarrow> getArg op 1;
     let requestTimestamp = write_getTimestamp op options n;
     (resultSet, M, clk) \<leftarrow> putData (w_ub W) k v requestTimestamp (oo_updateClockStrategy options) (oo_checkTimestamps options)
        M (Some (node_clock n));
     clk \<leftarrow> clk;
     Some (edit_response resultSet ALREADY_REPLICATED, (set_store (oo_partitionId options) M n)\<lparr>node_clock := clk\<rparr>) }"

definition SetOperator_desc :: OperatorDescriptor where
  "SetOperator_desc = \<lparr>od_type = DB_STORE_WRITE, od_number = OP_SET, od_name = ''SET'',
     od_authorizedToExecute = [USER, NODE], od_properties = [BROADCAST, PERSISTENCE]\<rparr>"

section \<open>DeleteOperator\<close>

definition DeleteOperator_operate :: "world \<Rightarrow> OperationBody \<Rightarrow> OperationOptions \<Rightarrow> node \<Rightarrow> (Response \<times> node) option" where
  "DeleteOperator_operate W op options n = do {
     M \<leftarrow> node_store (oo_partitionId options) n;
     k \<leftarrow> getArg op 0;
     let requestTimestamp = write_getTimestamp op options n;
     (resultRemove, M, clk) \<leftarrow> map_remove (w_ub W) k requestTimestamp (oo_updateClockStrategy options) (oo_checkTimestamps options)
        M (Some (node_clock n));
     clk \<leftarrow> clk;
     Some (edit_response resultRemove UNKNOWN_KEY, (set_store (oo_partitionId options) M n)\<lparr>node_clock := clk\<rparr>) }"

definition DeleteOperator_desc :: OperatorDescriptor where
  "DeleteOperator_desc = \<lparr>od_type = DB_STORE_WRITE, od_number = OP_DEL, od_name = ''DELETE'',
     od_authorizedToExecute = [USER, NODE], od_properties = [BROADCAST, PERSISTENCE]\<rparr>"

section \<open>ContainsOperator\<close>

definition ContainsOperator_operate :: "world \<Rightarrow> OperationBody \<Rightarrow> OperationOptions \<Rightarrow> node \<Rightarrow> (Response \<times> node) option" where
  "ContainsOperator_operate W op options n = do {
     k \<leftarrow> getArg op 0;
     partitionId \<leftarrow> getPartitionIdByKey (w_md5 W) (node_conf n) k (node_cluster n);
     M \<leftarrow> node_store partitionId n;
     contained \<leftarrow> map_contains (w_ub W) k M;
     Some (resb_build (resb_isSuccessful contained UNKNOWN_KEY new_ResponseBuilder), n) }"

definition ContainsOperator_desc :: OperatorDescriptor where
  "ContainsOperator_desc = \<lparr>od_type = DB_STORE_READ, od_number = OP_CONTAINS, od_name = ''CONTAINS'',
     od_authorizedToExecute = [USER], od_properties = []\<rparr>"

section \<open>UpdateCounterOperator\<close>

text \<open>The request for one node; the counter is the copy the task of the thread pool owns.\<close>

definition replicate_counter_body :: "world \<Rightarrow> node \<Rightarrow> OperationBody \<Rightarrow> SimpleString \<Rightarrow> int \<Rightarrow> Counter \<Rightarrow> memdbNodeId_t \<Rightarrow> OperationBody option" where
  "replicate_counter_body W n op k newUpdatedValue c nid = do {
     ((lastSeenIncrement, lastSeenDecrement), c) \<leftarrow> getLastSeen nid c;
     Some (buildOperationBody (rb_addDoubleArg (word_of_int lastSeenDecrement) (rb_addDoubleArg (word_of_int lastSeenIncrement)
       (rb_addDoubleArg (word_of_int newUpdatedValue) (rb_addArg k (rb_operatorFlag1 (op_flag1 op)
         (rb_operatorNumber OP_REPLICATE_COUNTER (rb_authKey (string_bytes (conf_authNodeKey (node_conf n)))
           (rb_builder (w_op0 W)))))))))) }"

text \<open>Only the copy of the counter sees the answers, so that the task changes nothing but the hints.\<close>

definition counter_replicate :: "world \<Rightarrow> Counter \<Rightarrow> int \<Rightarrow> OperationBody \<Rightarrow> node \<Rightarrow> node option" where
  "counter_replicate W c newUpdatedValue op n = do {
     k \<leftarrow> getArg op 0;
     partitionId \<leftarrow> getPartitionIdByKey (w_md5 W) (node_conf n) k (node_cluster n);
     r \<leftarrow> broadcastForEachAndWait (w_net W) (node_conf n)
        \<lparr>sro_partitionId = unat partitionId, sro_canBeStoredInHint = True\<rparr>
        (replicate_counter_body W n op k newUpdatedValue c) (w_unset W) (clusterNodes (node_cluster n))
        (hintsService (node_cluster n), node_fs n);
     (case r of
        Inl e \<Rightarrow> None
      | Inr (M, H, fs) \<Rightarrow> Some (n\<lparr>node_cluster := (node_cluster n)\<lparr>hintsService := H\<rparr>, node_fs := fs\<rparr>)) }"

definition onReplicationCounterResponse :: "Response \<Rightarrow> Counter \<Rightarrow> Counter option" where
  "onReplicationCounterResponse response c = do {
     i \<leftarrow> getResponseValueAtOffset response 0 8;
     nInc \<leftarrow> (ss_to i :: u64 option);
     d \<leftarrow> getResponseValueAtOffset response 8 8;
     nDec \<leftarrow> (ss_to d :: u64 option);
     o' \<leftarrow> getResponseValueAtOffset response 16 2;
     other \<leftarrow> (ss_to o' :: memdbNodeId_t option);
     c \<leftarrow> (if 0 < sint nInc then syncIncrement (sint nInc) other c else Some c);
     if 0 < sint nDec then syncDecrement (sint nDec) other c else Some c }"

definition UpdateCounterOperator_operate :: "world \<Rightarrow> OperationBody \<Rightarrow> OperationOptions \<Rightarrow> node \<Rightarrow> (Response \<times> node) option" where
  "UpdateCounterOperator_operate W op options n = do {
     M \<leftarrow> node_store (oo_partitionId options) n;
     nNodesInCluster \<leftarrow> getNTotalNodesInPartition (node_conf n) (node_cluster n);
     k \<leftarrow> getArg op 0;
     (updated, M) \<leftarrow> updateCounter (w_ub W) k (conf_nodeId (node_conf n)) nNodesInCluster (op_flag1 op) M;
     (case updated of
        None \<Rightarrow> Some (error INVALID_TYPE, set_store (oo_partitionId options) M n)
      | Some v \<Rightarrow> do {
          (found, M) \<leftarrow> map_get (w_ub W) k M;
          let n = set_store (oo_partitionId options) M n;
          n \<leftarrow> (if \<not> oo_dontBroadcastToCluster options
                 then do {
                   e \<leftarrow> found;
                   c \<leftarrow> toCounter (w_ub W) k M e;
                   counter_replicate W c v op n }
                 else Some n);
          Some (success (LamportClock 0 0), n) }) }"

definition UpdateCounterOperator_desc :: OperatorDescriptor where
  "UpdateCounterOperator_desc = \<lparr>od_type = NODE_MAINTENANCE, od_number = OP_UPDATE_COUNTER, od_name = ''UPDATE_COUNTER'',
     od_authorizedToExecute = [USER], od_properties = [PERSISTENCE]\<rparr>"

section \<open>ReplicateCounterOperator\<close>

text \<open>The last decrement that was seen is read from argument 4, where the sender puts the low half of the last
  increment.\<close>

definition counter_entry :: "world \<Rightarrow> SimpleString \<Rightarrow> MemMap \<Rightarrow> node \<Rightarrow> (MapEntry option \<times> MemMap) option" where
  "counter_entry W k M n = do {
     (result, M) \<leftarrow> map_get (w_ub W) k M;
     (case result of
        Some e \<Rightarrow> Some (if entry_type e \<noteq> COUNTER then None else Some e, M)
      | None \<Rightarrow> do {
          nTotal \<leftarrow> getNTotalNodesInPartition (node_conf n) (node_cluster n);
          (added, M) \<leftarrow> putCounter (w_ub W) k (conf_nodeId (node_conf n)) nTotal M;
          (result, M) \<leftarrow> map_get (w_ub W) k M;
          e \<leftarrow> result;
          Some (Some e, M) }) }"

definition sync_values :: "ReplicateCounterResponse \<Rightarrow> bytes" where
  "sync_values r =
     appendToBuffer (word_of_int (if needsDecrementSync r then nDecrementToSync r else 0) :: u64)
       (appendToBuffer (word_of_int (if needsIncrementSync r then nIncrementToSync r else 0) :: u64) [])"

definition ReplicateCounterOperator_operate :: "world \<Rightarrow> OperationBody \<Rightarrow> OperationOptions \<Rightarrow> node \<Rightarrow> (Response \<times> node) option" where
  "ReplicateCounterOperator_operate W op options n = do {
     M \<leftarrow> node_store (oo_partitionId options) n;
     k \<leftarrow> getArg op 0;
     new \<leftarrow> getDoubleArgU64 op 1;
     seenIncrement \<leftarrow> getDoubleArgU64 op 3;
     seenDecrement \<leftarrow> getDoubleArgU64 op 4;
     (stored, M) \<leftarrow> counter_entry W k M n;
     (case stored of
        None \<Rightarrow> Some (error INVALID_TYPE, set_store (oo_partitionId options) M n)
      | Some e \<Rightarrow> do {
          c \<leftarrow> toCounter (w_ub W) k M e;
          (response, c) \<leftarrow> onReplicationCounter
             \<lparr>otherNodeId = op_nodeId op, isIncrement = op_flag1 op, newValue = sint new,
              lastSeenSelfIncrement = sint seenIncrement, lastSeenSelfDecrement = sint seenDecrement\<rparr> c;
          M \<leftarrow> set_entry_payload (w_ub W) k e (CounterP c) M;
          Some (resb_build (resb_values [sync_values response, fromNumber (conf_nodeId (node_conf n))]
                  (resb_success new_ResponseBuilder)),
            set_store (oo_partitionId options) M n) }) }"

definition ReplicateCounterOperator_desc :: OperatorDescriptor where
  "ReplicateCounterOperator_desc = \<lparr>od_type = DB_STORE_WRITE, od_number = OP_REPLICATE_COUNTER, od_name = ''REPLICATE_COUNTER'',
     od_authorizedToExecute = [NODE], od_properties = []\<rparr>"

end
