(* ===== verification/Cas.thy ===== *)
theory Cas
  imports Operators
begin

text \<open>
  Compare-and-set by consensus (\<^verbatim>\<open>operators/operations/cas\<close>): the rounds a node keeps, the acceptor's
  answers to PREPARE and ACCEPT, and the proposer, split into the phases between which it waits for other
  nodes. The acceptor never accepts two values for one version of a key; two proposers on different nodes can
  both succeed for the same version.
\<close>

section \<open>OnGoingPaxosRounds\<close>

definition getProposerByKeyHash :: "u32 \<Rightarrow> ProposerPaxosState \<Rightarrow> OnGoingPaxosRounds \<Rightarrow> ProposerPaxosState \<times> OnGoingPaxosRounds" where
  "getProposerByKeyHash h newStateIfNotFound R =
     (case paxosRoundsProposerByKeyHash R h of
        None \<Rightarrow> (newStateIfNotFound,
          R\<lparr>paxosRoundsProposerByKeyHash := (paxosRoundsProposerByKeyHash R)(h \<mapsto> newStateIfNotFound)\<rparr>)
      | Some s \<Rightarrow> (s, R))"

definition set_proposer_state :: "u32 \<Rightarrow> ProposerPaxosState \<Rightarrow> OnGoingPaxosRounds \<Rightarrow> OnGoingPaxosRounds" where
  "set_proposer_state h s R = R\<lparr>paxosRoundsProposerByKeyHash := (paxosRoundsProposerByKeyHash R)(h \<mapsto> s)\<rparr>"

definition updatePromisedTimestamp :: "u32 \<Rightarrow> LamportClock \<Rightarrow> OnGoingPaxosRounds \<Rightarrow> OnGoingPaxosRounds option" where
  "updatePromisedTimestamp h promised R = do {
     r \<leftarrow> paxosRoundsAcceptatorByKeyHash R h;
     Some (R\<lparr>paxosRoundsAcceptatorByKeyHash := (paxosRoundsAcceptatorByKeyHash R)(h \<mapsto> r\<lparr>promisedNextTimestamp := promised\<rparr>)\<rparr>) }"

definition updateAcceptedTimestamp :: "u32 \<Rightarrow> LamportClock \<Rightarrow> OnGoingPaxosRounds \<Rightarrow> OnGoingPaxosRounds option" where
  "updateAcceptedTimestamp h promised R = do {
     r \<leftarrow> paxosRoundsAcceptatorByKeyHash R h;
     Some (R\<lparr>paxosRoundsAcceptatorByKeyHash := (paxosRoundsAcceptatorByKeyHash R)(h \<mapsto> r\<lparr>promisedNextTimestamp := promised\<rparr>)\<rparr>) }"

definition registerNewAcceptatorPromise :: "u32 \<Rightarrow> LamportClock \<Rightarrow> OnGoingPaxosRounds \<Rightarrow> OnGoingPaxosRounds" where
  "registerNewAcceptatorPromise h next_ts R =
     R\<lparr>paxosRoundsAcceptatorByKeyHash := (paxosRoundsAcceptatorByKeyHash R)
        (h \<mapsto> \<lparr>apr_state = ACCEPTATOR_PROMISED, promisedNextTimestamp = next_ts\<rparr>)\<rparr>"

definition getAcceptatorByKeyHash :: "u32 \<Rightarrow> OnGoingPaxosRounds \<Rightarrow> AcceptatorPaxosRound option" where
  "getAcceptatorByKeyHash h R = paxosRoundsAcceptatorByKeyHash R h"

definition set_paxos :: "OnGoingPaxosRounds \<Rightarrow> node \<Rightarrow> node" where
  "set_paxos R n = n\<lparr>node_paxos := R\<rparr>"

section \<open>PrepareCasOperator\<close>

definition clock_arg :: "OperationBody \<Rightarrow> nat \<Rightarrow> LamportClock option" where
  "clock_arg op i = do {
     a \<leftarrow> getArg op i;
     nid \<leftarrow> ss_to a;
     cnt \<leftarrow> getDoubleArgU64 op (i + 1);
     Some (LamportClock nid cnt) }"

definition prepare_getArgs :: "OperationBody \<Rightarrow> (SimpleString \<times> LamportClock \<times> LamportClock) option" where
  "prepare_getArgs op = do {
     k \<leftarrow> getArg op 0;
     prev \<leftarrow> clock_arg op 1;
     next_ts \<leftarrow> clock_arg op 4;
     Some (k, prev, next_ts) }"

definition promised_higher :: "AcceptatorPaxosRound option \<Rightarrow> LamportClock \<Rightarrow> bool" where
  "promised_higher round next_ts =
     (case round of Some r \<Rightarrow> clock_gt (promisedNextTimestamp r) next_ts | None \<Rightarrow> False)"

text \<open>The type of the entry is read before the test that there is one: without an entry this is undefined.\<close>

definition PrepareCasOperator_operate :: "world \<Rightarrow> OperationBody \<Rightarrow> OperationOptions \<Rightarrow> node \<Rightarrow> (Response \<times> node) option" where
  "PrepareCasOperator_operate W op options n = do {
     M \<leftarrow> node_store (oo_partitionId options) n;
     (k, prev, next_ts) \<leftarrow> prepare_getArgs op;
     let h = calculateHash (w_ub W) k;
     (keyInDb, M) \<leftarrow> map_get (w_ub W) k M;
     let n = set_store (oo_partitionId options) M n;
     let round = getAcceptatorByKeyHash h (node_paxos n);
     e \<leftarrow> keyInDb;
     if entry_type e \<noteq> DATA then Some (error INVALID_TYPE, n)
     else do {
       d \<leftarrow> toData (w_ub W) k M e;
       if clock_gt (data_timestamp d) prev \<or> promised_higher round next_ts then Some (error CAS_FAILED, n)
       else do {
         R \<leftarrow> (case round of
                 None \<Rightarrow> Some (registerNewAcceptatorPromise h next_ts (node_paxos n))
               | Some r \<Rightarrow>
                   if clock_gt next_ts (promisedNextTimestamp r) then updatePromisedTimestamp h next_ts (node_paxos n)
                   else Some (node_paxos n));
         Some (success (LamportClock 0 0), set_paxos R n) } } }"

definition PrepareCasOperator_desc :: OperatorDescriptor where
  "PrepareCasOperator_desc = \<lparr>od_type = NODE_MAINTENANCE, od_number = OP_CAS_PREPARE, od_name = ''CAS_PREPARE'',
     od_authorizedToExecute = [NODE], od_properties = []\<rparr>"

section \<open>AcceptCasOperator\<close>

definition accept_getArgs :: "OperationBody \<Rightarrow> (SimpleString \<times> SimpleString \<times> LamportClock \<times> LamportClock) option" where
  "accept_getArgs op = do {
     k \<leftarrow> getArg op 0;
     v \<leftarrow> getArg op 1;
     prev \<leftarrow> clock_arg op 2;
     next_ts \<leftarrow> clock_arg op 5;
     Some (k, v, prev, next_ts) }"

definition set_operation :: "world \<Rightarrow> SimpleString \<Rightarrow> SimpleString \<Rightarrow> LamportClock \<Rightarrow> OperationBody" where
  "set_operation W k v ts = buildOperationBody (rb_selfNode (nodeId ts) (rb_set_timestamp (counter ts) (rb_args [k, v]
     (rb_operatorNumber OP_SET (rb_builder (w_op0 W))))))"

definition AcceptCasOperator_operate :: "world \<Rightarrow> OperationBody \<Rightarrow> OperationOptions \<Rightarrow> node \<Rightarrow> (Response \<times> node) option" where
  "AcceptCasOperator_operate W op options n = do {
     M \<leftarrow> node_store (oo_partitionId options) n;
     (k, v, prev, next_ts) \<leftarrow> accept_getArgs op;
     let h = calculateHash (w_ub W) k;
     (keyInDb, M) \<leftarrow> map_get (w_ub W) k M;
     let round = getAcceptatorByKeyHash h (node_paxos n);
     e \<leftarrow> keyInDb;
     if entry_type e \<noteq> DATA then Some (error INVALID_TYPE, set_store (oo_partitionId options) M n)
     else do {
       d \<leftarrow> toData (w_ub W) k M e;
       if clock_gt (data_timestamp d) prev \<or> promised_higher round next_ts
       then Some (error CAS_FAILED, set_store (oo_partitionId options) M n)
       else do {
         (result, M, clk) \<leftarrow> putData (w_ub W) k v next_ts SET_MAX True M (Some (node_clock n));
         clk \<leftarrow> clk;
         let n = (set_store (oo_partitionId options) M n)\<lparr>node_clock := clk\<rparr>;
         if result \<noteq> None then do {
           R \<leftarrow> updateAcceptedTimestamp h next_ts (node_paxos n);
           n \<leftarrow> node_log_add (oo_partitionId options) (set_operation W k v next_ts) (set_paxos R n);
           Some (success (LamportClock 0 0), n) }
         else Some (error CAS_FAILED, n) } } }"

definition AcceptCasOperator_desc :: OperatorDescriptor where
  "AcceptCasOperator_desc = \<lparr>od_type = NODE_MAINTENANCE, od_number = OP_CAS_ACCEPT, od_name = ''CAS_ACCEPT'',
     od_authorizedToExecute = [NODE], od_properties = []\<rparr>"

section \<open>CasOperator\<close>

definition cas_getArgs :: "OperationBody \<Rightarrow> (SimpleString \<times> SimpleString \<times> SimpleString) option" where
  "cas_getArgs op = do {
     k \<leftarrow> getArg op 0;
     expected \<leftarrow> getArg op 1;
     new \<leftarrow> getArg op 2;
     Some (k, expected, new) }"

definition add_clock :: "memdbNodeId_t \<Rightarrow> u64 \<Rightarrow> RequestBuilder \<Rightarrow> RequestBuilder" where
  "add_clock nid cnt b = rb_addDoubleArg cnt (rb_addArg (fromNumber nid) b)"

definition prepare_body :: "world \<Rightarrow> memdbNodeId_t \<Rightarrow> SimpleString \<Rightarrow> LamportClock \<Rightarrow> LamportClock \<Rightarrow> OperationBody" where
  "prepare_body W self k prev next_ts = buildOperationBody (add_clock self (counter next_ts) (add_clock (nodeId prev) (counter prev)
     (rb_addArg k (rb_selfNode self (rb_operatorNumber OP_CAS_PREPARE (rb_builder (w_op0 W)))))))"

definition accept_body ::
  "world \<Rightarrow> memdbNodeId_t \<Rightarrow> SimpleString \<Rightarrow> SimpleString \<Rightarrow> LamportClock \<Rightarrow> LamportClock \<Rightarrow> OperationBody" where
  "accept_body W self k v prev next_ts = buildOperationBody (add_clock self (counter next_ts) (add_clock (nodeId prev) (counter prev)
     (rb_addArg v (rb_addArg k (rb_selfNode self (rb_operatorNumber OP_CAS_ACCEPT (rb_builder (w_op0 W))))))))"

definition cas_send ::
  "world \<Rightarrow> u32 \<Rightarrow> SimpleString \<Rightarrow> ProposerPaxosState \<Rightarrow> OperationBody \<Rightarrow> node \<Rightarrow> (MultipleResponses \<times> node) option" where
  "cas_send W p k waiting body n = do {
     let n = set_paxos (set_proposer_state (calculateHash (w_ub W) k) waiting (node_paxos n)) n;
     r \<leftarrow> broadcastAndWait (w_net W) (node_conf n) body \<lparr>sro_partitionId = unat p, sro_canBeStoredInHint = False\<rparr>
        (node_cluster n, node_fs n);
     (case r of
        Inl e \<Rightarrow> None
      | Inr (M, C, fs) \<Rightarrow> Some (M, n\<lparr>node_cluster := C, node_fs := fs, node_sent := node_sent n @ [body]\<rparr>)) }"

definition sendPrepare :: "world \<Rightarrow> u32 \<Rightarrow> SimpleString \<Rightarrow> LamportClock \<Rightarrow> LamportClock \<Rightarrow> node \<Rightarrow> (MultipleResponses \<times> node) option" where
  "sendPrepare W p k prev next_ts n =
     cas_send W p k WAITING_FOR_PROMISE (prepare_body W (conf_nodeId (node_conf n)) k prev next_ts) n"

definition sendAccept ::
  "world \<Rightarrow> u32 \<Rightarrow> SimpleString \<Rightarrow> SimpleString \<Rightarrow> LamportClock \<Rightarrow> LamportClock \<Rightarrow> node \<Rightarrow> (MultipleResponses \<times> node) option" where
  "sendAccept W p k v prev next_ts n =
     cas_send W p k WAITING_FOR_ACCEPT (accept_body W (conf_nodeId (node_conf n)) k v prev next_ts) n"

definition fail_round :: "world \<Rightarrow> SimpleString \<Rightarrow> node \<Rightarrow> node" where
  "fail_round W k n = set_paxos (set_proposer_state (calculateHash (w_ub W) k) FAILED (node_paxos n)) n"

definition checkIfQuorumAndAllResponsesSuccess :: "world \<Rightarrow> SimpleString \<Rightarrow> MultipleResponses \<Rightarrow> node \<Rightarrow> bool \<times> node" where
  "checkIfQuorumAndAllResponsesSuccess W k M n =
     (if \<not> waitForSuccessfulQuorum M then (False, fail_round W k n) else (True, n))"

text \<open>The answer of the local store before a round: the version to replace, or the code of the error.\<close>

definition cas_current :: "world \<Rightarrow> u32 \<Rightarrow> SimpleString \<Rightarrow> SimpleString \<Rightarrow> node \<Rightarrow> ((u8 + LamportClock) \<times> node) option" where
  "cas_current W p k expected n = do {
     M \<leftarrow> node_store p n;
     (stored, M) \<leftarrow> map_get (w_ub W) k M;
     let n = set_store p M n;
     (case stored of
        None \<Rightarrow> Some (Inl CAS_FAILED, fail_round W k n)
      | Some e \<Rightarrow>
          if entry_type e \<noteq> DATA then Some (Inl INVALID_TYPE, n)
          else do {
            d \<leftarrow> toData (w_ub W) k M e;
            if \<not> ss_eq (data_value d) expected then Some (Inl CAS_FAILED, fail_round W k n)
            else Some (Inr (data_timestamp d), n) }) }"

partial_function (option) sendRetriesPrepares ::
  "world \<Rightarrow> u32 \<Rightarrow> SimpleString \<Rightarrow> SimpleString \<Rightarrow> LamportClock \<Rightarrow> node \<Rightarrow> ((u8 + LamportClock \<times> LamportClock) \<times> node) option" where
  "sendRetriesPrepares W p k expected next_ts n = do {
     now \<leftarrow> cas_current W p k expected n;
     (case now of
        (Inl code, n) \<Rightarrow> Some (Inl code, n)
      | (Inr prev, n) \<Rightarrow> do {
          let next_ts = LamportClock (nodeId next_ts) (counter next_ts + 1);
          sent \<leftarrow> sendPrepare W p k prev next_ts n;
          (case sent of (M, n) \<Rightarrow>
             (case checkIfQuorumAndAllResponsesSuccess W k M n of (quorum, n) \<Rightarrow>
                if quorum then Some (Inr (prev, next_ts), n) else sendRetriesPrepares W p k expected next_ts n)) }) }"

text \<open>The last phase: the value is written to the local store.\<close>

definition cas_commit :: "world \<Rightarrow> u32 \<Rightarrow> SimpleString \<Rightarrow> SimpleString \<Rightarrow> LamportClock \<Rightarrow> node \<Rightarrow> (Response \<times> node) option" where
  "cas_commit W p k v next_ts n = do {
     M \<leftarrow> node_store p n;
     (result, M, clk) \<leftarrow> putData (w_ub W) k v next_ts SET_MAX True M (Some (node_clock n));
     clk \<leftarrow> clk;
     let n = (set_store p M n)\<lparr>node_clock := clk\<rparr>;
     if result \<noteq> None then do {
       n \<leftarrow> node_log_add p (set_operation W k v next_ts)
              (set_paxos (set_proposer_state (calculateHash (w_ub W) k) COMITTED (node_paxos n)) n);
       Some (success (LamportClock 0 0), n) }
     else Some (error CAS_FAILED, fail_round W k n) }"

definition CasOperator_operate :: "world \<Rightarrow> OperationBody \<Rightarrow> OperationOptions \<Rightarrow> node \<Rightarrow> (Response \<times> node) option" where
  "CasOperator_operate W op options n = do {
     M \<leftarrow> node_store (oo_partitionId options) n;
     (k, expected, new) \<leftarrow> cas_getArgs op;
     let (s, R) = getProposerByKeyHash (calculateHash (w_ub W) k) WAITING_FOR_PROMISE (node_paxos n);
     (prepared, n) \<leftarrow> sendRetriesPrepares W (oo_partitionId options) k expected (node_clock n) (set_paxos R n);
     (case prepared of
        Inl code \<Rightarrow> Some (error code, n)
      | Inr (prev, next_ts) \<Rightarrow> do {
          (accepted, n) \<leftarrow> sendAccept W (oo_partitionId options) k new prev next_ts n;
          (case checkIfQuorumAndAllResponsesSuccess W k accepted n of (quorum, n) \<Rightarrow>
             if quorum then cas_commit W (oo_partitionId options) k new next_ts n
             else Some (error CAS_FAILED, fail_round W k n)) }) }"

definition CasOperator_desc :: OperatorDescriptor where
  "CasOperator_desc = \<lparr>od_type = DB_STORE_CONDITIONAL_WRITE, od_number = OP_CAS, od_name = ''CAS'',
     od_authorizedToExecute = [USER], od_properties = []\<rparr>"

section \<open>An acceptor never goes back\<close>

lemma node_store_simps [simp]:
  "node_store p (set_store p M n) = Some M"
  "node_store p (set_paxos R n) = node_store p n"
  "node_store p (n\<lparr>node_clock := c\<rparr>) = node_store p n"
  "node_store p (n\<lparr>node_logs := l\<rparr>) = node_store p n"
  by (simp_all add: node_store_def set_store_def set_paxos_def getByPartitionId_def)

lemma node_log_add_store: "node_log_add q op n = Some n' \<Longrightarrow> node_store p n' = node_store p n"
  by (auto simp: node_log_add_def split: Option.bind_split_asm)

lemma map_get_data:
  assumes "map_ok M" and "map_reading M (calculateHash ub k) = Some (t, v)"
  shows "\<exists>e. map_get ub k M = Some (Some e, M) \<and> entry_type e = DATA \<and>
    toData ub k M e = Some \<lparr>data_value = v, data_timestamp = t\<rparr>"
proof -
  obtain k0 d where d: "map_view M (calculateHash ub k) = Some (k0, DataP d)" "d = \<lparr>data_value = v, data_timestamp = t\<rparr>"
    using assms(2) by (auto simp: map_reading_def split: option.splits payload.splits)
  obtain e where e: "map_get ub k M = Some (Some e, M)"
    "datas (buckets M ! bucket_index M (calculateHash ub k)) (entry_data e) = Some (DataP d)" "payload_fits (entry_type e) (DataP d)"
    using map_get_view [OF assms(1), of ub k] d(1) by auto
  have "getBucket M (calculateHash ub k) = Some (buckets M ! bucket_index M (calculateHash ub k))"
    using assms(1) bucket_index_less(1) by (simp add: map_ok_def getBucket_def at_def)
  moreover have "entry_type e = DATA" using e(3) by (cases "entry_type e") auto
  ultimately show ?thesis using e d(2) by (simp add: toData_def entry_payload_def)
qed

text \<open>A write of another node never lowers the timestamp of an entry, and is stored when it is not older.\<close>

lemma putData_reading:
  assumes "map_ok M" and "st \<noteq> NONE" and "putData ub k v ts st True M (Some c) = Some (res, M', clk)"
    and "map_reading M h = Some (t, v0)"
  shows "map_ok M'" and "\<exists>t' v'. map_reading M' h = Some (t', v') \<and> t \<le> t'"
    and "h = calculateHash ub k \<Longrightarrow> t \<le> ts \<Longrightarrow> map_reading M' h = Some (ts, v)"
proof -
  obtain i c' where clock: "clock_update st (counter ts) c = (i, c')" by fastforce
  have M': "map_ok M'" "map_view M' = write_spec k (calculateHash ub k) v ts st True i (map_view M)"
    using putData_view [OF assms(1) clock, of ub k v True] assms(3) by auto
  then show "map_ok M'" by simp
  obtain k0 d where d: "map_view M h = Some (k0, DataP d)" "data_timestamp d = t"
    using assms(4) by (auto simp: map_reading_def split: option.splits payload.splits)
  show "\<exists>t' v'. map_reading M' h = Some (t', v') \<and> t \<le> t'"
    using d assms(2)
    by (auto simp: map_reading_def M'(2) write_spec_def applied_def accepts_def written_def stamp_data_def not_less)
  show "map_reading M' h = Some (ts, v)" if "h = calculateHash ub k" "t \<le> ts"
    using d that
    by (auto simp: map_reading_def M'(2) write_spec_def applied_def accepts_def written_def stamp_data_def)
qed

definition stamped :: "world \<Rightarrow> u32 \<Rightarrow> SimpleString \<Rightarrow> LamportClock \<Rightarrow> node \<Rightarrow> bool" where
  "stamped W p k t n \<longleftrightarrow> (\<exists>M t' v. node_store p n = Some M \<and> map_ok M \<and>
     map_reading M (calculateHash (w_ub W) k) = Some (t', v) \<and> t \<le> t')"

text \<open>What an acceptor executes for other nodes on a partition.\<close>

inductive acceptor_step :: "world \<Rightarrow> u32 \<Rightarrow> node \<Rightarrow> node \<Rightarrow> bool" for W p where
  on_prepare: "PrepareCasOperator_operate W op options n = Some (r, n') \<Longrightarrow> oo_partitionId options = p \<Longrightarrow> acceptor_step W p n n'"
| on_accept: "AcceptCasOperator_operate W op options n = Some (r, n') \<Longrightarrow> oo_partitionId options = p \<Longrightarrow> acceptor_step W p n n'"
| on_replicated_set: "SetOperator_operate W op options n = Some (r, n') \<Longrightarrow> oo_partitionId options = p \<Longrightarrow>
    oo_checkTimestamps options \<Longrightarrow> oo_updateClockStrategy options \<noteq> NONE \<Longrightarrow> acceptor_step W p n n'"

lemma prepare_store:
  assumes "PrepareCasOperator_operate W op options n = Some (r, n')" and "node_store (oo_partitionId options) n = Some M" and "map_ok M"
  shows "node_store (oo_partitionId options) n' = Some M"
proof -
  have get: "M' = M" if "map_get (w_ub W) k M = Some (x, M')" for k x M'
    using map_get_view [OF assms(3), of "w_ub W" k] that by auto
  show ?thesis
    using assms(1,2)
    by (auto simp: PrepareCasOperator_operate_def Let_def dest!: get split: Option.bind_split_asm if_split_asm option.split_asm)
qed

lemma accept_store:
  assumes "AcceptCasOperator_operate W op options n = Some (r, n')" and "node_store (oo_partitionId options) n = Some M" and "map_ok M"
  shows "node_store (oo_partitionId options) n' = Some M \<and> \<not> isSuccessful r \<or>
    (\<exists>k v prev next_ts d e res M' clk. accept_getArgs op = Some (k, v, prev, next_ts) \<and> map_get (w_ub W) k M = Some (Some e, M) \<and>
       toData (w_ub W) k M e = Some d \<and> data_timestamp d \<le> prev \<and>
       putData (w_ub W) k v next_ts SET_MAX True M (Some (node_clock n)) = Some (res, M', clk) \<and>
       node_store (oo_partitionId options) n' = Some M')"
proof -
  have get: "M' = M" if "map_get (w_ub W) k M = Some (x, M')" for k x M'
    using map_get_view [OF assms(3), of "w_ub W" k] that by auto
  show ?thesis
    using assms(1,2)
    by (auto simp: AcceptCasOperator_operate_def Let_def error_def not_less dest!: get node_log_add_store [where p = "oo_partitionId options"]
        split: Option.bind_split_asm if_split_asm prod.split_asm)
qed

lemma acceptor_step_stamped:
  assumes "acceptor_step W p n n'" and "stamped W p k t n"
  shows "stamped W p k t n'"
proof -
  obtain M t0 v0 where M: "node_store p n = Some M" "map_ok M" "map_reading M (calculateHash (w_ub W) k) = Some (t0, v0)" "t \<le> t0"
    using assms(2) by (auto simp: stamped_def)
  have put: "stamped W p k t n'" if "node_store p n' = Some M'" "st \<noteq> NONE"
    "putData (w_ub W) k' v ts st True M (Some c) = Some (res, M', clk)" for M' st k' v ts c res clk
    using putData_reading(1,2) [OF M(2) that(2,3) M(3)] that(1) M(4) by (fastforce simp: stamped_def)
  have same: "stamped W p k t n'" if "node_store p n' = Some M" using that M by (auto simp: stamped_def)
  from assms(1) show ?thesis
  proof cases
    case (on_prepare op options r)
    then show ?thesis using prepare_store [OF on_prepare(1)] M(1,2) same by simp
  next
    case (on_accept op options r)
    then show ?thesis using accept_store [OF on_accept(1)] M(1,2) same put [where st = SET_MAX] by auto
  next
    case (on_replicated_set op options r)
    then show ?thesis using M(1) put
      by (auto simp: SetOperator_operate_def Let_def split: Option.bind_split_asm prod.split_asm)
  qed
qed

lemma acceptor_run_stamped:
  assumes "(acceptor_step W p)\<^sup>*\<^sup>* n n'" and "stamped W p k t n"
  shows "stamped W p k t n'"
  using assms by induction (auto intro: acceptor_step_stamped)

lemma accepted_stamped:
  assumes "AcceptCasOperator_operate W op options n = Some (r, n')" and "isSuccessful r"
    and "accept_getArgs op = Some (k, v, prev, next_ts)" and "prev < next_ts"
    and "stamped W (oo_partitionId options) k t n"
  shows "stamped W (oo_partitionId options) k next_ts n'"
proof -
  obtain M t0 v0 where M: "node_store (oo_partitionId options) n = Some M" "map_ok M"
    "map_reading M (calculateHash (w_ub W) k) = Some (t0, v0)"
    using assms(5) by (auto simp: stamped_def)
  obtain d e res M' clk where a: "map_get (w_ub W) k M = Some (Some e, M)" "toData (w_ub W) k M e = Some d" "data_timestamp d \<le> prev"
    "putData (w_ub W) k v next_ts SET_MAX True M (Some (node_clock n)) = Some (res, M', clk)"
    "node_store (oo_partitionId options) n' = Some M'"
    using accept_store [OF assms(1) M(1,2)] assms(2,3) by auto
  have "t0 \<le> next_ts" using map_get_data [OF M(2,3)] a(1-3) assms(4) by auto
  then show ?thesis
    using putData_reading(1) [OF M(2) _ a(4) M(3)] putData_reading(3) [OF M(2) _ a(4) M(3) refl] a(5) by (simp add: stamped_def)
qed

lemma stamped_refuses:
  assumes "stamped W (oo_partitionId options) k t n" and "prev < t"
  shows "accept_getArgs op = Some (k, v, prev, next_ts) \<Longrightarrow>
      \<exists>n'. AcceptCasOperator_operate W op options n = Some (error CAS_FAILED, n') \<and> node_store (oo_partitionId options) n' = node_store (oo_partitionId options) n"
    and "prepare_getArgs op = Some (k, prev, next_ts) \<Longrightarrow>
      \<exists>n'. PrepareCasOperator_operate W op options n = Some (error CAS_FAILED, n') \<and> node_store (oo_partitionId options) n' = node_store (oo_partitionId options) n"
proof -
  obtain M t0 v0 where M: "node_store (oo_partitionId options) n = Some M" "map_ok M"
    "map_reading M (calculateHash (w_ub W) k) = Some (t0, v0)" "prev < t0"
    using assms by (auto simp: stamped_def)
  obtain e where e: "map_get (w_ub W) k M = Some (Some e, M)" "entry_type e = DATA"
    "toData (w_ub W) k M e = Some \<lparr>data_value = v0, data_timestamp = t0\<rparr>"
    using map_get_data [OF M(2,3)] by blast
  show "\<exists>n'. AcceptCasOperator_operate W op options n = Some (error CAS_FAILED, n') \<and> node_store (oo_partitionId options) n' = node_store (oo_partitionId options) n"
    if "accept_getArgs op = Some (k, v, prev, next_ts)"
    using that M e by (simp add: AcceptCasOperator_operate_def)
  show "\<exists>n'. PrepareCasOperator_operate W op options n = Some (error CAS_FAILED, n') \<and> node_store (oo_partitionId options) n' = node_store (oo_partitionId options) n"
    if "prepare_getArgs op = Some (k, prev, next_ts)"
    using that M e by (simp add: PrepareCasOperator_operate_def)
qed

section \<open>The arguments of the messages\<close>

definition double_args :: "u64 \<Rightarrow> SimpleString list" where
  "double_args v = [fromNumber (ucast (drop_bit 32 v) :: u32), fromNumber ((ucast v :: u32) AND 0xFFFFFFFF)]"

lemma b_args_add_clock: "b_args (add_clock nid cnt b) = b_args b @ [fromNumber nid] @ double_args cnt"
  by (simp add: add_clock_def rb_addDoubleArg_def rb_addArg_def double_args_def Let_def)

lemma getDoubleArg_at:
  assumes "args op = Some (xs @ double_args v @ ys)"
  shows "getDoubleArgU64 op (length xs) = Some v"
proof -
  have "getDoubleArgU64 op (length xs) = getDoubleArgU64 (buildOperationBody (rb_addDoubleArg v ((rb_builder 0)\<lparr>b_args := xs\<rparr>))) (length xs)"
    using assms by (simp add: getDoubleArgU64_def getArg_def buildOperationBody_def rb_addDoubleArg_def double_args_def Let_def nth_append)
  then show ?thesis using getDoubleArg_after_add [of v "(rb_builder 0)\<lparr>b_args := xs\<rparr>"] by simp
qed

lemma clock_arg_at:
  assumes "args op = Some (xs @ [fromNumber nid] @ double_args cnt @ ys)" and "i = length xs"
  shows "clock_arg op i = Some (LamportClock nid cnt)"
proof -
  have "getArg op (length xs) = Some (fromNumber nid)" using assms by (simp add: getArg_def)
  moreover have "ss_to (fromNumber nid) = Some nid" by (simp add: ss_to_def codec_simps)
  moreover have "getDoubleArgU64 op (length xs + 1) = Some cnt"
    using getDoubleArg_at [of op "xs @ [fromNumber nid]" cnt ys] assms by simp
  ultimately show ?thesis using assms(2) by (simp add: clock_arg_def)
qed

lemma peer_body_args:
  "prepare_getArgs (prepare_body W self k prev next_ts) = Some (k, prev, LamportClock self (counter next_ts))"
  "accept_getArgs (accept_body W self k v prev next_ts) = Some (k, v, prev, LamportClock self (counter next_ts))"
proof -
  have p: "args (prepare_body W self k prev next_ts) =
      Some ([k] @ [fromNumber (nodeId prev)] @ double_args (counter prev) @ [fromNumber self] @ double_args (counter next_ts))"
    and a: "args (accept_body W self k v prev next_ts) =
      Some ([k, v] @ [fromNumber (nodeId prev)] @ double_args (counter prev) @ [fromNumber self] @ double_args (counter next_ts))"
    by (simp_all add: prepare_body_def accept_body_def buildOperationBody_def b_args_add_clock rb_addArg_def rb_selfNode_def
        rb_operatorNumber_def rb_builder_def)
  have "clock_arg (prepare_body W self k prev next_ts) 1 = Some prev"
    "clock_arg (prepare_body W self k prev next_ts) 4 = Some (LamportClock self (counter next_ts))"
    by (simp add: clock_arg_at [OF p])
      (rule clock_arg_at [of _ "[k] @ [fromNumber (nodeId prev)] @ double_args (counter prev)" _ _ "[]"], simp_all add: p double_args_def)
  then show "prepare_getArgs (prepare_body W self k prev next_ts) = Some (k, prev, LamportClock self (counter next_ts))"
    by (simp add: prepare_getArgs_def) (simp add: getArg_def p)
  have "clock_arg (accept_body W self k v prev next_ts) 2 = Some prev"
    "clock_arg (accept_body W self k v prev next_ts) 5 = Some (LamportClock self (counter next_ts))"
    by (simp add: clock_arg_at [OF a])
      (rule clock_arg_at [of _ "[k, v] @ [fromNumber (nodeId prev)] @ double_args (counter prev)" _ _ "[]"], simp_all add: a double_args_def)
  then show "accept_getArgs (accept_body W self k v prev next_ts) = Some (k, v, prev, LamportClock self (counter next_ts))"
    by (simp add: accept_getArgs_def) (simp add: getArg_def a)
qed

section \<open>Each phase on a store that has the version\<close>

lemma prepare_promises:
  assumes "node_store (oo_partitionId options) n = Some M" and "map_ok M" and "map_reading M (calculateHash (w_ub W) k) = Some (t, v0)"
    and "prepare_getArgs op = Some (k, prev, next_ts)" and "t \<le> prev"
    and "getAcceptatorByKeyHash (calculateHash (w_ub W) k) (node_paxos n) = None"
  shows "PrepareCasOperator_operate W op options n = Some (success (LamportClock 0 0),
    set_paxos (registerNewAcceptatorPromise (calculateHash (w_ub W) k) next_ts (node_paxos n)) (set_store (oo_partitionId options) M n))"
proof -
  obtain e where "map_get (w_ub W) k M = Some (Some e, M)" "entry_type e = DATA"
    "toData (w_ub W) k M e = Some \<lparr>data_value = v0, data_timestamp = t\<rparr>"
    using map_get_data [OF assms(2,3)] by blast
  then show ?thesis
    using assms by (simp add: PrepareCasOperator_operate_def promised_higher_def Let_def leD set_store_def)
qed

lemma put_newer:
  assumes "map_ok M" and "map_reading M (calculateHash ub k) = Some (t, v0)" and "t \<le> next_ts"
  shows "\<exists>x M' c'. putData ub k v next_ts SET_MAX True M (Some c) = Some (Some x, M', Some c') \<and> map_ok M' \<and>
    map_reading M' (calculateHash ub k) = Some (next_ts, v)"
proof -
  obtain i c' where clock: "clock_update SET_MAX (counter next_ts) c = (i, c')" by fastforce
  obtain k0 d where d: "map_view M (calculateHash ub k) = Some (k0, DataP d)" "data_timestamp d = t"
    using assms(2) by (auto simp: map_reading_def split: option.splits payload.splits)
  then have "applied SET_MAX True next_ts (map_view M (calculateHash ub k))"
    using assms(3) by (simp add: applied_def accepts_def not_less)
  then obtain M' where p: "putData ub k v next_ts SET_MAX True M (Some c) = Some (Some (result_timestamp True next_ts i), M', Some c')"
    using putData_view [OF assms(1) clock, of ub k v True] by auto
  then show ?thesis using putData_reading(1) [OF assms(1) _ p assms(2)] putData_reading(3) [OF assms(1) _ p assms(2) refl assms(3)] by auto
qed

lemma accept_writes:
  assumes "node_store (oo_partitionId options) n = Some M" and "map_ok M" and "map_reading M (calculateHash (w_ub W) k) = Some (t, v0)"
    and "accept_getArgs op = Some (k, v, prev, next_ts)" and "t \<le> prev" and "t \<le> next_ts"
    and "getAcceptatorByKeyHash (calculateHash (w_ub W) k) (node_paxos n) = Some round" and "promisedNextTimestamp round \<le> next_ts"
    and "\<not> conf_partitions (node_conf n)" and "node_logs n \<noteq> []"
  shows "\<exists>M' n'. AcceptCasOperator_operate W op options n = Some (success (LamportClock 0 0), n') \<and>
    node_store (oo_partitionId options) n' = Some M' \<and> map_ok M' \<and> map_reading M' (calculateHash (w_ub W) k) = Some (next_ts, v) \<and>
    node_conf n' = node_conf n \<and> length (node_logs n') = length (node_logs n)"
proof -
  obtain e where e: "map_get (w_ub W) k M = Some (Some e, M)" "entry_type e = DATA"
    "toData (w_ub W) k M e = Some \<lparr>data_value = v0, data_timestamp = t\<rparr>"
    using map_get_data [OF assms(2,3)] by blast
  obtain x M' c' where p: "putData (w_ub W) k v next_ts SET_MAX True M (Some (node_clock n)) = Some (Some x, M', Some c')" "map_ok M'"
    "map_reading M' (calculateHash (w_ub W) k) = Some (next_ts, v)"
    using put_newer [OF assms(2,3,6)] by blast
  show ?thesis
    using assms e p
    by (simp add: AcceptCasOperator_operate_def promised_higher_def leD updateAcceptedTimestamp_def getAcceptatorByKeyHash_def
        set_store_def node_log_add_def logs_add_def set_paxos_def node_store_def getByPartitionId_def)
qed

lemma commit_writes:
  assumes "node_store p n = Some M" and "map_ok M" and "map_reading M (calculateHash (w_ub W) k) = Some (t, v0)" and "t \<le> next_ts"
    and "\<not> conf_partitions (node_conf n)" and "node_logs n \<noteq> []"
  shows "\<exists>M' n'. cas_commit W p k v next_ts n = Some (success (LamportClock 0 0), n') \<and>
    node_store p n' = Some M' \<and> map_ok M' \<and> map_reading M' (calculateHash (w_ub W) k) = Some (next_ts, v)"
proof -
  obtain x M' c' where p: "putData (w_ub W) k v next_ts SET_MAX True M (Some (node_clock n)) = Some (Some x, M', Some c')" "map_ok M'"
    "map_reading M' (calculateHash (w_ub W) k) = Some (next_ts, v)"
    using put_newer [OF assms(2,3,4)] by blast
  show ?thesis
    using assms p
    by (simp add: cas_commit_def set_store_def node_log_add_def logs_add_def set_paxos_def node_store_def getByPartitionId_def)
qed

lemma cas_current_version:
  assumes "node_store p n = Some M" and "map_ok M" and "map_reading M (calculateHash (w_ub W) k) = Some (t, expected)"
  shows "cas_current W p k expected n = Some (Inr t, set_store p M n)"
proof -
  obtain e where e: "map_get (w_ub W) k M = Some (Some e, M)" "entry_type e = DATA"
    "toData (w_ub W) k M e = Some \<lparr>data_value = expected, data_timestamp = t\<rparr>"
    using map_get_data [OF assms(2,3)] by blast
  then show ?thesis using assms by (simp add: cas_current_def set_store_def)
qed

section \<open>Properties\<close>

text \<open>C8. An acceptor agrees to at most one successor of a version. Once it has answered an ACCEPT for a newer
  timestamp with success, then after any run of PREPAREs, ACCEPTs and replicated writes, for this key or for
  others, it answers every PREPARE and every ACCEPT that starts from the same version or an older one with
  CAS_FAILED, and the store keeps its contents.\<close>

theorem acceptor_accepts_once:
  assumes "stamped W (oo_partitionId options) k t n"
    and "accept_getArgs op = Some (k, v, prev, next_ts)" and "prev < next_ts"
    and "AcceptCasOperator_operate W op options n = Some (r, n1)" and "isSuccessful r"
    and "(acceptor_step W (oo_partitionId options))\<^sup>*\<^sup>* n1 n2"
    and "accept_getArgs op2 = Some (k, v2, prev2, next2)" and "prev2 \<le> prev"
    and "prepare_getArgs op3 = Some (k, prev3, next3)" and "prev3 \<le> prev"
  shows "\<exists>n3 n4. AcceptCasOperator_operate W op2 options n2 = Some (error CAS_FAILED, n3) \<and>
    PrepareCasOperator_operate W op3 options n2 = Some (error CAS_FAILED, n4) \<and>
    node_store (oo_partitionId options) n3 = node_store (oo_partitionId options) n2 \<and>
    node_store (oo_partitionId options) n4 = node_store (oo_partitionId options) n2"
proof -
  have s: "stamped W (oo_partitionId options) k next_ts n2"
    using acceptor_run_stamped [OF assms(6) accepted_stamped [OF assms(4,5,2,3,1)]] .
  have "prev2 < next_ts" "prev3 < next_ts" using assms(3,8,10) by simp_all
  then show ?thesis using stamped_refuses(1) [OF s _ assms(7)] stamped_refuses(2) [OF s _ assms(9)] by blast
qed

section \<open>Three nodes\<close>

text \<open>The nodes 1, 2 and 3, each with the value \<open>[7]\<close> of version (3, 1) for the key \<open>[97]\<close>.\<close>

definition key_map :: MemMap where
  "key_map = (case putData (\<lambda>h b i. 0) [97] [7] (LamportClock 3 1) SET_MAX True (new_Map 1) (Some (LamportClock 1 0)) of
     Some (r, M, c) \<Rightarrow> M | None \<Rightarrow> new_Map 1)"

definition cas_node :: "memdbNodeId_t \<Rightarrow> (memdbNodeId_t \<times> Node) list \<Rightarrow> u64 \<Rightarrow> node" where
  "cas_node self others c = \<lparr>node_conf = sample_settings\<lparr>conf_nodeId := self\<rparr>,
     node_cluster = new_Cluster\<lparr>clusterNodes := \<lparr>allNodesById = others, nodesInPartitions = [map fst others]\<rparr>\<rparr>,
     node_stores = [0 \<mapsto> key_map], node_clock = LamportClock self c, node_logs = [sample_log], node_fs = sample_fs [],
     node_paxos = \<lparr>paxosRoundsProposerByKeyHash = (\<lambda>_. None), paxosRoundsAcceptatorByKeyHash = (\<lambda>_. None)\<rparr>,
     node_syncs = \<lparr>onGoingSyncOplogsById = (\<lambda>_. None), nextSyncOplogIdCounter = 0, sync_selfNodeId = self\<rparr>,
     node_delayed = \<lparr>filePath = ''m'', fileName = ''delayed''\<rparr>, node_sent = []\<rparr>"

definition peer :: "memdbNodeId_t \<Rightarrow> memdbNodeId_t \<times> Node" where
  "peer nid = (nid, \<lparr>node_id = nid, node_address = ''a:1''\<rparr>)"

definition only_from :: "memdbNodeId_t \<Rightarrow> Response \<Rightarrow> network" where
  "only_from nid r attempt node request = (if node_id node = nid then SendOk r else SendError (error 0))"

definition cas_world :: "network \<Rightarrow> world" where
  "cas_world net = \<lparr>w_md5 = (\<lambda>s. []), w_ub = (\<lambda>h b i. 0), w_env = sample_env, w_net = net, w_rands = (\<lambda>i. 0), w_op0 = 0,
     w_garbage = 0, w_unset = (\<lambda>n. error 0)\<rparr>"

definition sample_cas_options :: OperationOptions where
  "sample_cas_options = \<lparr>oo_checkTimestamps = True, oo_onlyExecute = False, oo_dontBroadcastToCluster = False, oo_dontSaveInOperationLog = False,
     oo_updateClockStrategy = SET_MAX, oo_partitionId = 0, oo_requestNumber = 0\<rparr>"

lemma key_map: "map_ok key_map" "map_reading key_map 97 = Some (LamportClock 3 1, [7])"
proof -
  have "0 < (1 :: u32)" "unat (1 :: u32) \<le> 2 ^ 31" by simp_all
  note ok = new_Map_ok [OF this]
  have h: "calculateHash (\<lambda>h b i. 0) [97] = 97" by (simp add: calculateHash_def)
  have clk: "clock_update SET_MAX (counter (LamportClock 3 1)) (LamportClock 1 0) = (1, LamportClock 1 1)" by code_simp
  show "map_ok key_map" "map_reading key_map 97 = Some (LamportClock 3 1, [7])"
    using putData_view [OF ok(1) clk, of "\<lambda>h b i. 0" "[97]" "[7]" True, unfolded h]
    by (auto simp: key_map_def ok(2) write_spec_def applied_def map_reading_def written_def stamp_data_def)
qed

definition one_vote :: "memdbNodeId_t \<Rightarrow> MultipleResponses" where
  "one_vote nid = addResponse nid (success (LamportClock 0 0)) (new_MultipleResponses 2)"

lemma cas_send_one_vote:
  assumes "node_conf n = sample_settings\<lparr>conf_nodeId := self\<rparr>" and "clusterNodes (node_cluster n) =
    \<lparr>allNodesById = [peer a, peer b], nodesInPartitions = [[a, b]]\<rparr>" and "a < b" and "voter = a \<or> voter = b"
  shows "cas_send (cas_world (only_from voter (success (LamportClock 0 0)))) 0 k waiting body n =
    Some (one_vote voter, set_paxos (set_proposer_state (calculateHash (\<lambda>h b i. 0) k) waiting (node_paxos n)) n\<lparr>node_sent := node_sent n @ [body]\<rparr>)"
  using assms
  by (auto simp: cas_send_def broadcastAndWait_def cn_broadcastAndWait_def nodes_in_def forEachNodeInPartition_def nip_getAll_def nip_size_def
      wait_task_def only_from_def error_def success_def hint_if_allowed_def cas_world_def peer_def set_paxos_def one_vote_def)

lemma cas_node_fields:
  "node_conf (cas_node self [peer a, peer b] c) = sample_settings\<lparr>conf_nodeId := self\<rparr>"
  "clusterNodes (node_cluster (cas_node self [peer a, peer b] c)) = \<lparr>allNodesById = [peer a, peer b], nodesInPartitions = [[a, b]]\<rparr>"
  "node_store 0 (cas_node self others c) = Some key_map"
  "\<not> conf_partitions (node_conf (cas_node self others c))" "node_logs (cas_node self others c) \<noteq> []"
  "node_clock (cas_node self others c) = LamportClock self c"
  "getAcceptatorByKeyHash h (node_paxos (cas_node self others c)) = None"
  by (simp_all add: cas_node_def new_Cluster_def peer_def node_store_def getByPartitionId_def sample_settings_def getAcceptatorByKeyHash_def)

lemma vote_is_quorum: "waitForSuccessfulQuorum (one_vote nid)"
  by (simp add: one_vote_def waitForSuccessfulQuorum_def awaitMinOrEq_def addResponse_def latch_increase_def new_MultipleResponses_def success_def)

text \<open>What the proposer's own phases leave of a node: everything an acceptor looks at.\<close>

definition same_acceptor :: "node \<Rightarrow> node \<Rightarrow> bool" where
  "same_acceptor n n' \<longleftrightarrow> node_conf n' = node_conf n \<and> clusterNodes (node_cluster n') = clusterNodes (node_cluster n) \<and>
     node_store 0 n' = node_store 0 n \<and> node_logs n' = node_logs n \<and> node_clock n' = node_clock n \<and>
     getAcceptatorByKeyHash 97 (node_paxos n') = getAcceptatorByKeyHash 97 (node_paxos n)"

lemma cas_send_votes:
  assumes "node_conf n = sample_settings\<lparr>conf_nodeId := self\<rparr>" and "clusterNodes (node_cluster n) =
    \<lparr>allNodesById = [peer a, peer b], nodesInPartitions = [[a, b]]\<rparr>" and "a < b" and "voter = a \<or> voter = b"
  shows "\<exists>n'. cas_send (cas_world (only_from voter (success (LamportClock 0 0)))) 0 k waiting body n = Some (one_vote voter, n') \<and>
    same_acceptor n n'"
  using cas_send_one_vote [OF assms]
  by (simp add: same_acceptor_def set_paxos_def set_proposer_state_def getAcceptatorByKeyHash_def node_store_def)

lemma accepted_by_one_vote:
  assumes "node_conf n = sample_settings\<lparr>conf_nodeId := self\<rparr>" and "clusterNodes (node_cluster n) =
    \<lparr>allNodesById = [peer a, peer b], nodesInPartitions = [[a, b]]\<rparr>" and "a < b" and "voter = a \<or> voter = b" and "same_acceptor n n1"
  shows "\<exists>n'. sendAccept (cas_world (only_from voter (success (LamportClock 0 0)))) 0 k v prev next_ts n1 = Some (one_vote voter, n') \<and>
    same_acceptor n n'"
proof -
  have n1: "node_conf n1 = sample_settings\<lparr>conf_nodeId := self\<rparr>"
    "clusterNodes (node_cluster n1) = \<lparr>allNodesById = [peer a, peer b], nodesInPartitions = [[a, b]]\<rparr>"
    using assms(1,2,5) by (simp_all add: same_acceptor_def)
  obtain n' where n': "sendAccept (cas_world (only_from voter (success (LamportClock 0 0)))) 0 k v prev next_ts n1 = Some (one_vote voter, n')"
    "same_acceptor n1 n'"
    unfolding sendAccept_def using cas_send_votes [OF n1 assms(3,4)] by blast
  then show ?thesis using assms(5) by (simp add: same_acceptor_def)
qed

lemma hash_97: "calculateHash (w_ub (cas_world net)) [97] = 97"
  by (simp add: cas_world_def calculateHash_def)

lemma prepared_by_one_vote:
  assumes "node_conf n = sample_settings\<lparr>conf_nodeId := self\<rparr>" and "clusterNodes (node_cluster n) =
    \<lparr>allNodesById = [peer a, peer b], nodesInPartitions = [[a, b]]\<rparr>" and "a < b" and "voter = a \<or> voter = b"
    and "node_store 0 n = Some key_map"
  shows "\<exists>n'. sendRetriesPrepares (cas_world (only_from voter (success (LamportClock 0 0)))) 0 [97] [7] c n =
    Some (Inr (LamportClock 3 1, LamportClock (nodeId c) (counter c + 1)), n') \<and> same_acceptor n n'"
proof -
  let ?W = "cas_world (only_from voter (success (LamportClock 0 0)))" and ?n = "set_store 0 key_map n"
  have cur: "cas_current ?W 0 [97] [7] n = Some (Inr (LamportClock 3 1), ?n)"
    using cas_current_version [OF assms(5) key_map(1), of ?W "[97]" "LamportClock 3 1" "[7]"] key_map(2) by (simp add: hash_97)
  have n: "node_conf ?n = node_conf n" "node_cluster ?n = node_cluster n" "same_acceptor n ?n"
    using assms(5) by (simp_all add: set_store_def same_acceptor_def node_store_def getByPartitionId_def)
  obtain n' where "sendPrepare ?W 0 [97] (LamportClock 3 1) (LamportClock (nodeId c) (counter c + 1)) ?n = Some (one_vote voter, n')" "same_acceptor ?n n'"
    unfolding sendPrepare_def using cas_send_votes [of ?n self a b voter] assms n by (metis (no_types, lifting))
  then show ?thesis
    using cur n(3) by (subst sendRetriesPrepares.simps)
      (simp add: checkIfQuorumAndAllResponsesSuccess_def vote_is_quorum same_acceptor_def)
qed

lemma votes_for_version:
  assumes "node_store 0 n = Some key_map" and "getAcceptatorByKeyHash 97 (node_paxos n) = None" and "\<not> conf_partitions (node_conf n)"
    and "node_logs n \<noteq> []" and "next_ts = LamportClock self c" and "LamportClock 3 1 \<le> next_ts"
  shows "\<exists>n1 n2 M. PrepareCasOperator_operate (cas_world net) (prepare_body (cas_world net) self [97] (LamportClock 3 1) next_ts) sample_cas_options n =
      Some (success (LamportClock 0 0), n1) \<and>
    AcceptCasOperator_operate (cas_world net) (accept_body (cas_world net) self [97] v (LamportClock 3 1) next_ts) sample_cas_options n1 =
      Some (success (LamportClock 0 0), n2) \<and>
    node_store 0 n2 = Some M \<and> map_ok M \<and> map_reading M 97 = Some (next_ts, v) \<and> \<not> conf_partitions (node_conf n2) \<and> node_logs n2 \<noteq> []"
proof -
  let ?W = "cas_world net" and ?o = sample_cas_options
  let ?n1 = "set_paxos (registerNewAcceptatorPromise 97 next_ts (node_paxos n)) (set_store 0 key_map n)"
  have p0: "oo_partitionId ?o = 0" by (simp add: sample_cas_options_def)
  have rd: "map_reading key_map (calculateHash (w_ub ?W) [97]) = Some (LamportClock 3 1, [7])" by (simp add: hash_97 key_map(2))
  have a: "prepare_getArgs (prepare_body ?W self [97] (LamportClock 3 1) next_ts) = Some ([97], LamportClock 3 1, next_ts)"
    "accept_getArgs (accept_body ?W self [97] v (LamportClock 3 1) next_ts) = Some ([97], v, LamportClock 3 1, next_ts)"
    using assms(5) by (simp_all add: peer_body_args)
  have one: "PrepareCasOperator_operate ?W (prepare_body ?W self [97] (LamportClock 3 1) next_ts) ?o n = Some (success (LamportClock 0 0), ?n1)"
    using prepare_promises [OF _ key_map(1) rd a(1) order.refl, of ?o n] assms(1,2) by (simp add: p0 hash_97)
  have n1: "node_store (oo_partitionId ?o) ?n1 = Some key_map" "node_conf ?n1 = node_conf n" "node_logs ?n1 = node_logs n"
    "getAcceptatorByKeyHash (calculateHash (w_ub ?W) [97]) (node_paxos ?n1) = Some \<lparr>apr_state = ACCEPTATOR_PROMISED, promisedNextTimestamp = next_ts\<rparr>"
    unfolding p0 hash_97 by (simp, simp_all add: set_paxos_def set_store_def registerNewAcceptatorPromise_def getAcceptatorByKeyHash_def)
  show ?thesis
    using one accept_writes [OF n1(1) key_map(1) rd a(2) order.refl assms(6) n1(4)] n1(2,3) assms(3,4)
    by (auto simp: p0 hash_97)
qed

lemma cas_with_one_vote:
  assumes "a < b" and "voter = a \<or> voter = b" and "LamportClock 3 1 \<le> LamportClock self (c + 1)"
  shows "\<exists>n'. CasOperator_operate (cas_world (only_from voter (success (LamportClock 0 0))))
      (buildOperationBody (rb_args [[97], [7], v] (rb_operatorNumber OP_CAS (rb_builder 0)))) sample_cas_options (cas_node self [peer a, peer b] c) =
    Some (success (LamportClock 0 0), n')"
proof -
  let ?W = "cas_world (only_from voter (success (LamportClock 0 0)))" and ?n = "cas_node self [peer a, peer b] c"
  obtain st R where R: "getProposerByKeyHash 97 WAITING_FOR_PROMISE (node_paxos ?n) = (st, R)" by fastforce
  have s: "same_acceptor ?n (set_paxos R ?n)"
    using R by (auto simp: same_acceptor_def set_paxos_def getProposerByKeyHash_def getAcceptatorByKeyHash_def node_store_def split: option.splits)
  note f = cas_node_fields(1,2) [of self a b c] cas_node_fields(3-6) [of self "[peer a, peer b]" c]
  obtain n1 where n1: "sendRetriesPrepares ?W 0 [97] [7] (LamportClock self c) (set_paxos R ?n) =
      Some (Inr (LamportClock 3 1, LamportClock self (c + 1)), n1)" "same_acceptor (set_paxos R ?n) n1"
    using prepared_by_one_vote [of "set_paxos R ?n" self a b voter "LamportClock self c"] s f assms(1,2) by (auto simp: same_acceptor_def)
  have "same_acceptor ?n n1" using s n1(2) by (simp add: same_acceptor_def)
  then obtain n2 where n2: "sendAccept ?W 0 [97] v (LamportClock 3 1) (LamportClock self (c + 1)) n1 = Some (one_vote voter, n2)" "same_acceptor ?n n2"
    using accepted_by_one_vote [OF f(1,2) assms(1,2)] by blast
  obtain n3 where n3: "cas_commit ?W 0 [97] v (LamportClock self (c + 1)) n2 = Some (success (LamportClock 0 0), n3)"
    using commit_writes [of 0 n2 key_map ?W "[97]" "LamportClock 3 1" "[7]" "LamportClock self (c + 1)" v] n2(2) f key_map assms(3)
    by (auto simp: same_acceptor_def hash_97)
  have g: "cas_getArgs (buildOperationBody (rb_args [[97], [7], v] (rb_operatorNumber OP_CAS (rb_builder 0)))) = Some ([97], [7], v)"
    by (simp add: cas_getArgs_def getArg_def buildOperationBody_def rb_args_def)
  have p0: "oo_partitionId sample_cas_options = 0" by (simp add: sample_cas_options_def)
  show ?thesis
    using n1(1) n2(1) n3 f
    by (simp add: CasOperator_operate_def g p0 hash_97 R checkIfQuorumAndAllResponsesSuccess_def vote_is_quorum)
qed

text \<open>C33. Two clients can both be told that they replaced the same version. Node 1 collects the votes of node 3
  for its value \<open>[1]\<close>; before it writes its own store it answers PREPARE and ACCEPT of node 2, which starts from
  the same version, with success, because the rounds of a proposer are not looked at by its acceptor. The vote of
  node 1 is the quorum of node 2, whose CAS to \<open>[2]\<close> succeeds, and then the CAS of node 1 succeeds as well.\<close>

theorem two_cas_replace_one_version:
  "\<exists>A1 A2 A3 A4 A5 B1 C1 C2. let t = LamportClock 3 1; win = LamportClock 1 6; rival = LamportClock 2 3;
       A = cas_node 1 [peer 2, peer 3] 5; B = cas_node 2 [peer 1, peer 3] 2; C = cas_node 3 [peer 1, peer 2] 1;
       W1 = cas_world (only_from 3 (success (LamportClock 0 0))); W2 = cas_world (only_from 1 (success (LamportClock 0 0)))
     in PrepareCasOperator_operate W1 (prepare_body W1 1 [97] t win) sample_cas_options C = Some (success (LamportClock 0 0), C1) \<and>
        AcceptCasOperator_operate W1 (accept_body W1 1 [97] [1] t win) sample_cas_options C1 = Some (success (LamportClock 0 0), C2) \<and>
        sendRetriesPrepares W1 0 [97] [7] (node_clock A) A = Some (Inr (t, win), A1) \<and>
        sendAccept W1 0 [97] [1] t win A1 = Some (one_vote 3, A2) \<and> waitForSuccessfulQuorum (one_vote 3) \<and>
        PrepareCasOperator_operate W2 (prepare_body W2 2 [97] t rival) sample_cas_options A2 = Some (success (LamportClock 0 0), A3) \<and>
        AcceptCasOperator_operate W2 (accept_body W2 2 [97] [2] t rival) sample_cas_options A3 = Some (success (LamportClock 0 0), A4) \<and>
        CasOperator_operate W2 (buildOperationBody (rb_args [[97], [7], [2]] (rb_operatorNumber OP_CAS (rb_builder 0)))) sample_cas_options B =
          Some (success (LamportClock 0 0), B1) \<and>
        cas_commit W1 0 [97] [1] win A4 = Some (success (LamportClock 0 0), A5)"
proof -
  let ?W1 = "cas_world (only_from 3 (success (LamportClock 0 0)))" and ?W2 = "cas_world (only_from 1 (success (LamportClock 0 0)))"
    and ?t = "LamportClock 3 1" and ?A = "cas_node 1 [peer 2, peer 3] 5"
  have le: "?t \<le> LamportClock 1 6" "?t \<le> LamportClock 2 3" "LamportClock 2 3 \<le> LamportClock 1 6"
    by (simp_all add: less_eq_LamportClock_def clock_less_iff)
  have two_three: "(2 :: memdbNodeId_t) < 3" by simp
  obtain C1 C2 where C: "PrepareCasOperator_operate ?W1 (prepare_body ?W1 1 [97] ?t (LamportClock 1 6)) sample_cas_options (cas_node 3 [peer 1, peer 2] 1) = Some (success (LamportClock 0 0), C1)"
    "AcceptCasOperator_operate ?W1 (accept_body ?W1 1 [97] [1] ?t (LamportClock 1 6)) sample_cas_options C1 = Some (success (LamportClock 0 0), C2)"
    using votes_for_version [OF cas_node_fields(3,7,4,5) refl le(1)] by blast
  obtain A1 where A1: "sendRetriesPrepares ?W1 0 [97] [7] (node_clock ?A) ?A = Some (Inr (?t, LamportClock 1 6), A1)" "same_acceptor ?A A1"
    using prepared_by_one_vote [OF cas_node_fields(1,2) [of 1 2 3 5] _ _ cas_node_fields(3), of 3 "LamportClock 1 5"]
    by (auto simp: cas_node_fields(6))
  obtain A2 where A2: "sendAccept ?W1 0 [97] [1] ?t (LamportClock 1 6) A1 = Some (one_vote 3, A2)" "same_acceptor ?A A2"
    using accepted_by_one_vote [OF cas_node_fields(1,2) two_three _ A1(2), of 3] by blast
  obtain A3 A4 M where A4: "PrepareCasOperator_operate ?W2 (prepare_body ?W2 2 [97] ?t (LamportClock 2 3)) sample_cas_options A2 = Some (success (LamportClock 0 0), A3)"
    "AcceptCasOperator_operate ?W2 (accept_body ?W2 2 [97] [2] ?t (LamportClock 2 3)) sample_cas_options A3 = Some (success (LamportClock 0 0), A4)"
    "node_store 0 A4 = Some M" "map_ok M" "map_reading M 97 = Some (LamportClock 2 3, [2])" "\<not> conf_partitions (node_conf A4)" "node_logs A4 \<noteq> []"
    using votes_for_version [of A2 "LamportClock 2 3" 2 3 "only_from 1 (success (LamportClock 0 0))" "[2]"] cas_node_fields(3-6) [of 1 "[peer 2, peer 3]" 5] cas_node_fields(7) le(2) A2(2)
    by (auto simp: same_acceptor_def)
  obtain A5 where A5: "cas_commit ?W1 0 [97] [1] (LamportClock 1 6) A4 = Some (success (LamportClock 0 0), A5)"
    using commit_writes [OF A4(3,4), of ?W1 "[97]" _ _ "LamportClock 1 6" "[1]"] A4(5-7) le(3) by (auto simp: hash_97)
  obtain B1 where B1: "CasOperator_operate ?W2 (buildOperationBody (rb_args [[97], [7], [2]] (rb_operatorNumber OP_CAS (rb_builder 0)))) sample_cas_options
      (cas_node 2 [peer 1, peer 3] 2) = Some (success (LamportClock 0 0), B1)"
    using cas_with_one_vote [of 1 3 1 2 2 "[2]"] le(2) by auto
  show ?thesis
    unfolding Let_def using C A1(1) A2(1) A4(1,2) A5 B1 vote_is_quorum by (intro exI conjI)
qed

theorem acceptor_accepts_once_witness:
  "\<exists>n1 n3 n4. let W = cas_world (only_from 3 (success (LamportClock 0 0))) in
     AcceptCasOperator_operate W (accept_body W 1 [97] [1] (LamportClock 3 1) (LamportClock 1 6)) sample_cas_options
       (snd (the (PrepareCasOperator_operate W (prepare_body W 1 [97] (LamportClock 3 1) (LamportClock 1 6)) sample_cas_options
          (cas_node 3 [peer 1, peer 2] 1)))) = Some (success (LamportClock 0 0), n1) \<and>
     AcceptCasOperator_operate W (accept_body W 2 [97] [2] (LamportClock 3 1) (LamportClock 2 9)) sample_cas_options n1 = Some (error CAS_FAILED, n3) \<and>
     PrepareCasOperator_operate W (prepare_body W 2 [97] (LamportClock 3 1) (LamportClock 2 9)) sample_cas_options n1 = Some (error CAS_FAILED, n4)"
proof -
  let ?W = "cas_world (only_from 3 (success (LamportClock 0 0)))" and ?t = "LamportClock 3 1" and ?C = "cas_node 3 [peer 1, peer 2] 1"
  have lt: "?t < LamportClock 1 6" by (simp add: clock_less_iff)
  obtain C1 C2 where C: "PrepareCasOperator_operate ?W (prepare_body ?W 1 [97] ?t (LamportClock 1 6)) sample_cas_options ?C = Some (success (LamportClock 0 0), C1)"
    "AcceptCasOperator_operate ?W (accept_body ?W 1 [97] [1] ?t (LamportClock 1 6)) sample_cas_options C1 = Some (success (LamportClock 0 0), C2)"
    using votes_for_version [OF cas_node_fields(3,7,4,5) refl order.strict_implies_order [OF lt]] by blast
  have "stamped ?W (oo_partitionId sample_cas_options) [97] ?t ?C"
    using key_map by (auto simp: stamped_def sample_cas_options_def cas_node_fields(3) hash_97)
  then have st: "stamped ?W (oo_partitionId sample_cas_options) [97] ?t C1"
    by (rule acceptor_step_stamped [OF on_prepare [OF C(1) refl]])
  have ok: "isSuccessful (success (LamportClock 0 0))" by (simp add: success_def)
  show ?thesis
    using C acceptor_accepts_once [OF st peer_body_args(2) _ C(2) ok rtranclp.rtrancl_refl peer_body_args(2) order.refl peer_body_args(1) order.refl, of ?W 2 "[2]" "LamportClock 2 9" ?W 2 "LamportClock 2 9"]
      lt by (auto simp: Let_def)
qed

end
