(* ===== verification/Connection.thy ===== *)
theory Connection
  imports Byte_Codec
begin

text \<open>
  Framing of packets on a connection (\<^verbatim>\<open>server/Connection.cpp\<close>): headers, fragmentation of large packets and
  the reader that puts them together. The socket is the stream of bytes the other side will read;
  \<open>write_some\<close>, the number of bytes the socket takes of a buffer in an attempt, is a parameter. An asynchronous write
  is the buffers that are handed to the socket.
\<close>

section \<open>Writing\<close>

definition FRAGMENT_MIN_SIZE :: nat where
  "FRAGMENT_MIN_SIZE = 1024"

type_synonym socket_write = "nat \<Rightarrow> bytes \<Rightarrow> nat option"

definition addContentLengthHeader :: "bytes \<Rightarrow> memDbDataLength_t \<Rightarrow> bytes" where
  "addContentLengthHeader vec contentLength = appendBeginningToBuffer contentLength vec"

definition addNoFragmentationHeader :: "bytes \<Rightarrow> bytes" where
  "addNoFragmentationHeader vec = 0x00 # vec"

text \<open>Only the start and the size of the content change from one fragment to the next.\<close>

fun fragments_from :: "bytes \<Rightarrow> nat \<Rightarrow> nat list \<Rightarrow> nat \<Rightarrow> bytes list" where
  "fragments_from initialPacket nFragments [] start = []"
| "fragments_from initialPacket nFragments (i # is) start =
     (let lastPacket = (i + 1 \<ge> nFragments);
          contentSizeInFragment = (if lastPacket then length initialPacket mod FRAGMENT_MIN_SIZE else FRAGMENT_MIN_SIZE);
          fragmentedPacket = appendBeginningToBuffer (word_of_nat contentSizeInFragment :: memDbDataLength_t) [];
          fragmentedPacket = (if \<not> lastPacket then appendBeginningToBuffer (0x01 :: u8) fragmentedPacket else fragmentedPacket);
          fragmentedPacket = (if lastPacket then appendBeginningToBuffer (0x03 :: u8) fragmentedPacket else fragmentedPacket);
          fragmentedPacket = take 5 fragmentedPacket @ take contentSizeInFragment (drop start initialPacket) @ drop 5 fragmentedPacket
      in fragmentedPacket # fragments_from initialPacket nFragments is (if \<not> lastPacket then start + contentSizeInFragment else start))"

definition fragment_packets :: "bytes \<Rightarrow> bytes list" where
  "fragment_packets initialPacket =
     (let nFragments = length initialPacket div FRAGMENT_MIN_SIZE + (if length initialPacket mod FRAGMENT_MIN_SIZE = 0 then 0 else 1)
      in fragments_from initialPacket nFragments [0..<nFragments] 0)"

text \<open>
  Attempt \<open>t\<close> takes the first \<open>n\<close> bytes of a buffer, where \<open>write_some t b\<close> is \<open>Some n\<close>, and throws when it is
  \<open>None\<close>; the code sends no more of that buffer. The result is what the function returns and what
  reached the stream.
\<close>

fun send_fragments :: "socket_write \<Rightarrow> nat \<Rightarrow> bytes list \<Rightarrow> nat option \<times> bytes" where
  "send_fragments write_some t [] = (Some 0, [])"
| "send_fragments write_some t (b # bs) =
     (case write_some t b of
        None \<Rightarrow> (None, [])
      | Some n \<Rightarrow> (case send_fragments write_some (Suc t) bs of
                     (written, stream) \<Rightarrow> (map_option (\<lambda>w. n + w) written, take n b @ stream)))"

definition fragmentPacketAndSend :: "socket_write \<Rightarrow> bytes \<Rightarrow> nat option \<times> bytes" where
  "fragmentPacketAndSend write_some initialPacket = send_fragments write_some 0 (fragment_packets initialPacket)"

text \<open>When nothing was written the connection is opened again and the packet goes to the new socket.\<close>

definition writeSync :: "socket_write \<Rightarrow> bytes \<Rightarrow> nat option \<times> bytes" where
  "writeSync write_some toWrite =
     (if length toWrite < FRAGMENT_MIN_SIZE
      then let toWrite = addContentLengthHeader toWrite (word_of_nat (length toWrite));
               toWrite = addNoFragmentationHeader toWrite
        in case write_some 0 toWrite of
             None \<Rightarrow> (None, [])
           | Some written \<Rightarrow>
               if written = 0
               then (case write_some 1 toWrite of None \<Rightarrow> (None, []) | Some n \<Rightarrow> (Some n, take n toWrite))
               else (Some written, take written toWrite)
      else fragmentPacketAndSend write_some toWrite)"

text \<open>The buffers handed to \<^verbatim>\<open>async_write_some\<close>, in order. Nothing waits for the socket: how much of a buffer is
  transmitted is not looked at, and the vector behind it belongs to the caller, which may destroy it before the socket
  has taken its bytes. What arrives of these buffers is therefore not a result of this function.\<close>

definition writeAsync :: "bytes \<Rightarrow> bytes list" where
  "writeAsync toWrite =
     (if length toWrite < FRAGMENT_MIN_SIZE
      then let toWrite = addContentLengthHeader toWrite (word_of_nat (length toWrite));
               toWrite = addNoFragmentationHeader toWrite
        in [toWrite]
      else fragment_packets toWrite)"

section \<open>Reading\<close>

definition isFragmentPacket :: "u8 \<Rightarrow> bool" where
  "isFragmentPacket packetTypeHeader \<longleftrightarrow> packetTypeHeader AND 0x01 \<noteq> 0"

definition isLastFragmentPacket :: "u8 \<Rightarrow> bool" where
  "isLastFragmentPacket packetTypeHeader \<longleftrightarrow> packetTypeHeader AND 0x03 = 0x03"

text \<open>\<^verbatim>\<open>boost::asio::read\<close> fills the buffer or fails when the stream ends before.\<close>

definition readWithTimeout :: "nat \<Rightarrow> bytes \<Rightarrow> (bytes \<times> bytes) option" where
  "readWithTimeout n stream = (if n \<le> length stream then Some (take n stream, drop n stream) else None)"

lemma readWithTimeout_shorter: "readWithTimeout n stream = Some (b, rest) \<Longrightarrow> length rest + n = length stream"
  by (auto simp: readWithTimeout_def split: if_splits)

function readPacketContent :: "bytes \<Rightarrow> (bytes \<times> bytes) option" where
  "readPacketContent stream =
     (case readWithTimeout 4 stream of
        None \<Rightarrow> None
      | Some (messageLengthHeaderBuffer, stream) \<Rightarrow>
          (case (parse messageLengthHeaderBuffer :: memDbDataLength_t option) of
             None \<Rightarrow> None
           | Some packetLength \<Rightarrow>
               if packetLength = 0 then readPacketContent stream else readWithTimeout (unat packetLength) stream))"
  by pat_completeness auto

termination
  by (relation "measure length") (auto dest: readWithTimeout_shorter)

declare readPacketContent.simps [simp del]

lemma readPacketContent_shorter: "readPacketContent stream = Some (b, rest) \<Longrightarrow> length rest < length stream"
proof (induction stream rule: readPacketContent.induct)
  case (1 stream)
  show ?case
    using 1(2) 1(1)
    by (subst (asm) readPacketContent.simps)
      (fastforce dest: readWithTimeout_shorter split: option.split_asm prod.split_asm if_split_asm)
qed

function readFragmentedPacket :: "u8 \<Rightarrow> bytes \<Rightarrow> bytes \<Rightarrow> (bytes \<times> bytes) option" where
  "readFragmentedPacket typePacketHeader result stream =
     (case readPacketContent stream of
        None \<Rightarrow> None
      | Some (packet, stream) \<Rightarrow>
          if isLastFragmentPacket typePacketHeader then Some (result @ packet, stream)
          else (case readWithTimeout 1 stream of
                  None \<Rightarrow> None
                | Some (header, stream) \<Rightarrow> readFragmentedPacket (hd header) (result @ packet) stream))"
  by pat_completeness auto

termination
  by (relation "measure (\<lambda>(h, r, s). length s)") (auto dest!: readPacketContent_shorter readWithTimeout_shorter)

declare readFragmentedPacket.simps [simp del]

lemma readFragmentedPacket_shorter:
  "readFragmentedPacket h result stream = Some (b, rest) \<Longrightarrow> length rest < length stream"
proof (induction h result stream rule: readFragmentedPacket.induct)
  case (1 h result stream)
  show ?case
    using 1(2) 1(1)
    by (subst (asm) readFragmentedPacket.simps)
      (fastforce dest: readPacketContent_shorter readWithTimeout_shorter split: option.split_asm prod.split_asm if_split_asm)
qed

definition readPacket :: "u8 \<Rightarrow> bytes \<Rightarrow> (bytes \<times> bytes) option" where
  "readPacket packetType stream =
     (if isFragmentPacket packetType then readFragmentedPacket packetType [] stream else readPacketContent stream)"

definition readSync :: "bytes \<Rightarrow> (bytes \<times> bytes) option" where
  "readSync stream =
     (case readWithTimeout 1 stream of
        None \<Rightarrow> None
      | Some (typePacketHeader, stream) \<Rightarrow> readPacket (hd typePacketHeader) stream)"

lemma readSync_shorter: "readSync stream = Some (b, rest) \<Longrightarrow> length rest < length stream"
  by (auto simp: readSync_def readPacket_def split: option.split_asm if_split_asm
      dest!: readWithTimeout_shorter readPacketContent_shorter readFragmentedPacket_shorter)

text \<open>The packets the callback gets, in order, until the stream ends; after a failed read the stream is at its
  end.\<close>

function readAsync :: "bytes \<Rightarrow> bytes list" where
  "readAsync stream = (case readSync stream of None \<Rightarrow> [] | Some (packet, stream) \<Rightarrow> packet # readAsync stream)"
  by pat_completeness auto

termination
  by (relation "measure length") (auto dest: readSync_shorter)

declare readAsync.simps [simp del]

section \<open>Frames\<close>

text \<open>What is documented of \<^verbatim>\<open>write_some\<close>: it returns the number of bytes it wrote, which may be fewer than the
  buffer has. A socket that always takes the whole buffer is a special case.\<close>

definition takes_at_most :: "socket_write \<Rightarrow> bool" where
  "takes_at_most write_some \<longleftrightarrow> (\<forall>t b n. write_some t b = Some n \<longrightarrow> n \<le> length b)"

definition takes_whole_buffers :: "socket_write \<Rightarrow> bool" where
  "takes_whole_buffers write_some \<longleftrightarrow> (\<forall>t b. write_some t b = Some (length b))"

definition frame :: "u8 \<Rightarrow> bytes \<Rightarrow> bytes" where
  "frame flag content = flag # fromNumber (word_of_nat (length content) :: memDbDataLength_t) @ content"

lemma length_u32 [simp]: "length (fromNumber (w :: u32)) = 4"
  by (simp add: length_fromNumber sizeof_def)

lemma u8_byte [simp]: "fromNumber (w :: u8) = [w]"
  by (simp add: fromNumber_def sizeof_def byte_at_def)

text \<open>The frames of a packet, and a \<^verbatim>\<open>writeSync\<close> that reports as many bytes as they have.\<close>

definition packet_frames :: "bytes \<Rightarrow> bytes list" where
  "packet_frames p = (if length p < FRAGMENT_MIN_SIZE then [frame 0 p] else fragment_packets p)"

definition reports_all :: "socket_write \<Rightarrow> bytes \<Rightarrow> bool" where
  "reports_all write_some p \<longleftrightarrow> fst (writeSync write_some p) = Some (length (concat (packet_frames p)))"

lemma writeAsync_frames: "writeAsync p = packet_frames p"
  by (simp add: writeAsync_def packet_frames_def frame_def addContentLengthHeader_def addNoFragmentationHeader_def
      appendBeginningToBuffer_eq Let_def)

lemma send_fragments_complete:
  assumes "takes_at_most ws" and "send_fragments ws t bs = (Some w, out)"
  shows "w \<le> length (concat bs) \<and> (w = length (concat bs) \<longrightarrow> out = concat bs)"
  using assms(2)
proof (induction bs arbitrary: t w out)
  case (Cons b bs)
  obtain n where n: "ws t b = Some n" "n \<le> length b"
    using Cons.prems assms(1) by (auto simp: takes_at_most_def split: option.split_asm)
  obtain v out' where v: "send_fragments ws (Suc t) bs = (Some v, out')" "w = n + v" "out = take n b @ out'"
    using Cons.prems n(1) by (auto split: prod.split_asm)
  show ?case using Cons.IH [OF v(1)] n(2) v(2,3) by auto
qed simp

lemma writeSync_complete:
  assumes "takes_at_most ws" and "reports_all ws p"
  shows "writeSync ws p = (Some (length (concat (packet_frames p))), concat (packet_frames p))"
proof (cases "length p < FRAGMENT_MIN_SIZE")
  case True
  then show ?thesis
    using assms(2)
    by (auto simp: reports_all_def packet_frames_def writeSync_def frame_def addContentLengthHeader_def
        addNoFragmentationHeader_def appendBeginningToBuffer_eq Let_def split: option.split_asm if_split_asm)
next
  case False
  then have "fst (send_fragments ws 0 (packet_frames p)) = Some (length (concat (packet_frames p)))"
    using assms(2) by (simp add: reports_all_def packet_frames_def writeSync_def fragmentPacketAndSend_def)
  then show ?thesis
    using False send_fragments_complete [OF assms(1), of 0 "packet_frames p"]
    by (cases "send_fragments ws 0 (packet_frames p)")
      (simp add: packet_frames_def writeSync_def fragmentPacketAndSend_def)
qed

lemma send_fragments_whole:
  "takes_whole_buffers ws \<Longrightarrow> send_fragments ws t bs = (Some (length (concat bs)), concat bs)"
  by (induction bs arbitrary: t) (auto simp: takes_whole_buffers_def)

lemma writeSync_whole:
  assumes "takes_whole_buffers ws"
  shows "writeSync ws p =
    (if length p < FRAGMENT_MIN_SIZE then (Some (length (frame 0 p)), frame 0 p)
     else (Some (length (concat (fragment_packets p))), concat (fragment_packets p)))"
  using assms
  by (auto simp: writeSync_def fragmentPacketAndSend_def send_fragments_whole takes_whole_buffers_def frame_def
      addContentLengthHeader_def addNoFragmentationHeader_def appendBeginningToBuffer_eq Let_def)

lemma whole_buffers_complete:
  assumes "takes_whole_buffers ws"
  shows "takes_at_most ws" and "reports_all ws p"
  using assms writeSync_whole [OF assms, of p]
  by (auto simp: takes_whole_buffers_def takes_at_most_def reports_all_def packet_frames_def)

lemma readPacketContent_frame:
  assumes "c \<noteq> []" "length c < 2 ^ 32"
  shows "readPacketContent (fromNumber (word_of_nat (length c) :: u32) @ c @ s) = Some (c, s)"
proof -
  have "unat (word_of_nat (length c) :: u32) = length c" using assms by (simp add: unat_of_nat)
  moreover from this have "(word_of_nat (length c) :: u32) \<noteq> 0" using assms(1) by (metis length_0_conv unat_0)
  ultimately show ?thesis
    by (subst readPacketContent.simps) (simp add: readWithTimeout_def parse_fromNumber_alone)
qed

lemma readPacketContent_empty: "readPacketContent (fromNumber (0 :: u32) @ s) = readPacketContent s"
  by (subst readPacketContent.simps) (simp add: readWithTimeout_def parse_fromNumber_alone)

lemma readSync_unfragmented:
  assumes "c \<noteq> []" "length c < 2 ^ 32"
  shows "readSync (frame 0 c @ s) = Some (c, s)"
  using readPacketContent_frame [OF assms]
  by (simp add: readSync_def readWithTimeout_def frame_def readPacket_def isFragmentPacket_def)

section \<open>Fragments\<close>

lemma fragments_from_Cons:
  "fragments_from p n (i # is) start =
     (if i + 1 \<ge> n then frame 0x03 (take (length p mod 1024) (drop start p)) # fragments_from p n is start
      else frame 0x01 (take 1024 (drop start p)) # fragments_from p n is (start + 1024))"
  if "if i + 1 \<ge> n then length p mod 1024 \<le> length p - start else start + 1024 \<le> length p"
  using that
  by (auto simp: Let_def FRAGMENT_MIN_SIZE_def frame_def appendBeginningToBuffer_eq min_absorb2)

lemma fragment_step:
  "readFragmentedPacket h acc (fromNumber (word_of_nat (length c) :: u32) @ c @ s) =
     (if isLastFragmentPacket h then Some (acc @ c, s)
      else (case s of [] \<Rightarrow> None | h' # s' \<Rightarrow> readFragmentedPacket h' (acc @ c) s'))"
  if "c \<noteq> []" "length c < 2 ^ 32"
  using readPacketContent_frame [OF that]
  by (subst readFragmentedPacket.simps) (auto simp: readWithTimeout_def split: list.split)

definition chunk :: "bytes \<Rightarrow> nat \<Rightarrow> bytes" where
  "chunk p j = take 1024 (drop (j * 1024) p)"

lemma concat_chunks: "m * 1024 \<le> length p \<Longrightarrow> concat (map (chunk p) [0..<m]) = take (m * 1024) p"
proof (induction m)
  case (Suc m)
  have "take (Suc m * 1024) p = take (m * 1024) p @ chunk p m"
    by (simp add: chunk_def take_add [symmetric] add.commute)
  then show ?case using Suc by simp
qed simp

lemma length_chunk: "(j + 1) * 1024 \<le> length p \<Longrightarrow> length (chunk p j) = 1024"
  by (simp add: chunk_def)

lemma fragments_from_chunks:
  assumes "m * 1024 + length p mod 1024 \<le> length p" "i \<le> m"
  shows "fragments_from p (Suc m) [i..<Suc m] (i * 1024) =
    map (\<lambda>j. frame 0x01 (chunk p j)) [i..<m] @ [frame 0x03 (take (length p mod 1024) (drop (m * 1024) p))]"
  using assms(2)
proof (induction "m - i" arbitrary: i)
  case 0
  then have "i = m" by simp
  then show ?case using assms(1) by (simp add: fragments_from_Cons del: fragments_from.simps(2))
next
  case (Suc k)
  then have i: "i < m" by simp
  have "Suc i * 1024 \<le> m * 1024" using i by (intro mult_le_mono1) simp
  then have fits: "i * 1024 + 1024 \<le> length p" using assms(1) by simp
  have "fragments_from p (Suc m) [Suc i..<Suc m] (Suc i * 1024) =
      map (\<lambda>j. frame 0x01 (chunk p j)) [Suc i..<m] @ [frame 0x03 (take (length p mod 1024) (drop (m * 1024) p))]"
    using Suc.hyps(1) [of "Suc i"] Suc.hyps(2) i by simp
  then show ?case
    using i fits
    by (simp add: fragments_from_Cons upt_conv_Cons [of i] chunk_def add.commute del: fragments_from.simps(2) upt_Suc)
qed

lemma read_chunks:
  assumes "\<forall>c \<in> set cs. c \<noteq> [] \<and> length c < 2 ^ 32"
  shows "concat (map (frame 0x01) cs) @ frame 0x03 l @ s = h # rest \<Longrightarrow>
    isFragmentPacket h \<and> readFragmentedPacket h acc rest =
      map_option (\<lambda>(c, s'). (acc @ concat cs @ c, s')) (readPacketContent (tl (frame 0x03 l) @ s))"
  using assms
proof (induction cs arbitrary: h rest acc)
  case Nil
  then show ?case
    by (subst readFragmentedPacket.simps)
      (auto simp: frame_def isFragmentPacket_def isLastFragmentPacket_def split: option.split)
next
  case (Cons c cs)
  define tail where "tail = concat (map (frame 0x01) cs) @ frame 0x03 l @ s"
  have "tail \<noteq> []" by (simp add: tail_def frame_def)
  then obtain h' rest' where t: "tail = h' # rest'" by (cases tail) auto
  have h: "h = 0x01" and rest: "rest = fromNumber (word_of_nat (length c) :: u32) @ c @ tail"
    using Cons.prems(1) by (auto simp: frame_def [of _ c] tail_def)
  have c: "c \<noteq> []" "length c < 2 ^ 32" using Cons.prems(2) by auto
  show ?case
    using Cons.IH [of h' rest' "acc @ c", folded tail_def, OF t] Cons.prems(2)
    by (simp add: rest h fragment_step [OF c] t isFragmentPacket_def isLastFragmentPacket_def)
qed

lemma readSync_fragments:
  assumes "m * 1024 + length p mod 1024 \<le> length p"
  shows "readSync (concat (fragments_from p (Suc m) [0..<Suc m] 0) @ s) =
    map_option (\<lambda>(c, s'). (take (m * 1024) p @ c, s'))
      (readPacketContent (tl (frame 0x03 (take (length p mod 1024) (drop (m * 1024) p))) @ s))"
proof -
  let ?cs = "map (chunk p) [0..<m]" and ?l = "take (length p mod 1024) (drop (m * 1024) p)"
  have bytes: "concat (fragments_from p (Suc m) [0..<Suc m] 0) @ s = concat (map (frame 0x01) ?cs) @ frame 0x03 ?l @ s"
    using fragments_from_chunks [OF assms, of 0] by (simp add: o_def del: upt_Suc)
  have "(j + 1) * 1024 \<le> length p" if "j < m" for j
    using assms mult_le_mono1 [of "j + 1" m 1024] that by simp
  then have "\<forall>c \<in> set ?cs. length c = 1024" by (auto intro: length_chunk)
  then have cs: "\<forall>c \<in> set ?cs. c \<noteq> [] \<and> length c < 2 ^ 32" by fastforce
  have "concat (map (frame 0x01) ?cs) @ frame 0x03 ?l @ s \<noteq> []" by (simp add: frame_def)
  then obtain h rest where hr: "concat (map (frame 0x01) ?cs) @ frame 0x03 ?l @ s = h # rest"
    by (meson neq_Nil_conv)
  have "concat ?cs = take (m * 1024) p" using assms by (intro concat_chunks) simp
  then show ?thesis
    using read_chunks [OF cs hr, of "[]"] unfolding bytes hr by (simp add: readSync_def readWithTimeout_def readPacket_def)
qed

lemma readSync_large_packet:
  assumes "length p mod 1024 \<noteq> 0"
  shows "readSync (concat (fragment_packets p) @ s) = Some (p, s)"
proof -
  let ?m = "length p div 1024" and ?l = "drop (length p div 1024 * 1024) p"
  have len: "length ?l = length p mod 1024" by (simp add: minus_div_mult_eq_mod)
  have l: "?l \<noteq> []" using assms len by (metis length_0_conv)
  have small: "length ?l < 2 ^ 32" unfolding len by (rule less_trans [of _ 1024]) simp_all
  have all: "take (length p mod 1024) ?l = ?l" using len by simp
  have "readPacketContent (tl (frame 0x03 ?l) @ s) = Some (?l, s)"
    using readPacketContent_frame [OF l small] by (simp add: frame_def)
  then show ?thesis
    using readSync_fragments [of ?m p s] assms all
    by (simp add: fragment_packets_def FRAGMENT_MIN_SIZE_def del: upt_Suc)
qed

lemma readSync_frames:
  assumes "\<not> FRAGMENT_MIN_SIZE dvd length p"
  shows "readSync (concat (packet_frames p) @ s) = Some (p, s)"
proof (cases "length p < FRAGMENT_MIN_SIZE")
  case True
  then have "p \<noteq> []" "length p < 2 ^ 32" using assms by (auto simp: FRAGMENT_MIN_SIZE_def)
  then show ?thesis using True by (simp add: packet_frames_def readSync_unfragmented)
next
  case False
  moreover have "length p mod 1024 \<noteq> 0" using assms by (simp add: FRAGMENT_MIN_SIZE_def dvd_eq_mod_eq_0)
  ultimately show ?thesis by (simp add: packet_frames_def readSync_large_packet)
qed

lemma readAsync_frames:
  assumes "\<not> FRAGMENT_MIN_SIZE dvd length p"
  shows "readAsync (concat (packet_frames p)) = [p]"
  using readSync_frames [OF assms, of "[]"]
  by (simp add: readAsync.simps) (simp add: readSync_def readWithTimeout_def)

section \<open>Packets across a connection\<close>

text \<open>C17. Framing round trip: packets are written one after another on a connection, small ones and fragmented ones,
  each with whatever the socket does in its attempts. When each \<^verbatim>\<open>writeSync\<close> returns the number of bytes of the
  packet and its headers, the other side hands the packets to the request callback unchanged and in order, provided no size is
  a multiple of the fragment size. Of the socket only the documented bound is used: it takes at most the buffer.\<close>

theorem packets_delivered_in_order:
  assumes "\<forall>(ws, p) \<in> set writes. takes_at_most ws \<and> reports_all ws p \<and> \<not> FRAGMENT_MIN_SIZE dvd length p"
  shows "readAsync (concat (map (\<lambda>(ws, p). snd (writeSync ws p)) writes)) = map snd writes"
  using assms
proof (induction writes)
  case Nil
  then show ?case by (simp add: readAsync.simps readSync_def readWithTimeout_def)
next
  case (Cons w writes)
  then show ?case by (subst readAsync.simps) (auto simp: writeSync_complete readSync_frames)
qed

text \<open>The first socket takes nothing in its first attempt and the whole packet after the connection was opened again;
  the second takes every buffer at once.\<close>

theorem packets_delivered_in_order_witness:
  "readAsync (snd (writeSync (\<lambda>t b. Some (if t = 0 then 0 else min (length b) 8)) [1, 2, 3]) @
     snd (writeSync (\<lambda>t b. Some (min (length b) 4000)) (replicate 3000 7))) = [[1, 2, 3], replicate 3000 7]"
proof -
  let ?first = "\<lambda>t b. Some (if t = (0 :: nat) then 0 else min (length (b :: bytes)) 8)"
    and ?second = "\<lambda>(t :: nat) b. Some (min (length (b :: bytes)) 4000)"
  have bound: "takes_at_most ?first" "takes_at_most ?second" by (auto simp: takes_at_most_def)
  have "reports_all ?first [1, 2, 3]"
    by (simp add: reports_all_def packet_frames_def writeSync_def FRAGMENT_MIN_SIZE_def frame_def addContentLengthHeader_def
        addNoFragmentationHeader_def appendBeginningToBuffer_eq)
  moreover have "reports_all ?second (replicate 3000 7)"
  proof -
    have short: "\<forall>b \<in> set bs. length b \<le> 4000 \<Longrightarrow> fst (send_fragments ?second t bs) = Some (length (concat bs))" for t bs
      by (induction bs arbitrary: t) (auto simp: split_beta min_absorb1)
    have "\<forall>b \<in> set (fragment_packets (replicate 3000 7)). length b \<le> 4000"
      by (simp add: fragment_packets_def FRAGMENT_MIN_SIZE_def upt_rec appendBeginningToBuffer_eq Let_def)
    then show ?thesis
      using short by (simp add: reports_all_def packet_frames_def writeSync_def fragmentPacketAndSend_def FRAGMENT_MIN_SIZE_def)
  qed
  ultimately show ?thesis
    using packets_delivered_in_order [of "[(?first, [1, 2, 3]), (?second, replicate 3000 7)]"] bound
    by (simp add: FRAGMENT_MIN_SIZE_def dvd_eq_mod_eq_0)
qed

text \<open>C37. A packet whose size is a positive multiple of 1024 is never delivered: the last fragment is sent with
  size 0, so its 1024 bytes do not leave the sender, and the reader takes the size 0 for an empty header.\<close>

theorem whole_fragments_packet_lost:
  assumes "takes_whole_buffers ws" "0 < k" "length p = k * FRAGMENT_MIN_SIZE"
  shows "length (snd (writeSync ws p)) = 5 * k + (k - 1) * FRAGMENT_MIN_SIZE \<and> readAsync (snd (writeSync ws p)) = []"
proof -
  obtain m where k: "k = Suc m" using assms(2) by (cases k) auto
  have m: "m * 1024 + length p mod 1024 \<le> length p" and md: "length p mod 1024 = 0"
    using assms(3) by (auto simp: k FRAGMENT_MIN_SIZE_def)
  have sent: "snd (writeSync ws p) = concat (fragments_from p (Suc m) [0..<Suc m] 0)"
    using assms(3) by (simp add: writeSync_whole [OF assms(1)] fragment_packets_def FRAGMENT_MIN_SIZE_def k del: upt_Suc)
  have "readSync (snd (writeSync ws p)) = None"
    using readSync_fragments [OF m, of "[]"] readPacketContent_empty [of "[]"]
    by (simp add: sent md frame_def readPacketContent.simps [of "[]"] readWithTimeout_def del: upt_Suc)
  moreover have "(j + 1) * 1024 \<le> length p" if "j < m" for j
    using m mult_le_mono1 [of "j + 1" m 1024] that by simp
  then have "map (\<lambda>j. length (frame 0x01 (chunk p j))) [0..<m] = map (\<lambda>_. 1029) [0..<m]"
    by (intro map_cong) (simp_all add: frame_def length_chunk)
  then have "length (snd (writeSync ws p)) = 5 * k + (k - 1) * FRAGMENT_MIN_SIZE"
    using fragments_from_chunks [OF m, of 0]
    by (simp add: sent md length_concat o_def frame_def k FRAGMENT_MIN_SIZE_def map_replicate_const sum_list_replicate del: upt_Suc)
  ultimately show ?thesis by (simp add: readAsync.simps)
qed

theorem whole_fragments_packet_lost_witness:
  "length (snd (writeSync (\<lambda>t b. Some (length b)) (replicate 2048 7))) = 1034 \<and>
   readAsync (snd (writeSync (\<lambda>t b. Some (length b)) (replicate 2048 7))) = []"
  using whole_fragments_packet_lost [of "\<lambda>t b. Some (length b)" 2 "replicate 2048 7"]
  by (simp add: takes_whole_buffers_def FRAGMENT_MIN_SIZE_def)

end
