(* ===== verification/Blocking_Queue.thy ===== *)
theory Blocking_Queue
  imports Memdb_Prelude
begin

text \<open>
  The linked queue of tasks (\<^verbatim>\<open>utils/datastructures/queue/BlockingQueue.h\<close>). The nodes a queue has allocated are a
  list and a pointer is an index into it; following a null or foreign pointer is undefined (\<^term>\<open>None\<close>). Each operation
  runs under the mutex of the queue and is one step.
\<close>

section \<open>Nodes and operations\<close>

record 'a BlockingQueueNode =
  node_next :: "nat option"
  node_prev :: "nat option"
  node_value :: 'a

text \<open>The size, an \<^verbatim>\<open>int\<close> in the code, is a number without bound: it counts the elements in the queue.\<close>

record 'a BlockingQueue =
  bq_nodes :: "'a BlockingQueueNode list"
  bq_head :: "nat option"
  bq_tail :: "nat option"
  bq_stop :: bool
  bq_size :: int

text \<open>\<^verbatim>\<open>std::make_shared\<close> initialises the members with zeros.\<close>

definition new_BlockingQueue :: "'a BlockingQueue" where
  "new_BlockingQueue = \<lparr>bq_nodes = [], bq_head = None, bq_tail = None, bq_stop = False, bq_size = 0\<rparr>"

definition link_prev :: "'a BlockingQueueNode list \<Rightarrow> nat option \<Rightarrow> nat \<Rightarrow> 'a BlockingQueueNode list option" where
  "link_prev nodes ref new =
     (case ref of
        None \<Rightarrow> None
      | Some i \<Rightarrow> if i < length nodes then Some (nodes[i := (nodes ! i)\<lparr>node_prev := Some new\<rparr>]) else None)"

definition bq_enqueue :: "'a \<Rightarrow> 'a BlockingQueue \<Rightarrow> 'a BlockingQueue option" where
  "bq_enqueue data q =
     (let newNode = length (bq_nodes q);
          alloc = (\<lambda>nx. \<lparr>node_next = nx, node_prev = None, node_value = data\<rparr>)
      in if bq_size q = 0
         then Some (q\<lparr>bq_nodes := bq_nodes q @ [alloc None], bq_head := Some newNode, bq_tail := Some newNode,
                      bq_size := bq_size q + 1\<rparr>)
         else if bq_size q = 1
         then do {nodes \<leftarrow> link_prev (bq_nodes q) (bq_head q) newNode;
                  Some (q\<lparr>bq_nodes := nodes @ [alloc (bq_head q)], bq_tail := Some newNode, bq_size := bq_size q + 1\<rparr>)}
         else do {nodes \<leftarrow> link_prev (bq_nodes q) (bq_tail q) newNode;
                  Some (q\<lparr>bq_nodes := nodes @ [alloc (bq_tail q)], bq_tail := Some newNode, bq_size := bq_size q + 1\<rparr>)})"

definition stopNow :: "'a BlockingQueue \<Rightarrow> 'a BlockingQueue" where
  "stopNow q = (if bq_size q = 0 then q\<lparr>bq_stop := True\<rparr> else q)"

datatype 'a dequeued = Waits | InterruptedQueue | Dequeued 'a "'a BlockingQueue"

definition bq_dequeue :: "'a BlockingQueue \<Rightarrow> 'a dequeued option" where
  "bq_dequeue q =
     (if \<not> (bq_size q > 0 \<or> bq_stop q) then Some Waits
      else if bq_stop q \<and> bq_size q = 0 then Some InterruptedQueue
      else case bq_head q of
             None \<Rightarrow> None
           | Some h \<Rightarrow>
               if h < length (bq_nodes q)
               then Some (Dequeued (node_value (bq_nodes q ! h))
                            (q\<lparr>bq_head := node_prev (bq_nodes q ! h), bq_size := bq_size q - 1\<rparr>))
               else None)"

definition bq_getSize :: "'a BlockingQueue \<Rightarrow> int" where
  "bq_getSize q = bq_size q"

section \<open>Contents and invariant\<close>

text \<open>
  The queued nodes are the last ones allocated: from the head on, each points with \<open>prev\<close> to the one allocated next,
  and the tail is the last.
\<close>

definition bq_first :: "'a BlockingQueue \<Rightarrow> nat" where
  "bq_first q = length (bq_nodes q) - nat (bq_size q)"

definition bq_contents :: "'a BlockingQueue \<Rightarrow> 'a list" where
  "bq_contents q = map node_value (drop (bq_first q) (bq_nodes q))"

definition bq_wf :: "'a BlockingQueue \<Rightarrow> bool" where
  "bq_wf q \<longleftrightarrow>
     0 \<le> bq_size q \<and> bq_size q \<le> int (length (bq_nodes q)) \<and>
     (0 < bq_size q \<longrightarrow> bq_head q = Some (bq_first q) \<and> bq_tail q = Some (length (bq_nodes q) - 1)) \<and>
     (\<forall>i < length (bq_nodes q). bq_first q \<le> i \<longrightarrow>
        node_prev (bq_nodes q ! i) = (if i + 1 < length (bq_nodes q) then Some (i + 1) else None))"

lemma bq_new [simp]: "bq_wf new_BlockingQueue" "bq_contents new_BlockingQueue = []"
  by (simp_all add: bq_wf_def new_BlockingQueue_def bq_contents_def bq_first_def)

lemma bq_size_contents: "bq_wf q \<Longrightarrow> bq_size q = int (length (bq_contents q))"
  by (auto simp: bq_wf_def bq_contents_def bq_first_def)

text \<open>Both linking branches write the \<open>prev\<close> of the node allocated last.\<close>

lemma bq_enqueue_nonempty:
  assumes "bq_wf q" "0 < bq_size q"
  shows "bq_enqueue x q =
    (let n = length (bq_nodes q)
     in Some (q\<lparr>bq_nodes := (bq_nodes q)[n - 1 := (bq_nodes q ! (n - 1))\<lparr>node_prev := Some n\<rparr>]
                              @ [\<lparr>node_next = Some (n - 1), node_prev = None, node_value = x\<rparr>],
                bq_tail := Some n, bq_size := bq_size q + 1\<rparr>))"
proof -
  have "bq_size q = 1 \<Longrightarrow> bq_first q = length (bq_nodes q) - 1" by (simp add: bq_first_def)
  then show ?thesis using assms by (auto simp: bq_enqueue_def bq_wf_def link_prev_def Let_def)
qed

lemma bq_enqueue_spec:
  assumes "bq_wf q"
  shows "\<exists>q'. bq_enqueue x q = Some q' \<and> bq_wf q' \<and> bq_contents q' = bq_contents q @ [x] \<and> bq_stop q' = bq_stop q"
proof (cases "bq_size q = 0")
  case True
  then show ?thesis by (auto simp: bq_enqueue_def bq_wf_def bq_contents_def bq_first_def Let_def nth_append)
next
  case False
  then have pos: "0 < bq_size q" using assms by (simp add: bq_wf_def)
  let ?n = "length (bq_nodes q)"
  let ?ns = "(bq_nodes q)[?n - 1 := (bq_nodes q ! (?n - 1))\<lparr>node_prev := Some ?n\<rparr>]"
  have le: "bq_size q \<le> int ?n" using assms by (simp add: bq_wf_def)
  have n: "0 < ?n" using pos le by linarith
  have first: "?n + 1 - nat (bq_size q + 1) = bq_first q" "bq_first q < ?n"
    using pos le by (auto simp: bq_first_def nat_add_distrib)
  have vals: "map node_value ?ns = map node_value (bq_nodes q)"
    by (rule nth_equalityI) (auto simp: nth_list_update)
  then have contents: "map node_value (drop (bq_first q) ?ns) = bq_contents q"
    by (simp add: bq_contents_def flip: drop_map)
  have linked: "\<forall>i < ?n. bq_first q \<le> i \<longrightarrow> node_prev (?ns ! i) = Some (i + 1)"
  proof (intro allI impI)
    fix i assume "i < ?n" "bq_first q \<le> i"
    then show "node_prev (?ns ! i) = Some (i + 1)"
      using assms by (cases "i = ?n - 1") (auto simp: bq_wf_def)
  qed
  have old: "\<forall>i. Suc i < ?n \<longrightarrow> bq_first q \<le> i \<longrightarrow> node_prev (bq_nodes q ! i) = Some (Suc i)"
    using assms by (auto simp: bq_wf_def)
  define q' where "q' = q\<lparr>bq_nodes := ?ns @ [\<lparr>node_next = Some (?n - 1), node_prev = None, node_value = x\<rparr>],
                          bq_tail := Some ?n, bq_size := bq_size q + 1\<rparr>"
  have q': "bq_enqueue x q = Some q'" by (simp add: q'_def bq_enqueue_nonempty [OF assms pos] Let_def)
  have f: "bq_first q' = bq_first q" using first(1) unfolding bq_first_def [of q'] by (simp add: q'_def)
  have "bq_contents q' = bq_contents q @ [x]"
    using contents first(2) unfolding bq_contents_def [of q'] f by (simp add: q'_def)
  moreover have "bq_head q' = Some (bq_first q)" using assms pos by (simp add: q'_def bq_wf_def)
  then have "bq_wf q'"
    using pos le linked old by (simp add: bq_wf_def f) (auto simp: q'_def nth_append less_Suc_eq)
  moreover have "bq_stop q' = bq_stop q" by (simp add: q'_def)
  ultimately show ?thesis using q' by blast
qed

lemma bq_dequeue_spec:
  assumes "bq_wf q"
  shows "bq_dequeue q =
    (case bq_contents q of
       [] \<Rightarrow> Some (if bq_stop q then InterruptedQueue else Waits)
     | x # xs \<Rightarrow> Some (Dequeued x (q\<lparr>bq_head := node_prev (bq_nodes q ! bq_first q), bq_size := bq_size q - 1\<rparr>)))"
  (is "_ = ?rhs")
proof (cases "bq_contents q")
  case Nil
  then show ?thesis using bq_size_contents [OF assms] by (simp add: bq_dequeue_def)
next
  case (Cons x xs)
  then have pos: "0 < bq_size q" using bq_size_contents [OF assms] by simp
  then have lt: "bq_first q < length (bq_nodes q)" using assms by (auto simp: bq_first_def bq_wf_def)
  have "x = node_value (bq_nodes q ! bq_first q)"
    using Cons lt by (simp add: bq_contents_def Cons_nth_drop_Suc [symmetric])
  then show ?thesis using pos lt Cons assms by (simp add: bq_dequeue_def bq_wf_def)
qed

lemma bq_dequeue_rest:
  assumes "bq_wf q" "bq_contents q = x # xs"
  shows "bq_wf (q\<lparr>bq_head := node_prev (bq_nodes q ! bq_first q), bq_size := bq_size q - 1\<rparr>) \<and>
    bq_contents (q\<lparr>bq_head := node_prev (bq_nodes q ! bq_first q), bq_size := bq_size q - 1\<rparr>) = xs"
proof -
  have pos: "0 < bq_size q" using bq_size_contents [OF assms(1)] assms(2) by simp
  have lt: "bq_first q < length (bq_nodes q)" using assms(1) pos by (auto simp: bq_first_def bq_wf_def)
  have first: "length (bq_nodes q) - nat (bq_size q - 1) = Suc (bq_first q)"
    using assms(1) pos by (auto simp: bq_first_def bq_wf_def)
  have "map node_value (drop (Suc (bq_first q)) (bq_nodes q)) = xs"
    using assms(2) lt by (simp add: bq_contents_def Cons_nth_drop_Suc [symmetric])
  then show ?thesis
    using assms(1) pos lt first
    by (auto simp: bq_wf_def bq_contents_def [of "_\<lparr>bq_size := _\<rparr>"] bq_first_def [of "_\<lparr>bq_size := _\<rparr>"])
qed

section \<open>The queue as a first-in first-out queue\<close>

locale fifo_queue =
  fixes wf :: "'q \<Rightarrow> bool" and contents :: "'q \<Rightarrow> 'a list"
    and enq :: "'a \<Rightarrow> 'q \<Rightarrow> 'q option" and deq :: "'q \<Rightarrow> ('a \<times> 'q) option"
  assumes enq_ok: "wf q \<Longrightarrow> \<exists>q'. enq x q = Some q' \<and> wf q' \<and> contents q' = contents q @ [x]"
    and deq_empty: "wf q \<Longrightarrow> contents q = [] \<Longrightarrow> deq q = None"
    and deq_front: "wf q \<Longrightarrow> contents q = x # xs \<Longrightarrow> \<exists>q'. deq q = Some (x, q') \<and> wf q' \<and> contents q' = xs"
begin

lemma enq_contents: "wf q \<Longrightarrow> enq x q = Some q' \<Longrightarrow> wf q' \<and> contents q' = contents q @ [x]"
  using enq_ok [of q x] by auto

lemma deq_contents: "wf q \<Longrightarrow> deq q = Some (x, q') \<Longrightarrow> wf q' \<and> contents q = x # contents q'"
  using deq_empty [of q] deq_front [of q] by (cases "contents q") force+

lemma deq_enabled: "wf q \<Longrightarrow> contents q \<noteq> [] \<Longrightarrow> \<exists>x q'. deq q = Some (x, q')"
  using deq_front [of q] by (cases "contents q") fastforce+

end

definition bq_take :: "'a BlockingQueue \<Rightarrow> ('a \<times> 'a BlockingQueue) option" where
  "bq_take q = (case bq_dequeue q of Some (Dequeued x q') \<Rightarrow> Some (x, q') | _ \<Rightarrow> None)"

lemma bq_take_iff: "bq_take q = Some (x, q') \<longleftrightarrow> bq_dequeue q = Some (Dequeued x q')"
  by (auto simp: bq_take_def split: option.split dequeued.split)

interpretation bq: fifo_queue bq_wf bq_contents bq_enqueue bq_take
proof unfold_locales
  show "\<exists>q'. bq_enqueue x q = Some q' \<and> bq_wf q' \<and> bq_contents q' = bq_contents q @ [x]"
    if "bq_wf q" for q :: "'a BlockingQueue" and x
    using bq_enqueue_spec [OF that] by blast
  show "bq_take q = None" if "bq_wf q" "bq_contents q = []" for q :: "'a BlockingQueue"
    using bq_dequeue_spec [OF that(1)] that(2) by (simp add: bq_take_def)
  show "\<exists>q'. bq_take q = Some (x, q') \<and> bq_wf q' \<and> bq_contents q' = xs"
    if "bq_wf q" "bq_contents q = x # xs" for q :: "'a BlockingQueue" and x xs
    using bq_dequeue_spec [OF that(1)] bq_dequeue_rest [OF that] that(2) by (simp add: bq_take_def)
qed

lemma bq_stop_take: "bq_dequeue q = Some (Dequeued x q') \<Longrightarrow> bq_stop q' = bq_stop q"
  by (auto simp: bq_dequeue_def split: if_splits option.splits)

lemma bq_stop_enqueue: "bq_wf q \<Longrightarrow> bq_enqueue x q = Some q' \<Longrightarrow> bq_stop q' = bq_stop q"
  using bq_enqueue_spec [of q x] by auto

lemma stopNow_keeps [simp]:
  "bq_wf (stopNow q) = bq_wf q" "bq_contents (stopNow q) = bq_contents q"
  by (simp_all add: stopNow_def bq_wf_def bq_contents_def bq_first_def)

lemma bq_stop_stopNow: "bq_wf q \<Longrightarrow> bq_stop (stopNow q) \<longleftrightarrow> bq_stop q \<or> bq_contents q = []"
  by (simp add: stopNow_def bq_size_contents)

end
