(* ===== verification/Worker_Pool.thy ===== *)
theory Worker_Pool
  imports Blocking_Queue Byte_Codec
begin

text \<open>
  Workers and thread pools (\<^verbatim>\<open>utils/threads/pool/Worker.cpp\<close>, \<^verbatim>\<open>utils/threads/pool/ThreadPool.cpp\<close>). A worker owns a
  queue; its thread polls it while other threads submit tasks and stop it. The threads interleave between the accesses to
  shared memory, and the order in which tasks entered the queue and were run is recorded.
\<close>

section \<open>A worker\<close>

datatype 'a poll_pc = Checking | Dequeuing | Running 'a | Returned

record 'a Worker =
  pendingTasks :: "'a BlockingQueue"
  isStopped :: bool
  poll_at :: "'a poll_pc"
  accepted :: "'a list"
  executed :: "'a list"

definition new_Worker :: "'a Worker" where
  "new_Worker = \<lparr>pendingTasks = new_BlockingQueue, isStopped = False, poll_at = Checking, accepted = [], executed = []\<rparr>"

text \<open>
  One turn of \<^verbatim>\<open>pollPendingTasks\<close> takes up to three steps; it cannot step while it waits for a task or when it has
  returned. \<open>isStopped\<close> is never reset, so reading it and the size is one step.
\<close>

definition pollPendingTasks :: "'a Worker \<Rightarrow> 'a Worker option" where
  "pollPendingTasks w =
     (case poll_at w of
        Checking \<Rightarrow>
          if isStopped w \<and> bq_getSize (pendingTasks w) = 0 then Some (w\<lparr>poll_at := Returned\<rparr>)
          else Some (w\<lparr>poll_at := Dequeuing\<rparr>)
      | Dequeuing \<Rightarrow>
          (case bq_dequeue (pendingTasks w) of
             Some (Dequeued task q) \<Rightarrow> Some (w\<lparr>pendingTasks := q, poll_at := Running task\<rparr>)
           | Some InterruptedQueue \<Rightarrow> Some (w\<lparr>poll_at := Checking\<rparr>)
           | _ \<Rightarrow> None)
      | Running task \<Rightarrow> Some (w\<lparr>poll_at := Checking, executed := executed w @ [task]\<rparr>)
      | Returned \<Rightarrow> None)"

text \<open>\<^verbatim>\<open>Worker::enqueue\<close> reads \<open>isStopped\<close> first and puts the task in the queue afterwards.\<close>

definition put_task :: "'a \<Rightarrow> 'a Worker \<Rightarrow> 'a Worker option" where
  "put_task task w = do {q \<leftarrow> bq_enqueue task (pendingTasks w); Some (w\<lparr>pendingTasks := q, accepted := accepted w @ [task]\<rparr>)}"

definition worker_enqueue :: "'a \<Rightarrow> 'a Worker \<Rightarrow> (bool \<times> 'a Worker) option" where
  "worker_enqueue task w =
     (if isStopped w then Some (False, w) else do {w \<leftarrow> put_task task w; Some (True, w)})"

definition stop_flag :: "'a Worker \<Rightarrow> 'a Worker" where
  "stop_flag w = w\<lparr>isStopped := True\<rparr>"

definition stop_queue :: "'a Worker \<Rightarrow> 'a Worker" where
  "stop_queue w = w\<lparr>pendingTasks := stopNow (pendingTasks w)\<rparr>"

definition worker_stop :: "'a Worker \<Rightarrow> 'a Worker" where
  "worker_stop w = stop_queue (stop_flag w)"

section \<open>Threads around a worker\<close>

text \<open>
  \<open>entering\<close> are the tasks whose callers found the worker running and have not put them in the queue yet, \<open>stopping\<close> counts
  the callers of \<^verbatim>\<open>stop\<close> that have set the flag only, and \<open>stop_returned\<close> says that a call of \<^verbatim>\<open>stop\<close> has returned.
\<close>

record 'a worker_threads =
  the_worker :: "'a Worker"
  entering :: "'a list"
  stopping :: nat
  stop_returned :: bool

definition threads_start :: "'a worker_threads" where
  "threads_start = \<lparr>the_worker = new_Worker, entering = [], stopping = 0, stop_returned = False\<rparr>"

inductive worker_step :: "'a worker_threads \<Rightarrow> 'a worker_threads \<Rightarrow> bool" where
  enter: "\<not> isStopped (the_worker s) \<Longrightarrow> worker_step s (s\<lparr>entering := task # entering s\<rparr>)"
| put: "put_task task (the_worker s) = Some w \<Longrightarrow> entering s = ts @ task # us \<Longrightarrow>
    worker_step s (s\<lparr>the_worker := w, entering := ts @ us\<rparr>)"
| stop_call: "worker_step s (s\<lparr>the_worker := stop_flag (the_worker s), stopping := stopping s + 1\<rparr>)"
| stop_return: "0 < stopping s \<Longrightarrow>
    worker_step s (s\<lparr>the_worker := stop_queue (the_worker s), stopping := stopping s - 1, stop_returned := True\<rparr>)"
| poll: "pollPendingTasks (the_worker s) = Some w \<Longrightarrow> worker_step s (s\<lparr>the_worker := w\<rparr>)"

definition reachable_threads :: "'a worker_threads \<Rightarrow> bool" where
  "reachable_threads s \<longleftrightarrow> worker_step\<^sup>*\<^sup>* threads_start s"

section \<open>Order of execution\<close>

fun running_task :: "'a poll_pc \<Rightarrow> 'a list" where
  "running_task (Running task) = [task]"
| "running_task _ = []"

definition worker_ok :: "'a Worker \<Rightarrow> bool" where
  "worker_ok w \<longleftrightarrow> bq_wf (pendingTasks w) \<and> accepted w = executed w @ running_task (poll_at w) @ bq_contents (pendingTasks w)"

lemma worker_ok_new: "worker_ok new_Worker"
  by (simp add: worker_ok_def new_Worker_def)

lemma put_task_ok: "worker_ok w \<Longrightarrow> put_task task w = Some w' \<Longrightarrow> worker_ok w'"
  by (auto simp: worker_ok_def put_task_def dest: bq.enq_contents split: Option.bind_split_asm)

lemma dequeued_contents:
  "bq_dequeue q = Some (Dequeued x q') \<Longrightarrow> bq_wf q \<Longrightarrow> bq_wf q' \<and> bq_contents q = x # bq_contents q'"
  using bq.deq_contents by (simp add: bq_take_iff)

lemma poll_ok: "worker_ok w \<Longrightarrow> pollPendingTasks w = Some w' \<Longrightarrow> worker_ok w'"
  by (auto simp: worker_ok_def pollPendingTasks_def dest: dequeued_contents
      split: poll_pc.split_asm if_split_asm option.split_asm dequeued.split_asm)

lemma stop_ok: "worker_ok (stop_flag w) = worker_ok w" "worker_ok (stop_queue w) = worker_ok w"
  by (simp_all add: worker_ok_def stop_flag_def stop_queue_def)

lemma worker_step_ok: "worker_step s s' \<Longrightarrow> worker_ok (the_worker s) \<Longrightarrow> worker_ok (the_worker s')"
  by (induction rule: worker_step.induct) (auto simp: stop_ok dest: poll_ok put_task_ok)

section \<open>Shutdown\<close>

text \<open>Once a call of \<^verbatim>\<open>stop\<close> has returned the thread never waits: the queue is stopped, or it holds a task.\<close>

definition shutdown_ok :: "'a worker_threads \<Rightarrow> bool" where
  "shutdown_ok s \<longleftrightarrow>
     (0 < stopping s \<or> stop_returned s \<longrightarrow> isStopped (the_worker s)) \<and>
     (stop_returned s \<and> poll_at (the_worker s) = Dequeuing \<longrightarrow>
        bq_stop (pendingTasks (the_worker s)) \<or> bq_contents (pendingTasks (the_worker s)) \<noteq> [])"

lemma put_task_fields:
  "put_task task w = Some w' \<Longrightarrow> worker_ok w \<Longrightarrow>
     isStopped w' = isStopped w \<and> poll_at w' = poll_at w \<and> bq_contents (pendingTasks w') \<noteq> []"
  by (auto simp: put_task_def worker_ok_def dest: bq.enq_contents split: Option.bind_split_asm)

lemma poll_stopped:
  "pollPendingTasks w = Some w' \<Longrightarrow> worker_ok w \<Longrightarrow> isStopped w' = isStopped w \<and>
     (isStopped w \<and> poll_at w' = Dequeuing \<longrightarrow> bq_contents (pendingTasks w') \<noteq> [])"
  by (auto simp: pollPendingTasks_def worker_ok_def bq_getSize_def bq_size_contents
      split: poll_pc.split_asm if_split_asm option.split_asm dequeued.split_asm)

lemma worker_step_shutdown:
  "worker_step s s' \<Longrightarrow> worker_ok (the_worker s) \<Longrightarrow> shutdown_ok s \<Longrightarrow> shutdown_ok s'"
proof (induction rule: worker_step.induct)
  case (put task s w ts us)
  then show ?case using put_task_fields [OF put(1,3)] by (auto simp: shutdown_ok_def)
next
  case (stop_return s)
  then show ?case by (auto simp: shutdown_ok_def stop_queue_def worker_ok_def bq_stop_stopNow)
next
  case (poll s w)
  then show ?case using poll_stopped [OF poll(1,2)] by (auto simp: shutdown_ok_def)
qed (auto simp: shutdown_ok_def stop_flag_def)

lemma reachable_threads_ok:
  assumes "reachable_threads s"
  shows "worker_ok (the_worker s) \<and> shutdown_ok s"
  using assms unfolding reachable_threads_def
proof (induction rule: rtranclp_induct)
  case base
  show ?case using worker_ok_new by (simp add: threads_start_def shutdown_ok_def new_Worker_def)
next
  case (step s s')
  then show ?case using worker_step_ok worker_step_shutdown by blast
qed

definition poll_step :: "'a Worker \<Rightarrow> 'a Worker \<Rightarrow> bool" where
  "poll_step w w' \<longleftrightarrow> pollPendingTasks w = Some w'"

lemma poll_step_accepted: "poll_step w w' \<Longrightarrow> accepted w' = accepted w"
  by (auto simp: poll_step_def pollPendingTasks_def
      split: poll_pc.split_asm if_split_asm option.split_asm dequeued.split_asm)

lemma checking_finishes:
  assumes "worker_ok w" "isStopped w" "poll_at w = Checking"
  shows "\<exists>w'. poll_step\<^sup>*\<^sup>* w w' \<and> poll_at w' = Returned \<and> executed w' = accepted w"
  using assms
proof (induction "bq_contents (pendingTasks w)" arbitrary: w)
  case Nil
  then have "poll_step w (w\<lparr>poll_at := Returned\<rparr>)"
    by (simp add: poll_step_def pollPendingTasks_def bq_getSize_def bq_size_contents worker_ok_def)
  then show ?case using Nil by (intro exI [of _ "w\<lparr>poll_at := Returned\<rparr>"]) (auto simp: worker_ok_def)
next
  case (Cons x xs)
  have wf: "bq_wf (pendingTasks w)" using Cons.prems(1) by (simp add: worker_ok_def)
  obtain q where q: "bq_dequeue (pendingTasks w) = Some (Dequeued x q)" "bq_contents q = xs"
    using bq.deq_front [OF wf, of x xs] Cons.hyps(2) by (auto simp: bq_take_iff)
  let ?w1 = "w\<lparr>poll_at := Dequeuing\<rparr>" and ?w2 = "w\<lparr>pendingTasks := q, poll_at := Running x\<rparr>"
  let ?w3 = "w\<lparr>pendingTasks := q, executed := executed w @ [x]\<rparr>"
  have steps: "poll_step w ?w1" "poll_step ?w1 ?w2" "poll_step ?w2 ?w3"
    using Cons.prems(3) q(1) bq_size_contents [OF wf] Cons.hyps(2)
    by (auto simp: poll_step_def pollPendingTasks_def bq_getSize_def)
  have "worker_ok ?w3" using steps poll_ok Cons.prems(1) unfolding poll_step_def by blast
  then obtain w' where "poll_step\<^sup>*\<^sup>* ?w3 w'" "poll_at w' = Returned" "executed w' = accepted ?w3"
    using Cons.hyps(1) [of ?w3] q(2) Cons.prems(2,3) by auto
  then show ?case using steps by (intro exI [of _ w']) (auto intro: converse_rtranclp_into_rtranclp)
qed

lemma stopped_worker_finishes:
  assumes "worker_ok w" "isStopped w" "poll_at w \<noteq> Returned"
    and "poll_at w = Dequeuing \<longrightarrow> bq_stop (pendingTasks w) \<or> bq_contents (pendingTasks w) \<noteq> []"
  shows "\<exists>w'. poll_step\<^sup>*\<^sup>* w w' \<and> poll_at w' = Returned \<and> executed w' = accepted w"
proof -
  have to_check: "\<exists>w''. poll_step\<^sup>*\<^sup>* w' w'' \<and> poll_at w'' = Returned \<and> executed w'' = accepted w'"
    if "poll_step w' v" "worker_ok w'" "isStopped w'" "poll_at v = Checking" for w' v
  proof -
    have "worker_ok v" "isStopped v" "accepted v = accepted w'"
      using that poll_ok poll_stopped poll_step_accepted unfolding poll_step_def by blast+
    then show ?thesis using checking_finishes [of v] that by (auto intro: converse_rtranclp_into_rtranclp)
  qed
  have run: "\<exists>w''. poll_step\<^sup>*\<^sup>* w' w'' \<and> poll_at w'' = Returned \<and> executed w'' = accepted w'"
    if "poll_at w' = Running task" "worker_ok w'" "isStopped w'" for w' task
    by (rule to_check [OF _ that(2,3), of "w'\<lparr>poll_at := Checking, executed := executed w' @ [task]\<rparr>"])
      (use that(1) in \<open>simp_all add: poll_step_def pollPendingTasks_def\<close>)
  have wf: "bq_wf (pendingTasks w)" using assms(1) by (simp add: worker_ok_def)
  show ?thesis
  proof (cases "poll_at w")
    case Checking
    then show ?thesis by (rule checking_finishes [OF assms(1,2)])
  next
    case Dequeuing
    show ?thesis
    proof (cases "bq_contents (pendingTasks w)")
      case Nil
      then have "poll_step w (w\<lparr>poll_at := Checking\<rparr>)"
        using Dequeuing assms(4) bq_dequeue_spec [OF wf] by (simp add: poll_step_def pollPendingTasks_def)
      then show ?thesis by (rule to_check [OF _ assms(1,2)]) simp
    next
      case (Cons x xs)
      then obtain q where "bq_dequeue (pendingTasks w) = Some (Dequeued x q)"
        using bq.deq_front [OF wf] by (auto simp: bq_take_iff)
      then have st: "poll_step w (w\<lparr>pendingTasks := q, poll_at := Running x\<rparr>)"
        using Dequeuing by (simp add: poll_step_def pollPendingTasks_def)
      then have "worker_ok (w\<lparr>pendingTasks := q, poll_at := Running x\<rparr>)"
        using poll_ok assms(1) unfolding poll_step_def by blast
      then show ?thesis
        using run [of "w\<lparr>pendingTasks := q, poll_at := Running x\<rparr>" x] st assms(2)
        by (auto intro: converse_rtranclp_into_rtranclp)
    qed
  next
    case (Running task)
    then show ?thesis by (rule run [OF _ assms(1,2)])
  qed (use assms(3) in simp)
qed

section \<open>The pool\<close>

text \<open>\<open>thread_hash\<close> stands for \<^verbatim>\<open>std::hash\<close> of the identifier of the calling thread; an index that is not one of a
  worker is undefined.\<close>

definition createWorkers :: "int \<Rightarrow> 'a Worker list" where
  "createWorkers numberWorkers = replicate (nat numberWorkers) new_Worker"

definition new_ThreadPool :: "u64 \<Rightarrow> 'a Worker list" where
  "new_ThreadPool numberThreads = createWorkers (sint (ucast (roundUpPowerOfTwo numberThreads) :: u32))"

definition submit :: "u64 \<Rightarrow> 'a \<Rightarrow> u64 \<Rightarrow> 'a Worker list \<Rightarrow> (u64 \<times> 'a Worker list) option" where
  "submit thread_hash task memdb_thread_pool_counter workers =
     (let counter = (if memdb_thread_pool_counter = 0 then thread_hash else memdb_thread_pool_counter) + 1;
          workerIndex = unat (optimizedModulePowerOfTwo (word_of_nat (length workers)) counter)
      in if workerIndex < length workers
         then do {(ok, worker) \<leftarrow> worker_enqueue task (workers ! workerIndex);
                  Some (counter, workers[workerIndex := worker])}
         else None)"

definition pool_stop :: "'a Worker list \<Rightarrow> 'a Worker list" where
  "pool_stop workers = map worker_stop workers"

lemma length_new_ThreadPool:
  assumes "0 < n" "unat n \<le> 2 ^ 30"
  obtains k where "k < 31" "length (new_ThreadPool n) = 2 ^ k"
proof -
  obtain k where k: "k < 32" "roundUpPowerOfTwo n = 2 ^ k" "2 ^ k < 2 * unat n"
    using roundUpPowerOfTwo_spec [of n] assms by auto
  have "(2 :: nat) ^ k < 2 ^ 31" using k(3) assms(2) by simp
  then have k31: "k < 31" by (rule power_less_imp_less_exp [rotated]) simp
  have "(2 ^ k :: int) < 2 ^ 31" using k31 by (intro power_strict_increasing) auto
  moreover have "uint (2 ^ k :: u32) = 2 ^ k"
    using unat_of_nat_less [of "2 ^ k", where 'a = 32] power_strict_increasing [of k 32 "2 :: nat"] k(1)
    by (simp add: uint_nat)
  moreover have "- (2 ^ 31) \<le> (2 ^ k :: int)" by (rule order_trans [of _ 0]) auto
  ultimately have "sint (2 ^ k :: u32) = 2 ^ k"
    by (simp add: sint_uint signed_take_bit_int_eq_self_iff)
  moreover have "(ucast (2 ^ k :: u64) :: u32) = 2 ^ k" by (rule bit_word_eqI) (use k31 in \<open>simp add: bit_simps\<close>)
  ultimately have "length (new_ThreadPool n) = 2 ^ k"
    by (simp add: new_ThreadPool_def createWorkers_def k(2) nat_power_eq)
  then show ?thesis by (rule that [OF k31])
qed

lemma pool_index:
  assumes "length ws = 2 ^ k" "k < 31"
  shows "unat (optimizedModulePowerOfTwo (word_of_nat (length ws)) (c :: u64)) = unat c mod length ws"
proof -
  have "(word_of_nat (length ws) :: u64) = 2 ^ k" using assms(1) by simp
  moreover have "unat (2 ^ k :: u64) = 2 ^ k" 
    using unat_of_nat_less [of "2 ^ k", where 'a = 64] power_strict_increasing [of k 64 "2 :: nat"] assms(2) by simp
  ultimately show ?thesis using assms by (simp add: optimizedModulePowerOfTwo_mod unat_mod_distrib)
qed

lemma worker_enqueue_spec:
  assumes "worker_ok w"
  shows "\<exists>w'. worker_enqueue task w = Some (\<not> isStopped w, w') \<and> worker_ok w' \<and>
    accepted w' = (if isStopped w then accepted w else accepted w @ [task])"
proof -
  obtain q where "bq_enqueue task (pendingTasks w) = Some q"
    using bq.enq_ok [of "pendingTasks w" task] assms by (auto simp: worker_ok_def)
  then have p: "put_task task w = Some (w\<lparr>pendingTasks := q, accepted := accepted w @ [task]\<rparr>)"
    by (simp add: put_task_def)
  then show ?thesis using assms put_task_ok [OF assms p] by (auto simp: worker_enqueue_def)
qed

section \<open>Tasks of a worker\<close>

text \<open>C22. First in, first out: however callers that submit or stop and the polling thread interleave, the queue of a worker
  stays well linked, and the tasks that entered it are those run, in order, then the one being run, then those
  waiting. So no accepted task is run twice or overtaken.\<close>

theorem worker_runs_tasks_in_order:
  assumes "reachable_threads s"
  shows "bq_wf (pendingTasks (the_worker s)) \<and>
    accepted (the_worker s) = executed (the_worker s) @ running_task (poll_at (the_worker s)) @ bq_contents (pendingTasks (the_worker s))"
  using reachable_threads_ok [OF assms] by (simp add: worker_ok_def)

text \<open>C27. Shutdown: from every reachable state in which a call of \<^verbatim>\<open>stop\<close> has returned and the thread has not, the thread
  runs to its end on its own, without waiting, and has then run every task that entered the queue.\<close>

theorem stopped_worker_drains_queue:
  assumes "reachable_threads s" "stop_returned s" "poll_at (the_worker s) \<noteq> Returned"
  shows "\<exists>w. poll_step\<^sup>*\<^sup>* (the_worker s) w \<and> poll_at w = Returned \<and> executed w = accepted (the_worker s)"
  using reachable_threads_ok [OF assms(1)] assms(2,3)
  by (intro stopped_worker_finishes) (auto simp: shutdown_ok_def)

text \<open>C35. A pool made for up to \<open>2 ^ 30\<close> threads always finds a worker for a task: the workers of a thread's submissions
  follow one another in turn, the index is one of the pool, and a worker that was not stopped takes the task as the last
  of its queue.\<close>

theorem submit_reaches_worker:
  fixes workers :: "'a Worker list" and counter thread_hash :: u64
  defines "next_counter \<equiv> (if counter = 0 then thread_hash else counter) + 1"
  defines "i \<equiv> unat next_counter mod length workers"
  assumes "0 < n" "unat n \<le> 2 ^ 30" "length workers = length (new_ThreadPool n :: 'a Worker list)"
    and "\<forall>w \<in> set workers. worker_ok w"
  shows "\<exists>w'. submit thread_hash task counter workers = Some (next_counter, workers[i := w']) \<and>
    i < length workers \<and> worker_ok w' \<and>
    accepted w' = (if isStopped (workers ! i) then accepted (workers ! i) else accepted (workers ! i) @ [task])"
proof -
  obtain k where k: "k < 31" "length (new_ThreadPool n :: 'a Worker list) = 2 ^ k"
    using length_new_ThreadPool [OF assms(3,4)] .
  have i: "i < length workers" using k(2) assms(5) by (simp add: i_def)
  then obtain w' where "worker_enqueue task (workers ! i) = Some (\<not> isStopped (workers ! i), w')" "worker_ok w'"
    "accepted w' = (if isStopped (workers ! i) then accepted (workers ! i) else accepted (workers ! i) @ [task])"
    using worker_enqueue_spec [of "workers ! i" task] assms(6) by auto
  then show ?thesis
    using i pool_index [of workers k next_counter] k assms(5)
    by (intro exI [of _ w']) (simp add: submit_def Let_def next_counter_def i_def)
qed

theorem submit_reaches_worker_witness:
  "\<exists>w'. submit 9 (5 :: nat) 0 (new_ThreadPool 3) = Some (10, (new_ThreadPool 3)[2 := w']) \<and> worker_ok w' \<and> accepted w' = [5]"
proof -
  have pool: "new_ThreadPool 3 = replicate 4 (new_Worker :: nat Worker)"
    by (simp add: new_ThreadPool_def createWorkers_def roundUpPowerOfTwo_def or_shifted_def word_le_nat_alt)
  show ?thesis
    using submit_reaches_worker [of 3 "replicate 4 (new_Worker :: nat Worker)" 9 5 0] worker_ok_new
    by (auto simp: pool) (simp_all add: new_Worker_def)
qed

text \<open>A run with one task that is then stopped.\<close>

definition sample_threads :: "nat worker_threads" where
  "sample_threads =
     \<lparr>the_worker = stop_queue (stop_flag (the (put_task 7 new_Worker))), entering = [], stopping = 0, stop_returned = True\<rparr>"

lemma sample_threads_reachable: "reachable_threads sample_threads"
proof -
  obtain w where w: "put_task (7 :: nat) new_Worker = Some w"
    by (simp add: put_task_def bq_enqueue_def new_Worker_def new_BlockingQueue_def)
  let ?s1 = "\<lparr>the_worker = new_Worker, entering = [7 :: nat], stopping = 0, stop_returned = False\<rparr>"
  let ?s2 = "\<lparr>the_worker = w, entering = [], stopping = 0, stop_returned = False\<rparr>"
  let ?s3 = "\<lparr>the_worker = stop_flag w, entering = [], stopping = 1, stop_returned = False\<rparr>"
  have "worker_step threads_start ?s1"
    using worker_step.enter [of threads_start 7] by (simp add: threads_start_def new_Worker_def)
  moreover have "worker_step ?s1 ?s2" using worker_step.put [of 7 ?s1 w "[]" "[]"] w by simp
  moreover have "worker_step ?s2 ?s3" using worker_step.stop_call [of ?s2] by simp
  moreover have "worker_step ?s3 sample_threads" using worker_step.stop_return [of ?s3] by (simp add: sample_threads_def w)
  ultimately show ?thesis
    unfolding reachable_threads_def by (meson converse_rtranclp_into_rtranclp rtranclp.rtrancl_refl)
qed

theorem worker_runs_tasks_in_order_witness:
  "accepted (the_worker sample_threads) =
     executed (the_worker sample_threads) @ running_task (poll_at (the_worker sample_threads)) @
     bq_contents (pendingTasks (the_worker sample_threads)) \<and> accepted (the_worker sample_threads) = [7]"
  using worker_runs_tasks_in_order [OF sample_threads_reachable]
  by (simp add: sample_threads_def stop_queue_def stop_flag_def put_task_def bq_enqueue_def new_Worker_def new_BlockingQueue_def)

theorem stopped_worker_drains_queue_witness:
  "\<exists>w. poll_step\<^sup>*\<^sup>* (the_worker sample_threads) w \<and> poll_at w = Returned \<and> executed w = [7]"
  using stopped_worker_drains_queue [OF sample_threads_reachable]
  by (simp add: sample_threads_def stop_queue_def stop_flag_def put_task_def bq_enqueue_def new_Worker_def new_BlockingQueue_def)

end
