(* ===== verification/Change_Handlers.thy ===== *)
theory Change_Handlers
  imports Operators
begin

text \<open>
  What a node does when another one joins or leaves (\<^verbatim>\<open>cluster/changehandler\<close>), with and without
  partitions. The requests a handler sends are collected in the order in which they leave, with the node they go
  to; sending waits until the node answers.
\<close>

section \<open>SimpleClusterNodeChangeHandler\<close>

definition simple_handleNewNode :: "Node \<Rightarrow> node \<Rightarrow> node option" where
  "simple_handleNewNode newNode n = do {
     N \<leftarrow> (if existsByNodeId (node_id newNode) (clusterNodes (node_cluster n))
            then addNodeInPartition newNode 0 (clusterNodes (node_cluster n))
            else addNodeInPartition newNode 0 (clusterNodes (node_cluster n)));
     Some (n\<lparr>node_cluster := (node_cluster n)\<lparr>clusterNodes := N\<rparr>\<rparr>) }"

definition simple_handleDeletionNode :: "Node \<Rightarrow> node \<Rightarrow> node" where
  "simple_handleDeletionNode deleted n =
     n\<lparr>node_cluster := (node_cluster n)\<lparr>clusterNodes := deleteNodeById (node_id deleted) (clusterNodes (node_cluster n))\<rparr>\<rparr>"

section \<open>MoveOpLogRequestCreator\<close>

record CreateMoveOplogReqParams =
  mp_oplog :: "MapEntry list"
  mp_applyNewOplog :: bool
  mp_clearOldOplog :: bool
  mp_oldOplogId :: int
  mp_newOplogId :: int

text \<open>\<open>M\<close> is the map that holds the data the entries point to.\<close>

definition convertMapEntryIntoOperation :: "world \<Rightarrow> MemMap \<Rightarrow> MapEntry \<Rightarrow> OperationBody option" where
  "convertMapEntryIntoOperation W M e =
     (case entry_type e of
        DATA \<Rightarrow> do {
          d \<leftarrow> toData (w_ub W) (entry_key e) M e;
          Some (buildOperationBody (rb_set_timestamp (counter (data_timestamp d)) (rb_addArg (data_value d) (rb_addArg (entry_key e)
            (rb_operatorNumber OP_SET (rb_builder (w_op0 W))))))) }
      | COUNTER \<Rightarrow> Some (buildOperationBody (rb_operatorNumber OP_SET (rb_builder (w_op0 W)))))"

fun convert_entries :: "world \<Rightarrow> MemMap \<Rightarrow> MapEntry list \<Rightarrow> OperationBody list option" where
  "convert_entries W M [] = Some []"
| "convert_entries W M (e # es) = do {
     op \<leftarrow> convertMapEntryIntoOperation W M e;
     ops \<leftarrow> convert_entries W M es;
     Some (op # ops) }"

definition move_create :: "world \<Rightarrow> settings \<Rightarrow> MemMap \<Rightarrow> CreateMoveOplogReqParams \<Rightarrow> Request option" where
  "move_create W conf M params = do {
     createOperations \<leftarrow> convert_entries W M (mp_oplog params);
     serialized \<leftarrow> serializeAll createOperations;
     Some (rb_build (rb_args [fromNumber (word_of_int (mp_newOplogId params) :: u32),
         fromNumber (word_of_int (mp_oldOplogId params) :: u32), serialized]
       (rb_selfNode (conf_nodeId conf) (rb_operatorFlag2 (mp_clearOldOplog params) (rb_operatorFlag1 (mp_applyNewOplog params)
         (rb_operatorNumber OP_MOVE_OPLOG (rb_authKey (string_bytes (conf_authNodeKey conf)) (rb_builder (w_op0 W))))))))) }"

section \<open>Sending the keys of the buckets\<close>

type_synonym outbox = "(memdbNodeId_t \<times> Request) list"

definition send_to :: "world \<Rightarrow> memdbNodeId_t \<Rightarrow> Request \<Rightarrow> node \<times> outbox \<Rightarrow> (node \<times> outbox) option" where
  "send_to W nid request = (\<lambda>(n, sent). do {
     r \<leftarrow> cn_sendRequest (w_net W) 0 nid request (clusterNodes (node_cluster n));
     Some (n, sent @ [(nid, request)]) })"

definition send_move :: "world \<Rightarrow> u32 \<Rightarrow> memdbNodeId_t \<Rightarrow> CreateMoveOplogReqParams \<Rightarrow> node \<times> outbox \<Rightarrow> (node \<times> outbox) option" where
  "send_move W p nid params s = do {
     M \<leftarrow> node_store p (fst s);
     request \<leftarrow> move_create W (node_conf (fst s)) M params;
     send_to W nid request s }"

fun each_item :: "('a \<Rightarrow> 's \<Rightarrow> 's option) \<Rightarrow> 'a list \<Rightarrow> 's \<Rightarrow> 's option" where
  "each_item f [] s = Some s"
| "each_item f (x # xs) s = Option.bind (f x s) (each_item f xs)"

text \<open>The iterator points to the live map of partition \<open>p\<close>, which the loop over its buckets may change; the
  number of buckets is fixed.\<close>

definition on_bucket ::
  "u32 \<Rightarrow> (MapEntry list \<Rightarrow> node \<times> outbox \<Rightarrow> (node \<times> outbox) option) \<Rightarrow> nat \<Rightarrow> node \<times> outbox \<Rightarrow> (node \<times> outbox) option" where
  "on_bucket p body i s = do {
     M \<leftarrow> node_store p (fst s);
     (es, it) \<leftarrow> bucket_next \<lparr>it_map = M, actualBucket = word_of_nat i\<rparr>;
     body es s }"

definition for_buckets ::
  "u32 \<Rightarrow> (MapEntry list \<Rightarrow> node \<times> outbox \<Rightarrow> (node \<times> outbox) option) \<Rightarrow> node \<times> outbox \<Rightarrow> (node \<times> outbox) option" where
  "for_buckets p body s = do {
     M \<leftarrow> node_store p (fst s);
     each_item (on_bucket p body) [0..<unat (numberBuckets M)] s }"

section \<open>NewNodePartitionChangeHandler\<close>

text \<open>The neighbour is looked up with \<^verbatim>\<open>at\<close>, which throws past the end; the ids of the oplogs are the
  differences of positions in the ring.\<close>

definition self_oplog_to_node :: "world \<Rightarrow> u32 \<Rightarrow> RingEntry list \<Rightarrow> Partitions \<Rightarrow> MapEntry list \<Rightarrow> nat \<Rightarrow> node \<times> outbox \<Rightarrow> (node \<times> outbox) option" where
  "self_oplog_to_node W distance neighbors P es i s =
     (if unat (distance + 1 + word_of_nat i) < length neighbors
      then do {
        let nid = re_nodeId (neighbors ! unat (distance + 1 + word_of_nat i));
        d \<leftarrow> getDistance nid P;
        send_move W 0 nid \<lparr>mp_oplog = es, mp_applyNewOplog = True, mp_clearOldOplog = True, mp_oldOplogId = d - 1, mp_newOplogId = d - 1 + 1\<rparr> s }
      else None)"

definition sendSelfOplogToNodes :: "world \<Rightarrow> Node \<Rightarrow> node \<times> outbox \<Rightarrow> (node \<times> outbox) option" where
  "sendSelfOplogToNodes W newNode s = do {
     P \<leftarrow> cluster_partitions (node_cluster (fst s));
     distance \<leftarrow> getDistanceClockwise (node_id newNode) P;
     let nodesToSendNewOplog = getNodesPerPartition P - distance;
     neighbors \<leftarrow> getNeighborsClockwise (sint (getNodesPerPartition P)) P;
     for_buckets 0 (\<lambda>es s. if es = [] then Some s
       else each_item (self_oplog_to_node W distance neighbors P es) [0..<unat (nodesToSendNewOplog + 1)] s) s }"

definition splitSelfOplog :: "MapEntry list \<Rightarrow> RingEntry \<Rightarrow> Partitions \<Rightarrow> (MapEntry list \<times> MapEntry list) option" where
  "splitSelfOplog keysSelfOplog newRingEntry P = do {
     nodePositionNewNode \<leftarrow> getRingPositionByNodeId (re_nodeId newRingEntry) P;
     Some (filter (\<lambda>e. entry_keyHash e < nodePositionNewNode) keysSelfOplog,
       filter (\<lambda>e. \<not> entry_keyHash e < nodePositionNewNode) keysSelfOplog) }"

definition remove_key :: "world \<Rightarrow> MapEntry \<Rightarrow> node \<times> outbox \<Rightarrow> (node \<times> outbox) option" where
  "remove_key W e = (\<lambda>(n, sent). do {
     let deleteOperation = operation (rb_build (rb_addArg (entry_key e) (rb_operatorNumber OP_DEL (rb_builder (w_op0 W)))));
     M \<leftarrow> node_store 0 n;
     (r, M, clk) \<leftarrow> map_remove (w_ub W) (entry_key e) (LamportClock 0 0) NONE False M (Some (node_clock n));
     clk \<leftarrow> clk;
     n \<leftarrow> node_log_add 0 deleteOperation ((set_store 0 M n)\<lparr>node_clock := clk\<rparr>);
     Some (n, sent) })"

definition removeKeysFromSelfNode :: "world \<Rightarrow> MapEntry list \<Rightarrow> node \<times> outbox \<Rightarrow> (node \<times> outbox) option" where
  "removeKeysFromSelfNode W keysToRemove = each_item (remove_key W) keysToRemove"

definition sendNewOplogToNewNode :: "world \<Rightarrow> memdbNodeId_t \<Rightarrow> MapEntry list \<Rightarrow> node \<times> outbox \<Rightarrow> (node \<times> outbox) option" where
  "sendNewOplogToNewNode W nid oplog s =
     (if oplog = [] then Some s
      else send_move W 0 nid \<lparr>mp_oplog = oplog, mp_applyNewOplog = True, mp_clearOldOplog = True, mp_oldOplogId = 0, mp_newOplogId = 0\<rparr> s)"

definition updateOplogIdOfNeighNodesPlusOne ::
  "world \<Rightarrow> MapEntry list \<Rightarrow> RingEntry list \<Rightarrow> node \<times> outbox \<Rightarrow> (node \<times> outbox) option" where
  "updateOplogIdOfNeighNodesPlusOne W newOplog neighbors s =
     (if newOplog = [] then Some s
      else do {
        M \<leftarrow> node_store 0 (fst s);
        moveOplogRequest \<leftarrow> move_create W (node_conf (fst s)) M
           \<lparr>mp_oplog = newOplog, mp_applyNewOplog = True, mp_clearOldOplog = True, mp_oldOplogId = 0, mp_newOplogId = 0\<rparr>;
        each_item (\<lambda>i s. do {
          op \<leftarrow> setArg (operation moveOplogRequest) 0 (fromNumber (word_of_nat (i + 1) :: u32));
          send_to W (re_nodeId (neighbors ! i)) (moveOplogRequest\<lparr>operation := op\<rparr>) s }) [0..<length neighbors] s })"

definition recomputeSelfOplogAndSendNextNode ::
  "world \<Rightarrow> RingEntry \<Rightarrow> RingEntry list \<Rightarrow> node \<times> outbox \<Rightarrow> (node \<times> outbox) option" where
  "recomputeSelfOplogAndSendNextNode W newRingEntryAdded oldClockwiseNeighbors =
     for_buckets 0 (\<lambda>es s. do {
       P \<leftarrow> cluster_partitions (node_cluster (fst s));
       (keysStillBeingOwnedByMe, keysOwnedNowByNewNode) \<leftarrow> splitSelfOplog es newRingEntryAdded P;
       s \<leftarrow> removeKeysFromSelfNode W keysOwnedNowByNewNode s;
       s \<leftarrow> sendNewOplogToNewNode W (re_nodeId newRingEntryAdded) keysOwnedNowByNewNode s;
       updateOplogIdOfNeighNodesPlusOne W keysStillBeingOwnedByMe oldClockwiseNeighbors s })"

definition on_cluster :: "(Cluster \<Rightarrow> Cluster) \<Rightarrow> node \<times> outbox \<Rightarrow> node \<times> outbox" where
  "on_cluster f = (\<lambda>(n, sent). (n\<lparr>node_cluster := f (node_cluster n)\<rparr>, sent))"

definition newNode_handle :: "world \<Rightarrow> Node \<Rightarrow> node \<Rightarrow> (node \<times> outbox) option" where
  "newNode_handle W newNode n = do {
     P \<leftarrow> cluster_partitions (node_cluster n);
     oldClockwiseNeighbors \<leftarrow> getNeighborsClockwise (- 1) P;
     (ringEntryAdded, P) \<leftarrow> addByNode (w_md5 W) (node_id newNode) P;
     let C = (node_cluster n)\<lparr>clusterNodes := addNode newNode (clusterNodes (node_cluster n)), cluster_partitions := Some P\<rparr>;
     let n = n\<lparr>node_cluster := C\<rparr>;
     neighbor \<leftarrow> (if conf_nodeId (node_conf n) = node_id newNode then Some False else isNeighbor (node_id newNode) P);
     if \<not> neighbor then Some (n, [])
     else do {
       C \<leftarrow> updateNeighborsWithNewNode (node_conf n) newNode C;
       let n = n\<lparr>node_cluster := C\<rparr>;
       distance \<leftarrow> getDistanceClockwise (node_id newNode) P;
       if distance = 1 then do {
         s \<leftarrow> recomputeSelfOplogAndSendNextNode W ringEntryAdded oldClockwiseNeighbors (on_cluster setBooting (n, []));
         Some (on_cluster setRunning s) }
       else do {
         clockwise \<leftarrow> isClockwiseNeighbor (node_id newNode) P;
         if clockwise then do {
           s \<leftarrow> sendSelfOplogToNodes W newNode (on_cluster setBooting (n, []));
           Some (on_cluster setRunning s) }
         else Some (n, []) } } }"

section \<open>DeletionNodeChangeHandler\<close>

definition sendSelfOplogToPrevNode :: "world \<Rightarrow> memdbNodeId_t \<Rightarrow> node \<times> outbox \<Rightarrow> (node \<times> outbox) option" where
  "sendSelfOplogToPrevNode W prevNodeId =
     for_buckets 0 (\<lambda>es s. if es = [] then Some s
       else send_move W 0 prevNodeId
         \<lparr>mp_oplog = es, mp_applyNewOplog = True, mp_clearOldOplog = False, mp_oldOplogId = 0, mp_newOplogId = 0\<rparr> s)"

definition rest_oplog_to_node ::
  "world \<Rightarrow> nat \<Rightarrow> nat \<Rightarrow> RingEntry list \<Rightarrow> MapEntry list \<Rightarrow> nat \<Rightarrow> node \<times> outbox \<Rightarrow> (node \<times> outbox) option" where
  "rest_oplog_to_node W perPartition actualOplogId neighbors es i s =
     (let newOplogId = i + actualOplogId;
          oldOplog = newOplogId + 1;
          nodeAlreadyHoldsOplog = oldOplog < perPartition
      in if i < length neighbors
         then send_move W (word_of_nat actualOplogId) (re_nodeId (neighbors ! i))
           \<lparr>mp_oplog = es, mp_applyNewOplog = \<not> nodeAlreadyHoldsOplog, mp_clearOldOplog = nodeAlreadyHoldsOplog,
            mp_oldOplogId = int oldOplog, mp_newOplogId = int newOplogId\<rparr> s
         else None)"

definition sendRestOplogsToNextNodes :: "world \<Rightarrow> RingEntry list \<Rightarrow> node \<times> outbox \<Rightarrow> (node \<times> outbox) option" where
  "sendRestOplogsToNextNodes W neighborsClockWise s = do {
     P \<leftarrow> cluster_partitions (node_cluster (fst s));
     let perPartition = unat (getNodesPerPartition P);
     each_item (\<lambda>actualOplogId s.
       for_buckets (word_of_nat actualOplogId) (\<lambda>es s. if es = [] then Some s
         else each_item (rest_oplog_to_node W perPartition actualOplogId neighborsClockWise es) [0..<perPartition - actualOplogId] s) s)
       [1..<perPartition] s }"

text \<open>The last component tells that the process ends with \<^verbatim>\<open>exit\<close>.\<close>

definition deletion_handle :: "world \<Rightarrow> Node \<Rightarrow> node \<Rightarrow> (node \<times> outbox \<times> bool) option" where
  "deletion_handle W deleted n = do {
     n \<leftarrow> (if existsByNodeId (node_id deleted) (clusterNodes (node_cluster n))
            then do {
              C \<leftarrow> updateNeighborsWithDeletedNode (node_id deleted)
                 ((node_cluster n)\<lparr>clusterNodes := deleteNodeById (node_id deleted) (clusterNodes (node_cluster n))\<rparr>);
              Some (n\<lparr>node_cluster := C\<rparr>) }
            else Some n);
     if conf_nodeId (node_conf n) = node_id deleted then do {
       P \<leftarrow> cluster_partitions (node_cluster n);
       neighborsClockWise \<leftarrow> getNeighborsClockwise (- 1) P;
       prev \<leftarrow> getNeighborCounterClockwiseByNodeId (node_id deleted) P;
       prevEntry \<leftarrow> prev;
       s \<leftarrow> sendSelfOplogToPrevNode W (re_nodeId prevEntry) (n, []);
       (n, sent) \<leftarrow> sendRestOplogsToNextNodes W neighborsClockWise s;
       Some (n, sent, True) }
     else Some (n, [], False) }"

section \<open>The handler of a node\<close>

text \<open>Which handler is installed depends on whether partitions are used.\<close>

definition newNodeInClusterHandler :: "world \<Rightarrow> Node \<Rightarrow> node \<Rightarrow> (node \<times> outbox) option" where
  "newNodeInClusterHandler W newNode n =
     (if conf_partitions (node_conf n) then newNode_handle W newNode n
      else map_option (\<lambda>n. (n, [])) (simple_handleNewNode newNode n))"

definition deletedNodeInClusterHandler :: "world \<Rightarrow> Node \<Rightarrow> node \<Rightarrow> (node \<times> outbox \<times> bool) option" where
  "deletedNodeInClusterHandler W deleted n =
     (if conf_partitions (node_conf n) then deletion_handle W deleted n
      else Some (simple_handleDeletionNode deleted n, [], False))"

end
