(* ===== verification/Node_Operators.thy ===== *)
theory Node_Operators
  imports Change_Handlers Cas
begin

text \<open>
  The operators of the cluster (\<^verbatim>\<open>operators/operations/cluster\<close>) and of the synchronisation of oplogs
  (\<^verbatim>\<open>operators/operations/syncoplog\<close>), and the execution of an operation, which three of them
  re-enter.
\<close>

section \<open>Executing an operation\<close>

type_synonym operate_fun = "OperationBody \<Rightarrow> OperationOptions \<Rightarrow> node \<Rightarrow> (Response \<times> node) option"

definition hasProperty :: "OperatorDescriptor \<Rightarrow> OperatorProperty \<Rightarrow> bool" where
  "hasProperty d p = list_ex (\<lambda>q. q = p) (od_properties d)"

definition dispatcher_getPartitionIdByKey :: "world \<Rightarrow> SimpleString \<Rightarrow> node \<Rightarrow> u32 option" where
  "dispatcher_getPartitionIdByKey W k n =
     (if conf_partitions (node_conf n) then getPartitionIdByKey (w_md5 W) (node_conf n) k (node_cluster n) else Some 0)"

definition broadcast_operation :: "world \<Rightarrow> OperationBody \<Rightarrow> node \<Rightarrow> node option" where
  "broadcast_operation W op n = do {
     k \<leftarrow> getArg op 0;
     p \<leftarrow> dispatcher_getPartitionIdByKey W k n;
     r \<leftarrow> broadcastAndWait (w_net W) (node_conf n) op \<lparr>sro_partitionId = unat p, sro_canBeStoredInHint = True\<rparr>
        (node_cluster n, node_fs n);
     (case r of
        Inl e \<Rightarrow> None
      | Inr (M, C, fs) \<Rightarrow> Some (n\<lparr>node_cluster := C, node_fs := fs, node_sent := node_sent n @ [op]\<rparr>)) }"

definition execute_with ::
  "world \<Rightarrow> OperatorDescriptor \<Rightarrow> operate_fun \<Rightarrow> OperationBody \<Rightarrow> OperationOptions \<Rightarrow> node \<Rightarrow> (Response \<times> node) option" where
  "execute_with W d operate op options n = do {
     (result, n) \<leftarrow> operate op options n;
     let canBroadcast = hasProperty d BROADCAST \<and> conf_replication (node_conf n) \<and> isSuccessful result \<and> \<not> oo_dontBroadcastToCluster options;
     let canBePersisted = hasProperty d PERSISTENCE \<and> isSuccessful result \<and> \<not> oo_dontSaveInOperationLog options;
     let op = (if fromClient options \<and> (canBroadcast \<or> canBePersisted) then op\<lparr>timestamp := counter (resp_timestamp result)\<rparr> else op);
     n \<leftarrow> (if canBePersisted then node_log_add (oo_partitionId options) op n else Some n);
     n \<leftarrow> (if canBroadcast then broadcast_operation W op n else Some n);
     Some (result, n) }"

section \<open>OnGoingSyncOplogsStore\<close>

definition new_OnGoingSyncOplogsStore :: "memdbNodeId_t \<Rightarrow> OnGoingSyncOplogsStore" where
  "new_OnGoingSyncOplogsStore nid = \<lparr>onGoingSyncOplogsById = (\<lambda>_. None), nextSyncOplogIdCounter = 0, sync_selfNodeId = nid\<rparr>"

definition registerSyncOplogIterator :: "u64 \<Rightarrow> OplogIterator option \<Rightarrow> OnGoingSyncOplogsStore \<Rightarrow> OnGoingSyncOplogsStore option" where
  "registerSyncOplogIterator syncId segmentIterator S =
     (if onGoingSyncOplogsById S syncId \<noteq> None then Some S
      else do {
        it \<leftarrow> segmentIterator;
        Some (S\<lparr>onGoingSyncOplogsById := (onGoingSyncOplogsById S)
          (syncId \<mapsto> \<lparr>sync_iterator = Some it, totalNFragments = it_totalSize it, nFragmentsSent = 0\<rparr>)\<rparr>) })"

definition getSenderIteratorById :: "u64 \<Rightarrow> OnGoingSyncOplogsStore \<Rightarrow> OplogIterator option option" where
  "getSenderIteratorById syncId S = map_option sync_iterator (onGoingSyncOplogsById S syncId)"

definition markSegmentAsSent :: "u64 \<Rightarrow> OnGoingSyncOplogsStore \<Rightarrow> OnGoingSyncOplogsStore" where
  "markSegmentAsSent syncId S =
     (let s = (case onGoingSyncOplogsById S syncId of Some s \<Rightarrow> s
               | None \<Rightarrow> \<lparr>sync_iterator = None, totalNFragments = 0, nFragmentsSent = 0\<rparr>);
          s = s\<lparr>nFragmentsSent := nFragmentsSent s + 1\<rparr>
      in if nFragmentsSent s \<ge> totalNFragments s
         then S\<lparr>onGoingSyncOplogsById := (onGoingSyncOplogsById S)(syncId := None)\<rparr>
         else S\<lparr>onGoingSyncOplogsById := (onGoingSyncOplogsById S)(syncId \<mapsto> s)\<rparr>)"

definition removeBySyncId :: "u64 \<Rightarrow> OnGoingSyncOplogsStore \<Rightarrow> OnGoingSyncOplogsStore" where
  "removeBySyncId syncId S = S\<lparr>onGoingSyncOplogsById := (onGoingSyncOplogsById S)(syncId := None)\<rparr>"

definition nextSyncOplogId :: "OnGoingSyncOplogsStore \<Rightarrow> u64 \<times> OnGoingSyncOplogsStore" where
  "nextSyncOplogId S =
     (push_bit 32 (ucast (sync_selfNodeId S)) OR ucast (nextSyncOplogIdCounter S),
      S\<lparr>nextSyncOplogIdCounter := nextSyncOplogIdCounter S + 1\<rparr>)"

text \<open>The store and the operator share the iterator.\<close>

definition keep_iterator :: "u64 \<Rightarrow> OplogIterator \<Rightarrow> OnGoingSyncOplogsStore \<Rightarrow> OnGoingSyncOplogsStore" where
  "keep_iterator syncId it S =
     (case onGoingSyncOplogsById S syncId of
        None \<Rightarrow> S
      | Some s \<Rightarrow> S\<lparr>onGoingSyncOplogsById := (onGoingSyncOplogsById S)(syncId \<mapsto> s\<lparr>sync_iterator := Some it\<rparr>)\<rparr>)"

section \<open>The operation log of a node\<close>

text \<open>Without partitions there is one log, which serves every identifier. An iterator over a log that does not
  exist is not an \<^verbatim>\<open>OplogIterator\<close>, so that the cast gives a null pointer.\<close>

definition single_log :: "node \<Rightarrow> SingleOperationLog option" where
  "single_log n = (case node_logs n of [] \<Rightarrow> None | log # logs \<Rightarrow> Some log)"

definition node_getAfterTimestamp :: "world \<Rightarrow> u64 \<Rightarrow> OperationLogOptions \<Rightarrow> node \<Rightarrow> OplogIterator option option" where
  "node_getAfterTimestamp W ts options n =
     (if conf_partitions (node_conf n) then logs_getAfterTimestamp (w_garbage W) ts options (node_logs n) (node_fs n)
      else do {
        log \<leftarrow> single_log n;
        it \<leftarrow> log_getAfterTimestamp (w_garbage W) ts options log (node_fs n);
        Some (Some it) })"

definition node_getBetweenTimestamps :: "world \<Rightarrow> u64 \<Rightarrow> u64 \<Rightarrow> OperationLogOptions \<Rightarrow> node \<Rightarrow> OplogIterator option option" where
  "node_getBetweenTimestamps W a b options n = do {
     r \<leftarrow> (if conf_partitions (node_conf n) then logs_getBetweenTimestamps (w_garbage W) a b options (node_logs n) (node_fs n)
            else do {
              log \<leftarrow> single_log n;
              r \<leftarrow> log_getBetweenTimestamps (w_garbage W) a b options log (node_fs n);
              Some (case r of Inl e \<Rightarrow> Inl e | Inr it \<Rightarrow> Inr (Some it)) });
     (case r of Inl e \<Rightarrow> None | Inr it \<Rightarrow> Some it) }"

definition node_it_next :: "world \<Rightarrow> node \<Rightarrow> OplogIterator \<Rightarrow> (OplogIterator \<times> bytes option) option" where
  "node_it_next W n it = do {
     log \<leftarrow> (if conf_partitions (node_conf n)
              then (if unat (it_oplogId it) < length (node_logs n) then Some (node_logs n ! unat (it_oplogId it)) else None)
              else single_log n);
     (it, r) \<leftarrow> it_next (w_env W) (oplogIndexSegment log) (node_fs n) it;
     (case r of Inl e \<Rightarrow> None | Inr part \<Rightarrow> Some (it, part)) }"

definition node_hasOplogFile :: "u32 \<Rightarrow> node \<Rightarrow> bool option" where
  "node_hasOplogFile oplogId n =
     (if conf_partitions (node_conf n) then (case logs_hasOplogFile oplogId (node_logs n) of Inl e \<Rightarrow> None | Inr b \<Rightarrow> Some b)
      else Some (log_hasOplogFile oplogId))"

section \<open>SyncOplogOperator\<close>

definition SyncOplogOperator_operate :: "world \<Rightarrow> operate_fun" where
  "SyncOplogOperator_operate W op options n = do {
     lastTimestampUnsync \<leftarrow> getDoubleArgU64 op 0;
     a \<leftarrow> getArg op 2;
     nodeOplogIdToSync \<leftarrow> (ss_to a :: u32 option);
     segmentIterator \<leftarrow> node_getAfterTimestamp W lastTimestampUnsync \<lparr>operationLogId = nodeOplogIdToSync, opt_compressed = True\<rparr> n;
     S \<leftarrow> registerSyncOplogIterator (oo_requestNumber options) segmentIterator (node_syncs n);
     it \<leftarrow> segmentIterator;
     Some (resb_build (resb_success (resb_requestNumber (ucast (oo_requestNumber options))
             (resb_value (fromNumber (it_totalSize it)) new_ResponseBuilder))), n\<lparr>node_syncs := S\<rparr>) }"

definition SyncOplogOperator_desc :: OperatorDescriptor where
  "SyncOplogOperator_desc = \<lparr>od_type = NODE_MAINTENANCE, od_number = OP_SYNC_OPLOG, od_name = ''SYNC_OPLOG'',
     od_authorizedToExecute = [NODE], od_properties = []\<rparr>"

section \<open>NextSegmentOplogOperator\<close>

definition restart_sync_operation :: "world \<Rightarrow> u64 \<Rightarrow> u32 \<Rightarrow> OperationBody" where
  "restart_sync_operation W ts oplogId = buildOperationBody (rb_args
     [fromNumber (ucast (drop_bit 32 ts) :: u32), fromNumber (ucast (ts AND 0xFFFFFFFF) :: u32), fromNumber oplogId]
     (rb_operatorNumber OP_SYNC_OPLOG (rb_builder (w_op0 W))))"

definition getOplogSegmentIterator :: "world \<Rightarrow> OperationBody \<Rightarrow> OperationOptions \<Rightarrow> node \<Rightarrow> (OplogIterator option \<times> node) option" where
  "getOplogSegmentIterator W op options n =
     (case getSenderIteratorById (oo_requestNumber options) (node_syncs n) of
        Some it \<Rightarrow> Some (it, n)
      | None \<Rightarrow> do {
          lastTimestampUnsync \<leftarrow> getDoubleArgU64 op 0;
          a \<leftarrow> getArg op 2;
          nodeOplogIdToSync \<leftarrow> (ss_to a :: u32 option);
          (r, n) \<leftarrow> execute_with W SyncOplogOperator_desc (SyncOplogOperator_operate W)
             (restart_sync_operation W lastTimestampUnsync nodeOplogIdToSync) options n;
          it \<leftarrow> getSenderIteratorById (oo_requestNumber options) (node_syncs n);
          Some (it, n) })"

text \<open>The segment to repair is a field of the dependencies that the dispatcher never sets: the repair
  dereferences a null pointer.\<close>

definition getNextOplogSegmentOrTryFix :: "world \<Rightarrow> OplogIterator \<Rightarrow> node \<Rightarrow> ((bytes \<times> u32 \<times> bool) \<times> OplogIterator) option" where
  "getNextOplogSegmentOrTryFix W it n = do {
     (it, part) \<leftarrow> node_it_next W n it;
     (case part of
        Some bytes \<Rightarrow> do {
          uncompressSize \<leftarrow> getLastUncompressedSize it;
          Some ((bytes, uncompressSize, True), it) }
      | None \<Rightarrow> do {
          corruptedDescriptor \<leftarrow> getLastDescriptor it;
          r \<leftarrow> fixOplogSegment (w_rands W) (w_net W) (w_op0 W) (node_conf n) (it_getOplogId it)
             (desc_min corruptedDescriptor) (desc_max corruptedDescriptor) (node_cluster n);
          (case r of
             None \<Rightarrow> Some (([], 0, False), it)
           | Some fixOplogResponse \<Rightarrow>
               if has_error fixOplogResponse \<or> \<not> isSuccessful (result_value fixOplogResponse) then Some (([], 0, False), it)
               else None) }) }"

definition NextSegmentOplogOperator_operate :: "world \<Rightarrow> operate_fun" where
  "NextSegmentOplogOperator_operate W op options n = do {
     (found_it, n) \<leftarrow> getOplogSegmentIterator W op options n;
     it \<leftarrow> found_it;
     let syncId = oo_requestNumber options;
     if \<not> it_hasNext it
     then Some (error SYNC_OP_LOG_EOF, n\<lparr>node_syncs := removeBySyncId syncId (node_syncs n)\<rparr>)
     else do {
       let n = n\<lparr>node_syncs := markSegmentAsSent syncId (node_syncs n)\<rparr>;
       ((compressedOplog, uncompressSize, ok), it) \<leftarrow> getNextOplogSegmentOrTryFix W it n;
       let n = n\<lparr>node_syncs := keep_iterator syncId it (node_syncs n)\<rparr>;
       Some (resb_build (resb_values [fromNumber uncompressSize, compressedOplog] (resb_requestNumber (ucast syncId)
               (resb_isSuccessful ok UNFIXABLE_CORRUPTED_OPLOG_SEGMENT
                 (resb_timestampCounter (ucast (getLastTimestampOfLastNext it)) new_ResponseBuilder)))), n) } }"

definition NextSegmentOplogOperator_desc :: OperatorDescriptor where
  "NextSegmentOplogOperator_desc = \<lparr>od_type = NODE_MAINTENANCE, od_number = OP_NEXT_SYNC_OPLOG_SEGMENT,
     od_name = ''NEXT_SYNC_OPLOG_SEGMENT'', od_authorizedToExecute = [NODE], od_properties = []\<rparr>"

section \<open>FixOplogSegmentOperator\<close>

text \<open>Each part is put in front of the parts before it.\<close>

partial_function (option) oplogIteratorToBytes :: "world \<Rightarrow> node \<Rightarrow> OplogIterator \<Rightarrow> bytes \<Rightarrow> u32 \<Rightarrow> (bytes \<times> u32 \<times> bool) option" where
  "oplogIteratorToBytes W n it result uncompressedSize =
     (if \<not> it_hasNext it then Some (result, uncompressedSize, True)
      else do {
        more_bytes \<leftarrow> getNextUncompressedSize it;
        (it, part) \<leftarrow> node_it_next W n it;
        (case part of
           None \<Rightarrow> Some (result, uncompressedSize + more_bytes, False)
         | Some bytes \<Rightarrow> oplogIteratorToBytes W n it (bytes @ result) (uncompressedSize + more_bytes)) })"

definition FixOplogSegmentOperator_operate :: "world \<Rightarrow> operate_fun" where
  "FixOplogSegmentOperator_operate W op options n = do {
     a \<leftarrow> getArg op 0;
     oplogId \<leftarrow> (ss_to a :: u32 option);
     minTimestamp \<leftarrow> getDoubleArgU64 op 1;
     maxTimestamp \<leftarrow> getDoubleArgU64 op 3;
     found_it \<leftarrow> node_getBetweenTimestamps W minTimestamp maxTimestamp \<lparr>operationLogId = oplogId, opt_compressed = True\<rparr> n;
     it \<leftarrow> found_it;
     (bytesToReturn, uncompressedSize, successNotCorrupted) \<leftarrow> oplogIteratorToBytes W n it [] 0;
     Some (resb_build (resb_values [fromNumber uncompressedSize, bytesToReturn]
             (resb_isSuccessful successNotCorrupted UNFIXABLE_CORRUPTED_OPLOG_SEGMENT new_ResponseBuilder)), n) }"

definition FixOplogSegmentOperator_desc :: OperatorDescriptor where
  "FixOplogSegmentOperator_desc = \<lparr>od_type = NODE_MAINTENANCE, od_number = OP_FIX_OPLOG_SEGMENT, od_name = ''FIX_OPLOG_SEGMENT'',
     od_authorizedToExecute = [NODE], od_properties = []\<rparr>"

section \<open>Operators of the membership\<close>

definition HealthCheckOperator_operate :: operate_fun where
  "HealthCheckOperator_operate op options n = Some (success (LamportClock 0 0), n)"

definition HealthCheckOperator_desc :: OperatorDescriptor where
  "HealthCheckOperator_desc = \<lparr>od_type = NODE_MAINTENANCE, od_number = OP_HEALTH_CHECK, od_name = ''HEALTH_CHECK'',
     od_authorizedToExecute = [USER, NODE], od_properties = []\<rparr>"

definition nodeToSimpleString :: "Node \<Rightarrow> SimpleString" where
  "nodeToSimpleString node = fromSimpleStrings [fromNumber (node_id node), fromNumber (word_of_nat (length (node_address node)) :: u32),
     string_bytes (node_address node)]"

definition GetNodeDataOperator_operate :: operate_fun where
  "GetNodeDataOperator_operate op options n = do {
     a \<leftarrow> getArg op 0;
     nid \<leftarrow> (ss_to a :: memdbNodeId_t option);
     node \<leftarrow> getByNodeId (node_conf n) nid (clusterNodes (node_cluster n));
     Some (resb_build (resb_isSuccessful True NODE_NOT_FOUND (resb_valueIfSuccessful True (nodeToSimpleString node) new_ResponseBuilder)), n) }"

definition GetNodeDataOperator_desc :: OperatorDescriptor where
  "GetNodeDataOperator_desc = \<lparr>od_type = NODE_MAINTENANCE, od_number = OP_GET_NODE_DATA, od_name = ''GET_NODE_DATA'',
     od_authorizedToExecute = [NODE, USER], od_properties = []\<rparr>"

definition getNodesToSendInResponse :: "node \<Rightarrow> Node list" where
  "getNodesToSendInResponse n = getAllNodes (clusterNodes (node_cluster n)) @
     [\<lparr>node_id = conf_nodeId (node_conf n), node_address = conf_address (node_conf n) @ '':'' @ conf_port (node_conf n)\<rparr>]"

definition GetClusterConfigOperator_operate :: operate_fun where
  "GetClusterConfigOperator_operate op options n = do {
     perPartition \<leftarrow> cluster_getNodesPerPartition (node_conf n) (node_cluster n);
     maxPartition \<leftarrow> getMaxPartitionSize (node_conf n) (node_cluster n);
     es \<leftarrow> (if conf_partitions (node_conf n) then Option.bind (cluster_partitions (node_cluster n)) partitions_getAll else Some []);
     bytes \<leftarrow> serialize_config \<lparr>gc_nodesPerPartition = perPartition, gc_maxPartitionSize = maxPartition,
        gc_nodes = getNodesToSendInResponse n, gc_ringEntries = es\<rparr>;
     Some (resb_build (resb_value bytes (resb_success new_ResponseBuilder)), n) }"

definition GetClusterConfigOperator_desc :: OperatorDescriptor where
  "GetClusterConfigOperator_desc = \<lparr>od_type = NODE_MAINTENANCE, od_number = OP_GET_CLUSTER_CONFIG, od_name = ''GET_CLUSTER_CONFIG'',
     od_authorizedToExecute = [NODE, USER], od_properties = []\<rparr>"

definition sent_by :: "node \<times> outbox \<Rightarrow> node" where
  "sent_by = (\<lambda>(n, sent). n\<lparr>node_sent := node_sent n @ map (\<lambda>(nid, r). operation r) sent\<rparr>)"

definition JoinClusterAnnounceOperator_operate :: "world \<Rightarrow> operate_fun" where
  "JoinClusterAnnounceOperator_operate W op options n = do {
     a \<leftarrow> getArg op 0;
     s \<leftarrow> newNodeInClusterHandler W \<lparr>node_id = op_nodeId op, node_address = ss_toString a\<rparr> n;
     Some (success (LamportClock 0 0), sent_by s) }"

definition JoinClusterAnnounceOperator_desc :: OperatorDescriptor where
  "JoinClusterAnnounceOperator_desc = \<lparr>od_type = NODE_MAINTENANCE, od_number = OP_JOIN_CLUSTER_ANNOUNCE,
     od_name = ''JOIN_CLUSTER_ANNOUNCE'', od_authorizedToExecute = [NODE], od_properties = []\<rparr>"

text \<open>When the node is the one that leaves, the process ends and there is no response.\<close>

definition LeaveClusterAnnounceOperator_operate :: "world \<Rightarrow> operate_fun" where
  "LeaveClusterAnnounceOperator_operate W op options n =
     (if existsByNodeId (op_nodeId op) (clusterNodes (node_cluster n))
      then do {
        node \<leftarrow> getByNodeId (node_conf n) (op_nodeId op) (clusterNodes (node_cluster n));
        (n, sent, exits) \<leftarrow> deletedNodeInClusterHandler W node n;
        if exits then None else Some (success (LamportClock 0 0), sent_by (n, sent)) }
      else Some (success (LamportClock 0 0), n))"

definition LeaveClusterAnnounceOperator_desc :: OperatorDescriptor where
  "LeaveClusterAnnounceOperator_desc = \<lparr>od_type = NODE_MAINTENANCE, od_number = OP_LEAVE_CLUSTER_ANNOUNCE,
     od_name = ''LEAVE_CLUSTER_ANNOUNCE'', od_authorizedToExecute = [NODE], od_properties = []\<rparr>"

text \<open>The operator answers at once; the task it submits runs five seconds later.\<close>

definition do_leave_task :: "world \<Rightarrow> node \<Rightarrow> (node \<times> outbox \<times> bool) option" where
  "do_leave_task W n = do {
     r \<leftarrow> announceLeave (w_net W) (w_op0 W) (node_conf n) (node_cluster n, node_fs n);
     (case r of
        Inl e \<Rightarrow> None
      | Inr (C, fs) \<Rightarrow> deletedNodeInClusterHandler W \<lparr>node_id = conf_nodeId (node_conf n), node_address = conf_address (node_conf n)\<rparr>
          (n\<lparr>node_cluster := C, node_fs := fs\<rparr>)) }"

definition DoLeaveClusterOperator_operate :: operate_fun where
  "DoLeaveClusterOperator_operate op options n = Some (success (LamportClock 0 0), n)"

definition DoLeaveClusterOperator_desc :: OperatorDescriptor where
  "DoLeaveClusterOperator_desc = \<lparr>od_type = NODE_MAINTENANCE, od_number = OP_DO_LEAVE_CLUSTER, od_name = ''DO_LEAVE_CLUSTER'',
     od_authorizedToExecute = [USER], od_properties = []\<rparr>"

section \<open>MovePartitionOplogOperator\<close>

definition clearOperationLog :: "u32 \<Rightarrow> node \<Rightarrow> node" where
  "clearOperationLog oplogId n =
     (if 0 < oplogId
      then let (logs, fs) = (if conf_partitions (node_conf n) then logs_clear oplogId (node_logs n, node_fs n)
                             else (case node_logs n of [] \<Rightarrow> ([], node_fs n)
                                   | log # logs \<Rightarrow> let (log, fs) = log_clear (log, node_fs n) in (log # logs, fs)))
        in n\<lparr>node_logs := logs, node_fs := fs, node_stores := removeByPartitionId oplogId (node_stores n)\<rparr>
      else n)"

text \<open>The clock strategy is the first of its enumeration, because the options do not name it.\<close>

definition move_options :: "u32 \<Rightarrow> OperationOptions" where
  "move_options newOplogId = \<lparr>oo_checkTimestamps = True, oo_onlyExecute = True, oo_dontBroadcastToCluster = False,
     oo_dontSaveInOperationLog = False, oo_updateClockStrategy = NONE, oo_partitionId = newOplogId, oo_requestNumber = 0\<rparr>"

fun execute_all ::
  "(OperationBody \<Rightarrow> OperationOptions \<Rightarrow> node \<Rightarrow> (Response \<times> node) option) \<Rightarrow> OperationBody list \<Rightarrow> OperationOptions \<Rightarrow> node \<Rightarrow> node option" where
  "execute_all execute [] options n = Some n"
| "execute_all execute (op # ops) options n = do {
     (r, n) \<leftarrow> execute op options n;
     execute_all execute ops options n }"

text \<open>\<open>execute\<close> looks the operator of each moved operation up and executes it.\<close>

definition MovePartitionOplogOperator_operate :: "world \<Rightarrow> operate_fun \<Rightarrow> operate_fun" where
  "MovePartitionOplogOperator_operate W execute op options n = do {
     a \<leftarrow> getArg op 0;
     newOplogId \<leftarrow> (ss_to a :: u32 option);
     b \<leftarrow> getArg op 1;
     oldOplogId \<leftarrow> (ss_to b :: u32 option);
     P \<leftarrow> getPartitionObject (node_cluster n);
     if newOplogId \<ge> getNodesPerPartition P
     then Some (success (LamportClock 0 0), clearOperationLog oldOplogId n)
     else do {
       oplogRaw \<leftarrow> getArgOr op 2 [];
       oplog \<leftarrow> deserializeAll (env_shl (w_env W)) oplogRaw;
       apply_it \<leftarrow> (if op_flag1 op then Some True else map_option Not (node_hasOplogFile newOplogId n));
       n \<leftarrow> (if apply_it then execute_all execute oplog (move_options newOplogId) n else Some n);
       let n = (if op_flag2 op then clearOperationLog oldOplogId n else n);
       logs \<leftarrow> (if conf_partitions (node_conf n) then logs_addAll newOplogId oplog (node_logs n) else logs_addAll 0 oplog (node_logs n));
       Some (success (LamportClock 0 0), n\<lparr>node_logs := logs, node_cluster := setRunning (node_cluster n)\<rparr>) } }"

definition MovePartitionOplogOperator_desc :: OperatorDescriptor where
  "MovePartitionOplogOperator_desc = \<lparr>od_type = NODE_MAINTENANCE, od_number = OP_MOVE_OPLOG, od_name = ''MOVE_PARTITION_OPLOG'',
     od_authorizedToExecute = [NODE], od_properties = []\<rparr>"

end
