(* ===== verification/Dispatcher.thy ===== *)
theory Dispatcher
  imports Node_Operators
begin

text \<open>
  From a request to its response: the authenticator (\<^verbatim>\<open>auth\<close>), the registry of operators, the buffer of
  delayed requests and the dispatcher (\<^verbatim>\<open>operators/OperatorDispatcher.cpp\<close>). The type of the
  authentication is not part of a serialised request, and is passed beside it.
\<close>

section \<open>Authenticator\<close>

definition authenticate :: "settings \<Rightarrow> string \<Rightarrow> bool" where
  "authenticate conf authKey' \<longleftrightarrow> conf_authUserKey conf = authKey' \<or> conf_authNodeKey conf = authKey'"

definition getAuthenticationTypeFromConfiguration :: "settings \<Rightarrow> string \<Rightarrow> AuthenticationType option" where
  "getAuthenticationTypeFromConfiguration conf authKey' =
     (if conf_authUserKey conf = authKey' then Some USER
      else if conf_authNodeKey conf = authKey' then Some NODE
      else None)"

definition getAuthenticationType :: "settings \<Rightarrow> string \<Rightarrow> AuthenticationType option" where
  "getAuthenticationType conf authKey' = getAuthenticationTypeFromConfiguration conf authKey'"

definition isKeyFromNode :: "settings \<Rightarrow> string \<Rightarrow> bool" where
  "isKeyFromNode conf authKey' =
     (case getAuthenticationTypeFromConfiguration conf authKey' of Some t \<Rightarrow> t = NODE | None \<Rightarrow> False)"

definition isKeyUser :: "settings \<Rightarrow> string \<Rightarrow> bool" where
  "isKeyUser conf authKey' =
     (case getAuthenticationTypeFromConfiguration conf authKey' of Some t \<Rightarrow> t = USER | None \<Rightarrow> False)"

section \<open>OperatorRegistry\<close>

datatype operator_t = GetOperator | SetOperator | DeleteOperator | ContainsOperator | UpdateCounterOperator
  | ReplicateCounterOperator | HealthCheckOperator | SyncOplogOperator | MovePartitionOplogOperator
  | NextSegmentOplogOperator | FixOplogSegmentOperator | CasOperator | PrepareCasOperator | AcceptCasOperator
  | GetClusterConfigOperator | JoinClusterAnnounceOperator | LeaveClusterAnnounceOperator | DoLeaveClusterOperator
  | GetNodeDataOperator

definition operators :: "(u8 \<times> operator_t) list" where
  "operators = [(OP_GET, GetOperator), (OP_SET, SetOperator), (OP_DEL, DeleteOperator), (OP_CONTAINS, ContainsOperator),
     (OP_UPDATE_COUNTER, UpdateCounterOperator), (OP_REPLICATE_COUNTER, ReplicateCounterOperator),
     (OP_HEALTH_CHECK, HealthCheckOperator), (OP_SYNC_OPLOG, SyncOplogOperator), (OP_MOVE_OPLOG, MovePartitionOplogOperator),
     (OP_NEXT_SYNC_OPLOG_SEGMENT, NextSegmentOplogOperator), (OP_FIX_OPLOG_SEGMENT, FixOplogSegmentOperator),
     (OP_CAS, CasOperator), (OP_CAS_PREPARE, PrepareCasOperator), (OP_CAS_ACCEPT, AcceptCasOperator),
     (OP_GET_CLUSTER_CONFIG, GetClusterConfigOperator), (OP_JOIN_CLUSTER_ANNOUNCE, JoinClusterAnnounceOperator),
     (OP_LEAVE_CLUSTER_ANNOUNCE, LeaveClusterAnnounceOperator), (OP_DO_LEAVE_CLUSTER, DoLeaveClusterOperator),
     (OP_GET_NODE_DATA, GetNodeDataOperator)]"

definition registry_get :: "u8 \<Rightarrow> operator_t option" where
  "registry_get opNumber = map_of operators opNumber"

primrec desc :: "operator_t \<Rightarrow> OperatorDescriptor" where
  "desc GetOperator = GetOperator_desc"
| "desc SetOperator = SetOperator_desc"
| "desc DeleteOperator = DeleteOperator_desc"
| "desc ContainsOperator = ContainsOperator_desc"
| "desc UpdateCounterOperator = UpdateCounterOperator_desc"
| "desc ReplicateCounterOperator = ReplicateCounterOperator_desc"
| "desc HealthCheckOperator = HealthCheckOperator_desc"
| "desc SyncOplogOperator = SyncOplogOperator_desc"
| "desc MovePartitionOplogOperator = MovePartitionOplogOperator_desc"
| "desc NextSegmentOplogOperator = NextSegmentOplogOperator_desc"
| "desc FixOplogSegmentOperator = FixOplogSegmentOperator_desc"
| "desc CasOperator = CasOperator_desc"
| "desc PrepareCasOperator = PrepareCasOperator_desc"
| "desc AcceptCasOperator = AcceptCasOperator_desc"
| "desc GetClusterConfigOperator = GetClusterConfigOperator_desc"
| "desc JoinClusterAnnounceOperator = JoinClusterAnnounceOperator_desc"
| "desc LeaveClusterAnnounceOperator = LeaveClusterAnnounceOperator_desc"
| "desc DoLeaveClusterOperator = DoLeaveClusterOperator_desc"
| "desc GetNodeDataOperator = GetNodeDataOperator_desc"

primrec operate :: "operate_fun \<Rightarrow> world \<Rightarrow> operator_t \<Rightarrow> operate_fun" where
  "operate mv W GetOperator = GetOperator_operate W"
| "operate mv W SetOperator = SetOperator_operate W"
| "operate mv W DeleteOperator = DeleteOperator_operate W"
| "operate mv W ContainsOperator = ContainsOperator_operate W"
| "operate mv W UpdateCounterOperator = UpdateCounterOperator_operate W"
| "operate mv W ReplicateCounterOperator = ReplicateCounterOperator_operate W"
| "operate mv W HealthCheckOperator = HealthCheckOperator_operate"
| "operate mv W SyncOplogOperator = SyncOplogOperator_operate W"
| "operate mv W MovePartitionOplogOperator = mv"
| "operate mv W NextSegmentOplogOperator = NextSegmentOplogOperator_operate W"
| "operate mv W FixOplogSegmentOperator = FixOplogSegmentOperator_operate W"
| "operate mv W CasOperator = CasOperator_operate W"
| "operate mv W PrepareCasOperator = PrepareCasOperator_operate W"
| "operate mv W AcceptCasOperator = AcceptCasOperator_operate W"
| "operate mv W GetClusterConfigOperator = GetClusterConfigOperator_operate"
| "operate mv W JoinClusterAnnounceOperator = JoinClusterAnnounceOperator_operate W"
| "operate mv W LeaveClusterAnnounceOperator = LeaveClusterAnnounceOperator_operate W"
| "operate mv W DoLeaveClusterOperator = DoLeaveClusterOperator_operate"
| "operate mv W GetNodeDataOperator = GetNodeDataOperator_operate"

section \<open>Executing an operation\<close>

text \<open>A moved oplog is executed under the mutex of its operator, so that an operation in it that moves an oplog
  again locks the mutex a second time and does not return. An operator number that is not registered is a null
  pointer.\<close>

definition execute_moved :: "world \<Rightarrow> operate_fun" where
  "execute_moved W op options n = do {
     operatorToExecute \<leftarrow> registry_get (operatorNumber op);
     execute_with W (desc operatorToExecute) (operate (\<lambda>op options n. None) W operatorToExecute) op options n }"

definition executeOperation :: "world \<Rightarrow> operator_t \<Rightarrow> operate_fun" where
  "executeOperation W operatorToExecute op options n =
     execute_with W (desc operatorToExecute)
       (operate (MovePartitionOplogOperator_operate W (execute_moved W)) W operatorToExecute) op options n"

fun executeOperations :: "world \<Rightarrow> operator_t \<Rightarrow> OperationBody list \<Rightarrow> OperationOptions \<Rightarrow> node \<Rightarrow> node option" where
  "executeOperations W operatorToExecute [] options n = Some n"
| "executeOperations W operatorToExecute (op # ops) options n = do {
     (r, n) \<leftarrow> executeOperation W operatorToExecute op options n;
     executeOperations W operatorToExecute ops options n }"

section \<open>DelayedOperationsBuffer\<close>

definition delayed_add :: "Request \<Rightarrow> node \<Rightarrow> node option" where
  "delayed_add request n = do {
     fs \<leftarrow> bd_add request (node_delayed n) (node_fs n);
     Some (n\<lparr>node_fs := fs\<rparr>) }"

section \<open>OperatorDispatcher\<close>

definition isAuthorizedToExecute :: "operator_t \<Rightarrow> AuthenticationType \<Rightarrow> bool" where
  "isAuthorizedToExecute operatorToExecute authenticationOfUser =
     list_ex (\<lambda>t. t = authenticationOfUser) (od_authorizedToExecute (desc operatorToExecute))"

definition isInReplicationMode :: "node \<Rightarrow> bool" where
  "isInReplicationMode n = conf_replication (node_conf n)"

definition isInPartitionMode :: "node \<Rightarrow> bool" where
  "isInPartitionMode n = conf_partitions (node_conf n)"

definition dispatcher_canHoldKey :: "world \<Rightarrow> SimpleString \<Rightarrow> node \<Rightarrow> bool option" where
  "dispatcher_canHoldKey W k n = Option.bind (getPartitionObject (node_cluster n)) (canHoldKey (w_md5 W) k)"

definition canAcceptRequest :: "node \<Rightarrow> bool" where
  "canAcceptRequest n \<longleftrightarrow> \<not> isInReplicationMode n \<or> states_canAcceptRequest (getNodeState (node_cluster n))"

definition canExecuteRequest :: "node \<Rightarrow> bool" where
  "canExecuteRequest n \<longleftrightarrow> \<not> isInReplicationMode n \<or> cantExecuteRequest (getNodeState (node_cluster n))"

definition dispatch_options :: "operator_t \<Rightarrow> AuthenticationType \<Rightarrow> Request \<Rightarrow> OperationOptions" where
  "dispatch_options operatorToExecute auth request =
     (let writeDbRequestFromNode = (od_type (desc operatorToExecute) = DB_STORE_WRITE \<and> auth = NODE)
      in \<lparr>oo_checkTimestamps = writeDbRequestFromNode, oo_onlyExecute = False, oo_dontBroadcastToCluster = False,
          oo_dontSaveInOperationLog = False, oo_updateClockStrategy = (if writeDbRequestFromNode then SET_MAX else TICK),
          oo_partitionId = 0, oo_requestNumber = ucast (requestNumber request)\<rparr>)"

text \<open>What the partition mode refuses: writes of keys the node does not hold.\<close>

definition refuses_key :: "world \<Rightarrow> operator_t \<Rightarrow> Request \<Rightarrow> node \<Rightarrow> bool option" where
  "refuses_key W operatorToExecute request n =
     (if isInReplicationMode n \<and> isInPartitionMode n \<and> od_type (desc operatorToExecute) = DB_STORE_WRITE
      then do {
        k \<leftarrow> getArg (operation request) 0;
        map_option Not (dispatcher_canHoldKey W k n) }
      else Some False)"

definition hand_off_hints :: "world \<Rightarrow> Request \<Rightarrow> node \<Rightarrow> node option" where
  "hand_off_hints W request n = do {
     r \<leftarrow> checkHintedHandoff (w_env W) (w_net W) (op_nodeId (operation request)) (node_cluster n, node_fs n);
     (case r of Inl e \<Rightarrow> None | Inr (C, fs) \<Rightarrow> Some (n\<lparr>node_cluster := C, node_fs := fs\<rparr>)) }"

definition dispatch_no_applyDelayedOperationsBuffer ::
  "world \<Rightarrow> AuthenticationType \<Rightarrow> Request \<Rightarrow> node \<Rightarrow> (Response \<times> node) option" where
  "dispatch_no_applyDelayedOperationsBuffer W auth request n =
     (case registry_get (operatorNumber (operation request)) of
        None \<Rightarrow> Some (error UNKNOWN_OPERATOR, n)
      | Some operatorToExecute \<Rightarrow>
          if \<not> isAuthorizedToExecute operatorToExecute auth then Some (error NOT_AUTHORIZED, n)
          else do {
            let d = desc operatorToExecute;
            let options = dispatch_options operatorToExecute auth request;
            if isInReplicationMode n \<and> (\<not> canAcceptRequest n \<or> (od_type d = DB_STORE_READ \<and> \<not> canExecuteRequest n))
            then Some (error INVALID_NODE_STATE, n)
            else do {
              refused \<leftarrow> refuses_key W operatorToExecute request n;
              if refused then Some (error INVALID_PARTITION, n)
              else if isInReplicationMode n \<and> od_type d = DB_STORE_WRITE \<and> canAcceptRequest n \<and> \<not> canExecuteRequest n
              then do {
                n \<leftarrow> delayed_add request n;
                Some (success (LamportClock 0 0), n) }
              else do {
                p \<leftarrow> (if od_type d = DB_STORE_WRITE \<or> od_type d = DB_STORE_READ \<or> od_type d = DB_STORE_CONDITIONAL_WRITE
                       then do {
                         k \<leftarrow> getArg (operation request) 0;
                         getPartitionIdByKey (w_md5 W) (node_conf n) k (node_cluster n) }
                       else Some 0);
                let options = options\<lparr>oo_partitionId := p\<rparr>;
                n \<leftarrow> (if \<not> fromClient options \<and> isInReplicationMode n then hand_off_hints W request n else Some n);
                executeOperation W operatorToExecute (operation request) options n } } })"

text \<open>A request read back from the disk has the default authentication type, the one of a user.\<close>

partial_function (option) applyDelayedOperationsBuffer :: "world \<Rightarrow> node \<Rightarrow> node option" where
  "applyDelayedOperationsBuffer W n =
     (if bd_hasNext (node_delayed n) (node_fs n)
      then do {
        r \<leftarrow> bd_next (w_env W) (node_delayed n) (node_fs n);
        (case r of
           Inl e \<Rightarrow> None
         | Inr (request, fs) \<Rightarrow> do {
             x \<leftarrow> dispatch_no_applyDelayedOperationsBuffer W USER request (n\<lparr>node_fs := fs\<rparr>);
             applyDelayedOperationsBuffer W (snd x) }) }
      else Some n)"

definition dispatch :: "world \<Rightarrow> AuthenticationType \<Rightarrow> Request \<Rightarrow> node \<Rightarrow> (Response \<times> node) option" where
  "dispatch W auth request n = do {
     n \<leftarrow> (if canExecuteRequest n then applyDelayedOperationsBuffer W n else Some n);
     dispatch_no_applyDelayedOperationsBuffer W auth request n }"

end
