(* ===== verification/Dispatch_Props.thy ===== *)
theory Dispatch_Props
  imports Dispatcher
begin

text \<open>
  Properties of the dispatcher: what it refuses, that the stores of a node stay well formed, that a client reads
  what it wrote, and how replicated writes travel.
\<close>

section \<open>Operators and their numbers\<close>

lemma registry_numbers [simp]:
  "registry_get OP_SET = Some SetOperator" "registry_get OP_GET = Some GetOperator"
  by (simp_all add: registry_get_def operators_def operator_numbers)

lemmas set_get_desc = SetOperator_desc_def GetOperator_desc_def isAuthorizedToExecute_def hasProperty_def

lemma SetOperator_writes:
  assumes "node_store (oo_partitionId options) n = Some M" and "map_ok M" and "args op = Some (k # v # rest)"
    and "clock_update (oo_updateClockStrategy options) (timestamp op) (node_clock n) = (i, c)"
    and "applied (oo_updateClockStrategy options) (oo_checkTimestamps options) (write_getTimestamp op options n) (map_view M (calculateHash (w_ub W) k))"
  shows "\<exists>M'. SetOperator_operate W op options n =
      Some (edit_response (Some (result_timestamp (oo_checkTimestamps options) (write_getTimestamp op options n) i)) ALREADY_REPLICATED,
        (set_store (oo_partitionId options) M' n)\<lparr>node_clock := c\<rparr>) \<and> map_ok M' \<and>
    map_view M' = (map_view M)(calculateHash (w_ub W) k \<mapsto> (stored_key k (map_view M (calculateHash (w_ub W) k)),
      written v (oo_checkTimestamps options) (write_getTimestamp op options n) i))"
proof -
  have "counter (write_getTimestamp op options n) = timestamp op" by (simp add: write_getTimestamp_def)
  then obtain M' where "putData (w_ub W) k v (write_getTimestamp op options n) (oo_updateClockStrategy options) (oo_checkTimestamps options) M
      (Some (node_clock n)) = Some (Some (result_timestamp (oo_checkTimestamps options) (write_getTimestamp op options n) i), M', Some c)"
    "map_ok M'" "map_view M' = (map_view M)(calculateHash (w_ub W) k \<mapsto> (stored_key k (map_view M (calculateHash (w_ub W) k)),
      written v (oo_checkTimestamps options) (write_getTimestamp op options n) i))"
    using putData_view [OF assms(2), of _ "write_getTimestamp op options n" "node_clock n" i c "w_ub W" k v] assms(4,5)
    by (fastforce simp: write_spec_def)
  then show ?thesis using assms(1,3) by (intro exI [of _ M']) (simp add: SetOperator_operate_def getArg_def)
qed

lemma GetOperator_reads:
  assumes "node_store (oo_partitionId options) n = Some M" and "map_ok M" and "args op = Some (k # rest)"
    and "map_reading M (calculateHash (w_ub W) k) = Some (t, v)"
  shows "\<exists>r. GetOperator_operate W op options n = Some (r, n) \<and> isSuccessful r \<and> responseValue r = v \<and> resp_timestamp r = t"
proof -
  obtain e where e: "map_get (w_ub W) k M = Some (Some e, M)" "entry_type e = DATA"
    "toData (w_ub W) k M e = Some \<lparr>data_value = v, data_timestamp = t\<rparr>"
    using map_get_data [OF assms(2,4)] by blast
  moreover have "set_store (oo_partitionId options) M n = n"
    using assms(1) by (simp add: set_store_def node_store_def getByPartitionId_def fun_upd_idem)
  ultimately show ?thesis
    using assms(1,3)
    by (simp add: GetOperator_operate_def getArg_def get_getTimestampCounter_def get_getValue_def resb_build_def buildResponseValue_def
        resb_value_def resb_timestamp_def resb_isSuccessful_def new_ResponseBuilder_def)
qed

lemma no_delayed:
  assumes "\<not> bd_hasNext (node_delayed n) (node_fs n)"
  shows "dispatch W auth request n = dispatch_no_applyDelayedOperationsBuffer W auth request n"
  using assms by (subst dispatch_def, subst applyDelayedOperationsBuffer.simps) simp

text \<open>Without replication and partitions a request on a key is executed on partition 0.\<close>

lemma alone_dispatch:
  assumes "\<not> conf_replication (node_conf n)" and "\<not> conf_partitions (node_conf n)"
    and "registry_get (operatorNumber (operation request)) = Some x" and "isAuthorizedToExecute x auth"
    and "getArg (operation request) 0 = Some k"
  shows "dispatch_no_applyDelayedOperationsBuffer W auth request n =
    executeOperation W x (operation request) (dispatch_options x auth request) n"
  using assms
  by (simp add: dispatch_no_applyDelayedOperationsBuffer_def isInReplicationMode_def isInPartitionMode_def refuses_key_def
      getPartitionIdByKey_def dispatch_options_def Let_def)

lemma options_simps [simp]:
  "oo_partitionId (dispatch_options x auth request) = 0"
  "(dispatch_options x auth request)\<lparr>oo_partitionId := 0\<rparr> = dispatch_options x auth request"
  "oo_dontSaveInOperationLog (dispatch_options x auth request) = False"
  "oo_dontBroadcastToCluster (dispatch_options x auth request) = False"
  "oo_checkTimestamps (dispatch_options x auth request) \<longleftrightarrow> od_type (desc x) = DB_STORE_WRITE \<and> auth = NODE"
  "oo_updateClockStrategy (dispatch_options x auth request) = (if od_type (desc x) = DB_STORE_WRITE \<and> auth = NODE then SET_MAX else TICK)"
  by (simp_all add: dispatch_options_def Let_def)

lemma edit_response_simps [simp]:
  "isSuccessful (edit_response r code) \<longleftrightarrow> r \<noteq> None"
  "resp_timestamp (edit_response (Some t) code) = LamportClock 0 t"
  by (simp_all add: edit_response_def resb_build_def resb_timestampCounter_def resb_isSuccessful_def new_ResponseBuilder_def Let_def)

lemma node_fields_simps [simp]:
  "node_conf (set_store p M n) = node_conf n" "node_logs (set_store p M n) = node_logs n" "node_fs (set_store p M n) = node_fs n"
  "node_delayed (set_store p M n) = node_delayed n" "node_sent (set_store p M n) = node_sent n" "node_cluster (set_store p M n) = node_cluster n"
  by (simp_all add: set_store_def)

lemma alone_set:
  assumes "\<not> conf_replication (node_conf n)" and "\<not> conf_partitions (node_conf n)"
    and "\<not> bd_hasNext (node_delayed n) (node_fs n)" and "node_store 0 n = Some M" and "map_ok M" and "node_logs n \<noteq> []"
    and "\<forall>k0 c. map_view M (calculateHash (w_ub W) k) \<noteq> Some (k0, CounterP c)"
    and "operatorNumber (operation request) = OP_SET" and "args (operation request) = Some (k # v # rest)"
    and "t = max (counter (node_clock n)) (timestamp (operation request)) + 1"
  shows "\<exists>M'. map_ok M' \<and> map_reading M' (calculateHash (w_ub W) k) = Some (LamportClock (conf_nodeId (node_conf n)) t, v) \<and>
    dispatch W USER request n = Some (edit_response (Some t) ALREADY_REPLICATED,
      (set_store 0 M' n)\<lparr>node_clock := LamportClock (nodeId (node_clock n)) t,
        node_logs := (node_logs n)[0 := log_add ((operation request)\<lparr>timestamp := t\<rparr>) (node_logs n ! 0)]\<rparr>)"
proof -
  let ?op = "operation request" and ?h = "calculateHash (w_ub W) k" and ?self = "conf_nodeId (node_conf n)"
  let ?o = "dispatch_options SetOperator USER request"
  let ?c = "LamportClock (nodeId (node_clock n)) t"
  have user: "isAuthorizedToExecute SetOperator USER" by (simp add: set_get_desc)
  have ts: "write_getTimestamp ?op ?o n = LamportClock ?self (timestamp ?op)" by (simp add: write_getTimestamp_def fromClient_def)
  have clk: "clock_update (oo_updateClockStrategy ?o) (timestamp ?op) (node_clock n) = (t, ?c)" using assms(10) by (simp add: tick_def Let_def)
  have ap: "applied (oo_updateClockStrategy ?o) (oo_checkTimestamps ?o) (write_getTimestamp ?op ?o n) (map_view M ?h)"
    using assms(7) by (auto simp: applied_def accepts_def split: option.split payload.split)
  obtain M' where M': "SetOperator_operate W ?op ?o n =
      Some (edit_response (Some (result_timestamp False (LamportClock ?self (timestamp ?op)) t)) ALREADY_REPLICATED, (set_store 0 M' n)\<lparr>node_clock := ?c\<rparr>)"
    "map_ok M'" "map_view M' = (map_view M)(?h \<mapsto> (stored_key k (map_view M ?h), written v False (LamportClock ?self (timestamp ?op)) t))"
    using SetOperator_writes [of ?o n M ?op k v rest t ?c W] assms(4,5,9) clk ap by (auto simp: ts)
  have rt: "result_timestamp False (LamportClock ?self (timestamp ?op)) t = t" by (simp add: result_timestamp_def)
  have "map_reading M' ?h = Some (LamportClock ?self t, v)" by (simp add: map_reading_def M'(3) written_def stamp_data_def)
  moreover have "executeOperation W SetOperator ?op ?o n = Some (edit_response (Some t) ALREADY_REPLICATED,
      (set_store 0 M' n)\<lparr>node_clock := ?c, node_logs := (node_logs n)[0 := log_add (?op\<lparr>timestamp := t\<rparr>) (node_logs n ! 0)]\<rparr>)"
    using assms(1,2,6) M'(1)
    by (simp add: executeOperation_def execute_with_def rt set_get_desc fromClient_def node_log_add_def logs_add_def Let_def)
  ultimately show ?thesis
    using alone_dispatch [OF assms(1,2), of request SetOperator USER k W] assms(3,8,9) user M'(2)
    by (intro exI [of _ M']) (simp add: no_delayed getArg_def)
qed

lemma alone_get:
  assumes "\<not> conf_replication (node_conf n)" and "\<not> conf_partitions (node_conf n)"
    and "\<not> bd_hasNext (node_delayed n) (node_fs n)" and "node_store 0 n = Some M" and "map_ok M"
    and "map_reading M (calculateHash (w_ub W) k) = Some (ts, v)"
    and "operatorNumber (operation request) = OP_GET" and "args (operation request) = Some (k # rest)"
  shows "\<exists>r. dispatch W USER request n = Some (r, n) \<and> isSuccessful r \<and> responseValue r = v \<and> resp_timestamp r = ts"
proof -
  let ?o = "dispatch_options GetOperator USER request"
  have user: "isAuthorizedToExecute GetOperator USER" by (simp add: set_get_desc)
  obtain r where r: "GetOperator_operate W (operation request) ?o n = Some (r, n)"
    "isSuccessful r" "responseValue r = v" "resp_timestamp r = ts"
    using GetOperator_reads [OF _ assms(5,8,6), of ?o n] assms(4) by auto
  have "executeOperation W GetOperator (operation request) ?o n = Some (r, n)"
    using r(1) by (simp add: executeOperation_def execute_with_def set_get_desc)
  then show ?thesis
    using alone_dispatch [OF assms(1,2), of request GetOperator USER k W] assms(3,7,8) user r(2-4)
    by (intro exI [of _ r]) (simp add: no_delayed getArg_def)
qed

section \<open>Properties\<close>

text \<open>C6. A client reads what it wrote. On a node that works alone, a SET of a key that is not a counter succeeds
  and answers with the next tick of the clock; the operation is queued for the log with that timestamp; and a GET
  of the key that follows succeeds with the value and with the timestamp of the write.\<close>

theorem set_then_get:
  assumes "\<not> conf_replication (node_conf n)" and "\<not> conf_partitions (node_conf n)"
    and "\<not> bd_hasNext (node_delayed n) (node_fs n)" and "node_store 0 n = Some M" and "map_ok M" and "node_logs n \<noteq> []"
    and "\<forall>k0 c. map_view M (calculateHash (w_ub W) k) \<noteq> Some (k0, CounterP c)"
    and "operatorNumber (operation set_request) = OP_SET" and "args (operation set_request) = Some (k # v # rest)"
    and "operatorNumber (operation get_request) = OP_GET" and "args (operation get_request) = Some (k # rest2)"
    and "t = max (counter (node_clock n)) (timestamp (operation set_request)) + 1"
  shows "\<exists>r1 n1 r2 n2. dispatch W USER set_request n = Some (r1, n1) \<and> isSuccessful r1 \<and> counter (resp_timestamp r1) = t \<and>
    buf_queue (operationLogBuffer (node_logs n1 ! 0)) = buf_queue (operationLogBuffer (node_logs n ! 0)) @ [(operation set_request)\<lparr>timestamp := t\<rparr>] \<and>
    dispatch W USER get_request n1 = Some (r2, n2) \<and> isSuccessful r2 \<and> responseValue r2 = v \<and>
    resp_timestamp r2 = LamportClock (conf_nodeId (node_conf n)) t"
proof -
  obtain M' where M': "map_ok M'" "map_reading M' (calculateHash (w_ub W) k) = Some (LamportClock (conf_nodeId (node_conf n)) t, v)"
    "dispatch W USER set_request n = Some (edit_response (Some t) ALREADY_REPLICATED,
      (set_store 0 M' n)\<lparr>node_clock := LamportClock (nodeId (node_clock n)) t,
        node_logs := (node_logs n)[0 := log_add ((operation set_request)\<lparr>timestamp := t\<rparr>) (node_logs n ! 0)]\<rparr>)"
    using alone_set [OF assms(1-9,12)] by blast
  define n1 where "n1 = (set_store 0 M' n)\<lparr>node_clock := LamportClock (nodeId (node_clock n)) t,
    node_logs := (node_logs n)[0 := log_add ((operation set_request)\<lparr>timestamp := t\<rparr>) (node_logs n ! 0)]\<rparr>"
  have "node_conf n1 = node_conf n" "node_delayed n1 = node_delayed n" "node_fs n1 = node_fs n" "node_store 0 n1 = Some M'"
    by (simp_all add: n1_def)
  then obtain r2 where "dispatch W USER get_request n1 = Some (r2, n1)" "isSuccessful r2" "responseValue r2 = v"
    "resp_timestamp r2 = LamportClock (conf_nodeId (node_conf n)) t"
    using alone_get [of n1 M' W k _ v get_request rest2] assms(1-3,10,11) M'(1,2) by auto
  moreover have "buf_queue (operationLogBuffer (node_logs n1 ! 0)) =
      buf_queue (operationLogBuffer (node_logs n ! 0)) @ [(operation set_request)\<lparr>timestamp := t\<rparr>]"
    using assms(6) by (simp add: n1_def log_add_def buffer_add_def)
  ultimately show ?thesis using M'(3) n1_def by auto
qed

section \<open>The stores of a node stay well formed\<close>

definition node_ok :: "node \<Rightarrow> bool" where
  "node_ok n \<longleftrightarrow> (\<forall>p M. node_store p n = Some M \<longrightarrow> map_ok M)"

definition typed_step :: "node \<Rightarrow> node \<Rightarrow> bool" where
  "typed_step n n' \<longleftrightarrow> (node_ok n \<longrightarrow> node_ok n') \<and> node_conf n' = node_conf n \<and> dom (node_stores n') = dom (node_stores n)"

lemma typed_step_refl: "node_stores n' = node_stores n \<Longrightarrow> node_conf n' = node_conf n \<Longrightarrow> typed_step n n'"
  by (simp add: typed_step_def node_ok_def node_store_def)

lemma typed_step_trans: "typed_step n n1 \<Longrightarrow> typed_step n1 n2 \<Longrightarrow> typed_step n n2"
  by (simp add: typed_step_def)

lemma typed_step_store:
  assumes "node_stores n' = (node_stores n)(p \<mapsto> M')" and "node_store p n = Some M" and "node_conf n' = node_conf n" and "node_ok n \<Longrightarrow> map_ok M'"
  shows "typed_step n n'"
  using assms by (auto simp: typed_step_def node_ok_def node_store_def getByPartitionId_def)

lemma map_get_same: "map_ok M \<Longrightarrow> map_get ub k M = Some (r, M') \<Longrightarrow> M' = M"
  using map_get_view [of M ub k] by auto

lemma putData_ok: "map_ok M \<Longrightarrow> putData ub k v ts st rn M (Some c) = Some (r, M', clk) \<Longrightarrow> map_ok M'"
proof -
  obtain i c' where "clock_update st (counter ts) c = (i, c')" by fastforce
  then show "map_ok M \<Longrightarrow> putData ub k v ts st rn M (Some c) = Some (r, M', clk) \<Longrightarrow> map_ok M'"
    using putData_view [of M st ts c i c' ub k v rn] by auto
qed

lemma node_okD: "node_ok n \<Longrightarrow> node_store p n = Some M \<Longrightarrow> map_ok M"
  by (simp add: node_ok_def)

lemma node_log_add_typed: "node_log_add p op n = Some n' \<Longrightarrow> node_stores n' = node_stores n \<and> node_conf n' = node_conf n"
  by (auto simp: node_log_add_def split: Option.bind_split_asm)

lemma set_paxos_typed [simp]: "node_stores (set_paxos R n) = node_stores n" "node_conf (set_paxos R n) = node_conf n"
  by (simp_all add: set_paxos_def)

lemma typed_step_paxos [simp]: "typed_step (set_paxos R n) n' \<longleftrightarrow> typed_step n n'" "typed_step n (set_paxos R n') \<longleftrightarrow> typed_step n n'"
  by (simp_all add: typed_step_def node_ok_def)

lemma SetOperator_typed: "SetOperator_operate W op options n = Some (r, n') \<Longrightarrow> typed_step n n'"
  by (auto simp: SetOperator_operate_def Let_def set_store_def split: Option.bind_split_asm prod.split_asm
      intro!: typed_step_store dest: node_okD putData_ok)

lemma GetOperator_typed: "GetOperator_operate W op options n = Some (r, n') \<Longrightarrow> typed_step n n'"
  by (auto simp: GetOperator_operate_def set_store_def split: Option.bind_split_asm prod.split_asm
      intro!: typed_step_store dest: node_okD map_get_same)

lemma PrepareCasOperator_typed: "PrepareCasOperator_operate W op options n = Some (r, n') \<Longrightarrow> typed_step n n'"
  by (auto simp: PrepareCasOperator_operate_def Let_def set_store_def set_paxos_def split: Option.bind_split_asm prod.split_asm if_split_asm
      intro!: typed_step_store dest: node_okD map_get_same)

lemma AcceptCasOperator_typed: "AcceptCasOperator_operate W op options n = Some (r, n') \<Longrightarrow> typed_step n n'"
  by (auto simp: AcceptCasOperator_operate_def Let_def set_store_def set_paxos_def split: Option.bind_split_asm prod.split_asm if_split_asm
      intro!: typed_step_store dest: node_okD map_get_same putData_ok dest!: node_log_add_typed)

lemma cas_send_typed: "cas_send W p k waiting body n = Some (M, n') \<Longrightarrow> typed_step n n'"
  by (auto simp: cas_send_def Let_def split: Option.bind_split_asm sum.split_asm prod.split_asm intro!: typed_step_refl)

lemma cas_current_typed: "cas_current W p k expected n = Some (r, n') \<Longrightarrow> typed_step n n'"
  by (auto simp: cas_current_def Let_def set_store_def fail_round_def split: Option.bind_split_asm prod.split_asm option.split_asm if_split_asm
      intro!: typed_step_store dest: node_okD map_get_same)

lemma check_quorum_typed: "checkIfQuorumAndAllResponsesSuccess W k M n = (b, n') \<Longrightarrow> typed_step n n'"
  by (auto simp: checkIfQuorumAndAllResponsesSuccess_def fail_round_def split: if_split_asm intro!: typed_step_refl)

lemma sendRetriesPrepares_typed: "sendRetriesPrepares W p k expected next_ts n = Some (r, n') \<Longrightarrow> typed_step n n'"
proof -
  assume run: "sendRetriesPrepares W p k expected next_ts n = Some (r, n')"
  have "typed_step n (snd (r, n'))"
    by (rule sendRetriesPrepares.raw_induct [where P = "\<lambda>W p k expected next_ts n y. typed_step n (snd y)", OF _ run])
      (auto simp: Let_def sendPrepare_def split: Option.bind_split_asm prod.split_asm sum.split_asm if_split_asm
        dest!: cas_current_typed cas_send_typed check_quorum_typed intro: typed_step_trans, blast intro: typed_step_trans)
  then show ?thesis by simp
qed

lemma cas_commit_typed: "cas_commit W p k v next_ts n = Some (r, n') \<Longrightarrow> typed_step n n'"
  by (auto simp: cas_commit_def Let_def set_store_def fail_round_def split: Option.bind_split_asm prod.split_asm if_split_asm
      intro!: typed_step_store dest: node_okD putData_ok dest!: node_log_add_typed)

lemma CasOperator_typed: "CasOperator_operate W op options n = Some (r, n') \<Longrightarrow> typed_step n n'"
  by (auto simp: CasOperator_operate_def Let_def sendAccept_def fail_round_def split: Option.bind_split_asm prod.split_asm sum.split_asm if_split_asm
      dest!: sendRetriesPrepares_typed cas_send_typed check_quorum_typed cas_commit_typed intro: typed_step_trans)
    (blast intro: typed_step_trans)+

lemma SyncOplogOperator_typed: "SyncOplogOperator_operate W op options n = Some (r, n') \<Longrightarrow> typed_step n n'"
  by (auto simp: SyncOplogOperator_operate_def split: Option.bind_split_asm intro!: typed_step_refl)

lemma broadcast_operation_typed: "broadcast_operation W op n = Some n' \<Longrightarrow> typed_step n n'"
  by (auto simp: broadcast_operation_def split: Option.bind_split_asm sum.split_asm prod.split_asm intro!: typed_step_refl)

lemma node_log_add_typed_step: "node_log_add p op n = Some n' \<Longrightarrow> typed_step n n'"
  by (auto dest: node_log_add_typed intro: typed_step_refl)

lemma execute_with_typed:
  assumes "execute_with W d run op options n = Some (r, n')"
    and "\<And>op r n'. run op options n = Some (r, n') \<Longrightarrow> typed_step n n'"
  shows "typed_step n n'"
proof -
  obtain r1 n1 where 1: "run op options n = Some (r1, n1)" using assms(1) by (auto simp: execute_with_def split: Option.bind_split_asm)
  then have "typed_step n n1" by (rule assms(2))
  moreover have "typed_step n1 n'"
    using assms(1) 1
    by (auto simp: execute_with_def Let_def typed_step_refl split: Option.bind_split_asm if_split_asm
        dest!: node_log_add_typed_step broadcast_operation_typed intro: typed_step_trans)
  ultimately show ?thesis by (rule typed_step_trans)
qed

lemma NextSegmentOplogOperator_typed: "NextSegmentOplogOperator_operate W op options n = Some (r, n') \<Longrightarrow> typed_step n n'"
proof -
  assume run: "NextSegmentOplogOperator_operate W op options n = Some (r, n')"
  obtain found n1 where 1: "getOplogSegmentIterator W op options n = Some (found, n1)"
    using run by (auto simp: NextSegmentOplogOperator_operate_def split: Option.bind_split_asm)
  have "typed_step n n1"
    using 1 by (auto simp: getOplogSegmentIterator_def typed_step_refl split: option.split_asm Option.bind_split_asm prod.split_asm
        intro: execute_with_typed SyncOplogOperator_typed)
  moreover have "typed_step n1 n'"
    using run 1 by (auto simp: NextSegmentOplogOperator_operate_def Let_def split: Option.bind_split_asm if_split_asm intro!: typed_step_refl)
  ultimately show ?thesis by (rule typed_step_trans)
qed

text \<open>The operators that do not write to a store, or write to it through \<^verbatim>\<open>putData\<close>.\<close>

definition stable_operators :: "operator_t list" where
  "stable_operators = [GetOperator, SetOperator, ContainsOperator, HealthCheckOperator, SyncOplogOperator, NextSegmentOplogOperator,
     FixOplogSegmentOperator, CasOperator, PrepareCasOperator, AcceptCasOperator, GetClusterConfigOperator, DoLeaveClusterOperator,
     GetNodeDataOperator]"

lemma operate_typed:
  assumes "x \<in> set stable_operators" and "operate mv W x op options n = Some (r, n')"
  shows "typed_step n n'"
  using assms
  by (auto simp: stable_operators_def intro: SetOperator_typed GetOperator_typed PrepareCasOperator_typed AcceptCasOperator_typed
      CasOperator_typed SyncOplogOperator_typed NextSegmentOplogOperator_typed)
    (auto simp: ContainsOperator_operate_def HealthCheckOperator_operate_def FixOplogSegmentOperator_operate_def
      GetClusterConfigOperator_operate_def DoLeaveClusterOperator_operate_def GetNodeDataOperator_operate_def
      split: Option.bind_split_asm intro!: typed_step_refl)

lemma executeOperation_typed:
  "x \<in> set stable_operators \<Longrightarrow> executeOperation W x op options n = Some (r, n') \<Longrightarrow> typed_step n n'"
  unfolding executeOperation_def by (erule execute_with_typed) (erule operate_typed)

lemma hand_off_hints_typed: "hand_off_hints W request n = Some n' \<Longrightarrow> typed_step n n'"
  by (auto simp: hand_off_hints_def split: Option.bind_split_asm sum.split_asm prod.split_asm intro!: typed_step_refl)

lemma delayed_add_typed: "delayed_add request n = Some n' \<Longrightarrow> typed_step n n'"
  by (auto simp: delayed_add_def split: Option.bind_split_asm intro!: typed_step_refl)

text \<open>C13. Dispatching a request on a node without delayed requests. A request for an unknown operator, or for any operator the
  caller may not execute, leaves the whole node as it was and answers with the error. A request for an
  operator that reads, writes a value, compares and sets, or serves the configuration, the log or the data of the
  node keeps the node well typed, whatever it asks for and whoever sends it: every store stays well formed, no
  store appears or disappears and the configuration is the same. Not covered by the second part are deletions,
  counters, and the operators that change the members of the cluster or move a log.\<close>

theorem dispatch_keeps_node_typed:
  assumes "dispatch W auth request n = Some (r, n')" and "\<not> bd_hasNext (node_delayed n) (node_fs n)"
  shows "(registry_get (operatorNumber (operation request)) = None \<longrightarrow> r = error UNKNOWN_OPERATOR \<and> n' = n) \<and>
    (\<forall>x. registry_get (operatorNumber (operation request)) = Some x \<longrightarrow> \<not> isAuthorizedToExecute x auth \<longrightarrow> r = error NOT_AUTHORIZED \<and> n' = n) \<and>
    (\<forall>x \<in> set stable_operators. registry_get (operatorNumber (operation request)) = Some x \<longrightarrow> node_ok n \<longrightarrow>
       node_ok n' \<and> dom (node_stores n') = dom (node_stores n) \<and> node_conf n' = node_conf n)"
proof -
  have run: "dispatch_no_applyDelayedOperationsBuffer W auth request n = Some (r, n')" using assms(1) no_delayed [OF assms(2)] by simp
  have "typed_step n n'" if "registry_get (operatorNumber (operation request)) = Some x" "x \<in> set stable_operators" for x
    using run that(1)
    by (auto simp: dispatch_no_applyDelayedOperationsBuffer_def Let_def typed_step_refl split: Option.bind_split_asm if_split_asm
        dest!: hand_off_hints_typed delayed_add_typed executeOperation_typed [OF that(2)] intro: typed_step_trans)
  then have "\<forall>x \<in> set stable_operators. registry_get (operatorNumber (operation request)) = Some x \<longrightarrow> node_ok n \<longrightarrow>
       node_ok n' \<and> dom (node_stores n') = dom (node_stores n) \<and> node_conf n' = node_conf n"
    by (auto simp: typed_step_def)
  then show ?thesis using run by (auto simp: dispatch_no_applyDelayedOperationsBuffer_def)
qed

text \<open>Replicated writes do not settle. A running node that receives a write it already stores, with the same
  timestamp and value, from another node answers with success, reads the same afterwards and broadcasts the write
  to its partition once more, so that two nodes keep sending each other the same write.\<close>

theorem stored_write_broadcast_again:
  assumes "conf_replication (node_conf n)" and "\<not> conf_partitions (node_conf n)" and "selfState (node_cluster n) = RUNNING"
    and "om_get (<) (op_nodeId (operation request)) (hintsByNodeId (hintsService (node_cluster n))) = None"
    and "node_store 0 n = Some M" and "map_ok M" and "node_logs n \<noteq> []"
    and "operatorNumber (operation request) = OP_SET" and "args (operation request) = Some (k # v # rest)"
    and "map_reading M (calculateHash (w_ub W) k) = Some (LamportClock (op_nodeId (operation request)) (timestamp (operation request)), v)"
    and "broadcastAndWait (w_net W) (node_conf n) (operation request) \<lparr>sro_partitionId = 0, sro_canBeStoredInHint = True\<rparr>
      (node_cluster n, node_fs n) = Some (Inr (R, C, fs))"
  shows "\<exists>r n' M'. dispatch_no_applyDelayedOperationsBuffer W NODE request n = Some (r, n') \<and> isSuccessful r \<and>
    node_store 0 n' = Some M' \<and> map_reading M' = map_reading M \<and> node_sent n' = node_sent n @ [operation request]"
proof -
  let ?op = "operation request" and ?h = "calculateHash (w_ub W) k" and ?o = "dispatch_options SetOperator NODE request"
  let ?ts = "LamportClock (op_nodeId ?op) (timestamp ?op)"
  obtain i c where clk: "clock_update SET_MAX (timestamp ?op) (node_clock n) = (i, c)" by fastforce
  have wr: "od_type (desc SetOperator) = DB_STORE_WRITE" "isAuthorizedToExecute SetOperator NODE" by (simp_all add: set_get_desc)
  have ts: "write_getTimestamp ?op ?o n = ?ts" using wr by (simp add: write_getTimestamp_def fromClient_def)
  obtain k0 d where d: "map_view M ?h = Some (k0, DataP d)" "data_timestamp d = ?ts" "data_value d = v"
    using assms(10) by (auto simp: map_reading_def split: option.splits payload.splits)
  have ap: "applied SET_MAX True ?ts (map_view M ?h)" using d by (simp add: applied_def accepts_def)
  obtain M' where M': "SetOperator_operate W ?op ?o n =
      Some (edit_response (Some (result_timestamp True ?ts i)) ALREADY_REPLICATED, (set_store 0 M' n)\<lparr>node_clock := c\<rparr>)"
    "map_view M' = (map_view M)(?h \<mapsto> (stored_key k (map_view M ?h), written v True ?ts i))"
    using SetOperator_writes [of ?o n M ?op k v rest i c W] assms(5,6,9) clk ap wr by (auto simp: ts)
  have rd: "map_reading M' = map_reading M"
    using assms(10) by (auto simp: map_reading_def M'(2) written_def stamp_data_def fun_eq_iff)
  define n1 where "n1 = (set_store 0 M' n)\<lparr>node_clock := c, node_logs := (node_logs n)[0 := log_add ?op (node_logs n ! 0)]\<rparr>"
  have "hand_off_hints W request n = Some n"
    using assms(4) by (simp add: hand_off_hints_def checkHintedHandoff_def sendHintedHandoff_def hints_iterator_def with_hints_def)
      (subst handoff_loop.simps, simp)
  moreover have "broadcast_operation W ?op n1 = Some (n1\<lparr>node_cluster := C, node_fs := fs, node_sent := node_sent n @ [?op]\<rparr>)"
    using assms(2,9,11) by (simp add: broadcast_operation_def getArg_def dispatcher_getPartitionIdByKey_def n1_def)
  then have "executeOperation W SetOperator ?op ?o n =
      Some (edit_response (Some (result_timestamp True ?ts i)) ALREADY_REPLICATED, n1\<lparr>node_cluster := C, node_fs := fs, node_sent := node_sent n @ [?op]\<rparr>)"
    using assms(1,2,7) M'(1) wr
    by (simp add: executeOperation_def execute_with_def set_get_desc fromClient_def node_log_add_def logs_add_def n1_def Let_def)
  ultimately have "dispatch_no_applyDelayedOperationsBuffer W NODE request n =
      Some (edit_response (Some (result_timestamp True ?ts i)) ALREADY_REPLICATED, n1\<lparr>node_cluster := C, node_fs := fs, node_sent := node_sent n @ [?op]\<rparr>)"
    using assms(1-3,8,9) wr
    by (simp add: dispatch_no_applyDelayedOperationsBuffer_def isInReplicationMode_def isInPartitionMode_def refuses_key_def canAcceptRequest_def
        canExecuteRequest_def getNodeState_def cantExecuteRequest_def states_canAcceptRequest_def getPartitionIdByKey_def getArg_def fromClient_def Let_def)
  moreover have "node_store 0 (n1\<lparr>node_cluster := C, node_fs := fs, node_sent := node_sent n @ [?op]\<rparr>) = Some M'"
    by (simp add: n1_def node_store_def set_store_def getByPartitionId_def)
  ultimately show ?thesis using rd by auto
qed

section \<open>A node with one key\<close>

definition alone :: node where
  "alone = (cas_node 1 [] 5)\<lparr>node_conf := sample_settings\<lparr>conf_replication := False\<rparr>, node_fs := set_content ''m/delayed'' [] (sample_fs [])\<rparr>"

definition key_request :: "u8 \<Rightarrow> SimpleString list \<Rightarrow> Request" where
  "key_request number as = rb_build (rb_args as (rb_operatorNumber number (rb_builder 0)))"

lemma key_request_simps [simp]:
  "operatorNumber (operation (key_request number as)) = number" "args (operation (key_request number as)) = Some as"
  "timestamp (operation (key_request number as)) = 0" "op_nodeId (operation (key_request number as)) = 0"
  by (simp_all add: key_request_def rb_build_def buildOperationBody_def rb_args_def rb_operatorNumber_def rb_builder_def)

lemma alone_simps:
  "\<not> conf_replication (node_conf alone)" "\<not> conf_partitions (node_conf alone)" "\<not> bd_hasNext (node_delayed alone) (node_fs alone)"
  "node_store 0 alone = Some key_map" "node_logs alone \<noteq> []" "node_clock alone = LamportClock 1 5"
  by (simp_all add: alone_def cas_node_def sample_settings_def bd_hasNext_def file_size_def node_store_def getByPartitionId_def)

lemma key_map_view: "\<forall>k0 c. map_view key_map (calculateHash (w_ub (cas_world net)) [97]) \<noteq> Some (k0, CounterP c)"
  using key_map(2) by (auto simp: hash_97 map_reading_def)

theorem set_then_get_witness:
  "\<exists>r1 n1 r2 n2. dispatch (cas_world (only_from 2 (error 0))) USER (key_request OP_SET [[97], [8]]) alone = Some (r1, n1) \<and>
     dispatch (cas_world (only_from 2 (error 0))) USER (key_request OP_GET [[97]]) n1 = Some (r2, n2) \<and>
     isSuccessful r2 \<and> responseValue r2 = [8] \<and> counter (resp_timestamp r2) = 6"
proof -
  have "(6 :: u64) = max (counter (node_clock alone)) (timestamp (operation (key_request OP_SET [[97], [8]]))) + 1"
    by (simp add: alone_simps)
  from set_then_get [OF alone_simps(1-4) key_map(1) alone_simps(5) key_map_view key_request_simps(1,2,1,2) this]
  show ?thesis by fastforce
qed

theorem dispatch_keeps_node_typed_witness:
  "\<exists>r n'. dispatch (cas_world (only_from 2 (error 0))) USER (key_request OP_SET [[97], [8]]) alone = Some (r, n') \<and> isSuccessful r \<and>
     n' \<noteq> alone \<and> node_ok n' \<and> dom (node_stores n') = dom (node_stores alone)"
proof -
  have "(6 :: u64) = max (counter (node_clock alone)) (timestamp (operation (key_request OP_SET [[97], [8]]))) + 1"
    by (simp add: alone_simps)
  from alone_set [OF alone_simps(1-4) key_map(1) alone_simps(5) key_map_view key_request_simps(1,2) this]
  obtain r n' where run: "dispatch (cas_world (only_from 2 (error 0))) USER (key_request OP_SET [[97], [8]]) alone = Some (r, n')"
    "node_clock n' = LamportClock (nodeId (node_clock alone)) 6" "isSuccessful r"
    by fastforce
  have "n' \<noteq> alone" using run(2) alone_simps(6) by auto
  moreover have "node_ok alone" using key_map(1) by (auto simp: node_ok_def node_store_def getByPartitionId_def alone_def cas_node_def)
  ultimately show ?thesis
    using dispatch_keeps_node_typed [OF run(1) alone_simps(3)] run(1,3) by (auto simp: stable_operators_def)
qed

definition answering :: network where
  "answering attempt node request = SendOk (success (LamportClock 0 0))"

definition running :: node where
  "running = (cas_node 1 [peer 2, peer 3] 5)\<lparr>node_cluster := setRunning (node_cluster (cas_node 1 [peer 2, peer 3] 5))\<rparr>"

definition stored_request :: Request where
  "stored_request = rb_build (rb_selfNode 3 (rb_set_timestamp 1 (rb_args [[97], [7]] (rb_operatorNumber OP_SET (rb_builder 0)))))"

theorem stored_write_broadcast_again_witness:
  "\<exists>r n'. dispatch_no_applyDelayedOperationsBuffer (cas_world answering) NODE stored_request running = Some (r, n') \<and> isSuccessful r \<and>
     node_sent n' = [operation stored_request]"
proof -
  have n: "conf_replication (node_conf running)" "\<not> conf_partitions (node_conf running)" "selfState (node_cluster running) = RUNNING"
    "om_get (<) (op_nodeId (operation stored_request)) (hintsByNodeId (hintsService (node_cluster running))) = None"
    "node_store 0 running = Some key_map" "node_logs running \<noteq> []" "node_sent running = []"
    by (simp_all add: running_def cas_node_def sample_settings_def setRunning_def new_Cluster_def new_HintsService_def node_store_def
        getByPartitionId_def)
  have q: "operatorNumber (operation stored_request) = OP_SET" "args (operation stored_request) = Some ([97] # [7] # [])"
    "LamportClock (op_nodeId (operation stored_request)) (timestamp (operation stored_request)) = LamportClock 3 1"
    by (simp_all add: stored_request_def rb_build_def buildOperationBody_def rb_args_def rb_operatorNumber_def rb_set_timestamp_def
        rb_selfNode_def rb_builder_def)
  have rd: "map_reading key_map (calculateHash (w_ub (cas_world answering)) [97]) =
      Some (LamportClock (op_nodeId (operation stored_request)) (timestamp (operation stored_request)), [7])"
    by (simp add: q(3) hash_97 key_map(2))
  obtain R C fs where b: "broadcastAndWait (w_net (cas_world answering)) (node_conf running) (operation stored_request)
      \<lparr>sro_partitionId = 0, sro_canBeStoredInHint = True\<rparr> (node_cluster running, node_fs running) = Some (Inr (R, C, fs))"
    by (simp add: broadcastAndWait_def cn_broadcastAndWait_def nodes_in_def forEachNodeInPartition_def nip_getAll_def nip_size_def
        wait_task_def answering_def success_def cas_world_def peer_def running_def cas_node_def setRunning_def new_Cluster_def)
  show ?thesis
    using stored_write_broadcast_again [OF n(1-5) key_map(1) n(6) q(1,2) rd b] n(7) by auto
qed

end
