(* ===== verification/Sync_Receiver.thy ===== *)
theory Sync_Receiver
  imports Node_Operators
begin

text \<open>
  The receiving side of the synchronisation of an oplog (\<^verbatim>\<open>SyncOplogReceiverIterator\<close>). The positions in
  the sequence of random numbers and in the attempts of the network are threaded through; \<^term>\<open>None\<close> is an
  exception or a loop that does not end.
\<close>

record SyncOplogReceiverIterator =
  rx_timestampToSync :: u64
  rx_selfOplogIdToSync :: u32
  rx_syncId :: u32
  rx_nodeSender :: Node
  rx_nSegmentsRemaining :: u64
  rx_alreadyCheckedNodeIds :: NodesInPartition

type_synonym receiver = "SyncOplogReceiverIterator \<times> node \<times> nat \<times> nat"

definition other_oplog_id :: "memdbNodeId_t \<Rightarrow> SyncOplogReceiverIterator \<Rightarrow> node \<Rightarrow> u32 option" where
  "other_oplog_id nid rx n = do {
     P \<leftarrow> cluster_partitions (node_cluster n);
     getOplogIdOfOtherNodeBySelfOplogId nid (rx_selfOplogIdToSync rx) P }"

text \<open>The identifier of a synchronisation is 64 bits wide, but the function that hands it out returns 32.\<close>

definition createSyncOplogRequest :: "world \<Rightarrow> memdbNodeId_t \<Rightarrow> SyncOplogReceiverIterator \<Rightarrow> node \<Rightarrow> (Request \<times> node) option" where
  "createSyncOplogRequest W nid rx n = do {
     nodeOplogId \<leftarrow> other_oplog_id nid rx n;
     let (syncId, S) = nextSyncOplogId (node_syncs n);
     Some (rb_build (rb_set_requestNumber (ucast syncId) (rb_operatorNumber OP_SYNC_OPLOG (rb_selfNode (conf_nodeId (node_conf n))
       (rb_addArg (fromNumber nodeOplogId) (rb_addDoubleArg (rx_timestampToSync rx)
         (rb_authKey (string_bytes (conf_authNodeKey (node_conf n))) (rb_builder (w_op0 W)))))))), n\<lparr>node_syncs := S\<rparr>) }"

definition createNextSegmnentRequest :: "world \<Rightarrow> SyncOplogReceiverIterator \<Rightarrow> node \<Rightarrow> Request option" where
  "createNextSegmnentRequest W rx n = do {
     nodeOplogId \<leftarrow> other_oplog_id (node_id (rx_nodeSender rx)) rx n;
     Some (rb_build (rb_addArg (fromNumber nodeOplogId) (rb_addDoubleArg (rx_timestampToSync rx)
       (rb_set_requestNumber (rx_syncId rx) (rb_operatorNumber OP_NEXT_SYNC_OPLOG_SEGMENT
         (rb_authKey (string_bytes (conf_authNodeKey (node_conf n))) (rb_builder (w_op0 W)))))))) }"

partial_function (option) initSyncOplog :: "world \<Rightarrow> receiver \<Rightarrow> receiver option" where
  "initSyncOplog W s =
     (case s of (rx, n, i, t) \<Rightarrow> do {
        selected \<leftarrow> getRandomNode (w_rands W) (unat (rx_selfOplogIdToSync rx)) (clusterNodes (node_cluster n)) (rx_alreadyCheckedNodeIds rx) i;
        (case selected of
           (None, checked, i) \<Rightarrow> None
         | (Some node, checked, i) \<Rightarrow> do {
             let rx = rx\<lparr>rx_alreadyCheckedNodeIds := checked\<rparr>;
             created \<leftarrow> createSyncOplogRequest W (node_id node) rx n;
             (case created of (request, n) \<Rightarrow>
                (case w_net W t node request of
                   SendOk response \<Rightarrow> do {
                     nSegments \<leftarrow> (ss_to (responseValue response) :: u64 option);
                     Some (rx\<lparr>rx_nSegmentsRemaining := nSegments, rx_syncId := resp_requestNumber response, rx_nodeSender := node\<rparr>, n, i, Suc t) }
                 | SendError unset \<Rightarrow> initSyncOplog W (rx, n, i, Suc t))) }) })"

text \<open>Before the constructor has initialised it, the memory of the iterator is the argument \<open>rx0\<close>.\<close>

definition new_SyncOplogReceiverIterator ::
  "world \<Rightarrow> SyncOplogReceiverIterator \<Rightarrow> u64 \<Rightarrow> u32 \<Rightarrow> node \<times> nat \<times> nat \<Rightarrow> receiver option" where
  "new_SyncOplogReceiverIterator W rx0 ts selfOplogId = (\<lambda>(n, i, t).
     initSyncOplog W (rx0\<lparr>rx_timestampToSync := ts, rx_selfOplogIdToSync := selfOplogId, rx_alreadyCheckedNodeIds := []\<rparr>, n, i, t))"

definition syncOplog :: "world \<Rightarrow> SyncOplogReceiverIterator \<Rightarrow> u64 \<Rightarrow> SendRequestOptions \<Rightarrow> node \<times> nat \<times> nat \<Rightarrow> receiver option" where
  "syncOplog W rx0 lastTimestampProcessedFromOpLog options =
     new_SyncOplogReceiverIterator W rx0 lastTimestampProcessedFromOpLog (word_of_nat (sro_partitionId options))"

definition rx_hasNext :: "SyncOplogReceiverIterator \<Rightarrow> bool" where
  "rx_hasNext rx \<longleftrightarrow> 0 < rx_nSegmentsRemaining rx"

definition rx_totalSize :: "SyncOplogReceiverIterator \<Rightarrow> u64" where
  "rx_totalSize rx = rx_nSegmentsRemaining rx"

partial_function (option) sendNextSegment :: "world \<Rightarrow> receiver \<Rightarrow> (Response \<times> receiver) option" where
  "sendNextSegment W s =
     (case s of (rx, n, i, t) \<Rightarrow> do {
        request \<leftarrow> createNextSegmnentRequest W rx n;
        (case w_net W t (rx_nodeSender rx) request of
           SendOk response \<Rightarrow> Some (response, rx, n, i, Suc t)
         | SendError unset \<Rightarrow> do {
             s \<leftarrow> initSyncOplog W (rx, n, i, Suc t);
             sendNextSegment W s }) })"

definition getOplogFromResponse :: "world \<Rightarrow> Response \<Rightarrow> bytes option" where
  "getOplogFromResponse W response = do {
     oplog \<leftarrow> (if 4 \<le> length (responseValue response)
        then getResponseValueAtOffset response 4 (length (responseValue response) - 4) else None);
     b \<leftarrow> getResponseValueAtOffset response 0 4;
     originalSize \<leftarrow> (ss_to b :: u32 option);
     (case uncompressBytes (env_uncompress (w_env W)) oplog (ucast originalSize) of
        Inl ret \<Rightarrow> None
      | Inr bytes \<Rightarrow> Some bytes) }"

text \<open>The inner \<^term>\<open>None\<close> is the error result of a segment that cannot be repaired.\<close>

definition rx_next :: "world \<Rightarrow> receiver \<Rightarrow> (bytes option \<times> receiver) option" where
  "rx_next W s = do {
     (nextResponse, rx, n, i, t) \<leftarrow> sendNextSegment W s;
     if \<not> isSuccessful nextResponse \<and> hasErrorCode nextResponse SYNC_OP_LOG_EOF
     then Some (Some [], rx\<lparr>rx_nSegmentsRemaining := 0\<rparr>, n, i, t)
     else if \<not> isSuccessful nextResponse \<and> hasErrorCode nextResponse UNFIXABLE_CORRUPTED_OPLOG_SEGMENT
     then Some (None, rx, n, i, t)
     else do {
       let rx = rx\<lparr>rx_timestampToSync := counter (resp_timestamp nextResponse), rx_nSegmentsRemaining := rx_nSegmentsRemaining rx - 1\<rparr>;
       bytes \<leftarrow> getOplogFromResponse W nextResponse;
       Some (Some bytes, rx, n, i, t) } }"

section \<open>The end of the log is not recognised\<close>

text \<open>\<^verbatim>\<open>hasErrorCode\<close> does not recognise the end-of-log answer, so the iterator reads a segment out of
  the empty response, past its end.\<close>

lemma end_of_log_taken_for_segment:
  assumes "createNextSegmnentRequest W rx n = Some request"
    and "w_net W t (rx_nodeSender rx) request = SendOk (error SYNC_OP_LOG_EOF)"
  shows "rx_next W (rx, n, i, t) = None"
proof -
  have "sendNextSegment W (rx, n, i, t) = Some (error SYNC_OP_LOG_EOF, rx, n, i, Suc t)"
    by (subst sendNextSegment.simps) (simp add: assms)
  moreover have "\<not> hasErrorCode (error SYNC_OP_LOG_EOF) SYNC_OP_LOG_EOF"
    "\<not> hasErrorCode (error SYNC_OP_LOG_EOF) UNFIXABLE_CORRUPTED_OPLOG_SEGMENT"
    by (code_simp, code_simp)
  moreover have "getOplogFromResponse W (error SYNC_OP_LOG_EOF) = None"
    by (simp add: getOplogFromResponse_def error_def)
  ultimately show ?thesis by (simp add: rx_next_def)
qed

end
