(* ===== verification/Mem_Db.thy ===== *)
theory Mem_Db
  imports Dispatch_Props Sync_Receiver
begin

text \<open>
  The start of a node (\<^verbatim>\<open>MemDb.cpp\<close>): the operations of the log on disk, and then those the rest of the cluster has, are
  applied to the stores. An exception, or a loop that does not end, is \<^term>\<open>None\<close>.
\<close>

section \<open>Iterators\<close>

datatype OperationLogIteratorOrigin = LOCAL | OTHER_NODE

text \<open>An iterator over a log of the disk, the empty one of a log that does not exist, and one over a log of
  another node, with the positions in the random numbers and in the attempts of the network.\<close>

datatype bytesDiskIterator = DiskIterator OplogIterator | EmptyIterator | ReceiverIterator SyncOplogReceiverIterator nat nat

fun disk_hasNext :: "bytesDiskIterator \<Rightarrow> bool" where
  "disk_hasNext (DiskIterator it) = it_hasNext it"
| "disk_hasNext EmptyIterator = False"
| "disk_hasNext (ReceiverIterator rx i t) = rx_hasNext rx"

fun disk_next :: "world \<Rightarrow> bytesDiskIterator \<Rightarrow> node \<Rightarrow> (bytes option \<times> bytesDiskIterator \<times> node) option" where
  "disk_next W (DiskIterator it) n = do {
     (it, part) \<leftarrow> node_it_next W n it;
     Some (part, DiskIterator it, n) }"
| "disk_next W EmptyIterator n = None"
| "disk_next W (ReceiverIterator rx i t) n = do {
     (part, rx, n, i, t) \<leftarrow> rx_next W (rx, n, i, t);
     Some (part, ReceiverIterator rx i t, n) }"

definition node_getNumberOplogFiles :: "node \<Rightarrow> u32" where
  "node_getNumberOplogFiles n =
     (if conf_partitions (node_conf n) then logs_getNumberOplogFiles (node_logs n) else log_getNumberOplogFiles)"

definition node_getAll :: "world \<Rightarrow> OperationLogOptions \<Rightarrow> node \<Rightarrow> bytesDiskIterator option" where
  "node_getAll W options n =
     (if conf_partitions (node_conf n)
      then map_option (\<lambda>it. case it of None \<Rightarrow> EmptyIterator | Some it \<Rightarrow> DiskIterator it)
             (logs_getAll (w_garbage W) options (node_logs n) (node_fs n))
      else do {
        log \<leftarrow> single_log n;
        it \<leftarrow> log_getAll (w_garbage W) options log (node_fs n);
        Some (DiskIterator it) })"

definition node_updateCorrupted :: "world \<Rightarrow> bytes \<Rightarrow> u32 \<Rightarrow> u64 \<Rightarrow> u32 \<Rightarrow> node \<Rightarrow> node option" where
  "node_updateCorrupted W uncorrupted uncompressedSize diskPtr oplogId n = do {
     (logs, fs, thrown) \<leftarrow>
       (if conf_partitions (node_conf n)
        then logs_updateCorrupted (w_env W) uncorrupted uncompressedSize diskPtr oplogId (node_logs n, node_fs n)
        else do {
          log \<leftarrow> single_log n;
          (log, fs, thrown) \<leftarrow> log_updateCorrupted (w_env W) uncorrupted uncompressedSize diskPtr (log, node_fs n);
          Some ((node_logs n)[0 := log], fs, thrown) });
     (case thrown of Some e \<Rightarrow> None | None \<Rightarrow> Some (n\<lparr>node_logs := logs, node_fs := fs\<rparr>)) }"

section \<open>Applying a log\<close>

text \<open>The cast to the iterator of a log gives a null pointer for any other iterator.\<close>

fun tryFixLocalOplogSegment :: "world \<Rightarrow> bytesDiskIterator \<Rightarrow> node \<Rightarrow> (bytes \<times> node) option" where
  "tryFixLocalOplogSegment W oplogIterator n =
     (if \<not> conf_replication (node_conf n) then Some ([], n)
      else case oplogIterator of
        DiskIterator it \<Rightarrow> do {
          corruptedDescriptor \<leftarrow> getLastDescriptor it;
          responseOptional \<leftarrow> fixOplogSegment (w_rands W) (w_net W) (w_op0 W) (node_conf n) (it_getOplogId it)
             (desc_min corruptedDescriptor) (desc_max corruptedDescriptor) (node_cluster n);
          (case responseOptional of
             None \<Rightarrow> Some ([], n)
           | Some r \<Rightarrow>
               if has_error r \<or> \<not> isSuccessful (result_value r) then Some ([], n)
               else do {
                 b \<leftarrow> getResponseValueAtOffset (result_value r) 0 4;
                 uncompressedSize \<leftarrow> (ss_to b :: u32 option);
                 fixedOplog \<leftarrow> getResponseValueAtOffset (result_value r) 4 (length (responseValue (result_value r)) - 4);
                 n \<leftarrow> node_updateCorrupted W fixedOplog uncompressedSize (getLastSegmentOplogDescriptorDiskPtr it) (it_getOplogId it) n;
                 (case uncompressBytes (env_uncompress (w_env W)) fixedOplog (ucast uncompressedSize) of
                    Inl ret \<Rightarrow> None
                  | Inr bytes \<Rightarrow> Some (bytes, n)) }) }
      | _ \<Rightarrow> None)"

definition getNextOplogOrTryFix ::
  "world \<Rightarrow> OperationLogIteratorOrigin \<Rightarrow> bytesDiskIterator \<Rightarrow> node \<Rightarrow> (bytes \<times> bytesDiskIterator \<times> node) option" where
  "getNextOplogOrTryFix W oplogOrigin oplogIterator n = do {
     (serializedOplogResult, oplogIterator, n) \<leftarrow> disk_next W oplogIterator n;
     (case serializedOplogResult of
        Some bytes \<Rightarrow> Some (bytes, oplogIterator, n)
      | None \<Rightarrow>
          if oplogOrigin = LOCAL
          then do {
            (bytes, n) \<leftarrow> tryFixLocalOplogSegment W oplogIterator n;
            Some (bytes, oplogIterator, n) }
          else Some ([], oplogIterator, n)) }"

definition apply_options :: "bool \<Rightarrow> u32 \<Rightarrow> OperationOptions" where
  "apply_options saveInOperationLog partitionId =
     \<lparr>oo_checkTimestamps = True, oo_onlyExecute = False, oo_dontBroadcastToCluster = True,
      oo_dontSaveInOperationLog = (\<not> saveInOperationLog), oo_updateClockStrategy = SET_MAX,
      oo_partitionId = partitionId, oo_requestNumber = 0\<rparr>"

fun apply_operations :: "world \<Rightarrow> OperationOptions \<Rightarrow> OperationBody list \<Rightarrow> u64 \<Rightarrow> node \<Rightarrow> (u64 \<times> node) option" where
  "apply_operations W options [] latestTimestampApplied n = Some (latestTimestampApplied, n)"
| "apply_operations W options (op # ops) latestTimestampApplied n = do {
     x \<leftarrow> registry_get (operatorNumber op);
     (r, n) \<leftarrow> executeOperation W x op options n;
     apply_operations W options ops (timestamp op) n }"

partial_function (option) apply_loop ::
  "world \<Rightarrow> OperationOptions \<Rightarrow> OperationLogIteratorOrigin \<Rightarrow> bytesDiskIterator \<Rightarrow> u64 \<Rightarrow> node \<Rightarrow> (u64 \<times> node) option" where
  "apply_loop W options oplogOrigin oplogIterator latestTimestampApplied n =
     (if disk_hasNext oplogIterator
      then do {
        x \<leftarrow> getNextOplogOrTryFix W oplogOrigin oplogIterator n;
        (case x of (serializedOplog, oplogIterator, n) \<Rightarrow> do {
          deserializedOplog \<leftarrow> deserializeAll (env_shl (w_env W)) serializedOplog;
          y \<leftarrow> apply_operations W options deserializedOplog latestTimestampApplied n;
          apply_loop W options oplogOrigin oplogIterator (fst y) (snd y) }) }
      else Some (latestTimestampApplied, n))"

definition applyOplog ::
  "world \<Rightarrow> bytesDiskIterator \<Rightarrow> bool \<Rightarrow> u32 \<Rightarrow> OperationLogIteratorOrigin \<Rightarrow> node \<Rightarrow> (u64 \<times> node) option" where
  "applyOplog W oplogIterator saveInOperationLog partitionId oplogOrigin n = do {
     (latestTimestampApplied, n) \<leftarrow> apply_loop W (apply_options saveInOperationLog partitionId) oplogOrigin oplogIterator 0 n;
     n \<leftarrow> applyDelayedOperationsBuffer W n;
     Some (latestTimestampApplied, n) }"

section \<open>Restoring and synchronising\<close>

fun restore_oplogs :: "world \<Rightarrow> nat list \<Rightarrow> node \<Rightarrow> (u64 list \<times> node) option" where
  "restore_oplogs W [] n = Some ([], n)"
| "restore_oplogs W (i # is) n = do {
     oplogIterator \<leftarrow> node_getAll W \<lparr>operationLogId = word_of_nat i, opt_compressed = False\<rparr> n;
     (lastAppliedTimestamp, n) \<leftarrow> applyOplog W oplogIterator False (word_of_nat i) LOCAL n;
     (lastRestoredTimestamps, n) \<leftarrow> restore_oplogs W is n;
     Some (lastAppliedTimestamp # lastRestoredTimestamps, n) }"

definition restoreOplogFromDisk :: "world \<Rightarrow> node \<Rightarrow> (u64 list \<times> node) option" where
  "restoreOplogFromDisk W n = restore_oplogs W [0..<unat (node_getNumberOplogFiles n)] n"

text \<open>What the thread of one log does; \<open>rx0\<close> is the memory of its iterator before the constructor ran.\<close>

definition sync_oplog_task :: "world \<Rightarrow> SyncOplogReceiverIterator \<Rightarrow> u64 list \<Rightarrow> nat \<Rightarrow> node \<times> nat \<times> nat \<Rightarrow> node option" where
  "sync_oplog_task W rx0 lastTimestampProcessedFromOpLog i s = do {
     (rx, n, j, t) \<leftarrow> syncOplog W rx0 (lastTimestampProcessedFromOpLog ! i) \<lparr>sro_partitionId = i, sro_canBeStoredInHint = False\<rparr> s;
     (lt, n) \<leftarrow> applyOplog W (ReceiverIterator rx j t) True (word_of_nat i) OTHER_NODE n;
     Some n }"

text \<open>A node without replication does nothing after the log was restored but serve requests. With replication and
  without partitions there is one log, and so one thread to wait for; the code goes on when that thread ends with an
  exception, here the result is then \<^term>\<open>None\<close>.\<close>

definition run_unpartitioned :: "world \<Rightarrow> SyncOplogReceiverIterator \<Rightarrow> node \<times> nat \<times> nat \<Rightarrow> node option" where
  "run_unpartitioned W rx0 = (\<lambda>(n, j, t). do {
     (lastTimestampStored, n) \<leftarrow> restoreOplogFromDisk W n;
     if conf_replication (node_conf n)
     then do {
       let n = n\<lparr>node_clock := LamportClock (conf_nodeId (node_conf n)) (counter (node_clock n))\<rparr>;
       n \<leftarrow> sync_oplog_task W rx0 lastTimestampStored 0 (n, j, t);
       Some (n\<lparr>node_cluster := setRunning (node_cluster n)\<rparr>) }
     else Some n })"

section \<open>Applying writes\<close>

definition logged_write :: "OperationBody \<Rightarrow> replicated_write option" where
  "logged_write op =
     (case args op of
        Some (k # v # rest) \<Rightarrow>
          if operatorNumber op = OP_SET
          then Some \<lparr>rw_key = k, rw_value = v, rw_timestamp = LamportClock (op_nodeId op) (timestamp op)\<rparr> else None
      | _ \<Rightarrow> None)"

text \<open>A node after its store 0 and its clock changed.\<close>

definition restored :: "node \<Rightarrow> MemMap \<times> LamportClock \<Rightarrow> node" where
  "restored n s = (set_store 0 (fst s) n)\<lparr>node_clock := snd s\<rparr>"

lemma restored_simps [simp]:
  "node_store 0 (restored n s) = Some (fst s)" "node_clock (restored n s) = snd s" "node_conf (restored n s) = node_conf n"
  "node_logs (restored n s) = node_logs n" "node_fs (restored n s) = node_fs n" "node_delayed (restored n s) = node_delayed n"
  "restored (restored n s) s2 = restored n s2"
  by (simp_all add: restored_def set_store_def node_store_def getByPartitionId_def)

lemma restored_same: "node_store 0 n = Some M \<Longrightarrow> restored n (M, node_clock n) = n"
  by (simp add: restored_def set_store_def node_store_def getByPartitionId_def fun_upd_idem)

lemma execute_logged_write:
  assumes "logged_write op = Some w" "replicated_put (w_ub W) w s = Some s'"
  shows "operatorNumber op = OP_SET" "\<exists>r. executeOperation W SetOperator op (apply_options False 0) (restored n s) = Some (r, restored n s')"
proof -
  obtain k v rest where op: "args op = Some (k # v # rest)" "operatorNumber op = OP_SET"
    "w = \<lparr>rw_key = k, rw_value = v, rw_timestamp = LamportClock (op_nodeId op) (timestamp op)\<rparr>"
    using assms(1) by (auto simp: logged_write_def split: option.split_asm list.split_asm if_split_asm)
  then show "operatorNumber op = OP_SET" by simp
  obtain M c where s: "s = (M, c)" by (cases s)
  obtain res M' c' where put: "putData (w_ub W) k v (LamportClock (op_nodeId op) (timestamp op)) SET_MAX True M (Some c) = Some (res, M', Some c')"
    "s' = (M', c')"
    using assms(2) by (auto simp: replicated_put_def s op(3) split: Option.bind_split_asm prod.split_asm)
  have "SetOperator_operate W op (apply_options False 0) (restored n s) = Some (edit_response res ALREADY_REPLICATED, restored n s')"
    using put op(1) by (simp add: SetOperator_operate_def apply_options_def getArg_def write_getTimestamp_def fromClient_def s Let_def)
      (simp add: restored_def set_store_def)
  then show "\<exists>r. executeOperation W SetOperator op (apply_options False 0) (restored n s) = Some (r, restored n s')"
    by (simp add: executeOperation_def execute_with_def apply_options_def fromClient_def Let_def)
qed

lemma apply_writes:
  assumes "map logged_write ops = map Some ws" "replicate_all (w_ub W) ws s = Some s'"
  shows "apply_operations W (apply_options False 0) ops lt (restored n s) =
    Some (if ops = [] then lt else timestamp (last ops), restored n s')"
  using assms
proof (induction ops arbitrary: ws s lt)
  case (Cons op ops)
  obtain w ws' where ws: "ws = w # ws'" "logged_write op = Some w" "map logged_write ops = map Some ws'"
    using Cons.prems(1) by (cases ws) auto
  obtain s1 where s1: "replicated_put (w_ub W) w s = Some s1" "replicate_all (w_ub W) ws' s1 = Some s'"
    using Cons.prems(2) ws(1) by (auto split: Option.bind_split_asm)
  obtain r where "executeOperation W SetOperator op (apply_options False 0) (restored n s) = Some (r, restored n s1)"
    using execute_logged_write(2) [OF ws(2) s1(1)] by blast
  then show ?case
    using Cons.IH [OF ws(3) s1(2)] execute_logged_write(1) [OF ws(2) s1(1)] by simp
qed simp

lemma replicate_all_append: "replicate_all ub (ws @ vs) s = Option.bind (replicate_all ub ws s) (replicate_all ub vs)"
  by (induction ws arbitrary: s) (auto split: bind_splits)

text \<open>The loop over an iterator of the disk whose parts are all readable.\<close>

lemma apply_loop_drain:
  assumes "single_log n = Some log" "\<not> conf_partitions (node_conf n)"
    and "drain_log m (w_env W) (oplogIndexSegment log) (node_fs n) it = Some (map (\<lambda>b. Inr (Some b)) parts, it')" "\<not> it_hasNext it'"
    and "map (deserializeAll (env_shl (w_env W))) parts = map Some opss"
    and "map logged_write (concat opss) = map Some ws" "replicate_all (w_ub W) ws s = Some s'"
  shows "apply_loop W (apply_options False 0) LOCAL (DiskIterator it) lt (restored n s) =
    Some (if concat opss = [] then lt else timestamp (last (concat opss)), restored n s')"
  using assms(3-7)
proof (induction m arbitrary: it parts opss ws s lt)
  case 0
  then show ?case by (subst apply_loop.simps) simp
next
  case (Suc m)
  show ?case
  proof (cases "it_hasNext it")
    case False
    then show ?thesis using Suc.prems by (subst apply_loop.simps) (auto split: if_split_asm)
  next
    case True
    obtain it1 b parts1 where it1: "it_next (w_env W) (oplogIndexSegment log) (node_fs n) it = Some (it1, Inr (Some b))"
      "parts = b # parts1" "drain_log m (w_env W) (oplogIndexSegment log) (node_fs n) it1 = Some (map (\<lambda>b. Inr (Some b)) parts1, it')"
      using Suc.prems(1) True by (cases parts) (auto split: Option.bind_split_asm prod.split_asm)
    obtain ops opss1 where ops: "opss = ops # opss1" "deserializeAll (env_shl (w_env W)) b = Some ops"
      "map (deserializeAll (env_shl (w_env W))) parts1 = map Some opss1"
      using Suc.prems(3) it1(2) by (cases opss) auto
    obtain ws1 ws2 where ws: "ws = ws1 @ ws2" "map logged_write ops = map Some ws1" "map logged_write (concat opss1) = map Some ws2"
      using Suc.prems(4) ops(1) by (auto simp: append_eq_map_conv)
    obtain s1 where s1: "replicate_all (w_ub W) ws1 s = Some s1" "replicate_all (w_ub W) ws2 s1 = Some s'"
      using Suc.prems(5) ws(1) by (auto simp: replicate_all_append split: Option.bind_split_asm)
    have nx: "getNextOplogOrTryFix W LOCAL (DiskIterator it) (restored n s) = Some (b, DiskIterator it1, restored n s)"
      using it1(1) assms(1,2) by (simp add: getNextOplogOrTryFix_def node_it_next_def single_log_def)
    have "single_log (restored n s) = Some log" using assms(1) by (simp add: single_log_def)
    then show ?thesis
      using True nx ops(1,2) apply_writes [OF ws(2) s1(1), of lt n]
        Suc.IH [OF it1(3) Suc.prems(2) ops(3) ws(3) s1(2), of "if ops = [] then lt else timestamp (last ops)"]
      by (subst apply_loop.simps) auto
  qed
qed

text \<open>An empty intermediate file, which is what turning it into a segment leaves behind, ends the iteration before the
  segments: a node that restarts then restores nothing.\<close>

lemma empty_intermediate_restores_nothing:
  assumes "\<not> conf_partitions (node_conf n)" and "node_logs n = [log]" and "index_file (oplogIndexSegment log) (node_fs n) ds"
    and "im_getAllBytes (intermediateOplog log) (node_fs n) = []" and "\<not> bd_hasNext (node_delayed n) (node_fs n)"
  shows "restoreOplogFromDisk W n = Some ([0], n)"
proof -
  obtain it where it: "log_getAll (w_garbage W) \<lparr>operationLogId = 0, opt_compressed = False\<rparr> log (node_fs n) = Some it" "\<not> it_hasNext it"
    using readAllIndex_index_file [OF assms(3)] assms(4)
    by (simp add: log_getAll_def segment_getAll_def new_OplogIterator_def it_hasNext_def)
  have single: "single_log n = Some log" using assms(2) by (simp add: single_log_def)
  have "apply_loop W (apply_options False 0) LOCAL (DiskIterator it) 0 n = Some (0, n)"
    using it(2) by (subst apply_loop.simps) simp
  moreover have "applyDelayedOperationsBuffer W n = Some n"
    using assms(5) by (subst applyDelayedOperationsBuffer.simps) simp
  ultimately show ?thesis
    using assms(1) it(1) single
    by (simp add: restoreOplogFromDisk_def node_getNumberOplogFiles_def log_getNumberOplogFiles_def node_getAll_def applyOplog_def)
qed

section \<open>Properties\<close>

text \<open>C4. A restart recovers the last write of every key. A node without partitions and without delayed requests starts with an
  empty store and one log; its intermediate file is not empty, and file and segments are readable and hold SET
  operations only. Restoring the log then ends with a well-formed store in which a key
  can be read exactly when the log has a write to it; what is read is one of those writes and none of them is newer.
  Nothing else of the node has changed but its clock, and the timestamp reported for the log is that of the last
  operation applied.\<close>

theorem restart_recovers_writes:
  assumes "\<not> conf_partitions (node_conf n)" and "node_logs n = [log]" and "index_file (oplogIndexSegment log) (node_fs n) ds"
    and "im_getAllBytes (intermediateOplog log) (node_fs n) = b" and "b \<noteq> []" and "length ds < 2 ^ 32"
    and "list_all2 (\<lambda>d bs. segment_part (w_env W) (oplogIndexSegment log) (node_fs n) d = Some (Inr (Some bs))) ds bss"
    and "map (deserializeAll (env_shl (w_env W))) (b # bss) = map Some opss" and "map logged_write (concat opss) = map Some ws"
    and "\<not> bd_hasNext (node_delayed n) (node_fs n)" and "node_store 0 n = Some M" and "map_ok M" and "map_view M = Map.empty"
  shows "\<exists>M' c. restoreOplogFromDisk W n =
      Some ([if concat opss = [] then 0 else timestamp (last (concat opss))], restored n (M', c)) \<and> map_ok M' \<and>
    (\<forall>h. case map_reading M' h of
           None \<Rightarrow> \<forall>w \<in> set ws. calculateHash (w_ub W) (rw_key w) \<noteq> h
         | Some (t, v) \<Rightarrow> (\<exists>w \<in> set ws. calculateHash (w_ub W) (rw_key w) = h \<and> rw_timestamp w = t \<and> rw_value w = v) \<and>
             (\<forall>w \<in> set ws. calculateHash (w_ub W) (rw_key w) = h \<longrightarrow> rw_timestamp w \<le> t))"
proof -
  have data: "data_only M" and empty: "map_reading M h = None" for h by (simp_all add: data_only_def map_reading_def assms(13))
  obtain M' c where r: "replicate_all (w_ub W) ws (M, node_clock n) = Some (M', c)" "map_ok M'"
    "\<forall>h. map_lww.winner (w_ub W) ws (M, node_clock n) h (map_reading M' h)"
    using map_lww.writes_winner [of "(M, node_clock n)" "w_ub W" ws] assms(12) data unfolding replicate_all_writes by auto
  have parts: "map (\<lambda>d. the (segment_part (w_env W) (oplogIndexSegment log) (node_fs n) d)) ds = map (\<lambda>b. Inr (Some b)) bss"
    using assms(7) by (induction rule: list_all2_induct) auto
  obtain it it' where it: "log_getAll (w_garbage W) \<lparr>operationLogId = 0, opt_compressed = False\<rparr> log (node_fs n) = Some it"
    "drain_log (length ds + 2) (w_env W) (oplogIndexSegment log) (node_fs n) it = Some (map (\<lambda>b. Inr (Some b)) (b # bss), it')"
    "\<not> it_hasNext it'"
    using whole_log_drains [OF assms(3-6), of "\<lparr>operationLogId = 0, opt_compressed = False\<rparr>" "w_garbage W" "w_env W"] parts
    by (auto simp del: drain_log.simps)
  have single: "single_log n = Some log" using assms(2) by (simp add: single_log_def)
  have "apply_loop W (apply_options False 0) LOCAL (DiskIterator it) 0 n =
      Some (if concat opss = [] then 0 else timestamp (last (concat opss)), restored n (M', c))"
    using apply_loop_drain [OF single assms(1) it(2,3) assms(8,9) r(1), of 0] restored_same [OF assms(11)] by simp
  moreover have "applyDelayedOperationsBuffer W (restored n (M', c)) = Some (restored n (M', c))"
    using assms(10) by (subst applyDelayedOperationsBuffer.simps) simp
  ultimately have "restoreOplogFromDisk W n = Some ([if concat opss = [] then 0 else timestamp (last (concat opss))], restored n (M', c))"
    using assms(1) it(1) single
    by (simp add: restoreOplogFromDisk_def node_getNumberOplogFiles_def log_getNumberOplogFiles_def node_getAll_def applyOplog_def)
  moreover have "case map_reading M' h of None \<Rightarrow> \<forall>w \<in> set ws. calculateHash (w_ub W) (rw_key w) \<noteq> h
         | Some (t, v) \<Rightarrow> (\<exists>w \<in> set ws. calculateHash (w_ub W) (rw_key w) = h \<and> rw_timestamp w = t \<and> rw_value w = v) \<and>
             (\<forall>w \<in> set ws. calculateHash (w_ub W) (rw_key w) = h \<longrightarrow> rw_timestamp w \<le> t)" for h
    using r(3) [THEN spec, of h] empty by (auto simp: map_lww.winner_def split: option.splits)
  ultimately show ?thesis using r(2) by blast
qed

definition logged_node :: "bytes \<Rightarrow> node" where
  "logged_node b = alone\<lparr>node_stores := [0 \<mapsto> new_Map 4], node_fs := set_content ''m/delayed'' [] (sample_log_fs [] b)\<rparr>"

theorem restart_recovers_writes_witness:
  "\<exists>b M' c. serializeAll [sample_op 97 1, sample_op 98 2] = Some b \<and>
     restoreOplogFromDisk (cas_world (only_from 2 (error 0))) (logged_node b) = Some ([2], restored (logged_node b) (M', c)) \<and>
     map_reading M' 97 = Some (LamportClock 1 1, [1])"
proof -
  let ?ops = "[sample_op 97 1, sample_op 98 2]" and ?W = "cas_world (only_from 2 (error 0))"
  have W: "w_env ?W = sample_env" "w_ub ?W = (\<lambda>h b i. 0)" by (simp_all add: cas_world_def)
  have "\<forall>op \<in> set ?ops. loggable op" by (simp add: sample_loggable)
  then obtain b where b: "serializeAll ?ops = Some b" "deserializeAll (env_shl sample_env) b = Some (map reset_node ?ops)"
    using loggable_roundtrip [OF _ sample_segment(5)] by blast
  have "b \<noteq> []" using b(2) by (auto simp: deserializeAll_def)
  define ws where "ws = [\<lparr>rw_key = [97], rw_value = [1], rw_timestamp = LamportClock 1 1\<rparr>,
    \<lparr>rw_key = [98], rw_value = [1], rw_timestamp = LamportClock 1 2\<rparr>]"
  have ws: "map logged_write (concat [map reset_node ?ops]) = map Some ws"
    by (simp add: ws_def logged_write_def sample_op_def operator_numbers)
  have fs: "index_file (oplogIndexSegment sample_log) (node_fs (logged_node b)) []"
    "im_getAllBytes (intermediateOplog sample_log) (node_fs (logged_node b)) = b"
    "\<not> bd_hasNext (node_delayed (logged_node b)) (node_fs (logged_node b))"
    using sample_log_files(1) [of "[]" b] sample_log_files(2) [of "[]" b]
    by (simp_all add: logged_node_def alone_def cas_node_def sample_log_def index_file_def fullPathIndex_def INDEX_FILE_NAME_def sample_seg_def
        im_getAllBytes_def readBytes_def im_fullPath_def sample_im_def INTERMEDIATE_FILE_NAME_def bd_hasNext_def file_size_def)
  have n: "\<not> conf_partitions (node_conf (logged_node b))" "node_logs (logged_node b) = [sample_log]"
    "node_store 0 (logged_node b) = Some (new_Map 4)"
    by (simp_all add: logged_node_def alone_def cas_node_def sample_settings_def node_store_def getByPartitionId_def)
  have M: "map_ok (new_Map 4)" "map_view (new_Map 4) = Map.empty" using new_Map_ok [of 4] by simp_all
  have h: "calculateHash (w_ub ?W) [97] = 97" "calculateHash (w_ub ?W) [98] = 98" by (simp_all add: W calculateHash_def)
  obtain M' c where r: "restoreOplogFromDisk ?W (logged_node b) = Some ([2], restored (logged_node b) (M', c))"
    "\<forall>h. case map_reading M' h of
           None \<Rightarrow> \<forall>w \<in> set ws. calculateHash (w_ub ?W) (rw_key w) \<noteq> h
         | Some (t, v) \<Rightarrow> (\<exists>w \<in> set ws. calculateHash (w_ub ?W) (rw_key w) = h \<and> rw_timestamp w = t \<and> rw_value w = v) \<and>
             (\<forall>w \<in> set ws. calculateHash (w_ub ?W) (rw_key w) = h \<longrightarrow> rw_timestamp w \<le> t)"
    using restart_recovers_writes [OF n(1,2) fs(1,2) \<open>b \<noteq> []\<close>, of ?W "[]" "[map reset_node ?ops]" ws] b(2) ws fs(3) n(3) M
    by (auto simp: W)
  have "map_reading M' 97 = Some (LamportClock 1 1, [1])"
    using r(2) [THEN spec, of 97] by (auto simp: ws_def h split: option.splits)
  then show ?thesis using b(1) r(1) by blast
qed

end
