(* ===== verification/Server.thy ===== *)
theory Server
  imports Connection Dispatch_Props
begin

text \<open>
  The two ends of a connection between nodes: the server that turns packets into requests for the dispatcher
  (\<^verbatim>\<open>server/TCPServer.cpp\<close>) and the node object that sends a request and waits for its response
  (\<^verbatim>\<open>cluster/Node.cpp\<close>).
\<close>

section \<open>TCPServer\<close>

definition key_string :: "bytes \<Rightarrow> string" where
  "key_string b = map (\<lambda>b. char_of (unat b)) b"

text \<open>The buffers that are handed to the socket of the connection; \<open>is_open\<close> says whether the connection is still open. The
  write is asynchronous and the vector of the response is destroyed when \<^verbatim>\<open>sendResponse\<close> returns, so that nothing
  ensures that the socket still finds these bytes in it.\<close>

definition sendResponse :: "bool \<Rightarrow> Response \<Rightarrow> bytes list" where
  "sendResponse is_open response = (if is_open then writeAsync (serialize_response response) else [])"

definition sendAuthError :: "bool \<Rightarrow> Request \<Rightarrow> bytes list" where
  "sendAuthError is_open request =
     sendResponse is_open
       (error_at AUTH_ERROR (requestNumber request) (LamportClock 0 (timestamp (operation request))))"

definition onNewRequest :: "world \<Rightarrow> bool \<Rightarrow> bytes \<Rightarrow> node \<Rightarrow> (bytes list \<times> node) option" where
  "onNewRequest W is_open requestRawBuffer n = do {
     request \<leftarrow> deserialize_request (env_shl (w_env W)) requestRawBuffer;
     if \<not> authenticate (node_conf n) (key_string (authKey (authentication request)))
     then Some (sendAuthError is_open request, n)
     else do {
       auth \<leftarrow> getAuthenticationType (node_conf n) (key_string (authKey (authentication request)));
       if auth \<noteq> NODE \<and> auth_flag1 (authentication request)
       then Some (sendAuthError is_open request, n)
       else do {
         (response, n) \<leftarrow> dispatch W auth request n;
         Some (sendResponse is_open (response\<lparr>resp_requestNumber := requestNumber request\<rparr>), n) } } }"

section \<open>Node\<close>

text \<open>
  A link is the connection of a node object, \<^term>\<open>None\<close> when it is null, and the bytes that are still to be read from
  it. What the sockets do is a parameter: whether an attempt to connect succeeds, what can be read after it, and what
  a socket takes of a buffer.
\<close>

record link =
  lk_open :: "bool option"
  lk_in :: bytes

record sockets =
  sk_connects :: "nat \<Rightarrow> bool"
  sk_incoming :: "nat \<Rightarrow> bytes"
  sk_write :: "nat \<Rightarrow> socket_write"

definition isConnectionOpened :: "link \<Rightarrow> bool" where
  "isConnectionOpened lk \<longleftrightarrow> lk_open lk = Some True"

definition closeConnection :: "link \<Rightarrow> link" where
  "closeConnection lk = (if isConnectionOpened lk then lk\<lparr>lk_open := Some False\<rparr> else lk)"

text \<open>An address without a port is read past the end of its parts.\<close>

definition openConnection :: "sockets \<Rightarrow> string \<Rightarrow> link \<times> nat \<Rightarrow> (bool \<times> link \<times> nat) option" where
  "openConnection S address = (\<lambda>(lk, t).
     if isConnectionOpened lk then Some (False, lk, t)
     else if length (split address CHR '':'') < 2 then None
     else if \<not> sk_connects S t then Some (False, lk, Suc t)
     else Some (True, \<lparr>lk_open = Some True, lk_in = sk_incoming S t\<rparr>, Suc t))"

definition openConnectionIfClosedOrThrow :: "sockets \<Rightarrow> string \<Rightarrow> link \<times> nat \<Rightarrow> (bool \<times> link \<times> nat) option" where
  "openConnectionIfClosedOrThrow S address = (\<lambda>(lk, t).
     if \<not> isConnectionOpened lk then openConnection S address (lk, t) else Some (True, lk, t))"

text \<open>\<^verbatim>\<open>writeSync\<close> puts the headers of a small packet in the buffer of its caller, where they stay.\<close>

definition buffer_after_write :: "bytes \<Rightarrow> bytes" where
  "buffer_after_write toWrite =
     (if length toWrite < FRAGMENT_MIN_SIZE
      then addNoFragmentationHeader (addContentLengthHeader toWrite (word_of_nat (length toWrite))) else toWrite)"

definition writeSyncToConnection :: "sockets \<Rightarrow> string \<Rightarrow> bytes \<Rightarrow> link \<times> nat \<Rightarrow> ((nat \<times> bytes) \<times> link \<times> nat) option" where
  "writeSyncToConnection S address bytes = (\<lambda>(lk, t).
     (case writeSync (sk_write S t) bytes of
        (Some nWritten, out) \<Rightarrow> Some ((nWritten, out), lk, t)
      | (None, out) \<Rightarrow> do {
          (opened, lk, t) \<leftarrow> openConnection S address (lk, t);
          if opened
          then (case writeSync (sk_write S t) (buffer_after_write bytes) of
                  (Some nWritten, out2) \<Rightarrow> Some ((nWritten, out2), lk, t)
                | (None, out2) \<Rightarrow> Some ((0, out2), lk, t))
          else Some ((0, out), lk, t) }))"

text \<open>A read that fails has consumed what there was.\<close>

definition readSyncFromConnection :: "sockets \<Rightarrow> string \<Rightarrow> link \<times> nat \<Rightarrow> (bytes option \<times> link \<times> nat) option" where
  "readSyncFromConnection S address = (\<lambda>(lk, t).
     (case readSync (lk_in lk) of
        Some (packet, rest) \<Rightarrow> Some (Some packet, lk\<lparr>lk_in := rest\<rparr>, t)
      | None \<Rightarrow> do {
          (opened, lk, t) \<leftarrow> openConnection S address (lk\<lparr>lk_in := []\<rparr>, t);
          Some (case readSync (lk_in lk) of
                  Some (packet, rest) \<Rightarrow> (Some packet, lk\<lparr>lk_in := rest\<rparr>, t)
                | None \<Rightarrow> (None, lk\<lparr>lk_in := []\<rparr>, t)) }))"

text \<open>The result of the request, what was sent, and the link afterwards; \<open>unset\<close> is the response in an error
  result.\<close>

definition node_sendRequest ::
  "(u32 \<Rightarrow> nat \<Rightarrow> u32) \<Rightarrow> Response \<Rightarrow> sockets \<Rightarrow> string \<Rightarrow> Request \<Rightarrow> link \<times> nat \<Rightarrow> (send_result \<times> bytes \<times> link \<times> nat) option" where
  "node_sendRequest ub_shl unset S address request s = do {
     (opened, lk, t) \<leftarrow> openConnectionIfClosedOrThrow S address s;
     if \<not> opened then Some (SendError unset, [], lk, t)
     else do {
       serializedRequest \<leftarrow> serialize_request request;
       ((bytesWritten, out), lk, t) \<leftarrow> writeSyncToConnection S address serializedRequest (lk, t);
       if bytesWritten = 0 then Some (SendError unset, out, lk, t)
       else (case readSync (lk_in lk) of
               None \<Rightarrow> Some (SendError unset, out, lk\<lparr>lk_in := []\<rparr>, t)
             | Some (responseBytes, rest) \<Rightarrow> do {
                 parsed \<leftarrow> deserialize_response ub_shl responseBytes;
                 (case parsed of
                    ParseError \<Rightarrow> Some (SendError unset, out, lk\<lparr>lk_in := rest\<rparr>, t)
                  | ParseOk r \<Rightarrow> Some (SendOk r, out, lk\<lparr>lk_in := rest\<rparr>, t)) }) } }"

section \<open>Properties\<close>

text \<open>Requests and responses that their serialised form keeps, and sizes the framing keeps.\<close>

definition wire_request :: "Request \<Rightarrow> bool" where
  "wire_request r \<longleftrightarrow>
     (\<exists>as. args (operation r) = Some as \<and> (\<forall>a \<in> set as. a \<noteq> [] \<and> length a < 2 ^ 32)) \<and>
     length (authKey (authentication r)) < 64 \<and> unat (operatorNumber (operation r)) < 64 \<and>
     unat (timestamp (operation r)) < 2 ^ 31 \<and> (auth_flag1 (authentication r) \<or> op_nodeId (operation r) = 1)"

definition wire_response :: "Response \<Rightarrow> bool" where
  "wire_response r \<longleftrightarrow> length (responseValue r) < 2 ^ 32 \<and> unat (errorCode r) < 128 \<and> unat (counter (resp_timestamp r)) < 2 ^ 31"

lemma wire_request_roundtrip:
  assumes "wire_request r" "shl_keeps_zero ub"
  shows "\<exists>p. serialize_request r = Some p \<and> deserialize_request ub p = Some r"
proof -
  obtain as where as: "args (operation r) = Some as" "\<forall>a \<in> set as. a \<noteq> []" "\<forall>a \<in> set as. length a < 2 ^ 32"
    using assms(1) by (auto simp: wire_request_def)
  have "takeWhile (\<lambda>a. a \<noteq> []) as = as" using as(2) by (simp add: takeWhile_eq_all_conv)
  then have same: "r\<lparr>operation := (operation r)\<lparr>args := Some (takeWhile (\<lambda>a. a \<noteq> []) as),
      op_nodeId := (if auth_flag1 (authentication r) then op_nodeId (operation r) else 1)\<rparr>\<rparr> = r"
    using assms(1) as(1) by (auto simp: wire_request_def)
  show ?thesis
    using serialize_request_bytes [OF as(1,3)] deserialize_request_bytes [of r ub as] assms as(3) same by (simp add: wire_request_def)
qed

text \<open>C3. A request travels to the dispatcher of another node and its response travels back. A node object with an
  open connection sends a request; when \<^verbatim>\<open>writeSync\<close> returns the number of bytes of the request and its headers, the
  reader of the server hands exactly the serialised request to the handler; the handler dispatches the same request
  with the authentication of its key and hands the response of the dispatcher, with the number of the request, to
  the socket; and when the buffers handed over arrive, the sender gets this response. Sockets take at most what they are
  given; neither message has a size that is a multiple of the fragment size.\<close>

theorem request_answered_over_the_wire:
  assumes "wire_request request" and "shl_keeps_zero (env_shl (w_env W))"
    and "serialize_request request = Some p" and "takes_at_most (sk_write S t)" and "reports_all (sk_write S t) p"
    and "getAuthenticationType (node_conf n) (key_string (authKey (authentication request))) = Some auth"
    and "auth = NODE \<or> \<not> auth_flag1 (authentication request)"
    and "dispatch W auth request n = Some (r, n')" and "wire_response r" and "\<not> FRAGMENT_MIN_SIZE dvd length p"
    and "\<not> FRAGMENT_MIN_SIZE dvd length (serialize_response (r\<lparr>resp_requestNumber := requestNumber request\<rparr>))"
  shows "\<exists>sent answer. onNewRequest W True p n = Some (answer, n') \<and> readAsync sent = [p] \<and>
    node_sendRequest (env_shl (w_env W)) unset S address request (\<lparr>lk_open = Some True, lk_in = concat answer @ rest\<rparr>, t) =
      Some (SendOk (r\<lparr>resp_requestNumber := requestNumber request\<rparr>), sent, \<lparr>lk_open = Some True, lk_in = rest\<rparr>, t)"
proof -
  let ?r = "r\<lparr>resp_requestNumber := requestNumber request\<rparr>"
  have de: "deserialize_request (env_shl (w_env W)) p = Some request"
    using wire_request_roundtrip [OF assms(1,2)] assms(3) by auto
  have "authenticate (node_conf n) (key_string (authKey (authentication request)))"
    using assms(6) by (auto simp: getAuthenticationType_def getAuthenticationTypeFromConfiguration_def authenticate_def split: if_split_asm)
  then have served: "onNewRequest W True p n = Some (packet_frames (serialize_response ?r), n')"
    using de assms(6-8) by (auto simp: onNewRequest_def sendResponse_def writeAsync_frames)
  have parsed: "deserialize_response (env_shl (w_env W)) (serialize_response ?r) = Some (ParseOk ?r)"
    using assms(2,9) by (intro deserialize_response_bytes) (simp_all add: wire_response_def)
  have read: "readSync (concat (packet_frames (serialize_response ?r)) @ rest) = Some (serialize_response ?r, rest)"
    by (rule readSync_frames [OF assms(11)])
  have some: "concat (packet_frames p) \<noteq> []"
    using readSync_shorter readSync_frames [OF assms(10), of "[]"] by fastforce
  have "node_sendRequest (env_shl (w_env W)) unset S address request
      (\<lparr>lk_open = Some True, lk_in = concat (packet_frames (serialize_response ?r)) @ rest\<rparr>, t) =
      Some (SendOk ?r, concat (packet_frames p), \<lparr>lk_open = Some True, lk_in = rest\<rparr>, t)"
    using some read parsed assms(3)
    by (simp add: node_sendRequest_def openConnectionIfClosedOrThrow_def isConnectionOpened_def writeSyncToConnection_def
        writeSync_complete [OF assms(4,5)])
  then show ?thesis using served readAsync_frames [OF assms(10)] by blast
qed

text \<open>C11. Nothing is executed for a caller without the right to it. A packet that changes a node, on a node without
  delayed requests, carries the key of the user or of the nodes; only a caller with the key of the nodes may name a node;
  and the operator exists and is one the caller may execute.\<close>

theorem only_authorised_packets_change_node:
  assumes "onNewRequest W is_open packet n = Some (out, n')" and "n' \<noteq> n"
    and "\<not> bd_hasNext (node_delayed n) (node_fs n)"
  shows "\<exists>request auth x. deserialize_request (env_shl (w_env W)) packet = Some request \<and>
    getAuthenticationType (node_conf n) (key_string (authKey (authentication request))) = Some auth \<and>
    (auth_flag1 (authentication request) \<longrightarrow> auth = NODE) \<and>
    registry_get (operatorNumber (operation request)) = Some x \<and> isAuthorizedToExecute x auth"
proof -
  obtain request auth r where r: "deserialize_request (env_shl (w_env W)) packet = Some request"
    "getAuthenticationType (node_conf n) (key_string (authKey (authentication request))) = Some auth"
    "auth_flag1 (authentication request) \<longrightarrow> auth = NODE" "dispatch W auth request n = Some (r, n')"
    using assms(1,2) by (auto simp: onNewRequest_def split: Option.bind_split_asm if_split_asm)
  have "dispatch_no_applyDelayedOperationsBuffer W auth request n = Some (r, n')" using r(4) no_delayed [OF assms(3)] by simp
  then obtain x where "registry_get (operatorNumber (operation request)) = Some x" "isAuthorizedToExecute x auth"
    using assms(2) by (auto simp: dispatch_no_applyDelayedOperationsBuffer_def split: option.split_asm if_split_asm)
  then show ?thesis using r by blast
qed

section \<open>Two requests for the witnesses\<close>

definition keyed_request :: "bytes \<Rightarrow> u8 \<Rightarrow> SimpleString list \<Rightarrow> Request" where
  "keyed_request authk number as = \<lparr>authentication = \<lparr>authKey = authk, auth_flag1 = False, auth_flag2 = False\<rparr>,
     operation = \<lparr>args = Some as, timestamp = 0, op_nodeId = 1, operatorNumber = number, op_flag1 = False, op_flag2 = False\<rparr>,
     requestNumber = 7\<rparr>"

lemma keyed_request_simps [simp]:
  "operatorNumber (operation (keyed_request authk number as)) = number" "args (operation (keyed_request authk number as)) = Some as"
  "timestamp (operation (keyed_request authk number as)) = 0" "authKey (authentication (keyed_request authk number as)) = authk"
  "auth_flag1 (authentication (keyed_request authk number as)) = False" "requestNumber (keyed_request authk number as) = 7"
  "op_nodeId (operation (keyed_request authk number as)) = 1"
  by (simp_all add: keyed_request_def)

definition user_key :: bytes where
  "user_key = [49, 50, 51]"

lemma user_key_type: "getAuthenticationType (node_conf alone) (key_string user_key) = Some USER"
proof -
  have "key_string user_key = ''123''" by code_simp
  then show ?thesis
    by (simp add: getAuthenticationType_def getAuthenticationTypeFromConfiguration_def alone_def sample_settings_def)
qed

theorem request_answered_over_the_wire_witness:
  "\<exists>p sent answer. serialize_request (keyed_request user_key OP_HEALTH_CHECK []) = Some p \<and>
     onNewRequest (cas_world (only_from 2 (error 0))) True p alone = Some (answer, alone) \<and>
     readAsync sent = [p] \<and>
     node_sendRequest (env_shl sample_env) (error 0)
       \<lparr>sk_connects = (\<lambda>t. True), sk_incoming = (\<lambda>t. []), sk_write = (\<lambda>t u b. Some (length b))\<rparr> ''a:1''
       (keyed_request user_key OP_HEALTH_CHECK []) (\<lparr>lk_open = Some True, lk_in = concat answer @ []\<rparr>, 0) =
     Some (SendOk ((success (LamportClock 0 0))\<lparr>resp_requestNumber := 7\<rparr>), sent, \<lparr>lk_open = Some True, lk_in = []\<rparr>, 0)"
proof -
  let ?q = "keyed_request user_key OP_HEALTH_CHECK []" and ?W = "cas_world (only_from 2 (error 0))"
  let ?S = "\<lparr>sk_connects = (\<lambda>t. True), sk_incoming = (\<lambda>t. []), sk_write = (\<lambda>t u b. Some (length b))\<rparr>"
  have W: "w_env ?W = sample_env" by (simp add: cas_world_def)
  have wire: "wire_request ?q" by (simp add: wire_request_def user_key_def OP_HEALTH_CHECK_def)
  have "case serialize_request ?q of Some p \<Rightarrow> length p mod 1024 \<noteq> 0 | None \<Rightarrow> False" by code_simp
  then obtain p where p: "serialize_request ?q = Some p" "\<not> FRAGMENT_MIN_SIZE dvd length p"
    by (auto simp: FRAGMENT_MIN_SIZE_def dvd_eq_mod_eq_0 split: option.splits)
  have reg: "registry_get OP_HEALTH_CHECK = Some HealthCheckOperator" by (simp add: registry_get_def operators_def operator_numbers)
  have run: "dispatch ?W USER ?q alone = Some (success (LamportClock 0 0), alone)"
    using alone_simps(1,3)
    by (simp add: no_delayed dispatch_no_applyDelayedOperationsBuffer_def reg isAuthorizedToExecute_def HealthCheckOperator_desc_def isInReplicationMode_def
        refuses_key_def dispatch_options_def fromClient_def executeOperation_def execute_with_def HealthCheckOperator_operate_def hasProperty_def)
  have resp: "wire_response (success (LamportClock 0 0))" by (simp add: wire_response_def success_def)
  have "length (serialize_response ((success (LamportClock 0 0))\<lparr>resp_requestNumber := requestNumber ?q\<rparr>)) mod 1024 \<noteq> 0" by code_simp
  then have size: "\<not> FRAGMENT_MIN_SIZE dvd length (serialize_response ((success (LamportClock 0 0))\<lparr>resp_requestNumber := requestNumber ?q\<rparr>))"
    by (simp add: FRAGMENT_MIN_SIZE_def dvd_eq_mod_eq_0)
  have whole: "takes_whole_buffers (sk_write ?S 0)" by (simp add: takes_whole_buffers_def)
  show ?thesis
    using request_answered_over_the_wire [OF wire _ p(1) whole_buffers_complete [OF whole] _ _ run resp p(2) size, of "error 0" "''a:1''" "[]"]
      p(1) user_key_type sample_segment(5) by (auto simp: W)
qed

theorem only_authorised_packets_change_node_witness:
  "\<exists>p out n'. serialize_request (keyed_request user_key OP_SET [[97], [8]]) = Some p \<and>
     onNewRequest (cas_world (only_from 2 (error 0))) True p alone = Some (out, n') \<and>
     (\<exists>request auth x. deserialize_request (env_shl sample_env) p = Some request \<and>
       getAuthenticationType (node_conf alone) (key_string (authKey (authentication request))) = Some auth \<and>
       registry_get (operatorNumber (operation request)) = Some x \<and> isAuthorizedToExecute x auth)"
proof -
  let ?q = "keyed_request user_key OP_SET [[97], [8]]" and ?W = "cas_world (only_from 2 (error 0))"
  have W: "w_env ?W = sample_env" by (simp add: cas_world_def)
  have "wire_request ?q" by (simp add: wire_request_def user_key_def OP_SET_def)
  then obtain p where p: "serialize_request ?q = Some p" "deserialize_request (env_shl sample_env) p = Some ?q"
    using wire_request_roundtrip sample_segment(5) by blast
  have "(6 :: u64) = max (counter (node_clock alone)) (timestamp (operation ?q)) + 1" by (simp add: alone_simps)
  from alone_set [OF alone_simps(1-4) key_map(1) alone_simps(5) key_map_view keyed_request_simps(1,2) this]
  obtain r n' where run: "dispatch ?W USER ?q alone = Some (r, n')" "node_clock n' = LamportClock (nodeId (node_clock alone)) 6" by fastforce
  have changed: "n' \<noteq> alone" using run(2) alone_simps(6) by auto
  have "authenticate (node_conf alone) (key_string user_key)"
    using user_key_type by (auto simp: getAuthenticationType_def getAuthenticationTypeFromConfiguration_def authenticate_def split: if_split_asm)
  then obtain out where on: "onNewRequest ?W True p alone = Some (out, n')"
    using p(2) run(1) user_key_type by (simp add: onNewRequest_def W)
  from only_authorised_packets_change_node [OF on changed alone_simps(3)] on p(1) show ?thesis unfolding W by blast
qed

end
