(* ===== verification/Client_Protocol.thy ===== *)
theory Client_Protocol
  imports Server
begin

text \<open>
  The two clients of a node and what the node makes of their packets: the Java library
  (\<^verbatim>\<open>client/MemDB-Java-Client\<close>), without its cluster mode, and the messages of the cluster manager
  (\<^verbatim>\<open>clustermanager/src/nodes\<close>). \<^term>\<open>None\<close> is an exception of the Java runtime or a failed read.
\<close>

section \<open>Requests of the Java client\<close>

text \<open>A string is its UTF-16 code units. Encoding it as ASCII gives one question mark for a character outside of
  ASCII, be it one unit or a pair of surrogates.\<close>

type_synonym java_string = "u16 list"

definition ascii :: "u16 \<Rightarrow> u8" where
  "ascii c = (if c < 128 then ucast c else 63)"

fun stringToBytes :: "java_string \<Rightarrow> bytes" where
  "stringToBytes [] = []"
| "stringToBytes [c] = [ascii c]"
| "stringToBytes (c # d # s) =
     (if 0xD800 \<le> c \<and> c < 0xDC00 \<and> 0xDC00 \<le> d \<and> d < 0xE000 then 63 # stringToBytes s
      else ascii c # stringToBytes (d # s))"

datatype Operator = SET | GET | DELETE | CAS | GET_CLUSTER_CONFIG | CONTAINS | UPDATE_COUNTER

primrec java_operatorNumber :: "Operator \<Rightarrow> u32" where
  "java_operatorNumber SET = 1"
| "java_operatorNumber GET = 2"
| "java_operatorNumber DELETE = 3"
| "java_operatorNumber CAS = 9"
| "java_operatorNumber GET_CLUSTER_CONFIG = 12"
| "java_operatorNumber CONTAINS = 17"
| "java_operatorNumber UPDATE_COUNTER = 18"

record AuthenticationRequest =
  authApiKey :: java_string
  ar_flag1 :: bool
  ar_flag2 :: bool

record OperationRequest =
  or_operator :: Operator
  or_flag1 :: bool
  or_flag2 :: bool
  or_timestamp :: u64
  or_args :: "java_string list"

record java_Request =
  jr_requestNumber :: u32
  jr_authentication :: AuthenticationRequest
  jr_operationRequest :: OperationRequest

definition getOperatorDesc :: "OperationRequest \<Rightarrow> u8" where
  "getOperatorDesc operationRequest =
     ucast (push_bit 2 (java_operatorNumber (or_operator operationRequest))) OR
     push_bit 1 (of_bool (or_flag1 operationRequest)) OR of_bool (or_flag2 operationRequest)"

text \<open>The length of an argument is that of the string, not that of its bytes.\<close>

definition getOperations :: "java_Request \<Rightarrow> bytes" where
  "getOperations request =
     (let operation = jr_operationRequest request
      in [getOperatorDesc operation] @ fromNumber (or_timestamp operation) @
         concat (map (\<lambda>arg. fromNumber (word_of_nat (length arg) :: u32) @ stringToBytes arg) (or_args operation)))"

text \<open>The second flag is the one of the operation.\<close>

definition getAuth :: "java_Request \<Rightarrow> bytes" where
  "getAuth request =
     (let authentication = jr_authentication request;
          authLength = ucast (push_bit 2 (word_of_nat (length (authApiKey authentication)) :: u32));
          flag1 = push_bit 1 (of_bool (ar_flag1 authentication));
          flag2 = of_bool (or_flag2 (jr_operationRequest request))
      in [authLength OR flag1 OR flag2] @ stringToBytes (authApiKey authentication))"

definition java_serialize :: "java_Request \<Rightarrow> bytes" where
  "java_serialize request =
     (let requestNumber = fromNumber (jr_requestNumber request);
          auth = getAuth request;
          operation = getOperations request;
          totalSize = length requestNumber + length auth + length operation
      in 0x00 # fromNumber (word_of_nat totalSize :: u32) @ requestNumber @ auth @ operation)"

section \<open>Responses in the Java client\<close>

record java_Response =
  js_requestNumber :: int
  js_timestamp :: LamportClock
  js_errorCode :: int
  js_isSuccessful :: bool
  js_response :: bytes

text \<open>The node identifier is read from inside the counter, and the length is judged by the sign of its last byte.\<close>

definition java_deserialize :: "bytes \<Rightarrow> java_Response option" where
  "java_deserialize raw = do {
     requestNumber \<leftarrow> (parse raw :: u32 option);
     timestampCounter \<leftarrow> (parse (take 8 (drop 4 raw)) :: u64 option);
     timestampNodeId \<leftarrow> (parse (take 2 (drop 8 raw)) :: u16 option);
     if length raw \<le> 14 then None
     else Some \<lparr>js_requestNumber = sint requestNumber, js_timestamp = LamportClock timestampNodeId timestampCounter,
            js_errorCode = sint (raw ! 14) div 2, js_isSuccessful = (raw ! 14 AND 0x01 = 1),
            js_response = (if length raw > 19 \<and> sint (raw ! 18) > 0 then drop 19 raw else [0, 0, 0, 0])\<rparr> }"

text \<open>\<^verbatim>\<open>InputStream.read\<close> fills as much of the buffer as it likes: \<open>reads\<close> says how much the \<open>t\<close>-th call takes.\<close>

definition input_read :: "(nat \<Rightarrow> nat \<Rightarrow> nat) \<Rightarrow> nat \<Rightarrow> nat \<Rightarrow> bytes \<Rightarrow> bytes \<times> bytes" where
  "input_read reads t n input =
     (let m = min (reads t n) (min n (length input)) in (take m input @ replicate (n - m) 0, drop m input))"

definition response_read :: "(nat \<Rightarrow> nat \<Rightarrow> nat) \<Rightarrow> bytes \<Rightarrow> (bytes \<times> bytes) option" where
  "response_read reads input =
     (let (fragmentationHeader, input) = input_read reads 0 1 input
      in if fragmentationHeader ! 0 \<noteq> 0x00 then None
         else let (bufferLengthResponse, input) = input_read reads 1 4 input
           in do {
             responseLength \<leftarrow> (parse bufferLengthResponse :: u32 option);
             if sint responseLength < 0 then None
             else Some (input_read reads 2 (nat (sint responseLength)) input) })"

section \<open>Operations of the Java client\<close>

datatype java_exception = InvalidAuthApiKey | UnknownKey | UnknownOperator | AlreadyReplicated | NotAuthorized
  | InvalidNodeState | InvalidPartition | InvalidCall | CasFailed | UnknownException

definition findByCode :: "int \<Rightarrow> java_exception option" where
  "findByCode code = map_of [(0, InvalidAuthApiKey), (1, UnknownKey), (2, UnknownOperator), (3, AlreadyReplicated), (4, NotAuthorized),
     (5, InvalidNodeState), (6, InvalidPartition), (7, InvalidCall), (10, CasFailed)] code"

primrec expectedExceptions :: "Operator \<Rightarrow> java_exception list" where
  "expectedExceptions SET = [UnknownKey]"
| "expectedExceptions GET = [UnknownKey]"
| "expectedExceptions DELETE = [UnknownKey]"
| "expectedExceptions CAS = [CasFailed]"
| "expectedExceptions GET_CLUSTER_CONFIG = []"
| "expectedExceptions CONTAINS = [UnknownKey]"
| "expectedExceptions UPDATE_COUNTER = []"

text \<open>The client with what it has not read yet of its connection.\<close>

record java_MemDb =
  jm_last :: u32
  jm_clock :: u64
  jm_authApiKey :: java_string
  jm_input :: bytes

definition createRequestObject :: "OperationRequest \<Rightarrow> java_MemDb \<Rightarrow> java_Request \<times> java_MemDb" where
  "createRequestObject opRequest C =
     (\<lparr>jr_requestNumber = jm_last C,
       jr_authentication = \<lparr>authApiKey = jm_authApiKey C, ar_flag1 = False, ar_flag2 = False\<rparr>,
       jr_operationRequest = opRequest\<lparr>or_timestamp := jm_clock C\<rparr>\<rparr>,
      C\<lparr>jm_last := jm_last C + 1\<rparr>)"

text \<open>The other end of the connection is a function from what the client writes to what it can read next.\<close>

type_synonym 's peer_end = "bytes \<Rightarrow> 's \<Rightarrow> (bytes \<times> 's) option"

definition java_send ::
  "(nat \<Rightarrow> nat \<Rightarrow> nat) \<Rightarrow> 's peer_end \<Rightarrow> java_Request \<Rightarrow> java_MemDb \<times> 's \<Rightarrow> (java_Response \<times> java_MemDb \<times> 's) option" where
  "java_send reads other request = (\<lambda>(C, s). do {
     (answer, s) \<leftarrow> other (java_serialize request) s;
     (bytesResponse, input) \<leftarrow> response_read reads (jm_input C @ answer);
     response \<leftarrow> java_deserialize bytesResponse;
     Some (response, C\<lparr>jm_input := input\<rparr>, s) })"

definition java_clock_update :: "u64 \<Rightarrow> u64 \<Rightarrow> u64" where
  "java_clock_update other actualCounter = (if sint actualCounter < sint other then other else actualCounter)"

definition sendRequestAndReceiveResponse ::
  "(nat \<Rightarrow> nat \<Rightarrow> nat) \<Rightarrow> 's peer_end \<Rightarrow> java_Request \<Rightarrow> java_MemDb \<times> 's \<Rightarrow> (java_Response \<times> java_MemDb \<times> 's) option" where
  "sendRequestAndReceiveResponse reads other request x = do {
     (response, C, s) \<leftarrow> java_send reads other request x;
     Some (response, C\<lparr>jm_clock := java_clock_update (counter (js_timestamp response)) (jm_clock C)\<rparr>, s) }"

definition handleException :: "java_Request \<Rightarrow> java_Response \<Rightarrow> java_exception + java_Response" where
  "handleException request response =
     (case findByCode (js_errorCode response) of
        None \<Rightarrow> Inl UnknownException
      | Some e \<Rightarrow>
          if e \<notin> set (expectedExceptions (or_operator (jr_operationRequest request))) then Inl e
          else Inr (response\<lparr>js_response := [0, 0, 0, 0]\<rparr>))"

definition handleResponse :: "java_Request \<Rightarrow> java_Response \<Rightarrow> java_exception + java_Response" where
  "handleResponse request response =
     (if \<not> js_isSuccessful response then handleException request response else Inr response)"

definition java_sendRequest ::
  "(nat \<Rightarrow> nat \<Rightarrow> nat) \<Rightarrow> 's peer_end \<Rightarrow> OperationRequest \<Rightarrow> java_MemDb \<times> 's \<Rightarrow>
     ((java_exception + java_Response) \<times> java_MemDb \<times> 's) option" where
  "java_sendRequest reads other opRequest = (\<lambda>(C, s). do {
     let (request, C) = createRequestObject opRequest C;
     (response, C, s) \<leftarrow> sendRequestAndReceiveResponse reads other request (C, s);
     Some (handleResponse request response, C, s) })"

definition java_operation :: "Operator \<Rightarrow> bool \<Rightarrow> java_string list \<Rightarrow> OperationRequest" where
  "java_operation operator flag1 as = \<lparr>or_operator = operator, or_flag1 = flag1, or_flag2 = False, or_timestamp = 0, or_args = as\<rparr>"

definition java_toString :: "bytes \<Rightarrow> java_string" where
  "java_toString b = map (\<lambda>c. if c < 128 then ucast c else 0xFFFD) b"

definition on_response :: "('a \<Rightarrow> 'b) \<Rightarrow> ((java_exception + 'a) \<times> 'c) option \<Rightarrow> ((java_exception + 'b) \<times> 'c) option" where
  "on_response f = map_option (\<lambda>(r, x). (map_sum id f r, x))"

definition java_get ::
  "(nat \<Rightarrow> nat \<Rightarrow> nat) \<Rightarrow> 's peer_end \<Rightarrow> java_string \<Rightarrow> java_MemDb \<times> 's \<Rightarrow> ((java_exception + java_string) \<times> java_MemDb \<times> 's) option" where
  "java_get reads other k x = on_response (\<lambda>r. java_toString (js_response r)) (java_sendRequest reads other (java_operation GET False [k]) x)"

definition java_set ::
  "(nat \<Rightarrow> nat \<Rightarrow> nat) \<Rightarrow> 's peer_end \<Rightarrow> java_string \<Rightarrow> java_string \<Rightarrow> java_MemDb \<times> 's \<Rightarrow> ((java_exception + unit) \<times> java_MemDb \<times> 's) option" where
  "java_set reads other k v x = on_response (\<lambda>r. ()) (java_sendRequest reads other (java_operation SET False [k, v]) x)"

definition java_delete ::
  "(nat \<Rightarrow> nat \<Rightarrow> nat) \<Rightarrow> 's peer_end \<Rightarrow> java_string \<Rightarrow> java_MemDb \<times> 's \<Rightarrow> ((java_exception + unit) \<times> java_MemDb \<times> 's) option" where
  "java_delete reads other k x = on_response (\<lambda>r. ()) (java_sendRequest reads other (java_operation DELETE False [k]) x)"

text \<open>A response is never null.\<close>

definition java_contains ::
  "(nat \<Rightarrow> nat \<Rightarrow> nat) \<Rightarrow> 's peer_end \<Rightarrow> java_string \<Rightarrow> java_MemDb \<times> 's \<Rightarrow> ((java_exception + bool) \<times> java_MemDb \<times> 's) option" where
  "java_contains reads other k x = on_response (\<lambda>r. True) (java_sendRequest reads other (java_operation CONTAINS False [k]) x)"

definition java_cas ::
  "(nat \<Rightarrow> nat \<Rightarrow> nat) \<Rightarrow> 's peer_end \<Rightarrow> java_string \<Rightarrow> java_string \<Rightarrow> java_string \<Rightarrow> java_MemDb \<times> 's \<Rightarrow>
     ((java_exception + bool) \<times> java_MemDb \<times> 's) option" where
  "java_cas reads other k expected v x = on_response (\<lambda>r. True) (java_sendRequest reads other (java_operation CAS False [k, expected, v]) x)"

definition java_increment ::
  "(nat \<Rightarrow> nat \<Rightarrow> nat) \<Rightarrow> 's peer_end \<Rightarrow> java_string \<Rightarrow> java_MemDb \<times> 's \<Rightarrow> ((java_exception + unit) \<times> java_MemDb \<times> 's) option" where
  "java_increment reads other k x = on_response (\<lambda>r. ()) (java_sendRequest reads other (java_operation UPDATE_COUNTER True [k]) x)"

definition java_decrement ::
  "(nat \<Rightarrow> nat \<Rightarrow> nat) \<Rightarrow> 's peer_end \<Rightarrow> java_string \<Rightarrow> java_MemDb \<times> 's \<Rightarrow> ((java_exception + unit) \<times> java_MemDb \<times> 's) option" where
  "java_decrement reads other k x = on_response (\<lambda>r. ()) (java_sendRequest reads other (java_operation UPDATE_COUNTER False [k]) x)"

section \<open>Requests of the cluster manager\<close>

record go_Request =
  go_authKey :: string
  go_operatorNumber :: u8
  go_args :: bytes

text \<open>\<^verbatim>\<open>strconv.ParseInt\<close> in base 10 with 64 bits, and the number of \<^verbatim>\<open>strconv.Atoi\<close>: an optional sign and digits. Reading stops
  at the first character that is no digit, which is an error with the number 0, or at the first digit that takes the
  number beyond 64 bits, which is an error with the nearest number of 64 bits with sign.\<close>

fun ParseUint_from :: "nat \<Rightarrow> string \<Rightarrow> (bool \<times> nat) option" where
  "ParseUint_from n [] = Some (False, n)"
| "ParseUint_from n (c # s) =
     (if \<not> is_digit c then None
      else let n = n * 10 + (of_char c - 48)
        in if n \<ge> 2 ^ 64 then Some (True, 2 ^ 64 - 1) else ParseUint_from n s)"

definition ParseInt :: "string \<Rightarrow> bool \<times> int" where
  "ParseInt s =
     (let neg = (s \<noteq> [] \<and> hd s = CHR ''-'');
          digits = (if s \<noteq> [] \<and> hd s \<in> {CHR ''+'', CHR ''-''} then tl s else s)
      in if digits = [] then (True, 0)
         else (case ParseUint_from 0 digits of
             None \<Rightarrow> (True, 0)
           | Some (outOfRange, un) \<Rightarrow>
               if \<not> neg \<and> un \<ge> 2 ^ 63 then (True, 2 ^ 63 - 1)
               else if neg \<and> un > 2 ^ 63 then (True, - (2 ^ 63))
               else (outOfRange, if neg then - int un else int un)))"

definition Atoi :: "string \<Rightarrow> int" where
  "Atoi s = snd (ParseInt s)"

definition BuildHealthCheckRequest :: "string \<Rightarrow> go_Request" where
  "BuildHealthCheckRequest authk = \<lparr>go_authKey = authk, go_operatorNumber = 0x04, go_args = []\<rparr>"

definition BuildGetClusterConfigRequest :: "string \<Rightarrow> go_Request" where
  "BuildGetClusterConfigRequest authk = \<lparr>go_authKey = authk, go_operatorNumber = 12, go_args = []\<rparr>"

definition BuildDoLeaveNodeClusterRequest :: "string \<Rightarrow> string \<Rightarrow> go_Request" where
  "BuildDoLeaveNodeClusterRequest authk nid =
     (let nodeIdU16 = word_of_int (Atoi nid) :: u16
      in \<lparr>go_authKey = authk, go_operatorNumber = 15, go_args = fromNumber (2 :: u32) @ fromNumber nodeIdU16\<rparr>)"

definition BuildGetNodeDataRequest :: "string \<Rightarrow> string \<Rightarrow> go_Request" where
  "BuildGetNodeDataRequest authk nid =
     (let nodeIdU16 = word_of_int (Atoi nid) :: u16
      in \<lparr>go_authKey = authk, go_operatorNumber = 16, go_args = fromNumber (2 :: u32) @ fromNumber nodeIdU16\<rparr>)"

definition go_GetTotalLength :: "go_Request \<Rightarrow> u32" where
  "go_GetTotalLength request =
     4 + (1 + word_of_nat (length (go_authKey request))) + 1 + 8 + word_of_nat (length (go_args request))"

definition SerializeRequest :: "go_Request \<Rightarrow> bytes" where
  "SerializeRequest request =
     [0x00] @ fromNumber (go_GetTotalLength request) @ [0, 0, 0, 0] @
     [push_bit 2 (word_of_nat (length (go_authKey request)))] @ string_bytes (go_authKey request) @
     [push_bit 2 (go_operatorNumber request)] @ [0, 0, 0, 0, 0, 0, 0, 0] @ go_args request"

record go_Response =
  go_ErrorCode :: u8
  go_Success :: bool
  go_ResponseBody :: bytes

text \<open>A slice beyond the end of the bytes panics.\<close>

definition getResponseBodyString :: "bytes \<Rightarrow> bytes option" where
  "getResponseBodyString rawResponse =
     (if length rawResponse < 19 then None
      else do {
        len \<leftarrow> (parse (take 4 (drop 15 rawResponse)) :: u32 option);
        Some (if len > 0 then drop 19 rawResponse else []) })"

definition Desrialize :: "bytes \<Rightarrow> go_Response option" where
  "Desrialize rawResponse =
     (if length rawResponse \<le> 14 then None
      else do {
        responseBody \<leftarrow> getResponseBodyString rawResponse;
        Some \<lparr>go_ErrorCode = drop_bit 1 (rawResponse ! 14), go_Success = (rawResponse ! 14 AND 0x01 = 1),
              go_ResponseBody = responseBody\<rparr> })"

section \<open>What a node makes of a packet\<close>

text \<open>A node that gets one packet and answers it. The answer is the buffers it hands to asynchronous writes; what arrives
  of them is the parameter \<open>wire\<close>.\<close>

definition serve :: "world \<Rightarrow> (bytes list \<Rightarrow> bytes) \<Rightarrow> node peer_end" where
  "serve W wire stream n =
     (case readAsync stream of
        [packet] \<Rightarrow> map_option (\<lambda>(handed, n). (wire handed, n)) (onNewRequest W True packet n)
      | _ \<Rightarrow> None)"

locale request_client =
  fixes encode :: "'r \<Rightarrow> bytes" and meaning :: "'r \<Rightarrow> Request" and valid :: "'r \<Rightarrow> bool"
  assumes framed: "valid r \<Longrightarrow> \<exists>p. encode r = frame 0 p \<and> p \<noteq> [] \<and> length p < 2 ^ 32 \<and>
      (\<forall>ub. shl_keeps_zero ub \<longrightarrow> deserialize_request ub p = Some (meaning r))"
begin

lemma packet_read:
  assumes "valid r" "shl_keeps_zero ub"
  shows "\<exists>p. readAsync (encode r) = [p] \<and> deserialize_request ub p = Some (meaning r)"
proof -
  obtain p where p: "encode r = frame 0 p" "p \<noteq> []" "length p < 2 ^ 32" "deserialize_request ub p = Some (meaning r)"
    using framed [OF assms(1)] assms(2) by blast
  have "readAsync (encode r) = [p]"
    using readSync_unfragmented [OF p(2,3), of "[]"]
    by (simp add: p(1) readAsync.simps) (simp add: readSync_def readWithTimeout_def)
  then show ?thesis using p(4) by blast
qed

lemma request_served:
  assumes "valid r" "shl_keeps_zero (env_shl (w_env W))"
    and "getAuthenticationType (node_conf n) (key_string (authKey (authentication (meaning r)))) = Some auth"
    and "auth_flag1 (authentication (meaning r)) \<longrightarrow> auth = NODE" "dispatch W auth (meaning r) n = Some (response, n')"
  shows "serve W wire (encode r) n = Some (wire (sendResponse True (response\<lparr>resp_requestNumber := requestNumber (meaning r)\<rparr>)), n')"
proof -
  obtain p where p: "readAsync (encode r) = [p]" "deserialize_request (env_shl (w_env W)) p = Some (meaning r)"
    using packet_read [OF assms(1,2)] by blast
  moreover have "authenticate (node_conf n) (key_string (authKey (authentication (meaning r))))"
    using assms(3) by (auto simp: getAuthenticationType_def getAuthenticationTypeFromConfiguration_def authenticate_def split: if_split_asm)
  ultimately show ?thesis using assms(3-5) by (auto simp: serve_def onNewRequest_def)
qed

end

subsection \<open>Packets of the Java client\<close>

definition is_ascii :: "java_string \<Rightarrow> bool" where
  "is_ascii s \<longleftrightarrow> (\<forall>c \<in> set s. c < 128)"

lemma stringToBytes_ascii: "is_ascii s \<Longrightarrow> stringToBytes s = map ucast s"
proof (induction s rule: stringToBytes.induct)
  case (3 c d s)
  have "\<not> 0xD800 \<le> c" using 3(3) by (auto simp: is_ascii_def word_le_nat_alt word_less_nat_alt)
  then show ?case using 3 by (auto simp: is_ascii_def ascii_def)
qed (auto simp: is_ascii_def ascii_def)

lemma java_toString_ascii: "is_ascii s \<Longrightarrow> java_toString (map ucast s) = s"
proof -
  have "(if (ucast c :: u8) < 128 then ucast (ucast c :: u8) else 0xFFFD) = c" if "c < 128" for c :: u16
  proof -
    have "unat c < 128" using that by (simp add: word_less_nat_alt)
    then have "unat (ucast c :: u8) = unat c" by (simp add: unsigned_ucast_eq unsigned_take_bit_eq take_bit_nat_eq_self)
    then show ?thesis using \<open>unat c < 128\<close> by (simp add: word_less_nat_alt word_unat_eq_iff unsigned_ucast_eq unsigned_take_bit_eq take_bit_nat_eq_self)
  qed
  then show "is_ascii s \<Longrightarrow> java_toString (map ucast s) = s"
    by (auto simp: java_toString_def is_ascii_def intro!: map_idI)
qed

definition java_meaning :: "java_Request \<Rightarrow> Request" where
  "java_meaning r =
     (let auth = jr_authentication r; opr = jr_operationRequest r
      in \<lparr>authentication = \<lparr>authKey = stringToBytes (authApiKey auth), auth_flag1 = False, auth_flag2 = or_flag2 opr\<rparr>,
          operation = \<lparr>args = Some (map stringToBytes (or_args opr)), timestamp = or_timestamp opr, op_nodeId = 1,
            operatorNumber = ucast (java_operatorNumber (or_operator opr)), op_flag1 = or_flag1 opr, op_flag2 = or_flag2 opr\<rparr>,
          requestNumber = jr_requestNumber r\<rparr>)"

definition java_valid :: "java_Request \<Rightarrow> bool" where
  "java_valid r \<longleftrightarrow>
     (let auth = jr_authentication r; opr = jr_operationRequest r
      in \<not> ar_flag1 auth \<and> is_ascii (authApiKey auth) \<and> length (authApiKey auth) < 64 \<and>
         (\<forall>a \<in> set (or_args opr). a \<noteq> [] \<and> is_ascii a) \<and> unat (or_timestamp opr) < 2 ^ 31 \<and>
         length (getAuth r) + length (getOperations r) < 2 ^ 32 - 4)"

lemma byte_of_number: "(ucast (push_bit 2 (w :: u32)) :: u8) = push_bit 2 (ucast w)"
  by (rule bit_word_eqI) (auto simp: bit_simps)

lemma byte_of_length: "(ucast (word_of_nat n :: u32) :: u8) = word_of_nat n"
  by transfer simp

lemma java_operatorNumber_small: "unat (ucast (java_operatorNumber x) :: u8) < 64"
  by (cases x) simp_all

lemma java_packet:
  assumes "java_valid r"
  shows "fromNumber (jr_requestNumber r) @ getAuth r @ getOperations r =
    request_bytes (java_meaning r) (map stringToBytes (or_args (jr_operationRequest r)))"
proof -
  have key: "stringToBytes (authApiKey (jr_authentication r)) = map ucast (authApiKey (jr_authentication r))"
    using assms by (intro stringToBytes_ascii) (simp add: java_valid_def Let_def)
  have "concat (map (\<lambda>arg. fromNumber (word_of_nat (length arg) :: u32) @ stringToBytes arg) as) =
      concat (map arg_bytes (map stringToBytes as))" if "\<forall>a \<in> set as. is_ascii a" for as
    using that by (induction as) (simp_all add: arg_bytes_def ss_size_def stringToBytes_ascii)
  then show ?thesis
    using assms
    by (simp add: request_bytes_def java_meaning_def getAuth_def getOperations_def getOperatorDesc_def with_flags_def java_valid_def
        byte_of_number byte_of_length key Let_def)
qed

interpretation java: request_client java_serialize java_meaning java_valid
proof
  fix r assume v: "java_valid r"
  let ?as = "map stringToBytes (or_args (jr_operationRequest r))"
  let ?p = "fromNumber (jr_requestNumber r) @ getAuth r @ getOperations r"
  have "java_serialize r = frame 0 ?p" by (simp add: java_serialize_def frame_def add.assoc Let_def)
  moreover have "length ?p < 2 ^ 32" "?p \<noteq> []" using v by (auto simp: java_valid_def Let_def getAuth_def)
  moreover have "deserialize_request ub ?p = Some (java_meaning r)" if "shl_keeps_zero ub" for ub
  proof -
    have as: "\<forall>a \<in> set ?as. a \<noteq> []" using v by (auto simp: java_valid_def Let_def stringToBytes_ascii)
    have small: "\<forall>a \<in> set ?as. length a < 2 ^ 32"
    proof
      fix a assume "a \<in> set ?as"
      then obtain xs ys where "?as = xs @ a # ys" by (auto dest: split_list)
      then have "length a \<le> length (concat (map arg_bytes ?as))" by (simp add: arg_bytes_def)
      also have "\<dots> \<le> length ?p" unfolding java_packet [OF v] by (simp add: request_bytes_def)
      finally show "length a < 2 ^ 32" using \<open>length ?p < 2 ^ 32\<close> by linarith
    qed
    have "takeWhile (\<lambda>a. a \<noteq> []) ?as = ?as" using as by (simp add: takeWhile_eq_all_conv)
    moreover have "length (authKey (authentication (java_meaning r))) < 64" "unat (timestamp (operation (java_meaning r))) < 2 ^ 31"
      using v by (simp_all add: java_valid_def java_meaning_def Let_def stringToBytes_ascii)
    moreover have "unat (operatorNumber (operation (java_meaning r))) < 64"
      using java_operatorNumber_small by (simp add: java_meaning_def Let_def)
    ultimately show ?thesis
      unfolding java_packet [OF v] using small
      by (subst deserialize_request_bytes) (simp_all add: that java_meaning_def Let_def)
  qed
  ultimately show "\<exists>p. java_serialize r = frame 0 p \<and> p \<noteq> [] \<and> length p < 2 ^ 32 \<and>
      (\<forall>ub. shl_keeps_zero ub \<longrightarrow> deserialize_request ub p = Some (java_meaning r))"
    by blast
qed

subsection \<open>Packets of the cluster manager\<close>

lemma digit_char: "d < 10 \<Longrightarrow> of_char (char_of (48 + d :: nat) :: char) = 48 + d" "d < 10 \<Longrightarrow> is_digit (char_of (48 + d :: nat))"
proof -
  have eq: "of_char (char_of (48 + d) :: char) = 48 + d" if "d < 10" for d :: nat using that by (simp add: of_char_of)
  show "d < 10 \<Longrightarrow> of_char (char_of (48 + d :: nat) :: char) = 48 + d" by (rule eq)
  have "(of_char (char_of (48 + d) :: char) :: int) = int (48 + d)" if "d < 10" for d :: nat
    using eq [OF that] by (metis of_nat_of_char)
  then show "d < 10 \<Longrightarrow> is_digit (char_of (48 + d :: nat))" by (simp add: is_digit_def)
qed

lemma ParseUint_append: "ParseUint_from n s = Some (False, m) \<Longrightarrow> ParseUint_from n (s @ t) = ParseUint_from m t"
  by (induction s arbitrary: n) (auto simp: Let_def split: if_split_asm)

lemma ParseUint_to_string: "n < 2 ^ 64 \<Longrightarrow> ParseUint_from 0 (to_string n) = Some (False, n)"
proof (induction n rule: to_string.induct)
  case (1 n)
  show ?case
  proof (cases "n < 10")
    case True
    then show ?thesis by (simp add: to_string.simps [of n] digit_char)
  next
    case False
    then have "ParseUint_from 0 (to_string (n div 10)) = Some (False, n div 10)" using 1 by simp
    then show ?thesis
      using False 1(2) by (simp add: to_string.simps [of n] ParseUint_append digit_char)
  qed
qed

lemma to_string_digit: "to_string n \<noteq> [] \<and> is_digit (hd (to_string n))"
  by (induction n rule: to_string.induct) (subst (1 2) to_string.simps, simp add: digit_char hd_append)

lemma ParseInt_to_string: "n < 2 ^ 63 \<Longrightarrow> ParseInt (to_string n) = (False, int n)"
proof -
  assume n: "n < 2 ^ 63"
  have "hd (to_string n) \<noteq> CHR ''+''" "hd (to_string n) \<noteq> CHR ''-''" using to_string_digit [of n] by (auto simp: is_digit_def)
  then show ?thesis using n to_string_digit [of n] ParseUint_to_string [of n] by (simp add: ParseInt_def)
qed

datatype go_call = HealthCheck | GetClusterConfig | DoLeaveNodeCluster string | GetNodeData string

fun go_build :: "string \<times> go_call \<Rightarrow> go_Request" where
  "go_build (authk, HealthCheck) = BuildHealthCheckRequest authk"
| "go_build (authk, GetClusterConfig) = BuildGetClusterConfigRequest authk"
| "go_build (authk, DoLeaveNodeCluster nid) = BuildDoLeaveNodeClusterRequest authk nid"
| "go_build (authk, GetNodeData nid) = BuildGetNodeDataRequest authk nid"

fun go_call_args :: "go_call \<Rightarrow> SimpleString list" where
  "go_call_args (DoLeaveNodeCluster nid) = [fromNumber (word_of_int (Atoi nid) :: u16)]"
| "go_call_args (GetNodeData nid) = [fromNumber (word_of_int (Atoi nid) :: u16)]"
| "go_call_args _ = []"

definition go_meaning :: "string \<times> go_call \<Rightarrow> Request" where
  "go_meaning r =
     \<lparr>authentication = \<lparr>authKey = string_bytes (fst r), auth_flag1 = False, auth_flag2 = False\<rparr>,
      operation = \<lparr>args = Some (go_call_args (snd r)), timestamp = 0, op_nodeId = 1, operatorNumber = go_operatorNumber (go_build r),
        op_flag1 = False, op_flag2 = False\<rparr>,
      requestNumber = 0\<rparr>"

lemma go_fields: "go_authKey (go_build r) = fst r" "unat (go_operatorNumber (go_build r)) < 64"
  "go_args (go_build r) = concat (map arg_bytes (go_call_args (snd r)))" "\<forall>a \<in> set (go_call_args (snd r)). length a = 2"
  by (cases r rule: go_build.cases;
      simp add: BuildHealthCheckRequest_def BuildGetClusterConfigRequest_def BuildDoLeaveNodeClusterRequest_def BuildGetNodeDataRequest_def
        arg_bytes_def ss_size_def sizeof_def Let_def)+

interpretation go: request_client "\<lambda>r. SerializeRequest (go_build r)" go_meaning "\<lambda>r. length (fst r) < 64"
proof
  fix r :: "string \<times> go_call" assume key: "length (fst r) < 64"
  let ?as = "go_call_args (snd r)"
  let ?p = "request_bytes (go_meaning r) ?as"
  have zeros: "fromNumber (0 :: u32) = [0, 0, 0, 0]" "fromNumber (0 :: u64) = [0, 0, 0, 0, 0, 0, 0, 0]"
    by (simp_all add: fromNumber_def sizeof_def byte_at_def upt_conv_Cons)
  have len: "length ?p = 14 + length (fst r) + length (concat (map arg_bytes ?as))"
    by (simp add: request_bytes_def go_meaning_def sizeof_def)
  have "length (concat (map arg_bytes ?as)) \<le> 6" by (cases "snd r") (simp_all add: arg_bytes_def sizeof_def)
  then have "length ?p < 2 ^ 32" using len key by simp
  moreover have "SerializeRequest (go_build r) = frame 0 ?p"
    by (simp add: SerializeRequest_def frame_def len go_GetTotalLength_def go_fields)
      (simp add: request_bytes_def go_meaning_def with_flags_def zeros add.assoc)
  moreover have "?p \<noteq> []" by (simp add: request_bytes_def)
  moreover have "deserialize_request ub ?p = Some (go_meaning r)" if "shl_keeps_zero ub" for ub
  proof -
    have as: "\<forall>a \<in> set ?as. a \<noteq> []" "\<forall>a \<in> set ?as. length a < 2 ^ 32" using go_fields(4) [of r] by force+
    then have "takeWhile (\<lambda>a. a \<noteq> []) ?as = ?as" by (simp add: takeWhile_eq_all_conv)
    then show ?thesis
      using as(2) key go_fields(2) [of r] by (subst deserialize_request_bytes) (simp_all add: that go_meaning_def)
  qed
  ultimately show "\<exists>p. SerializeRequest (go_build r) = frame 0 p \<and> p \<noteq> [] \<and> length p < 2 ^ 32 \<and>
      (\<forall>ub. shl_keeps_zero ub \<longrightarrow> deserialize_request ub p = Some (go_meaning r))"
    by blast
qed

section \<open>Responses\<close>

lemma serialize_response_eq:
  assumes "length (responseValue r) < 2 ^ 32"
  shows "serialize_response r = fromNumber (resp_requestNumber r) @ fromNumber (counter (resp_timestamp r)) @
    fromNumber (nodeId (resp_timestamp r)) @ [push_bit 1 (errorCode r) OR of_bool (isSuccessful r)] @
    fromNumber (word_of_nat (length (responseValue r)) :: u32) @ responseValue r"
  using assms by (simp add: serialize_response_def appendToBuffer_eq Let_def unat_ss_size) (simp add: ss_size_def)

text \<open>
  A response is read in three steps: the header, the length and the \<open>len\<close> bytes of the message. A read may return fewer
  bytes than were asked for, and the clients do not look at their number; and an asynchronous write of a node may
  transmit less than its buffer. \<open>whole_response\<close> describes an exchange in which neither happens: the one buffer of a
  response of that size arrives, and each of the three reads gets all it asks for.
\<close>

definition whole_response :: "(bytes list \<Rightarrow> bytes) \<Rightarrow> (nat \<Rightarrow> nat \<Rightarrow> nat) \<Rightarrow> nat \<Rightarrow> bool" where
  "whole_response wire reads len \<longleftrightarrow>
     (\<forall>p. length p = len \<longrightarrow> wire [frame 0 p] = frame 0 p) \<and> 1 \<le> reads 0 1 \<and> 4 \<le> reads 1 4 \<and> len \<le> reads 2 len"

lemma input_read_whole: "length b = n \<Longrightarrow> n \<le> reads t n \<Longrightarrow> input_read reads t n (b @ s) = (b, s)"
  by (simp add: input_read_def Let_def min_absorb2)

lemma response_read_frame:
  assumes "whole_response wire reads (length p)" "length p < 2 ^ 31"
  shows "response_read reads (frame 0 p @ rest) = Some (p, rest)"
proof -
  have fill: "input_read reads 0 1 ([0] @ s) = ([0], s)" "length b = 4 \<Longrightarrow> input_read reads 1 4 (b @ s) = (b, s)"
    "input_read reads 2 (length p) (p @ s) = (p, s)" for b s
    using assms(1) by (simp_all add: whole_response_def input_read_whole del: append_Cons)
  have "unat (word_of_nat (length p) :: u32) = length p" using assms(2) by (intro unat_of_nat_less) simp
  then have "uint (word_of_nat (length p) :: u32) = int (length p)" by (simp add: uint_nat)
  then have "sint (word_of_nat (length p) :: u32) = int (length p)"
    using assms(2) by (simp add: sint_uint signed_take_bit_int_eq_self_iff)
  then show ?thesis
    using fill by (simp add: response_read_def frame_def parse_fromNumber_alone)
qed

lemma sendResponse_frame:
  assumes "length (serialize_response r) < FRAGMENT_MIN_SIZE"
  shows "sendResponse True r = [frame 0 (serialize_response r)]"
  using assms by (simp add: sendResponse_def writeAsync_frames packet_frames_def)

lemma sendResponse_arrives:
  assumes "length (serialize_response r) < FRAGMENT_MIN_SIZE" "whole_response wire reads (length (serialize_response r))"
  shows "wire (sendResponse True r) = frame 0 (serialize_response r)"
  using assms by (simp add: sendResponse_frame whole_response_def)

lemma odd_status: "(push_bit 1 (e :: u8) OR of_bool b) AND 1 = 1 \<longleftrightarrow> b"
proof -
  have "(push_bit 1 e OR of_bool b) AND 1 = of_bool (odd (push_bit 1 e OR of_bool b))" by (simp only: and_one_eq mod_2_eq_odd)
  moreover have "odd (push_bit 1 e OR of_bool b) \<longleftrightarrow> b" unfolding even_or_iff by simp
  ultimately show ?thesis by simp
qed

lemma java_deserialize_response:
  assumes "length (responseValue r) < 128"
  shows "\<exists>j. java_deserialize (serialize_response r) = Some j \<and> js_isSuccessful j = isSuccessful r \<and>
    counter (js_timestamp j) = counter (resp_timestamp r) \<and>
    js_response j = (if responseValue r = [] then [0, 0, 0, 0] else responseValue r)"
proof -
  let ?v = "responseValue r"
  have raw: "serialize_response r = fromNumber (resp_requestNumber r) @ fromNumber (counter (resp_timestamp r)) @
    fromNumber (nodeId (resp_timestamp r)) @ [push_bit 1 (errorCode r) OR of_bool (isSuccessful r)] @
    fromNumber (word_of_nat (length ?v) :: u32) @ ?v"
    using assms by (intro serialize_response_eq) simp
  have l: "length (fromNumber (w :: u32)) = 4" "length (fromNumber (c :: u64)) = 8" "length (fromNumber (i :: u16)) = 2" for w c i
    by (simp_all add: sizeof_def)
  have nth: "serialize_response r ! 14 = push_bit 1 (errorCode r) OR of_bool (isSuccessful r)"
    "serialize_response r ! 18 = fromNumber (word_of_nat (length ?v) :: u32) ! 3"
    unfolding raw by (simp_all add: nth_append l)
  have "fromNumber (word_of_nat (length ?v) :: u32) ! 3 = (word_of_nat (length ?v) :: u8)"
    by (simp add: nth_fromNumber sizeof_def byte_at_def byte_of_length)
  moreover have "sint (word_of_nat (length ?v) :: u8) = int (length ?v)"
  proof -
    have "unat (word_of_nat (length ?v) :: u8) = length ?v" using assms by (intro unat_of_nat_less) simp
    then have "uint (word_of_nat (length ?v) :: u8) = int (length ?v)" by (simp add: uint_nat)
    then show ?thesis using assms by (simp add: sint_uint signed_take_bit_int_eq_self_iff)
  qed
  ultimately have 18: "sint (serialize_response r ! 18) = int (length ?v)" using nth(2) by simp
  have p: "parse (serialize_response r) = Some (resp_requestNumber r)"
    unfolding raw by (simp add: parse_fromNumber)
  have c: "parse (take 8 (drop 4 (serialize_response r))) = Some (counter (resp_timestamp r))"
    unfolding raw by (simp add: l parse_fromNumber_alone)
  have len: "length (take 2 (drop 8 (serialize_response r))) = 2" "length (serialize_response r) = 19 + length ?v"
    unfolding raw by (simp_all add: l)
  then obtain i where i: "(parse (take 2 (drop 8 (serialize_response r))) :: u16 option) = Some i"
    by (simp add: parse_def sizeof_def)
  have "drop 19 (serialize_response r) = ?v" unfolding raw by (simp add: l)
  moreover have "serialize_response r ! 14 AND 1 = 1 \<longleftrightarrow> isSuccessful r" unfolding nth(1) by (rule odd_status)
  ultimately show ?thesis
    using p c i 18 len(2) by (simp add: java_deserialize_def)
qed

section \<open>A call of the Java client\<close>

lemma java_exchange:
  assumes "java_valid request" "shl_keeps_zero (env_shl (w_env W))" "whole_response wire reads (19 + length (responseValue r))" "jm_input C = []"
    and "conf_authUserKey (node_conf n) = key_string (authKey (authentication (java_meaning request)))"
    and "dispatch W USER (java_meaning request) n = Some (r, n')" "length (responseValue r) < 128"
  shows "\<exists>j. java_send reads (serve W wire) request (C, n) = Some (j, C, n') \<and> js_isSuccessful j = isSuccessful r \<and>
    counter (js_timestamp j) = counter (resp_timestamp r) \<and> js_response j = (if responseValue r = [] then [0, 0, 0, 0] else responseValue r)"
proof -
  let ?r = "r\<lparr>resp_requestNumber := requestNumber (java_meaning request)\<rparr>"
  have "getAuthenticationType (node_conf n) (key_string (authKey (authentication (java_meaning request)))) = Some USER"
    using assms(5) by (simp add: getAuthenticationType_def getAuthenticationTypeFromConfiguration_def)
  moreover have "\<not> auth_flag1 (authentication (java_meaning request))" by (simp add: java_meaning_def Let_def)
  ultimately have served: "serve W wire (java_serialize request) n = Some (wire (sendResponse True ?r), n')"
    using java.request_served [OF assms(1,2) _ _ assms(6)] by simp
  have "length (serialize_response ?r) = 19 + length (responseValue r)"
    using serialize_response_eq [of ?r] assms(7) by (simp add: sizeof_def)
  then have "response_read reads (wire (sendResponse True ?r)) = Some (serialize_response ?r, [])"
    using response_read_frame [of wire reads "serialize_response ?r" "[]"] sendResponse_arrives [of ?r wire reads] assms(3,7)
    by (simp add: FRAGMENT_MIN_SIZE_def)
  moreover obtain j where "java_deserialize (serialize_response ?r) = Some j" "js_isSuccessful j = isSuccessful r"
    "counter (js_timestamp j) = counter (resp_timestamp r)" "js_response j = (if responseValue r = [] then [0, 0, 0, 0] else responseValue r)"
    using java_deserialize_response [of ?r] assms(7) by auto
  moreover have "C\<lparr>jm_input := []\<rparr> = C" using assms(4) by simp
  ultimately show ?thesis using served assms(4) by (intro exI [of _ j]) (simp add: java_send_def)
qed

lemma java_created:
  assumes "createRequestObject (java_operation x f as) C = (request, C')"
    and "is_ascii (jm_authApiKey C)" "length (jm_authApiKey C) < 64" "\<forall>a \<in> set as. a \<noteq> [] \<and> is_ascii a"
    and "sum_list (map (\<lambda>a. 4 + length a) as) < 2 ^ 31" "unat (jm_clock C) < 2 ^ 31"
  shows "java_valid request" "C' = C\<lparr>jm_last := jm_last C + 1\<rparr>"
    "authKey (authentication (java_meaning request)) = stringToBytes (jm_authApiKey C)"
    "operatorNumber (operation (java_meaning request)) = ucast (java_operatorNumber x)"
    "args (operation (java_meaning request)) = Some (map stringToBytes as)" "timestamp (operation (java_meaning request)) = jm_clock C"
proof -
  have "length (concat (map (\<lambda>a. fromNumber (word_of_nat (length a) :: u32) @ stringToBytes a) as)) = sum_list (map (\<lambda>a. 4 + length a) as)"
    using assms(4) by (induction as) (simp_all add: stringToBytes_ascii)
  then show "java_valid request"
    using assms by (auto simp: java_valid_def createRequestObject_def java_operation_def getAuth_def getOperations_def Let_def
        stringToBytes_ascii sizeof_def)
  show "C' = C\<lparr>jm_last := jm_last C + 1\<rparr>" "authKey (authentication (java_meaning request)) = stringToBytes (jm_authApiKey C)"
    "operatorNumber (operation (java_meaning request)) = ucast (java_operatorNumber x)"
    "args (operation (java_meaning request)) = Some (map stringToBytes as)" "timestamp (operation (java_meaning request)) = jm_clock C"
    using assms(1) by (auto simp: createRequestObject_def java_meaning_def java_operation_def Let_def)
qed

lemma java_call:
  assumes "createRequestObject (java_operation x f as) C = (request, C')"
    and "is_ascii (jm_authApiKey C)" "length (jm_authApiKey C) < 64" "\<forall>a \<in> set as. a \<noteq> [] \<and> is_ascii a"
    and "sum_list (map (\<lambda>a. 4 + length a) as) < 2 ^ 31" "unat (jm_clock C) < 2 ^ 31"
    and "shl_keeps_zero (env_shl (w_env W))" "whole_response wire reads (19 + length (responseValue r))" "jm_input C = []"
    and "conf_authUserKey (node_conf n) = key_string (stringToBytes (jm_authApiKey C))"
    and "dispatch W USER (java_meaning request) n = Some (r, n')" "isSuccessful r" "length (responseValue r) < 128"
  shows "\<exists>j. java_sendRequest reads (serve W wire) (java_operation x f as) (C, n) =
      Some (Inr j, C\<lparr>jm_last := jm_last C + 1, jm_clock := java_clock_update (counter (resp_timestamp r)) (jm_clock C)\<rparr>, n') \<and>
    js_response j = (if responseValue r = [] then [0, 0, 0, 0] else responseValue r)"
proof -
  note created = java_created [OF assms(1-6)]
  obtain j where "java_send reads (serve W wire) request (C', n) = Some (j, C', n')" "js_isSuccessful j"
    "counter (js_timestamp j) = counter (resp_timestamp r)" "js_response j = (if responseValue r = [] then [0, 0, 0, 0] else responseValue r)"
    using java_exchange [OF created(1) assms(7,8), of C' n n'] assms(9-13) created(2,3) by auto
  then show ?thesis
    using assms(1) created(2) by (simp add: java_sendRequest_def sendRequestAndReceiveResponse_def handleResponse_def)
qed

text \<open>C5. A Java client reads what it wrote, through both implementations of the protocol. With a node that works alone, has no
  delayed requests and knows the key of the client, setting a key that is not a counter to a value and getting it afterwards
  returns the value. Key, value and the key of the client are non-empty ASCII strings, the value of at most 127
  characters and the key of the client of at most 63; clocks stay below \<open>2 ^ 31\<close>; and in each of the two exchanges the buffer of
  the response arrives and no read of it returns early, which the sockets permit and do not promise.\<close>

theorem java_client_reads_its_write:
  assumes "\<not> conf_replication (node_conf n)" and "\<not> conf_partitions (node_conf n)"
    and "\<not> bd_hasNext (node_delayed n) (node_fs n)" and "node_store 0 n = Some M" and "map_ok M" and "node_logs n \<noteq> []"
    and "\<forall>k0 c. map_view M (calculateHash (w_ub W) (stringToBytes k)) \<noteq> Some (k0, CounterP c)"
    and "shl_keeps_zero (env_shl (w_env W))" and "whole_response wire1 reads1 23" and "whole_response wire2 reads2 (19 + length v)" and "jm_input C = []"
    and "conf_authUserKey (node_conf n) = key_string (stringToBytes (jm_authApiKey C))" and "is_ascii (jm_authApiKey C)"
    and "length (jm_authApiKey C) < 64" and "is_ascii k" and "k \<noteq> []" and "length k < 2 ^ 30" and "is_ascii v" and "v \<noteq> []"
    and "length v < 128" and "unat (max (counter (node_clock n)) (jm_clock C)) + 1 < 2 ^ 31"
  shows "\<exists>C1 n1 C2 n2. java_set reads1 (serve W wire1) k v (C, n) = Some (Inr (), C1, n1) \<and>
    java_get reads2 (serve W wire2) k (C1, n1) = Some (Inr v, C2, n2)"
proof -
  define t where "t = max (counter (node_clock n)) (jm_clock C) + 1"
  have t: "unat t < 2 ^ 31" using assms(21) by (simp add: t_def unat_plus_one_if_less [of _ 1])
  have "unat (jm_clock C) \<le> unat (max (counter (node_clock n)) (jm_clock C))" by (simp add: unat_max_word)
  then have clk: "unat (jm_clock C) < 2 ^ 31" using assms(21) by linarith
  obtain q1 C' where q1: "createRequestObject (java_operation SET False [k, v]) C = (q1, C')" by fastforce
  have args1: "\<forall>a \<in> set [k, v]. a \<noteq> [] \<and> is_ascii a" "sum_list (map (\<lambda>a. 4 + length a) [k, v]) < 2 ^ 31"
    using assms(15-20) by auto
  note created1 = java_created [OF q1 assms(13,14) args1 clk]
  obtain M' where M': "map_ok M'" "map_reading M' (calculateHash (w_ub W) (stringToBytes k)) = Some (LamportClock (conf_nodeId (node_conf n)) t, stringToBytes v)"
    "dispatch W USER (java_meaning q1) n = Some (edit_response (Some t) ALREADY_REPLICATED,
      (set_store 0 M' n)\<lparr>node_clock := LamportClock (nodeId (node_clock n)) t,
        node_logs := (node_logs n)[0 := log_add ((operation (java_meaning q1))\<lparr>timestamp := t\<rparr>) (node_logs n ! 0)]\<rparr>)"
    using alone_set [OF assms(1-7), of "java_meaning q1" "stringToBytes v" "[]" t] created1 by (auto simp: OP_SET_def t_def)
  define n1 where "n1 = (set_store 0 M' n)\<lparr>node_clock := LamportClock (nodeId (node_clock n)) t,
        node_logs := (node_logs n)[0 := log_add ((operation (java_meaning q1))\<lparr>timestamp := t\<rparr>) (node_logs n ! 0)]\<rparr>"
  define C1 where "C1 = C\<lparr>jm_last := jm_last C + 1, jm_clock := java_clock_update t (jm_clock C)\<rparr>"
  have "length (responseValue (edit_response (Some t) ALREADY_REPLICATED)) = 4" "isSuccessful (edit_response (Some t) ALREADY_REPLICATED)"
    "counter (resp_timestamp (edit_response (Some t) ALREADY_REPLICATED)) = t"
    by (simp_all add: sizeof_def edit_response_def resb_build_def buildResponseValue_def resb_timestampCounter_def resb_isSuccessful_def new_ResponseBuilder_def)
  then have set: "java_set reads1 (serve W wire1) k v (C, n) = Some (Inr (), C1, n1)"
    using java_call [OF q1 assms(13,14) args1 clk assms(8) _ assms(11,12) M'(3), of wire1 reads1] assms(9) by (auto simp: java_set_def on_response_def C1_def n1_def)
  have f: "node_conf n1 = node_conf n" "node_delayed n1 = node_delayed n" "node_fs n1 = node_fs n" "node_store 0 n1 = Some M'"
    by (simp_all add: n1_def)
  have C1: "jm_authApiKey C1 = jm_authApiKey C" "jm_input C1 = []" "unat (jm_clock C1) < 2 ^ 31"
    using assms(11) t clk by (simp_all add: C1_def java_clock_update_def)
  obtain q2 C'' where q2: "createRequestObject (java_operation GET False [k]) C1 = (q2, C'')" by fastforce
  have args2: "\<forall>a \<in> set [k]. a \<noteq> [] \<and> is_ascii a" "sum_list (map (\<lambda>a. 4 + length a) [k]) < 2 ^ 31" using assms(15-17) by auto
  have key1: "is_ascii (jm_authApiKey C1)" "length (jm_authApiKey C1) < 64" using assms(13,14) C1(1) by simp_all
  note created2 = java_created [OF q2 key1 args2 C1(3)]
  obtain r2 where r2: "dispatch W USER (java_meaning q2) n1 = Some (r2, n1)" "isSuccessful r2" "responseValue r2 = stringToBytes v"
    using alone_get [of n1 M' W "stringToBytes k" _ "stringToBytes v" "java_meaning q2" "[]"] assms(1-3) f M'(1,2) created2
    by (auto simp: OP_GET_def)
  have "length (responseValue r2) < 128" "responseValue r2 = map ucast v" "responseValue r2 \<noteq> []"
    using r2(3) assms(18-20) by (simp_all add: stringToBytes_ascii)
  then have "\<exists>C2 n2. java_get reads2 (serve W wire2) k (C1, n1) = Some (Inr v, C2, n2)"
    using java_call [OF q2 key1 args2 C1(3) assms(8) _ C1(2) _ r2(1,2), of wire2 reads2] assms(10,12,18) f(1) C1(1)
    by (auto simp: java_get_def on_response_def java_toString_ascii)
  then show ?thesis using set by blast
qed

theorem java_client_reads_its_write_witness:
  "\<exists>C1 n1 C2 n2. java_set (\<lambda>t n. n) (serve (cas_world (only_from 2 (error 0))) concat) [97] [98, 99]
      (\<lparr>jm_last = 1, jm_clock = 5, jm_authApiKey = map ucast user_key, jm_input = []\<rparr>, alone) = Some (Inr (), C1, n1) \<and>
    java_get (\<lambda>t n. n) (serve (cas_world (only_from 2 (error 0))) concat) [97] (C1, n1) = Some (Inr [98, 99], C2, n2)"
proof -
  let ?C = "\<lparr>jm_last = 1, jm_clock = 5, jm_authApiKey = map ucast user_key, jm_input = []\<rparr> :: java_MemDb"
  have W: "w_env (cas_world (only_from 2 (error 0))) = sample_env" by (simp add: cas_world_def)
  have "key_string (stringToBytes (map ucast user_key)) = ''123''" by code_simp
  then have "conf_authUserKey (node_conf alone) = key_string (stringToBytes (jm_authApiKey ?C))"
    by (simp add: alone_def sample_settings_def)
  moreover have "is_ascii (jm_authApiKey ?C)" "length (jm_authApiKey ?C) < 64" by code_simp+
  moreover have "stringToBytes [97] = [97]" "is_ascii [97]" "is_ascii [98, 99]" by code_simp+
  moreover have "unat (max (counter (node_clock alone)) (jm_clock ?C)) + 1 < 2 ^ 31" by (simp add: alone_simps)
  ultimately show ?thesis
    using java_client_reads_its_write [of alone key_map "cas_world (only_from 2 (error 0))" "[97]" concat "\<lambda>t n. n" concat "\<lambda>t n. n" "[98, 99]" ?C]
      alone_simps key_map(1) key_map_view sample_segment(5)
    by (simp add: W whole_response_def)
qed

lemma map_sum_Inr_iff: "map_sum f g x = Inr y \<longleftrightarrow> (\<exists>z. x = Inr z \<and> y = g z)"
  by (cases x) auto

text \<open>Whatever a node answers, \<^verbatim>\<open>contains\<close> and \<^verbatim>\<open>cas\<close> return true when they return: the response of a missing key or of a
  failed comparison is one the client expects, and the response it hands back is not null.\<close>

lemma java_contains_cas_true:
  "java_contains reads other k x = Some (Inr b, y) \<Longrightarrow> b" "java_cas reads other k expected v x = Some (Inr b, y) \<Longrightarrow> b"
  by (auto simp: java_contains_def java_cas_def on_response_def map_sum_Inr_iff)

end
