(* ===== verification/Cluster_Manager.thy ===== *)
theory Cluster_Manager
  imports Client_Protocol
begin

text \<open>
  The cluster manager (\<^verbatim>\<open>src/clustermanager/src\<close>): its configuration, the connections to the nodes, the endpoints that show
  the configuration of the cluster and make a node leave it, and the array helpers. A panic is \<^term>\<open>None\<close>. Strings are byte
  lists in the source as here; the body of a response stays a byte list.
\<close>

section \<open>Configuration\<close>

type_synonym go_Configuartion = "string \<rightharpoonup> string"

definition DEFAULT_CONFIGURATION :: "string \<rightharpoonup> string" where
  "DEFAULT_CONFIGURATION = map_of [(''AUTH_API_USER_KEY'', ''123''), (''AUTH_NODE_KEY'', ''456''), (''API_JWT_SECRET_KEY'', ''abc''),
     (''API_PORT'', ''8080''), (''USE_LOGGING'', ''false'')]"

definition go_Get :: "(string \<rightharpoonup> string) \<Rightarrow> string \<Rightarrow> go_Configuartion \<Rightarrow> (string \<times> go_Configuartion) option" where
  "go_Get env k cached =
     (case cached k of
        Some cachedValue \<Rightarrow> Some (cachedValue, cached)
      | None \<Rightarrow>
          (case (env k, DEFAULT_CONFIGURATION k) of
             (None, None) \<Rightarrow> None
           | (Some envValue, _) \<Rightarrow> Some (envValue, cached(k \<mapsto> envValue))
           | (None, Some defaultValue) \<Rightarrow> Some (defaultValue, cached(k \<mapsto> defaultValue))))"

definition go_GetBoolean :: "(string \<rightharpoonup> string) \<Rightarrow> string \<Rightarrow> go_Configuartion \<Rightarrow> (bool \<times> go_Configuartion) option" where
  "go_GetBoolean env k cached = map_option (\<lambda>(v, cached). (v = ''true'', cached)) (go_Get env k cached)"

definition go_GetInt :: "(string \<rightharpoonup> string) \<Rightarrow> string \<Rightarrow> go_Configuartion \<Rightarrow> (int \<times> go_Configuartion) option" where
  "go_GetInt env k cached = do {
     (strValue, cached) \<leftarrow> go_Get env k cached;
     let (err, intValue) = ParseInt strValue;
     if err then None else Some (intValue, cached) }"

text \<open>\<^verbatim>\<open>strings.Split\<close> with a separator of one character: always at least one part.\<close>

fun go_Split :: "char \<Rightarrow> string \<Rightarrow> string list" where
  "go_Split separator [] = [[]]"
| "go_Split separator (c # s) =
     (if c = separator then [] # go_Split separator s
      else (case go_Split separator s of p # ps \<Rightarrow> (c # p) # ps | [] \<Rightarrow> [[c]]))"

definition go_GetConfig :: "(string \<rightharpoonup> string) \<Rightarrow> string \<Rightarrow> go_Configuartion \<Rightarrow> (string list \<times> go_Configuartion) option" where
  "go_GetConfig env k cached = map_option (\<lambda>(v, cached). (go_Split CHR '','' v, cached)) (go_Get env k cached)"

fun go_argsToConfigMap :: "string list \<Rightarrow> go_Configuartion \<Rightarrow> go_Configuartion option" where
  "go_argsToConfigMap [] argMap = Some argMap"
| "go_argsToConfigMap (arg # argv) argMap =
     (case go_Split CHR ''='' arg of
        k # v # _ \<Rightarrow> go_argsToConfigMap argv (argMap(k \<mapsto> v))
      | _ \<Rightarrow> None)"

definition LoadConfiguration :: "string list \<Rightarrow> go_Configuartion option" where
  "LoadConfiguration argv = go_argsToConfigMap (tl argv) Map.empty"

section \<open>Connections to the nodes\<close>

text \<open>The network: whether a connection to an address is made; what the node at an address sends back for the bytes
  written to it, unless the write fails; and how many bytes a read takes. A read with nothing left to read fails.\<close>

datatype go_error = DialError | WriteError | ReadError | FragmentationNotImplemented | NoSeedNodeFound | CannotGetNodeData u8

record 's go_network =
  net_Dial :: "string \<Rightarrow> 's \<Rightarrow> bool \<times> 's"
  net_Write :: "string \<Rightarrow> bytes \<Rightarrow> 's \<Rightarrow> (bytes \<times> 's) option"
  net_Read :: "nat \<Rightarrow> nat \<Rightarrow> nat"

record go_Node =
  gn_NodeId :: string
  gn_Address :: string
  gn_connection :: "bytes option"

definition openConnectionIfClosed :: "'s go_network \<Rightarrow> go_Node \<times> 's \<Rightarrow> go_error option \<times> go_Node \<times> 's" where
  "openConnectionIfClosed net = (\<lambda>(node, s).
     case gn_connection node of
       None \<Rightarrow> (let (connected, s) = net_Dial net (gn_Address node) s
         in if connected then (None, node\<lparr>gn_connection := Some []\<rparr>, s) else (Some DialError, node, s))
     | Some _ \<Rightarrow> (None, node, s))"

definition go_Read :: "'s go_network \<Rightarrow> nat \<Rightarrow> nat \<Rightarrow> bytes \<Rightarrow> (bytes \<times> bytes) option" where
  "go_Read net t n input = (if n > 0 \<and> input = [] then None else Some (input_read (net_Read net) t n input))"

definition readResponseBytes :: "'s go_network \<Rightarrow> bytes \<Rightarrow> (go_error + bytes) \<times> bytes" where
  "readResponseBytes net input =
     (case go_Read net 0 1 input of
        None \<Rightarrow> (Inl ReadError, input)
      | Some (fragHeader, input) \<Rightarrow>
          if fragHeader \<noteq> [0] then (Inl FragmentationNotImplemented, input)
          else (case go_Read net 1 4 input of
              None \<Rightarrow> (Inl ReadError, input)
            | Some (responseLengthBytes, input) \<Rightarrow>
                (case go_Read net 2 (case parse responseLengthBytes of Some (w :: u32) \<Rightarrow> unat w | None \<Rightarrow> 0) input of
                   None \<Rightarrow> (Inl ReadError, input)
                 | Some (responseBytes, input) \<Rightarrow> (Inr responseBytes, input))))"

definition go_Send :: "'s go_network \<Rightarrow> go_Request \<Rightarrow> go_Node \<times> 's \<Rightarrow> ((go_error + go_Response) \<times> go_Node \<times> 's) option" where
  "go_Send net requestToSend x =
     (case openConnectionIfClosed net x of
        (Some e, node, s) \<Rightarrow> Some (Inl e, node, s)
      | (None, node, s) \<Rightarrow>
          (case net_Write net (gn_Address node) (SerializeRequest requestToSend) s of
             None \<Rightarrow> Some (Inl WriteError, node, s)
           | Some (answer, s) \<Rightarrow>
               (let (result, input) = readResponseBytes net ((case gn_connection node of Some input \<Rightarrow> input | None \<Rightarrow> []) @ answer);
                    node = node\<lparr>gn_connection := Some input\<rparr>
                in case result of
                  Inl e \<Rightarrow> Some (Inl e, node, s)
                | Inr bytes \<Rightarrow> map_option (\<lambda>r. (Inr r, node, s)) (Desrialize bytes))))"

record ClusterNodeConnections =
  cc_configuration :: go_Configuartion
  cc_nodesById :: "string \<rightharpoonup> go_Node"
  cc_seedNodes :: "go_Node list"

definition CreateClusterNodeConnections :: "(string \<rightharpoonup> string) \<Rightarrow> go_Configuartion \<Rightarrow> ClusterNodeConnections option" where
  "CreateClusterNodeConnections env conf = do {
     (seeds, conf) \<leftarrow> go_GetConfig env ''SEED_NODES'' conf;
     Some \<lparr>cc_configuration = conf, cc_nodesById = Map.empty,
       cc_seedNodes = map (\<lambda>seedNodeAddress. \<lparr>gn_NodeId = ''0'', gn_Address = seedNodeAddress, gn_connection = None\<rparr>) seeds\<rparr> }"

fun send_any :: "'s go_network \<Rightarrow> go_Request \<Rightarrow> go_Node list \<Rightarrow> 's \<Rightarrow> ((go_error + go_Response) \<times> go_Node list \<times> 's) option" where
  "send_any net request [] s = Some (Inl NoSeedNodeFound, [], s)"
| "send_any net request (node # seeds) s = do {
     (r, node, s) \<leftarrow> go_Send net request (node, s);
     case r of
       Inr res \<Rightarrow> Some (Inr res, node # seeds, s)
     | Inl e \<Rightarrow> map_option (\<lambda>(r, seeds, s). (r, node # seeds, s)) (send_any net request seeds s) }"

definition SendRequestToAnySeeder ::
  "'s go_network \<Rightarrow> go_Request \<Rightarrow> ClusterNodeConnections \<times> 's \<Rightarrow> ((go_error + go_Response) \<times> ClusterNodeConnections \<times> 's) option" where
  "SendRequestToAnySeeder net request = (\<lambda>(cc, s).
     map_option (\<lambda>(r, seeds, s). (r, cc\<lparr>cc_seedNodes := seeds\<rparr>, s)) (send_any net request (cc_seedNodes cc) s))"

text \<open>A slice of a slice may reach to the capacity of the latter. The conversion of a string to bytes may leave a capacity
  beyond the length: \<open>slack\<close> says how much for a length, and these bytes are 0.\<close>

definition go_bytes :: "(nat \<Rightarrow> nat) \<Rightarrow> bytes \<Rightarrow> bytes" where
  "go_bytes slack body = body @ replicate (slack (length body)) 0"

definition go_slice :: "bytes \<Rightarrow> u32 \<Rightarrow> u32 \<Rightarrow> bytes option" where
  "go_slice bs lo hi = (if lo \<le> hi \<and> unat hi \<le> length bs then Some (take (unat hi - unat lo) (drop (unat lo) bs)) else None)"

definition Itoa :: "u16 \<Rightarrow> string" where
  "Itoa w = to_string (unat w)"

definition getNodeDataResFromStirng :: "(nat \<Rightarrow> nat) \<Rightarrow> go_Response \<Rightarrow> (string \<times> string) option" where
  "getNodeDataResFromStirng slack res = do {
     let bytes = go_bytes slack (go_ResponseBody res);
     nid \<leftarrow> Option.bind (go_slice bytes 0 2) parse;
     addressSize \<leftarrow> Option.bind (go_slice bytes 2 6) parse;
     address \<leftarrow> go_slice bytes 6 (6 + addressSize);
     Some (Itoa nid, map (\<lambda>b. char_of (unat b)) address) }"

definition GetNode ::
  "'s go_network \<Rightarrow> (string \<rightharpoonup> string) \<Rightarrow> (nat \<Rightarrow> nat) \<Rightarrow> string \<Rightarrow> ClusterNodeConnections \<times> 's \<Rightarrow>
     ((go_error + go_Node) \<times> ClusterNodeConnections \<times> 's) option" where
  "GetNode net env slack nid = (\<lambda>(cc, s).
     case cc_nodesById cc nid of
       Some node \<Rightarrow> Some (Inr node, cc, s)
     | None \<Rightarrow> do {
         (authk, conf) \<leftarrow> go_Get env ''AUTH_API_USER_KEY'' (cc_configuration cc);
         (r, cc, s) \<leftarrow> SendRequestToAnySeeder net (BuildGetNodeDataRequest authk nid) (cc\<lparr>cc_configuration := conf\<rparr>, s);
         case r of
           Inl e \<Rightarrow> Some (Inl e, cc, s)
         | Inr res \<Rightarrow>
             if \<not> go_Success res then Some (Inl (CannotGetNodeData (go_ErrorCode res)), cc, s)
             else do {
               (nid', address) \<leftarrow> getNodeDataResFromStirng slack res;
               let node = \<lparr>gn_NodeId = nid', gn_Address = address, gn_connection = None\<rparr>;
               Some (Inr node, cc\<lparr>cc_nodesById := (cc_nodesById cc)(nid' \<mapsto> node)\<rparr>, s) } })"

section \<open>Endpoints\<close>

record NodeResponse =
  nr_NodeId :: string
  nr_RingPosition :: u32
  nr_Address :: string

record go_ClusterConfig =
  gr_NodesPerPartition :: u32
  gr_MaxPartitionSize :: u32
  gr_Nodes :: "NodeResponse list"

fun go_addresses :: "bytes \<Rightarrow> nat \<Rightarrow> u32 \<Rightarrow> (string \<times> string) list \<Rightarrow> (u32 \<times> (string \<times> string) list) option" where
  "go_addresses bytes 0 offset m = Some (offset, m)"
| "go_addresses bytes (Suc n) offset m = do {
     nid \<leftarrow> Option.bind (go_slice bytes offset (offset + 2)) parse;
     let offset = offset + 2;
     addressSize \<leftarrow> Option.bind (go_slice bytes offset (offset + 4)) parse;
     let offset = offset + 4;
     address \<leftarrow> go_slice bytes offset (offset + addressSize);
     go_addresses bytes n (offset + addressSize) (AList.update (Itoa nid) (map (\<lambda>b. char_of (unat b)) address) m) }"

fun go_positions :: "bytes \<Rightarrow> nat \<Rightarrow> u32 \<Rightarrow> (string \<rightharpoonup> u32) \<Rightarrow> (string \<rightharpoonup> u32) option" where
  "go_positions bytes 0 offset m = Some m"
| "go_positions bytes (Suc n) offset m = do {
     nid \<leftarrow> Option.bind (go_slice bytes offset (offset + 2)) parse;
     let offset = offset + 2;
     ringPosition \<leftarrow> Option.bind (go_slice bytes offset (offset + 4)) parse;
     go_positions bytes n (offset + 4) (m(Itoa nid \<mapsto> ringPosition)) }"

text \<open>Ranging over a map visits its keys in the order \<open>order\<close> gives them.\<close>

definition clusterConfigResponseToJSON ::
  "(nat \<Rightarrow> nat) \<Rightarrow> ((string \<times> string) list \<Rightarrow> (string \<times> string) list) \<Rightarrow> go_Response \<Rightarrow> go_ClusterConfig option" where
  "clusterConfigResponseToJSON slack order res = do {
     let bytes = go_bytes slack (go_ResponseBody res);
     perPartition \<leftarrow> Option.bind (go_slice bytes 0 4) (parse :: _ \<Rightarrow> u32 option);
     maxPartition \<leftarrow> Option.bind (go_slice bytes 4 8) parse;
     nNodesInCluster \<leftarrow> Option.bind (go_slice bytes 8 12) (parse :: _ \<Rightarrow> u32 option);
     (offset, addressByNodeId) \<leftarrow> go_addresses bytes (unat nNodesInCluster) 12 [];
     ringPositionsByNodeId \<leftarrow> go_positions bytes (unat nNodesInCluster) offset Map.empty;
     Some \<lparr>gr_NodesPerPartition = perPartition, gr_MaxPartitionSize = maxPartition,
       gr_Nodes = map (\<lambda>(nid, address). \<lparr>nr_NodeId = nid,
         nr_RingPosition = (if perPartition > 0 then (case ringPositionsByNodeId nid of Some p \<Rightarrow> p | None \<Rightarrow> 0) else 0),
         nr_Address = address\<rparr>) (order addressByNodeId)\<rparr> }"

text \<open>What an endpoint answers: the status and the content.\<close>

datatype go_reply = ClusterConfigReply go_ClusterConfig | ErrorReply go_error | ErrorCodeReply u8 | SentReply

definition GetClusterConfig_endpoint ::
  "'s go_network \<Rightarrow> (string \<rightharpoonup> string) \<Rightarrow> (nat \<Rightarrow> nat) \<Rightarrow> ((string \<times> string) list \<Rightarrow> (string \<times> string) list) \<Rightarrow>
     ClusterNodeConnections \<times> 's \<Rightarrow> ((nat \<times> go_reply) \<times> ClusterNodeConnections \<times> 's) option" where
  "GetClusterConfig_endpoint net env slack order = (\<lambda>(cc, s). do {
     (userAuthKey, conf) \<leftarrow> go_Get env ''AUTH_API_USER_KEY'' (cc_configuration cc);
     (r, cc, s) \<leftarrow> SendRequestToAnySeeder net (BuildGetClusterConfigRequest userAuthKey) (cc\<lparr>cc_configuration := conf\<rparr>, s);
     case r of
       Inr res \<Rightarrow> map_option (\<lambda>c. ((200, ClusterConfigReply c), cc, s)) (clusterConfigResponseToJSON slack order res)
     | Inl e \<Rightarrow> Some ((400, ErrorReply e), cc, s) })"

definition go_Remove ::
  "'s go_network \<Rightarrow> (string \<rightharpoonup> string) \<Rightarrow> (nat \<Rightarrow> nat) \<Rightarrow> string \<Rightarrow> ClusterNodeConnections \<times> 's \<Rightarrow>
     ((nat \<times> go_reply) \<times> ClusterNodeConnections \<times> 's) option" where
  "go_Remove net env slack nid = (\<lambda>(cc, s). do {
     (authk, conf) \<leftarrow> go_Get env ''AUTH_API_USER_KEY'' (cc_configuration cc);
     (r, cc, s) \<leftarrow> GetNode net env slack nid (cc\<lparr>cc_configuration := conf\<rparr>, s);
     case r of
       Inl e \<Rightarrow> Some ((400, ErrorReply e), cc, s)
     | Inr node \<Rightarrow> do {
         (r, node, s) \<leftarrow> go_Send net (BuildDoLeaveNodeClusterRequest authk (gn_NodeId node)) (node, s);
         let cc = cc\<lparr>cc_nodesById := (cc_nodesById cc)(gn_NodeId node \<mapsto> node)\<rparr>;
         case r of
           Inl e \<Rightarrow> Some ((400, ErrorReply e), cc, s)
         | Inr res \<Rightarrow> Some ((200, if go_Success res then SentReply else ErrorCodeReply (go_ErrorCode res)), cc, s) } })"

text \<open>Signing a token with the secret of the manager is the library for tokens; it may fail.\<close>

datatype login_reply = InvalidAuthKey | Token string | SigningError

definition Login ::
  "(string \<Rightarrow> string option) \<Rightarrow> (string \<rightharpoonup> string) \<Rightarrow> string \<Rightarrow> go_Configuartion \<Rightarrow> ((nat \<times> login_reply) \<times> go_Configuartion) option" where
  "Login sign env requestKey cached = do {
     (authk, cached) \<leftarrow> go_Get env ''AUTH_API_USER_KEY'' cached;
     if requestKey \<noteq> authk then Some ((403, InvalidAuthKey), cached)
     else do {
       (secret, cached) \<leftarrow> go_Get env ''API_JWT_SECRET_KEY'' cached;
       case sign secret of
         None \<Rightarrow> Some ((500, SigningError), cached)
       | Some signedToken \<Rightarrow> do {
           (useLogging, cached) \<leftarrow> go_GetBoolean env ''USE_LOGGING'' cached;
           Some ((200, Token signedToken), cached) } } }"

section \<open>Array helpers\<close>

text \<open>\<^verbatim>\<open>sort.Search\<close> as documented for a condition that is false first and true from some index on.\<close>

definition sort_Search :: "nat \<Rightarrow> (nat \<Rightarrow> bool) \<Rightarrow> nat" where
  "sort_Search n comparator = length (takeWhile (\<lambda>i. \<not> comparator i) [0..<n])"

fun shift_from :: "'a \<Rightarrow> 'a list \<Rightarrow> 'a list" where
  "shift_from nextValue [] = []"
| "shift_from nextValue (x # xs) = nextValue # shift_from x xs"

definition InsertIntoSortedArray :: "'a \<Rightarrow> 'a list \<Rightarrow> 'a \<Rightarrow> (nat \<Rightarrow> bool) \<Rightarrow> 'a list" where
  "InsertIntoSortedArray zero array toInsert comparator =
     (let index = sort_Search (length array) comparator
      in if index + 1 = length array then array @ [toInsert]
         else let array = array @ [zero]
           in take index array @ toInsert # shift_from (array ! index) (drop (index + 1) array))"

record 'a CircularArrayIterator =
  ci_Array :: "'a list"
  ci_nextIndex :: int
  ci_backIndex :: int

definition WithStartingIndex :: "int \<Rightarrow> 'a CircularArrayIterator \<Rightarrow> 'a CircularArrayIterator" where
  "WithStartingIndex startIndex it = it\<lparr>ci_backIndex := startIndex, ci_nextIndex := startIndex\<rparr>"

definition go_index :: "'a list \<Rightarrow> int \<Rightarrow> 'a option" where
  "go_index xs i = (if 0 \<le> i \<and> i < int (length xs) then Some (xs ! nat i) else None)"

definition go_Next :: "'a CircularArrayIterator \<Rightarrow> ('a \<times> 'a CircularArrayIterator) option" where
  "go_Next it =
     (let newNextIndex = ci_nextIndex it + 1;
          newNextIndex = (if newNextIndex \<ge> int (length (ci_Array it)) then 0 else newNextIndex)
      in map_option (\<lambda>x. (x, it\<lparr>ci_nextIndex := newNextIndex\<rparr>)) (go_index (ci_Array it) newNextIndex))"

definition go_Back :: "'a CircularArrayIterator \<Rightarrow> ('a \<times> 'a CircularArrayIterator) option" where
  "go_Back it =
     (let newBackIndex = ci_backIndex it - 1;
          newBackIndex = (if newBackIndex < 0 then int (length (ci_Array it)) - 1 else newBackIndex)
      in map_option (\<lambda>x. (x, it\<lparr>ci_backIndex := newBackIndex\<rparr>)) (go_index (ci_Array it) newBackIndex))"

text \<open>An element is inserted where the search says, except before the last element: there it is appended behind it.\<close>

lemma shift_from_butlast: "shift_from x xs = butlast (x # xs)"
  by (induction xs arbitrary: x) simp_all

lemma InsertIntoSortedArray_inserts:
  assumes "sort_Search (length array) comparator + 1 \<noteq> length array"
  shows "InsertIntoSortedArray zero array x comparator =
    take (sort_Search (length array) comparator) array @ x # drop (sort_Search (length array) comparator) array"
proof -
  let ?i = "sort_Search (length array) comparator"
  have "?i \<le> length array" unfolding sort_Search_def by (rule order_trans [OF length_takeWhile_le]) simp
  then have "(array @ [zero]) ! ?i # drop (?i + 1) (array @ [zero]) = drop ?i (array @ [zero])" by (subst Cons_nth_drop_Suc [symmetric]) simp_all
  then have "shift_from ((array @ [zero]) ! ?i) (drop (?i + 1) (array @ [zero])) = drop ?i array"
    using \<open>?i \<le> length array\<close> by (simp only: shift_from_butlast) (simp add: butlast_append)
  then show ?thesis using assms \<open>?i \<le> length array\<close> by (simp add: InsertIntoSortedArray_def Let_def)
qed

lemma InsertIntoSortedArray_misplaces:
  "sort_Search (length array) comparator + 1 = length array \<Longrightarrow> InsertIntoSortedArray zero array x comparator = array @ [x]"
  by (simp add: InsertIntoSortedArray_def)

lemma go_Next_cycles:
  assumes "0 \<le> ci_nextIndex it" "ci_nextIndex it < int (length (ci_Array it))"
  shows "go_Next it = Some (ci_Array it ! nat ((ci_nextIndex it + 1) mod int (length (ci_Array it))),
    it\<lparr>ci_nextIndex := (ci_nextIndex it + 1) mod int (length (ci_Array it))\<rparr>)"
proof (cases "ci_nextIndex it + 1 = int (length (ci_Array it))")
  case True
  then show ?thesis using assms by (auto simp: go_Next_def go_index_def)
next
  case False
  then show ?thesis using assms by (simp add: go_Next_def go_index_def Let_def)
qed

section \<open>The configuration the manager shows\<close>

lemma Itoa_inj [simp]: "Itoa a = Itoa b \<longleftrightarrow> a = b"
proof
  assume "Itoa a = Itoa b"
  moreover have "unat a < 2 ^ 63" "unat b < 2 ^ 63" using unsigned_less [of a, where ?'a = nat] unsigned_less [of b, where ?'a = nat] by simp_all
  ultimately have "int (unat a) = int (unat b)" using ParseInt_to_string [of "unat a"] ParseInt_to_string [of "unat b"] by (simp add: Itoa_def)
  then show "a = b" by (metis nat_int word_unat_eq_iff)
qed simp

lemma numbers: "parse (fromNumber (w :: u16)) = Some w" "parse (fromNumber (d :: u32)) = Some d"
  by (simp_all add: parse_fromNumber_alone)

lemma go_slice_at:
  assumes "unat lo = length a" "unat hi = length a + length b"
  shows "go_slice (a @ b @ c) lo hi = Some b"
  using assms by (simp add: go_slice_def word_le_nat_alt)

lemma u32_advance: "unat (w :: u32) + k < 2 ^ 32 \<Longrightarrow> unat (w + word_of_nat k) = unat w + k"
  by (simp add: unat_word_ariths unat_of_nat take_bit_nat_eq_self)

lemma u32_advance_numeral:
  "unat (w :: u32) + 2 < 2 ^ 32 \<Longrightarrow> unat (w + 2) = unat w + 2" "unat w + 4 < 2 ^ 32 \<Longrightarrow> unat (w + 4) = unat w + 4"
  using u32_advance [of w 2] u32_advance [of w 4] by simp_all

lemma go_addresses_bytes:
  assumes "unat offset = length pre" "length pre + length (concat (map node_bytes ns)) < 2 ^ 32"
  shows "go_addresses (pre @ concat (map node_bytes ns) @ rest) (length ns) offset m =
    Some (word_of_nat (length pre + length (concat (map node_bytes ns))),
      foldl (\<lambda>m n. AList.update (Itoa (node_id n)) (node_address n) m) m ns)"
  using assms
proof (induction ns arbitrary: pre offset m)
  case Nil
  then show ?case by (simp add: word_unat_eq_iff unat_of_nat)
next
  case (Cons n ns)
  let ?id = "fromNumber (node_id n)" and ?a = "string_bytes (node_address n)" and ?rest = "concat (map node_bytes ns) @ rest"
  let ?size = "word_of_nat (length (node_address n)) :: u32"
  let ?buf = "pre @ ?id @ fromNumber ?size @ ?a @ ?rest"
  have buf: "pre @ concat (map node_bytes (n # ns)) @ rest = ?buf" by (simp add: node_bytes_def)
  have total: "length pre + length (concat (map node_bytes (n # ns))) =
      length pre + 6 + length (node_address n) + length (concat (map node_bytes ns))"
    by (simp add: node_bytes_def sizeof_def del: length_concat)
  have bound: "length pre + 6 + length (node_address n) < 2 ^ 32" using Cons.prems(2) total by linarith
  have o2: "unat (offset + 2) = length pre + 2" using Cons.prems(1) bound by (simp add: u32_advance_numeral)
  have o6: "unat (offset + 2 + 4) = length pre + 6" using u32_advance_numeral(2) [of "offset + 2"] o2 bound by simp
  have oa: "unat (offset + 2 + 4 + ?size) = length pre + 6 + length (node_address n)" using o6 bound by (simp add: u32_advance)
  have s1: "go_slice ?buf offset (offset + 2) = Some ?id" using Cons.prems(1) o2 by (intro go_slice_at) simp_all
  have s2: "go_slice ?buf (offset + 2) (offset + 2 + 4) = Some (fromNumber ?size)"
    using go_slice_at [of "offset + 2" "pre @ ?id" "offset + 2 + 4" "fromNumber ?size"] o2 o6 by simp
  have s3: "go_slice ?buf (offset + 2 + 4) (offset + 2 + 4 + ?size) = Some ?a"
    using go_slice_at [of "offset + 2 + 4" "pre @ ?id @ fromNumber ?size" "offset + 2 + 4 + ?size" ?a] o6 oa by simp
  have rec: "go_addresses ?buf (length ns) (offset + 2 + 4 + ?size) m' =
      Some (word_of_nat (length pre + 6 + length (node_address n) + length (concat (map node_bytes ns))),
        foldl (\<lambda>m n. AList.update (Itoa (node_id n)) (node_address n) m) m' ns)" for m'
    using Cons.IH [of "offset + 2 + 4 + ?size" "pre @ ?id @ fromNumber ?size @ ?a" m'] oa Cons.prems(2) total
    by (simp add: ac_simps del: length_concat)
  show ?case
    unfolding buf total length_Cons go_addresses.simps s1 s2 bind.bind_lunit numbers Let_def s3 rec by simp
qed

definition put_position :: "(string \<rightharpoonup> u32) \<Rightarrow> RingEntry \<Rightarrow> (string \<rightharpoonup> u32)" where
  "put_position m e = m(Itoa (re_nodeId e) \<mapsto> ringPosition e)"

lemma go_positions_bytes:
  assumes "unat offset = length pre" "length pre + 6 * length es < 2 ^ 32"
  shows "go_positions (pre @ concat (map entry_bytes es) @ rest) (length es) offset m =
    Some (foldl put_position m es)"
  using assms
proof (induction es arbitrary: pre offset m)
  case (Cons e es)
  let ?id = "fromNumber (re_nodeId e)" and ?p = "fromNumber (ringPosition e)"
  let ?buf = "pre @ ?id @ ?p @ concat (map entry_bytes es) @ rest"
  have buf: "pre @ concat (map entry_bytes (e # es)) @ rest = ?buf" by (simp add: entry_bytes_def)
  have o2: "unat (offset + 2) = length pre + 2" using Cons.prems by (simp add: u32_advance_numeral)
  have o6: "unat (offset + 2 + 4) = length pre + 6" using u32_advance_numeral(2) [of "offset + 2"] o2 Cons.prems(2) by simp
  have s1: "go_slice ?buf offset (offset + 2) = Some ?id" using Cons.prems(1) o2 by (intro go_slice_at) simp_all
  have s2: "go_slice ?buf (offset + 2) (offset + 2 + 4) = Some ?p"
    using go_slice_at [of "offset + 2" "pre @ ?id" "offset + 2 + 4" ?p] o2 o6 by simp
  have rec: "go_positions ?buf (length es) (offset + 2 + 4) m' = Some (foldl put_position m' es)" for m'
    using Cons.IH [of "offset + 2 + 4" "pre @ ?id @ ?p" m'] o6 Cons.prems(2) by simp
  show ?case
    unfolding buf length_Cons go_positions.simps s1 s2 bind.bind_lunit numbers Let_def rec foldl_Cons put_position_def [of m e] ..
qed simp

lemma length_entries: "length (concat (map entry_bytes es)) = 6 * length es"
  by (induction es) (simp_all add: entry_bytes_def sizeof_def del: length_concat)

lemma update_fresh: "k \<notin> fst ` set m \<Longrightarrow> AList.update k v m = m @ [(k, v)]"
  by (induction m) auto

lemma addresses_distinct:
  assumes "distinct (map node_id ns)" "\<forall>n \<in> set ns. Itoa (node_id n) \<notin> fst ` set m"
  shows "foldl (\<lambda>m n. AList.update (Itoa (node_id n)) (node_address n) m) m ns = m @ map (\<lambda>n. (Itoa (node_id n), node_address n)) ns"
  using assms
proof (induction ns arbitrary: m)
  case (Cons n ns)
  have "AList.update (Itoa (node_id n)) (node_address n) m = m @ [(Itoa (node_id n), node_address n)]"
    using Cons.prems(2) by (intro update_fresh) simp
  moreover have "\<forall>x \<in> set ns. Itoa (node_id x) \<notin> fst ` set (m @ [(Itoa (node_id n), node_address n)])"
    using Cons.prems by (auto simp: image_iff)
  ultimately show ?case using Cons.IH [of "m @ [(Itoa (node_id n), node_address n)]"] Cons.prems(1) by simp
qed simp

lemma positions_distinct:
  assumes "distinct (map re_nodeId es)"
  shows "foldl put_position m es (Itoa w) =
    (case find (\<lambda>e. re_nodeId e = w) es of Some e \<Rightarrow> Some (ringPosition e) | None \<Rightarrow> m (Itoa w))"
  using assms
proof (induction es arbitrary: m)
  case (Cons e es)
  have "find (\<lambda>e. re_nodeId e = w) es = None" if "w = re_nodeId e" using Cons.prems that by (auto simp: find_None_iff) (metis imageI)
  then show ?case using Cons.IH [of "put_position m e"] Cons.prems by (auto simp: put_position_def split: option.split)
qed simp

text \<open>What the manager is to show: the sizes and, once for every node, its identifier, its address and the position of its
  ring entry, 0 for a node that has none.\<close>

definition entry_position :: "RingEntry list \<Rightarrow> memdbNodeId_t \<Rightarrow> u32" where
  "entry_position es i = (case find (\<lambda>e. re_nodeId e = i) es of Some e \<Rightarrow> ringPosition e | None \<Rightarrow> 0)"

definition shown_config :: "GetClusterConfigResponse \<Rightarrow> go_ClusterConfig \<Rightarrow> bool" where
  "shown_config r c \<longleftrightarrow> gr_NodesPerPartition c = gc_nodesPerPartition r \<and> gr_MaxPartitionSize c = gc_maxPartitionSize r \<and>
     mset (gr_Nodes c) = mset (map (\<lambda>n. \<lparr>nr_NodeId = Itoa (node_id n),
       nr_RingPosition = entry_position (gc_ringEntries r) (node_id n), nr_Address = node_address n\<rparr>) (gc_nodes r))"

text \<open>Up to the ring entries the manager reads what the node wrote; \<open>rest\<close> is the capacity beyond the response.\<close>

lemma config_header:
  assumes "serialize_config r = Some (go_ResponseBody res)" "length (go_ResponseBody res) < 2 ^ 32" "length (gc_nodes r) < 2 ^ 32"
  defines "offset \<equiv> 12 + length (concat (map node_bytes (gc_nodes r)))"
  shows "length (go_ResponseBody res) = offset + 6 * length (gc_ringEntries r)"
    and "\<exists>h. length h = offset \<and> go_bytes slack (go_ResponseBody res) =
      h @ concat (map entry_bytes (gc_ringEntries r)) @ replicate (slack (length (go_ResponseBody res))) 0"
    and "clusterConfigResponseToJSON slack order res =
      map_option (\<lambda>m. \<lparr>gr_NodesPerPartition = gc_nodesPerPartition r, gr_MaxPartitionSize = gc_maxPartitionSize r,
        gr_Nodes = map (\<lambda>(nid, address). \<lparr>nr_NodeId = nid,
          nr_RingPosition = (if gc_nodesPerPartition r > 0 then (case m nid of Some p \<Rightarrow> p | None \<Rightarrow> 0) else 0),
          nr_Address = address\<rparr>) (order (foldl (\<lambda>m n. AList.update (Itoa (node_id n)) (node_address n) m) [] (gc_nodes r)))\<rparr>)
        (go_positions (go_bytes slack (go_ResponseBody res)) (length (gc_nodes r)) (word_of_nat offset) Map.empty)"
proof -
  let ?ns = "gc_nodes r" and ?bs = "go_bytes slack (go_ResponseBody res)" and ?rest = "replicate (slack (length (go_ResponseBody res))) (0 :: u8)"
  let ?n = "word_of_nat (length ?ns) :: u32" and ?N = "concat (map node_bytes (gc_nodes r))" and ?E = "concat (map entry_bytes (gc_ringEntries r))"
  let ?h = "fromNumber (gc_nodesPerPartition r) @ fromNumber (gc_maxPartitionSize r) @ fromNumber ?n"
  have body: "go_ResponseBody res = ?h @ ?N @ ?E" using assms(1) by (simp add: serialize_config_bytes)
  have bs: "?bs = ?h @ ?N @ ?E @ ?rest" by (simp add: go_bytes_def body)
  have h: "length ?h = 12" by (simp add: sizeof_def)
  show size: "length (go_ResponseBody res) = offset + 6 * length (gc_ringEntries r)"
    unfolding body offset_def using h length_entries [of "gc_ringEntries r"] by (simp del: length_concat)
  show "\<exists>h. length h = offset \<and> ?bs = h @ ?E @ ?rest"
    using h bs by (intro exI [of _ "?h @ ?N"]) (simp add: offset_def del: length_concat)
  have n: "unat ?n = length ?ns" using assms(3) by (intro unat_of_nat_less) simp
  have p1: "go_slice ?bs 0 4 = Some (fromNumber (gc_nodesPerPartition r))"
    unfolding bs using go_slice_at [of 0 "[]" 4 "fromNumber (gc_nodesPerPartition r)"] by (simp add: sizeof_def)
  have p2: "go_slice ?bs 4 8 = Some (fromNumber (gc_maxPartitionSize r))"
    unfolding bs using go_slice_at [of 4 "fromNumber (gc_nodesPerPartition r)" 8 "fromNumber (gc_maxPartitionSize r)"] by (simp add: sizeof_def)
  have p3: "go_slice ?bs 8 12 = Some (fromNumber ?n)"
    unfolding bs using go_slice_at [of 8 "fromNumber (gc_nodesPerPartition r) @ fromNumber (gc_maxPartitionSize r)" 12 "fromNumber ?n"] by (simp add: sizeof_def)
  have "offset < 2 ^ 32" using size assms(2) by linarith
  then have ns: "go_addresses ?bs (length ?ns) 12 [] = Some (word_of_nat offset, foldl (\<lambda>m n. AList.update (Itoa (node_id n)) (node_address n) m) [] ?ns)"
    using go_addresses_bytes [of 12 ?h ?ns "?E @ ?rest" "[]"] h unfolding bs offset_def by (simp del: length_concat)
  show "clusterConfigResponseToJSON slack order res =
      map_option (\<lambda>m. \<lparr>gr_NodesPerPartition = gc_nodesPerPartition r, gr_MaxPartitionSize = gc_maxPartitionSize r,
        gr_Nodes = map (\<lambda>(nid, address). \<lparr>nr_NodeId = nid,
          nr_RingPosition = (if gc_nodesPerPartition r > 0 then (case m nid of Some p \<Rightarrow> p | None \<Rightarrow> 0) else 0),
          nr_Address = address\<rparr>) (order (foldl (\<lambda>m n. AList.update (Itoa (node_id n)) (node_address n) m) [] (gc_nodes r)))\<rparr>)
        (go_positions ?bs (length ?ns) (word_of_nat offset) Map.empty)"
    unfolding clusterConfigResponseToJSON_def Let_def p1 p2 p3 bind.bind_lunit numbers n ns prod.case
    by (simp add: map_conv_bind_option o_def)
qed

lemma config_to_JSON:
  assumes "distinct (map node_id (gc_nodes r))" "distinct (map re_nodeId (gc_ringEntries r))"
    and "length (gc_ringEntries r) = length (gc_nodes r)" "gc_nodesPerPartition r > 0"
    and "getSerializedBytesSize r < 2 ^ 32" "\<forall>xs. mset (order xs) = mset xs"
    and "serialize_config r = Some (go_ResponseBody res)"
  shows "\<exists>c. clusterConfigResponseToJSON slack order res = Some c \<and> shown_config r c"
proof -
  let ?ns = "gc_nodes r" and ?es = "gc_ringEntries r" and ?m = "foldl put_position Map.empty (gc_ringEntries r)"
  let ?offset = "12 + length (concat (map node_bytes (gc_nodes r)))" and ?rest = "replicate (slack (length (go_ResponseBody res))) (0 :: u8)"
  have len: "length (go_ResponseBody res) < 2 ^ 32" using serialized_size [OF assms(7)] assms(5) by simp
  have "length (gc_nodes r) < 2 ^ 32"
    using serialized_size [OF assms(7)] assms(3,5) by (simp add: getSerializedBytesSize_def sum_list_triv)
  note header = config_header [OF assms(7) len this]
  obtain h where h: "length h = ?offset" "go_bytes slack (go_ResponseBody res) = h @ concat (map entry_bytes ?es) @ ?rest"
    using header(2) by blast
  have "?offset < 2 ^ 32" using header(1) len by linarith
  then have "unat (word_of_nat ?offset :: u32) = length h" unfolding h(1) by (intro unat_of_nat_less) simp
  moreover have "length h + 6 * length ?es < 2 ^ 32" using header(1) h(1) len by linarith
  ultimately have es: "go_positions (go_bytes slack (go_ResponseBody res)) (length ?ns) (word_of_nat ?offset) Map.empty = Some ?m"
    using go_positions_bytes [of "word_of_nat ?offset" h ?es ?rest Map.empty] unfolding h(2) assms(3) by blast
  have ns: "foldl (\<lambda>m n. AList.update (Itoa (node_id n)) (node_address n) m) [] ?ns = map (\<lambda>n. (Itoa (node_id n), node_address n)) ?ns"
    using addresses_distinct [OF assms(1), of "[]"] by simp
  have position: "(case ?m (Itoa (node_id n)) of Some p \<Rightarrow> p | None \<Rightarrow> 0) = entry_position ?es (node_id n)" for n
    using positions_distinct [OF assms(2), of Map.empty "node_id n"] by (simp add: entry_position_def split: option.split)
  have permuted: "mset (map f (order xs)) = mset (map f xs)" for f :: "string \<times> string \<Rightarrow> NodeResponse" and xs
    using assms(6) by (metis mset_map)
  show ?thesis
    unfolding header(3) es ns using assms(4) by (simp add: shown_config_def permuted position o_def del: mset_map)
qed

section \<open>A request of the manager\<close>

lemma Desrialize_response:
  assumes "length (responseValue r) < 2 ^ 32"
  shows "\<exists>res. Desrialize (serialize_response r) = Some res \<and> go_Success res = isSuccessful r \<and> go_ResponseBody res = responseValue r"
proof -
  let ?v = "responseValue r"
  have raw: "serialize_response r = fromNumber (resp_requestNumber r) @ fromNumber (counter (resp_timestamp r)) @
    fromNumber (nodeId (resp_timestamp r)) @ [push_bit 1 (errorCode r) OR of_bool (isSuccessful r)] @
    fromNumber (word_of_nat (length ?v) :: u32) @ ?v"
    using assms by (intro serialize_response_eq)
  have l: "length (fromNumber (w :: u32)) = 4" "length (fromNumber (c :: u64)) = 8" "length (fromNumber (i :: u16)) = 2" for w c i
    by (simp_all add: sizeof_def)
  have "serialize_response r ! 14 = push_bit 1 (errorCode r) OR of_bool (isSuccessful r)"
    unfolding raw by (simp add: nth_append l)
  then have status: "serialize_response r ! 14 AND 1 = 1 \<longleftrightarrow> isSuccessful r" using odd_status by simp
  have body: "take 4 (drop 15 (serialize_response r)) = fromNumber (word_of_nat (length ?v) :: u32)"
    "drop 19 (serialize_response r) = ?v" "length (serialize_response r) = 19 + length ?v"
    unfolding raw by (simp_all add: l)
  have "unat (word_of_nat (length ?v) :: u32) = length ?v" using assms by (intro unat_of_nat_less) simp
  then have "(word_of_nat (length ?v) :: u32) > 0 \<longleftrightarrow> ?v \<noteq> []" by (simp add: word_less_nat_alt)
  then have "getResponseBodyString (serialize_response r) = Some ?v" by (auto simp: getResponseBodyString_def body numbers)
  then show ?thesis using status by (simp add: Desrialize_def body(3))
qed

lemma readResponseBytes_frame:
  assumes "whole_response wire (net_Read net) (length p)" "length p < 2 ^ 32" "p \<noteq> []"
  shows "readResponseBytes net (frame 0 p) = (Inr p, [])"
proof -
  have fill: "go_Read net 0 1 ([0] @ s) = Some ([0], s)" "length b = 4 \<Longrightarrow> b \<noteq> [] \<Longrightarrow> go_Read net 1 4 (b @ s) = Some (b, s)"
    "go_Read net 2 (length p) (p @ s) = Some (p, s)" for b s
    using assms(1,3) by (simp_all add: go_Read_def whole_response_def input_read_whole del: append_Cons)
  have l: "length (fromNumber (word_of_nat (length p) :: u32)) = 4" "fromNumber (word_of_nat (length p) :: u32) \<noteq> []"
    by (simp_all flip: length_greater_0_conv)
  have "unat (word_of_nat (length p) :: u32) = length p" using assms(2) by (intro unat_of_nat_less) simp
  then show ?thesis
    using fill(1) fill(2) [of "fromNumber (word_of_nat (length p) :: u32)" p] fill(3) [of "[]"] l
    by (simp add: readResponseBytes_def frame_def numbers)
qed

lemma go_exchange:
  assumes "length k < 64" "shl_keeps_zero (env_shl (w_env W))" "whole_response wire (net_Read net) (19 + length (responseValue r))"
    and "gn_connection seed = None" "net_Dial net (gn_Address seed) n = (True, n)" "net_Write net (gn_Address seed) = serve W wire"
    and "conf_authUserKey (node_conf n) = k"
    and "dispatch W USER (go_meaning (k, call)) n = Some (r, n')" "length (responseValue r) + 19 < FRAGMENT_MIN_SIZE"
  shows "\<exists>res. go_Send net (go_build (k, call)) (seed, n) = Some (Inr res, seed\<lparr>gn_connection := Some []\<rparr>, n') \<and>
    go_Success res = isSuccessful r \<and> go_ResponseBody res = responseValue r"
proof -
  let ?r = "r\<lparr>resp_requestNumber := requestNumber (go_meaning (k, call))\<rparr>"
  have "getAuthenticationType (node_conf n) (key_string (authKey (authentication (go_meaning (k, call))))) = Some USER"
    using assms(7) by (simp add: go_meaning_def key_string_def getAuthenticationType_def getAuthenticationTypeFromConfiguration_def)
  moreover have "\<not> auth_flag1 (authentication (go_meaning (k, call)))" by (simp add: go_meaning_def)
  ultimately have served: "serve W wire (SerializeRequest (go_build (k, call))) n = Some (wire (sendResponse True ?r), n')"
    using go.request_served [of "(k, call)", OF _ assms(2) _ _ assms(8)] assms(1) by simp
  have small: "length (responseValue ?r) < 2 ^ 32" using assms(9) by (simp add: FRAGMENT_MIN_SIZE_def)
  have len: "length (serialize_response ?r) = 19 + length (responseValue r)"
    using serialize_response_eq [OF small] by (simp add: sizeof_def)
  then have "serialize_response ?r \<noteq> []" by (auto simp flip: length_greater_0_conv)
  with len have "readResponseBytes net (wire (sendResponse True ?r)) = (Inr (serialize_response ?r), [])"
    using readResponseBytes_frame [of wire net "serialize_response ?r"] sendResponse_arrives [of ?r wire "net_Read net"] assms(3,9)
    by (simp add: FRAGMENT_MIN_SIZE_def)
  moreover obtain res where "Desrialize (serialize_response ?r) = Some res" "go_Success res = isSuccessful r" "go_ResponseBody res = responseValue r"
    using Desrialize_response [OF small] by auto
  ultimately show ?thesis using served assms(4-6) by (simp add: go_Send_def openConnectionIfClosed_def)
qed

lemma config_dispatched:
  assumes "\<not> bd_hasNext (node_delayed n) (node_fs n)" "canAcceptRequest n"
    and "conf_partitions (node_conf n)" "cluster_partitions (node_cluster n) = Some P" "partitions_getAll P = Some es"
    and "serialize_config \<lparr>gc_nodesPerPartition = getNodesPerPartition P, gc_maxPartitionSize = getMaxSize P,
        gc_nodes = getNodesToSendInResponse n, gc_ringEntries = es\<rparr> = Some bs"
  shows "\<exists>r. dispatch W USER (go_meaning (k, GetClusterConfig)) n = Some (r, n) \<and> isSuccessful r \<and> responseValue r = bs"
proof -
  have number: "operatorNumber (operation (go_meaning (k, GetClusterConfig))) = OP_GET_CLUSTER_CONFIG"
    by (simp add: go_meaning_def BuildGetClusterConfigRequest_def OP_GET_CLUSTER_CONFIG_def)
  have reg: "registry_get OP_GET_CLUSTER_CONFIG = Some GetClusterConfigOperator" by (simp add: registry_get_def operators_def operator_numbers)
  have operated: "GetClusterConfigOperator_operate op options n = Some (resb_build (resb_value bs (resb_success new_ResponseBuilder)), n)" for op options
    using assms(3-6) by (simp add: GetClusterConfigOperator_operate_def cluster_getNodesPerPartition_def getMaxPartitionSize_def)
  have "dispatch W USER (go_meaning (k, GetClusterConfig)) n = Some (resb_build (resb_value bs (resb_success new_ResponseBuilder)), n)"
    using assms(2)
    by (simp add: no_delayed [OF assms(1)] dispatch_no_applyDelayedOperationsBuffer_def number reg isAuthorizedToExecute_def GetClusterConfigOperator_desc_def
        refuses_key_def dispatch_options_def fromClient_def executeOperation_def execute_with_def operated hasProperty_def)
  moreover have "isSuccessful (resb_build (resb_value bs (resb_success new_ResponseBuilder)))"
    "responseValue (resb_build (resb_value bs (resb_success new_ResponseBuilder))) = bs"
    by (simp_all add: resb_build_def resb_value_def resb_success_def new_ResponseBuilder_def buildResponseValue_def)
  ultimately show ?thesis by blast
qed

text \<open>C9. The cluster manager shows the cluster as a node knows it: when the first seed node is reachable, uses partitions,
  has no delayed requests and accepts the key of the manager, the endpoint for the configuration answers 200 with the
  sizes of the partitions and, exactly once for every node, its identifier, address and position on the ring, which is 0
  for a node without a ring entry. There are as many ring entries as nodes, no identifier occurs twice among either, the response
  has less than 1024 bytes, and in this exchange its buffer arrives and no read of it returns early, which the sockets
  permit and do not promise.\<close>

theorem manager_shows_cluster:
  assumes "\<not> bd_hasNext (node_delayed n) (node_fs n)" and "canAcceptRequest n"
    and "conf_partitions (node_conf n)" and "cluster_partitions (node_cluster n) = Some P" and "partitions_getAll P = Some es"
    and "r = \<lparr>gc_nodesPerPartition = getNodesPerPartition P, gc_maxPartitionSize = getMaxSize P,
        gc_nodes = getNodesToSendInResponse n, gc_ringEntries = es\<rparr>"
    and "distinct (map node_id (gc_nodes r))" and "distinct (map re_nodeId es)" and "length es = length (gc_nodes r)"
    and "getNodesPerPartition P > 0" and "getSerializedBytesSize r + 19 < FRAGMENT_MIN_SIZE"
    and "shl_keeps_zero (env_shl (w_env W))" and "whole_response wire (net_Read net) (19 + getSerializedBytesSize r)"
    and "cc_seedNodes cc = seed # seeds" and "gn_connection seed = None"
    and "net_Dial net (gn_Address seed) n = (True, n)" and "net_Write net (gn_Address seed) = serve W wire"
    and "go_Get env ''AUTH_API_USER_KEY'' (cc_configuration cc) = Some (k, conf)" and "length k < 64" and "conf_authUserKey (node_conf n) = k"
    and "\<forall>xs. mset (order xs) = mset xs"
  shows "\<exists>c cc'. GetClusterConfig_endpoint net env slack order (cc, n) = Some ((200, ClusterConfigReply c), cc', n) \<and> shown_config r c"
proof -
  obtain bs where bs: "serialize_config r = Some bs" by (simp add: serialize_config_bytes)
  then have size: "length bs = getSerializedBytesSize r" by (rule serialized_size)
  obtain resp where "dispatch W USER (go_meaning (k, GetClusterConfig)) n = Some (resp, n)" "responseValue resp = bs"
    using config_dispatched [OF assms(1-5)] bs assms(6) by blast
  then obtain res where res: "go_Send net (BuildGetClusterConfigRequest k) (seed, n) = Some (Inr res, seed\<lparr>gn_connection := Some []\<rparr>, n)"
    "go_ResponseBody res = bs"
    using go_exchange [OF assms(19,12), of wire net resp seed n GetClusterConfig n] assms(11,13,15-17,20) size by auto
  obtain c where "clusterConfigResponseToJSON slack order res = Some c" "shown_config r c"
    using config_to_JSON [of r order res slack] assms(6-11,21) bs res(2) by (auto simp: FRAGMENT_MIN_SIZE_def)
  then show ?thesis
    using res(1) assms(14,18) by (simp add: GetClusterConfig_endpoint_def SendRequestToAnySeeder_def)
qed

lemma go_positions_short:
  assumes "unat offset \<le> length bs" "length bs < unat offset + 6 * n" "unat offset + 6 * n < 2 ^ 32"
  shows "go_positions bs n offset m = None"
  using assms
proof (induction n arbitrary: offset m)
  case (Suc n)
  have o2: "unat (offset + 2) = unat offset + 2" using Suc.prems(3) by (simp add: u32_advance_numeral)
  have o6: "unat (offset + 2 + 4) = unat offset + 6" using u32_advance_numeral(2) [of "offset + 2"] o2 Suc.prems(3) by simp
  show ?case
  proof (cases "unat offset + 6 \<le> length bs")
    case True
    then have "go_positions bs n (offset + 2 + 4) m' = None" for m' using Suc.IH [of "offset + 2 + 4"] Suc.prems o6 by simp
    then show ?thesis unfolding go_positions.simps Let_def by (auto split: Option.bind_split)
  next
    case False
    then have "go_slice bs (offset + 2) (offset + 2 + 4) = None" using o6 by (simp add: go_slice_def)
    then show ?thesis unfolding go_positions.simps Let_def by (auto split: Option.bind_split)
  qed
qed simp

text \<open>C36. The cluster manager does not show a cluster without partitions: it reads a ring entry for every node although
  the node sends none, and panics unless the capacity of the bytes of the response happens to reach far enough.\<close>

theorem manager_panics_without_partitions:
  assumes "serialize_config r = Some (go_ResponseBody res)" and "gc_ringEntries r = []"
    and "getSerializedBytesSize r + 6 * length (gc_nodes r) < 2 ^ 32" and "slack (length (go_ResponseBody res)) < 6 * length (gc_nodes r)"
  shows "clusterConfigResponseToJSON slack order res = None"
proof -
  let ?offset = "12 + length (concat (map node_bytes (gc_nodes r)))"
  have size: "length (go_ResponseBody res) = getSerializedBytesSize r" by (rule serialized_size [OF assms(1)])
  have len: "length (go_ResponseBody res) < 2 ^ 32" "length (gc_nodes r) < 2 ^ 32" using size assms(3) by linarith+
  note header = config_header [OF assms(1) len]
  have "unat (word_of_nat ?offset :: u32) = ?offset" using header(1) len(1) by (intro unat_of_nat_less) simp
  moreover have "length (go_bytes slack (go_ResponseBody res)) = ?offset + slack (length (go_ResponseBody res))"
    using header(1) assms(2) by (simp add: go_bytes_def del: length_concat)
  moreover have "?offset + 6 * length (gc_nodes r) < 2 ^ 32" using header(1) size assms(2,3) by (simp del: length_concat)
  ultimately have "go_positions (go_bytes slack (go_ResponseBody res)) (length (gc_nodes r)) (word_of_nat ?offset) Map.empty = None"
    using assms(4) by (intro go_positions_short) (simp_all del: length_concat)
  then show ?thesis unfolding header(3) by simp
qed

section \<open>Witnesses\<close>

definition one_partition :: Partitions where
  "one_partition = \<lparr>ringEntries = \<lparr>ring_heap = [0 \<mapsto> \<lparr>rn_entry = \<lparr>re_nodeId = 3, ringPosition = 9\<rparr>, rn_next = Some (Some 0), rn_back = Some (Some 0)\<rparr>],
       ring_fresh = 1, ring_head = Some 0, indexByNodeId = [(3, 0)]\<rparr>,
     selfEntry = \<lparr>re_nodeId = 3, ringPosition = 9\<rparr>, nodesPerPartition = 1, maxSize = 64, conf_usePartitions = True\<rparr>"

definition partitioned :: node where
  "partitioned = alone\<lparr>node_conf := (node_conf alone)\<lparr>conf_partitions := True\<rparr>,
     node_cluster := (node_cluster alone)\<lparr>cluster_partitions := Some one_partition\<rparr>\<rparr>"

definition one_config :: GetClusterConfigResponse where
  "one_config = \<lparr>gc_nodesPerPartition = 1, gc_maxPartitionSize = 64, gc_nodes = [\<lparr>node_id = 3, node_address = ''localhost:10000''\<rparr>],
     gc_ringEntries = [\<lparr>re_nodeId = 3, ringPosition = 9\<rparr>]\<rparr>"

definition direct_network :: "node go_network" where
  "direct_network = \<lparr>net_Dial = (\<lambda>a s. (True, s)), net_Write = (\<lambda>a. serve (cas_world (only_from 2 (error 0))) concat),
     net_Read = (\<lambda>t n. n)\<rparr>"

definition one_seed :: ClusterNodeConnections where
  "one_seed = \<lparr>cc_configuration = Map.empty, cc_nodesById = Map.empty,
     cc_seedNodes = [\<lparr>gn_NodeId = ''0'', gn_Address = ''localhost:10000'', gn_connection = None\<rparr>]\<rparr>"

theorem manager_shows_cluster_witness:
  "\<exists>c cc'. GetClusterConfig_endpoint direct_network Map.empty (\<lambda>n. 0) id (one_seed, partitioned) =
     Some ((200, ClusterConfigReply c), cc', partitioned) \<and> shown_config one_config c"
proof (rule manager_shows_cluster)
  show "\<not> bd_hasNext (node_delayed partitioned) (node_fs partitioned)" using alone_simps(3) by (simp add: partitioned_def)
  show "canAcceptRequest partitioned" using alone_simps(1) by (simp add: canAcceptRequest_def isInReplicationMode_def partitioned_def)
  show "conf_partitions (node_conf partitioned)" "cluster_partitions (node_cluster partitioned) = Some one_partition"
    by (simp_all add: partitioned_def)
  show "partitions_getAll one_partition = Some [\<lparr>re_nodeId = 3, ringPosition = 9\<rparr>]"
    by (simp add: one_partition_def partitions_getAll_def ring_getAll_def)
  show "one_config = \<lparr>gc_nodesPerPartition = getNodesPerPartition one_partition, gc_maxPartitionSize = getMaxSize one_partition,
        gc_nodes = getNodesToSendInResponse partitioned, gc_ringEntries = [\<lparr>re_nodeId = 3, ringPosition = 9\<rparr>]\<rparr>"
    by (simp add: one_config_def one_partition_def getNodesPerPartition_def getMaxSize_def getNodesToSendInResponse_def partitioned_def
        alone_def cas_node_def sample_settings_def getAllNodes_def new_Cluster_def)
  show "distinct (map node_id (gc_nodes one_config))" "distinct (map re_nodeId [\<lparr>re_nodeId = 3, ringPosition = 9\<rparr>])"
    "length [\<lparr>re_nodeId = 3, ringPosition = 9\<rparr>] = length (gc_nodes one_config)" "0 < getNodesPerPartition one_partition"
    "getSerializedBytesSize one_config + 19 < FRAGMENT_MIN_SIZE"
    by (simp_all add: one_config_def one_partition_def getNodesPerPartition_def getSerializedBytesSize_def FRAGMENT_MIN_SIZE_def)
  show "shl_keeps_zero (env_shl (w_env (cas_world (only_from 2 (error 0)))))" using sample_segment(5) by (simp add: cas_world_def)
  show "whole_response concat (net_Read direct_network) (19 + getSerializedBytesSize one_config)"
    by (simp add: whole_response_def direct_network_def)
  show "cc_seedNodes one_seed = \<lparr>gn_NodeId = ''0'', gn_Address = ''localhost:10000'', gn_connection = None\<rparr> # []" by (simp add: one_seed_def)
  show "gn_connection \<lparr>gn_NodeId = ''0'', gn_Address = ''localhost:10000'', gn_connection = None\<rparr> = None" by simp
  show "net_Dial direct_network (gn_Address \<lparr>gn_NodeId = ''0'', gn_Address = ''localhost:10000'', gn_connection = None\<rparr>) partitioned = (True, partitioned)"
    "net_Write direct_network (gn_Address \<lparr>gn_NodeId = ''0'', gn_Address = ''localhost:10000'', gn_connection = None\<rparr>) =
       serve (cas_world (only_from 2 (error 0))) concat"
    by (simp_all add: direct_network_def)
  show "go_Get Map.empty ''AUTH_API_USER_KEY'' (cc_configuration one_seed) = Some (''123'', [''AUTH_API_USER_KEY'' \<mapsto> ''123''])"
    by (simp add: go_Get_def one_seed_def DEFAULT_CONFIGURATION_def)
  show "length ''123'' < 64" by simp
  show "conf_authUserKey (node_conf partitioned) = ''123''" by (simp add: partitioned_def alone_def sample_settings_def)
  show "\<forall>xs. mset (id xs) = mset xs" by simp
qed

theorem manager_panics_without_partitions_witness:
  "\<exists>bs. serialize_config (one_config\<lparr>gc_ringEntries := []\<rparr>) = Some bs \<and>
     clusterConfigResponseToJSON (\<lambda>n. 1) id \<lparr>go_ErrorCode = 0, go_Success = True, go_ResponseBody = bs\<rparr> = None"
proof -
  obtain bs where bs: "serialize_config (one_config\<lparr>gc_ringEntries := []\<rparr>) = Some bs" by (simp add: serialize_config_bytes)
  then have "clusterConfigResponseToJSON (\<lambda>n. 1) id \<lparr>go_ErrorCode = 0, go_Success = True, go_ResponseBody = bs\<rparr> = None"
    by (intro manager_panics_without_partitions [of "one_config\<lparr>gc_ringEntries := []\<rparr>"])
      (simp_all add: one_config_def getSerializedBytesSize_def)
  then show ?thesis using bs by blast
qed

end
