(* ===== verification/Spec2Isabelle.thy ===== *)
theory Spec2Isabelle
  imports Lamport_Clock Byte_Codec Messages Counters Db_Map Oplog Ring Cluster Cas Connection Worker_Pool Mem_Db Cluster_Manager
begin

text \<open>
  A verification development of MemDB: a replicated key-value store in memory with an operation log on disk, written in C++
  (\<^verbatim>\<open>src/core/src\<close>), its Java client (\<^verbatim>\<open>src/client/MemDB-Java-Client\<close>) and its cluster manager in Go
  (\<^verbatim>\<open>src/clustermanager\<close>). Paths below are relative to \<^verbatim>\<open>src/core/src\<close> unless they start with \<^verbatim>\<open>client\<close> or
  \<^verbatim>\<open>clustermanager\<close>.

  \<^bold>\<open>How the parts interact.\<close> A packet arrives on a connection, is checked against the keys of the node and becomes a
  request. The dispatcher looks up the operator, decides whether the state of the node and the partition of the key allow it,
  and executes it: an operator reads or writes the map of a partition with the Lamport clock of the node, its write is added
  to the operation log and broadcast to the other nodes of the partition. The log is buffered, then compacted, compressed and
  written as segments with an index. At its start a node applies the log on its disk and what the others wrote since. A
  configuration of the cluster with a ring of nodes says who holds which partition.

  \<^bold>\<open>Conventions.\<close> Machine integers are words of their width, but for the following, which are numbers: the 64-bit
  slots of a counter, where an addition that leaves 64 bits has no result; the 16-bit heights of tree nodes, which do not exceed 64;
  the counts of a lock and of a queue; and positions in a buffer, whose bounds a property states where they matter. The state of a component is a record with the fields of the
  class, an operation a function that returns the new state. \<^term>\<open>None\<close> is what does not return a value in the source: an
  exception that is not handled, undefined behaviour, a panic, or a loop that does not end; errors the source handles are
  values of a sum or an option inside. Loops that may not end are \<^theory_text>\<open>partial_function (option)\<close>; where a property says that
  such a loop returns, it states the value, so that no fuel is used anywhere. Code of other projects is an argument: the
  undefined cases of shifts and of the conversion of a double, MD5, the compression of snappy, the order of unordered
  containers, the bytes behind a key without a terminator, the random generator, the file system's failures, sockets and the network.
  What a property needs of them is a named hypothesis, and its witness instantiates the argument with a function for which
  the hypothesis holds. Of a socket only the documented bound is assumed, that it takes or returns at most what it is given; a
  property about an exchange names the outcome of its writes and reads for which it holds.

  \<^bold>\<open>Basics.\<close>
  \<^item> \<^theory_text>\<open>Memdb_Prelude\<close>: machine types (\<^verbatim>\<open>memdbtypes.h\<close>), collections of rewrite rules, lemmas on words, lists and options.
  \<^item> \<^theory_text>\<open>Lamport_Clock\<close>: \<^verbatim>\<open>utils/clock/LamportClock\<close>; the order of clocks as an instance of \<^theory_text>\<open>linorder\<close>, and the
    compare-and-swap loops of several threads as a step relation in which no two ticks agree.
  \<^item> \<^theory_text>\<open>Byte_Codec\<close>: \<^verbatim>\<open>utils/Utils\<close>, \<^verbatim>\<open>utils/strings/SimpleString.h\<close>, \<^verbatim>\<open>utils/crypto/HashCalculator\<close>; numbers to bytes and
    back, with the range of timestamps for which reading inverts writing.
  \<^item> \<^theory_text>\<open>Messages\<close>: \<^verbatim>\<open>messages\<close>; builders, serialisers and deserialisers of requests and responses, with their round trips.
  \<^item> \<^theory_text>\<open>Ordered_Map\<close>: \<^verbatim>\<open>std::map\<close> in the locale \<^theory_text>\<open>key_order\<close>.
  \<^item> \<^theory_text>\<open>Blocking_Queue\<close>, \<^theory_text>\<open>Worker_Pool\<close>: \<^verbatim>\<open>utils/datastructures/queue/BlockingQueue.h\<close> as linked nodes that meet the locale
    \<^theory_text>\<open>fifo_queue\<close>, and \<^verbatim>\<open>utils/threads/pool\<close> as interleaved steps of callers and polling threads: tasks run in order, a
    stopped worker drains its queue, and a submitted task reaches a worker.
  \<^item> \<^theory_text>\<open>Files\<close>: \<^verbatim>\<open>utils/files/FileUtils\<close> and \<^verbatim>\<open>utils/compression\<close> on a map from paths to contents.

  \<^bold>\<open>The store.\<close>
  \<^item> \<^theory_text>\<open>Counters\<close>: \<^verbatim>\<open>db/counters\<close>; replication raises registers to a maximum (locale \<^theory_text>\<open>max_registers\<close>), so that
    replicas that saw the same updates in any order agree; an increment moves the count by one while the sums fit 64 bits.
  \<^item> \<^theory_text>\<open>Avl_Heap\<close>, \<^theory_text>\<open>Avl_Shape\<close>, \<^theory_text>\<open>Avl_Insert\<close>, \<^theory_text>\<open>Avl_Ops\<close>: \<^verbatim>\<open>db/AVLTree.h\<close> as nodes with pointers; the tree a heap
    represents; insertion keeps order, balance and stored heights and refines a map in which the last writer wins; heights fit
    their 16 bits; traversal; what the deletion of an inner node loses.
  \<^item> \<^theory_text>\<open>Shared_Lock\<close>: \<^verbatim>\<open>utils/threads/SharedLock\<close> as a step relation over threads with program counters; writers exclude all
    others.
  \<^item> \<^theory_text>\<open>Db_Map\<close>: \<^verbatim>\<open>db/Map.h\<close> and \<^verbatim>\<open>db/MemDbStores\<close>; the locale \<^theory_text>\<open>lww_store\<close> with the convergence of replicas,
    interpreted on the map; iteration over the buckets.

  \<^bold>\<open>The operation log.\<close>
  \<^item> \<^theory_text>\<open>Oplog_Codec\<close>, \<^theory_text>\<open>Compaction\<close>, \<^theory_text>\<open>Segments\<close>, \<^theory_text>\<open>Oplog\<close>: \<^verbatim>\<open>persistence\<close>; the format of records, compaction by one thread
    or a tree of blocks (locale \<^theory_text>\<open>compaction\<close>: for keys that end in a zero byte the last write of every key is kept, and both ways
    agree), segments that can be read after they were written, the search for a timestamp, and the iterator that visits every part once.

  \<^bold>\<open>The cluster.\<close>
  \<^item> \<^theory_text>\<open>Ring\<close>: \<^verbatim>\<open>cluster/partitions\<close>; every position has one owner, and distances and neighbours follow the ring.
  \<^item> \<^theory_text>\<open>Config\<close>: \<^verbatim>\<open>config\<close>. \<^theory_text>\<open>Cluster_Nodes\<close>: \<^verbatim>\<open>cluster/othernodes\<close> and \<^verbatim>\<open>cluster/hints\<close>; a broadcast with a quorum has
    the answers of a majority. \<^theory_text>\<open>Cluster\<close>: \<^verbatim>\<open>cluster/Cluster\<close>, \<^verbatim>\<open>cluster/setup\<close> and the exchange of the configuration.
  \<^item> \<^theory_text>\<open>Change_Handlers\<close>: \<^verbatim>\<open>cluster/changehandler\<close>. \<^theory_text>\<open>Sync_Receiver\<close>: the receiving side of \<^verbatim>\<open>operators/operations/syncoplog\<close>.

  \<^bold>\<open>Operators and dispatcher.\<close>
  \<^item> \<^theory_text>\<open>Operators\<close>, \<^theory_text>\<open>Cas\<close>, \<^theory_text>\<open>Node_Operators\<close>: \<^verbatim>\<open>operators/operations\<close>; every operator on the record of a node. In \<^theory_text>\<open>Cas\<close> an
    acceptor accepts a proposal at most once, and two compare-and-sets may still replace the same version.
  \<^item> \<^theory_text>\<open>Dispatcher\<close>, \<^theory_text>\<open>Dispatch_Props\<close>: \<^verbatim>\<open>operators/OperatorDispatcher\<close>, \<^verbatim>\<open>auth\<close>; the stores of a node stay well formed, and
    a client of a node that works alone reads what it wrote.
  \<^item> \<^theory_text>\<open>Connection\<close>, \<^theory_text>\<open>Server\<close>: \<^verbatim>\<open>server\<close>, \<^verbatim>\<open>cluster/Node\<close>; packets that a socket reports as written arrive whole and in order
    unless their size is a multiple of 1024, a request of one node is answered by another over the wire, and only authorised
    packets change a node. An asynchronous write is the buffers handed to the socket; the code lets them go out of scope, so
    that the arrival of a response is a condition of the properties.
  \<^item> \<^theory_text>\<open>Mem_Db\<close>: \<^verbatim>\<open>MemDb.cpp\<close>; a restart recovers the last writes of a readable log of SET operations whose intermediate
    file is not empty; with an empty one it restores nothing.

  \<^bold>\<open>The clients.\<close>
  \<^item> \<^theory_text>\<open>Client_Protocol\<close>: the messages and calls of the Java client (\<^verbatim>\<open>client/.../es/memdb\<close>) and the messages of the cluster
    manager (\<^verbatim>\<open>clustermanager/src/nodes/messages\<close>), both interpretations of the locale \<^theory_text>\<open>request_client\<close>, which says that a
    node reads from a packet what the client meant; a Java client reads its own write.
  \<^item> \<^theory_text>\<open>Cluster_Manager\<close>: \<^verbatim>\<open>clustermanager/src\<close>; the endpoint for the configuration shows the cluster as its seed node knows it,
    and panics when partitions are not used.

  \<^bold>\<open>Bounds.\<close> Timestamps below \<open>2 ^ 31\<close>: above, \<^verbatim>\<open>Utils::parseFromBuffer\<close> shifts an \<^verbatim>\<open>int\<close> beyond its width. Values
  of at most 127 bytes for the Java client, which takes the last byte of a length for a signed number. Keys of clients of less
  than 64 bytes, the width of their length field. Packets whose size is no multiple of 1024, and less than 1024 where a client reads them, since the clients refuse
  fragments. Records of the log of less than 256 bytes. Keys that end with their only zero byte where keys are compared with
  \<^verbatim>\<open>strcmp\<close>, which reads on behind other keys. One thread up to \<open>2 ^ 30\<close> for the compaction. A configuration of less than
  \<open>2 ^ 31\<close> bytes, the range of the \<^verbatim>\<open>int\<close> with which it is read. Thread pools of up to \<open>2 ^ 30\<close>
  threads, since the number is rounded up to a power of two in 32 bits.

  \<^bold>\<open>Not modelled.\<close> The event loop and the acceptance of connections of boost::asio, name resolution, logging, benchmarks and
  the randomised timer, which hold no state of the store; \<^verbatim>\<open>MemDbCreator\<close> and \<^verbatim>\<open>main\<close>, which hand the parts to one
  another; \<^verbatim>\<open>Result.h\<close>, a sum type in the model; \<^verbatim>\<open>BufferOneConsumer.h\<close>, which nothing uses. The threads with which a
  starting node synchronises several partitions at once are not interleaved: the task of one of them is modelled. Threads
  of different requests are interleaved only for the clock, the lock and the workers; operators run as one step on the node,
  as the lock of a bucket and the mutex of a round make them. Of the clients, the cluster mode of the Java library (the ring,
  quorum reads and the selection of nodes), the opening of its sockets, and the HTTP library, tokens and resolver behind the
  cluster manager are left out, as are the tests and the deployment files of the repository.
\<close>

end
